(* ===== verification/Prelude.thy ===== *)
theory Prelude
  imports Main "HOL-Library.Word"
begin

text \<open>
  Vocabulary shared by every component: the machine types, the results of operations that
  may abort the process, and the generic facts on lists, finite sets and machine words.
\<close>

unbundle bit_operations_syntax

section \<open>Machine types\<close>

text \<open>\<open>std::size_t\<close>, \<open>std::uintptr_t\<close> and \<open>std::uint64_t\<close> are all 64 bits on the only
  platform the runtime supports (x86-64).  Pointers are addresses; \<open>nullptr\<close> is \<open>0\<close>.\<close>

type_synonym u64 = "64 word"
type_synonym addr = "64 word"

section \<open>Results of operations that may abort\<close>

text \<open>\<open>runtimeAbort\<close> does not return: an operation that may call it returns \<open>Inl\<close> with the
  reason, or \<open>Inr\<close> with its result.  \<open>bindE\<close> is sequencing.\<close>

definition bindE :: "'e + 'a \<Rightarrow> ('a \<Rightarrow> 'e + 'b) \<Rightarrow> 'e + 'b" where
  "bindE m f = (case m of Inl e \<Rightarrow> Inl e | Inr x \<Rightarrow> f x)"

lemma bindE_simps [simp]:
  "bindE (Inl e) f = Inl e"
  "bindE (Inr x) f = f x"
  by (simp_all add: bindE_def)

lemma bindE_eq_Inr: "bindE m f = Inr y \<longleftrightarrow> (\<exists>x. m = Inr x \<and> f x = Inr y)"
  by (cases m) simp_all

lemma bindE_eq_Inl: "bindE m f = Inl e \<longleftrightarrow> m = Inl e \<or> (\<exists>x. m = Inr x \<and> f x = Inl e)"
  by (cases m) simp_all

section \<open>Collections of facts\<close>

named_theorems machine_simps \<open>the machine arithmetic, read on natural numbers\<close>
named_theorems frame_simps \<open>what an operation leaves unchanged\<close>

section \<open>Words\<close>

lemma unat_lt_2_64 [simp]: "unat (x :: u64) < 2 ^ 64"
  using unsigned_less [of x] by simp

lemma unat_lt_2_64_numeral [simp]: "unat (x :: u64) < 18446744073709551616"
  using unat_lt_2_64 [of x] by simp

lemma unat_le_max [simp]: "unat (x :: u64) \<le> 18446744073709551615"
  using unat_lt_2_64_numeral [of x] by linarith

lemma u64_eq_iff: "(x :: u64) = y \<longleftrightarrow> unat x = unat y"
  by (simp add: word_unat_eq_iff)

lemma unat_plus_u64:
  "unat (x :: u64) + unat y < 18446744073709551616 \<Longrightarrow> unat (x + y) = unat x + unat y"
  by (simp add: unat_add_lem [symmetric])

lemma unat_minus_u64: "unat (y :: u64) \<le> unat x \<Longrightarrow> unat (x - y) = unat x - unat y"
  by (simp add: unat_sub word_le_nat_alt)

lemma unat_mult_u64:
  "unat (x :: u64) * unat y < 18446744073709551616 \<Longrightarrow> unat (x * y) = unat x * unat y"
  by (simp add: unat_mult_lem [symmetric])

lemma unat_of_nat_u64: "n < 18446744073709551616 \<Longrightarrow> unat (of_nat n :: u64) = n"
  by (simp add: unat_of_nat take_bit_nat_eq_self)

section \<open>Lists\<close>

lemma remove1_filter_neq: "distinct xs \<Longrightarrow> remove1 x xs = filter (\<lambda>y. y \<noteq> x) xs"
  by (induction xs) (auto intro!: filter_True [symmetric])

lemma in_set_butlast_or_last: "x \<in> set xs \<Longrightarrow> x = last xs \<or> x \<in> set (butlast xs)"
  by (induction xs) auto

end
