(* ===== verification/Machine_Arith.thy ===== *)
theory Machine_Arith
  imports Prelude
begin

text \<open>
  The arithmetic helpers at the top of \<open>src/src/mvm/runtime_memory.cc\<close>: overflow-checked
  addition and multiplication, power-of-two test, rounding up to an alignment, the 4096-byte
  page of an address and the last byte of a payload.  Each is translated on 64-bit words, where
  \<open>+\<close>, \<open>-\<close> and \<open>*\<close> wrap as in C++, and then read on the natural numbers.
\<close>

section \<open>Definitions\<close>

definition defaultAlignment :: u64 where
  "defaultAlignment = 16"

definition kAllocationPageShift :: nat where
  "kAllocationPageShift = 12"

definition kAllocationPageBytes :: u64 where
  "kAllocationPageBytes = push_bit kAllocationPageShift 1"

definition isPowerOfTwo :: "u64 \<Rightarrow> bool" where
  "isPowerOfTwo v \<longleftrightarrow> v \<noteq> 0 \<and> v AND (v - 1) = 0"

text \<open>An out-parameter that is set only on success is an \<open>option\<close>.  The numeric limit of
  \<open>std::size_t\<close> is the word \<open>-1\<close>.\<close>

definition toSize :: "u64 \<Rightarrow> u64 option" where
  "toSize v = (if v > - 1 then None else Some v)"

definition checkedAdd :: "u64 \<Rightarrow> u64 \<Rightarrow> u64 option" where
  "checkedAdd lhs rhs = (if lhs > - 1 - rhs then None else Some (lhs + rhs))"

definition checkedMul :: "u64 \<Rightarrow> u64 \<Rightarrow> u64 option" where
  "checkedMul lhs rhs = (if lhs \<noteq> 0 \<and> rhs > (- 1) div lhs then None else Some (lhs * rhs))"

definition alignUp :: "u64 \<Rightarrow> u64 \<Rightarrow> u64" where
  "alignUp v a = (v + (a - 1)) AND NOT (a - 1)"

definition allocationPageForAddress :: "addr \<Rightarrow> u64" where
  "allocationPageForAddress a = drop_bit kAllocationPageShift a"

definition allocationLastAddress :: "addr \<Rightarrow> u64 \<Rightarrow> addr" where
  "allocationLastAddress p n = (let offset = n - 1 in if p > - 1 - offset then - 1 else p + offset)"

section \<open>Checked addition and multiplication\<close>

lemma unat_minus_one_minus [machine_simps]: "unat (- 1 - (x :: u64)) = 18446744073709551615 - unat x"
proof -
  have "x \<le> - 1" by (rule word_order.extremum)
  then show ?thesis by (subst unat_sub) (simp_all add: unsigned_minus_1_eq_mask mask_eq_exp_minus_1)
qed

lemma unat_minus_one [machine_simps]: "unat (- 1 :: u64) = 18446744073709551615"
  using unat_minus_one_minus [of 0] by simp

lemma toSize_total [simp]: "toSize v = Some v"
  by (simp add: toSize_def word_less_nat_alt unat_minus_one not_less)

lemma checkedAdd_Some:
  "checkedAdd a b = Some c \<longleftrightarrow> unat a + unat b < 18446744073709551616 \<and> unat c = unat a + unat b"
proof -
  have "(a > - 1 - b) \<longleftrightarrow> \<not> unat a + unat b < 18446744073709551616"
    using unat_le_max [of b] by (simp only: word_less_nat_alt unat_minus_one_minus) linarith
  then show ?thesis
    using unat_plus_u64 [of a b] by (auto simp: checkedAdd_def u64_eq_iff)
qed

lemma checkedAdd_None: "checkedAdd a b = None \<longleftrightarrow> 18446744073709551616 \<le> unat a + unat b"
  using checkedAdd_Some [of a b "a + b"] unat_plus_u64 [of a b]
  by (auto simp: checkedAdd_def split: if_splits)

lemma checkedMul_Some:
  "checkedMul a b = Some c \<longleftrightarrow> unat a * unat b < 18446744073709551616 \<and> unat c = unat a * unat b"
proof (cases "a = 0")
  case True
  then have "a * b = 0" and "unat a = 0" by simp_all
  with True show ?thesis by (auto simp: checkedMul_def u64_eq_iff)
next
  case False
  then have pos: "0 < unat a" by (simp add: unat_gt_0)
  have "(b > (- 1) div a) \<longleftrightarrow> 18446744073709551615 div unat a < unat b"
    by (simp add: word_less_nat_alt unat_div unat_minus_one)
  also have "\<dots> \<longleftrightarrow> 18446744073709551615 < unat b * unat a"
    using pos by (rule div_less_iff_less_mult)
  finally have "(b > (- 1) div a) \<longleftrightarrow> \<not> unat a * unat b < 18446744073709551616"
    by (simp add: mult.commute) linarith
  then show ?thesis
    using False unat_mult_u64 [of a b] by (auto simp: checkedMul_def u64_eq_iff)
qed

lemma checkedMul_None: "checkedMul a b = None \<longleftrightarrow> 18446744073709551616 \<le> unat a * unat b"
  using checkedMul_Some [of a b "a * b"] unat_mult_u64 [of a b]
  by (auto simp: checkedMul_def split: if_splits)

section \<open>Powers of two\<close>

lemma and_minus_one_bits:
  "isPowerOfTwo v \<Longrightarrow> \<exists>n < 64. v = 2 ^ n"
proof -
  assume p: "isPowerOfTwo v"
  define n where "n = (LEAST i. bit v i)"
  from p have "v \<noteq> 0" by (simp add: isPowerOfTwo_def)
  then obtain i where "bit v i" by (metis bit_eqI bit_0_eq bot_apply bot_bool_def)
  then have bn: "bit v n" unfolding n_def by (rule LeastI)
  have low: "\<not> bit v j" if "j < n" for j
    using not_less_Least [of j "bit v"] that by (simp add: n_def)
  from bn have n64: "n < 64" using bit_imp_le_length [of v n] by simp
  define w where "w = v - 2 ^ n"
  have dis: "v = w + 2 ^ n" by (simp add: w_def)
  have w_eq: "w = v AND NOT (2 ^ n)"
  proof -
    have "v - 2 ^ n = v AND NOT (2 ^ n)"
      by (rule disjunctive_diff) (use bn in \<open>auto simp: bit_exp_iff\<close>)
    then show ?thesis by (simp add: w_def)
  qed
  have "v - 1 = w + (2 ^ n - 1)" by (simp add: dis)
  also have "\<dots> = w OR (2 ^ n - 1)"
    by (rule disjunctive_add)
      (use low in \<open>auto simp: w_eq bit_and_iff mask_eq_exp_minus_1 [symmetric] bit_mask_iff\<close>)
  finally have m: "v - 1 = w OR mask n" by (simp add: mask_eq_exp_minus_1)
  have "w = 0"
  proof (rule bit_eqI)
    fix j
    have "\<not> (bit v j \<and> bit (v - 1) j)"
      using p by (metis isPowerOfTwo_def bit_and_iff bit_0_eq bot_apply bot_bool_def)
    then show "bit w j \<longleftrightarrow> bit 0 j"
      by (auto simp: m bit_or_iff) (auto simp: w_eq bit_and_iff)
  qed
  then have "v = 2 ^ n" by (simp add: dis)
  with n64 show ?thesis by blast
qed

lemma isPowerOfTwo_exp: "n < 64 \<Longrightarrow> isPowerOfTwo (2 ^ n)"
proof -
  assume n: "n < 64"
  have "(2 ^ n :: u64) AND mask n = 0"
    by (rule bit_eqI) (auto simp: bit_and_iff bit_exp_iff bit_mask_iff)
  moreover have "(2 ^ n :: u64) \<noteq> 0" using n by (simp add: exp_eq_0_imp_not_bit)
  ultimately show ?thesis by (simp add: isPowerOfTwo_def mask_eq_exp_minus_1)
qed

lemma isPowerOfTwo_iff: "isPowerOfTwo v \<longleftrightarrow> (\<exists>n < 64. v = 2 ^ n)"
  using and_minus_one_bits isPowerOfTwo_exp by blast

section \<open>Rounding up\<close>

lemma unat_exp_u64: "n < 64 \<Longrightarrow> unat (2 ^ n :: u64) = 2 ^ n"
  using unat_of_nat_u64 [of "2 ^ n"] power_strict_increasing [of n 64 "2::nat"] by simp

lemma and_not_mask_u64: "(x :: u64) AND NOT (mask n) = x - take_bit n x"
proof -
  have "x - take_bit n x = x AND NOT (take_bit n x)"
    by (rule disjunctive_diff) (auto simp: bit_take_bit_iff)
  also have "\<dots> = x AND NOT (mask n)"
    by (rule bit_eqI) (auto simp: bit_and_iff bit_not_iff bit_take_bit_iff bit_mask_iff)
  finally show ?thesis by simp
qed

lemma unat_and_not_mask: "unat ((x :: u64) AND NOT (mask n)) = unat x div 2 ^ n * 2 ^ n"
proof -
  have t: "unat (take_bit n x) = unat x mod 2 ^ n"
    by (metis unsigned_take_bit_eq take_bit_eq_mod)
  then have "unat (take_bit n x) \<le> unat x" by simp
  then have "unat (x - take_bit n x) = unat x - unat x mod 2 ^ n"
    by (simp add: unat_minus_u64 t)
  then show ?thesis by (simp add: and_not_mask_u64 minus_mod_eq_div_mult)
qed

lemma unat_alignUp:
  assumes "isPowerOfTwo a" and "unat v + (unat a - 1) < 18446744073709551616"
  shows "unat (alignUp v a) = (unat v + (unat a - 1)) div unat a * unat a"
proof -
  from assms(1) obtain n where n: "n < 64" and a: "a = 2 ^ n" by (auto simp: isPowerOfTwo_iff)
  have ua: "unat a = 2 ^ n" using n by (simp add: a unat_exp_u64)
  have one: "unat (1 :: u64) \<le> unat a" by (simp add: ua)
  have sub: "unat (a - 1) = unat a - 1" using unat_minus_u64 [OF one] by simp
  have "unat (v + (a - 1)) = unat v + (unat a - 1)"
    using assms(2) by (simp add: unat_plus_u64 sub)
  moreover have "alignUp v a = (v + (a - 1)) AND NOT (mask n)"
    by (simp add: alignUp_def a mask_eq_exp_minus_1)
  ultimately show ?thesis by (simp only: unat_and_not_mask ua)
qed

lemma alignUp_bounds:
  assumes "isPowerOfTwo a" and "unat v + (unat a - 1) < 18446744073709551616"
  shows "unat a dvd unat (alignUp v a)"
    and "unat v \<le> unat (alignUp v a)"
    and "unat (alignUp v a) \<le> unat v + (unat a - 1)"
proof -
  have pos: "0 < unat a" using assms(1) by (simp add: isPowerOfTwo_def unat_gt_0)
  note eq = unat_alignUp [OF assms]
  show "unat a dvd unat (alignUp v a)" by (simp add: eq)
  show "unat (alignUp v a) \<le> unat v + (unat a - 1)" by (simp add: eq)
  have "unat v + (unat a - 1) = (unat v + (unat a - 1)) div unat a * unat a + (unat v + (unat a - 1)) mod unat a"
    by simp
  moreover have "(unat v + (unat a - 1)) mod unat a \<le> unat a - 1"
    using pos mod_less_divisor [OF pos, of "unat v + (unat a - 1)"] by linarith
  ultimately show "unat v \<le> unat (alignUp v a)" unfolding eq by linarith
qed

lemma alignUp_least:
  assumes "isPowerOfTwo a" and "unat v + (unat a - 1) < 18446744073709551616"
    and "unat a dvd m" and "unat v \<le> m"
  shows "unat (alignUp v a) \<le> m"
proof -
  have pos: "0 < unat a" using assms(1) by (simp add: isPowerOfTwo_def unat_gt_0)
  from assms(3) obtain k where m: "m = k * unat a" by (metis dvd_def mult.commute)
  have "(unat v + (unat a - 1)) div unat a \<le> (k * unat a + (unat a - 1)) div unat a"
    using assms(4) by (intro div_le_mono) (simp add: m)
  also have "\<dots> = k" using pos by (intro div_nat_eqI) (simp_all add: algebra_simps)
  finally show ?thesis unfolding unat_alignUp [OF assms(1,2)] m by (rule mult_le_mono1)
qed

section \<open>Pages and payload ends\<close>

lemma unat_page [machine_simps]: "unat (allocationPageForAddress a) = unat a div 4096"
  using unat_drop_bit_eq [of 12 a]
  by (simp add: allocationPageForAddress_def kAllocationPageShift_def drop_bit_eq_div unat_div)

lemma page_lt: "unat (allocationPageForAddress a) < 4503599627370496"
  using less_mult_imp_div_less [of "unat a" 4503599627370496 4096] by (simp add: unat_page)

lemma unat_kAllocationPageBytes [machine_simps]: "unat kAllocationPageBytes = 4096"
  by (simp add: kAllocationPageBytes_def kAllocationPageShift_def push_bit_eq_mult)

lemma unat_lastAddress:
  assumes "n \<noteq> 0"
  shows "unat (allocationLastAddress p n) = min 18446744073709551615 (unat p + (unat n - 1))"
proof -
  have "unat (1 :: u64) \<le> unat n" using assms by (simp add: unat_gt_0 Suc_le_eq)
  then have off: "unat (n - 1) = unat n - 1" by (simp add: unat_minus_u64)
  have "(p > - 1 - (n - 1)) \<longleftrightarrow> 18446744073709551615 < unat p + (unat n - 1)"
    using unat_le_max [of "n - 1"]
    by (simp only: word_less_nat_alt unat_minus_one_minus off) linarith
  then show ?thesis
    by (auto simp: allocationLastAddress_def Let_def unat_minus_one unat_plus_u64 off min_def)
qed

end
