(* ===== verification/Intrusive_List.thy ===== *)
theory Intrusive_List
  imports Prelude
begin

text \<open>
  Intrusive linked lists.  The runtime threads two doubly linked lists through its own records
  (the active allocations of \<open>runtime_memory.cc\<close> through \<open>AllocationHeader::prev/next\<close>, the
  pages with room of a slab class through \<open>SlabPage::prevNonFull/nextNonFull\<close>) and one singly
  linked list (the free slots of a page, again through \<open>AllocationHeader::next\<close>).  Here the
  pointer fields are two functions on addresses, so that both lists share the pointer surgery;
  the locale states what a client of either list relies on.
\<close>

section \<open>Chains\<close>

primrec dll_from :: "(addr \<Rightarrow> addr) \<Rightarrow> (addr \<Rightarrow> addr) \<Rightarrow> addr \<Rightarrow> addr \<Rightarrow> addr list \<Rightarrow> bool" where
  "dll_from nx pv p c [] \<longleftrightarrow> c = 0"
| "dll_from nx pv p c (x # xs) \<longleftrightarrow> c = x \<and> x \<noteq> 0 \<and> pv x = p \<and> dll_from nx pv x (nx x) xs"

definition dll :: "(addr \<Rightarrow> addr) \<Rightarrow> (addr \<Rightarrow> addr) \<Rightarrow> addr \<Rightarrow> addr list \<Rightarrow> bool" where
  "dll nx pv head xs \<longleftrightarrow> distinct xs \<and> dll_from nx pv 0 head xs"

primrec sll :: "(addr \<Rightarrow> addr) \<Rightarrow> addr \<Rightarrow> addr list \<Rightarrow> bool" where
  "sll nx c [] \<longleftrightarrow> c = 0"
| "sll nx c (x # xs) \<longleftrightarrow> c = x \<and> x \<noteq> 0 \<and> sll nx (nx x) xs"

lemma dll_from_cong:
  "\<lbrakk>\<And>x. x \<in> set xs \<Longrightarrow> nx x = nx' x \<and> pv x = pv' x\<rbrakk> \<Longrightarrow>
    dll_from nx pv p c xs \<longleftrightarrow> dll_from nx' pv' p c xs"
  by (induction xs arbitrary: p c) auto

lemma sll_cong:
  "\<lbrakk>\<And>x. x \<in> set xs \<Longrightarrow> nx x = nx' x\<rbrakk> \<Longrightarrow> sll nx c xs \<longleftrightarrow> sll nx' c xs"
  by (induction xs arbitrary: c) auto

lemma dll_from_nonnull: "dll_from nx pv p c xs \<Longrightarrow> 0 \<notin> set xs"
  by (induction xs arbitrary: p c) auto

lemma sll_nonnull: "sll nx c xs \<Longrightarrow> 0 \<notin> set xs"
  by (induction xs arbitrary: c) auto

lemma dll_from_unique: "dll_from nx pv p c xs \<Longrightarrow> dll_from nx pv q c ys \<Longrightarrow> xs = ys"
proof (induction xs arbitrary: p q c ys)
  case Nil
  then show ?case by (cases ys) auto
next
  case (Cons x xs)
  then show ?case by (cases ys) auto
qed

lemma sll_unique: "sll nx c xs \<Longrightarrow> sll nx c ys \<Longrightarrow> xs = ys"
proof (induction xs arbitrary: c ys)
  case Nil
  then show ?case by (cases ys) auto
next
  case (Cons x xs)
  then show ?case by (cases ys) auto
qed

lemma dll_from_next_in: "dll_from nx pv p c xs \<Longrightarrow> x \<in> set xs \<Longrightarrow> nx x = 0 \<or> nx x \<in> set xs"
proof (induction xs arbitrary: p c)
  case Nil
  then show ?case by simp
next
  case (Cons y ys)
  then show ?case by (cases ys) auto
qed

lemma dll_from_prev_in: "dll_from nx pv p c xs \<Longrightarrow> x \<in> set xs \<Longrightarrow> pv x = p \<or> pv x \<in> set xs"
  by (induction xs arbitrary: p c) auto

lemma dll_from_prev_hd:
  "dll_from nx pv p c xs \<Longrightarrow> x \<in> set xs \<Longrightarrow> p \<notin> set xs \<Longrightarrow> distinct xs \<Longrightarrow> pv x = p \<longleftrightarrow> c = x"
proof (cases xs)
  case (Cons y ys)
  assume "dll_from nx pv p c xs" "x \<in> set xs" "p \<notin> set xs" "distinct xs"
  moreover from this have "x \<in> set ys \<Longrightarrow> pv x = y \<or> pv x \<in> set ys"
    using Cons by (auto dest: dll_from_prev_in)
  ultimately show ?thesis using Cons by auto
qed simp

section \<open>Removing and adding an element\<close>

text \<open>What the pointer fields are after the code has removed \<open>x\<close>: its neighbours point at each
  other and its own fields are cleared.\<close>

definition unlink_next :: "(addr \<Rightarrow> addr) \<Rightarrow> (addr \<Rightarrow> addr) \<Rightarrow> addr \<Rightarrow> addr \<Rightarrow> addr" where
  "unlink_next nx pv x = (if pv x \<noteq> 0 then nx(pv x := nx x) else nx)(x := 0)"

definition unlink_prev :: "(addr \<Rightarrow> addr) \<Rightarrow> (addr \<Rightarrow> addr) \<Rightarrow> addr \<Rightarrow> addr \<Rightarrow> addr" where
  "unlink_prev nx pv x = (if nx x \<noteq> 0 then pv(nx x := pv x) else pv)(x := 0)"

lemma dll_from_unlink:
  "dll_from nx pv p c xs \<Longrightarrow> distinct xs \<Longrightarrow> p \<notin> set xs \<Longrightarrow> x \<in> set xs \<Longrightarrow>
    dll_from (unlink_next nx pv x) (unlink_prev nx pv x) p (if c = x then nx x else c) (remove1 x xs)"
proof (induction xs arbitrary: p c)
  case Nil
  then show ?case by simp
next
  case (Cons y ys)
  then have c: "c = y" "y \<noteq> 0" "pv y = p" and rest: "dll_from nx pv y (nx y) ys"
    and d: "distinct ys" "y \<notin> set ys" "p \<noteq> y" "p \<notin> set ys" by auto
  show ?case
  proof (cases "x = y")
    case True
    show ?thesis
    proof (cases ys)
      case Nil
      with rest True c show ?thesis by simp
    next
      case (Cons z zs)
      with rest d have z: "nx y = z" "z \<noteq> 0" "pv z = y" "dll_from nx pv z (nx z) zs"
        "z \<notin> set zs" by auto
      have "dll_from (unlink_next nx pv y) (unlink_prev nx pv y) z (nx z) zs"
        using z(4)
        by (rule dll_from_cong [THEN iffD1, rotated])
          (use z(1,5) d c Cons in \<open>auto simp: unlink_next_def unlink_prev_def\<close>)
      moreover have "unlink_next nx pv y z = nx z" and "unlink_prev nx pv y z = p"
        using c z d Cons by (auto simp: unlink_next_def unlink_prev_def)
      ultimately show ?thesis using True c z d Cons by auto
    qed
  next
    case False
    with Cons.prems have x: "x \<in> set ys" by simp
    have "nx x \<noteq> y" using dll_from_next_in [OF rest x] d c by auto
    moreover have "pv x = y \<longleftrightarrow> nx y = x" by (rule dll_from_prev_hd [OF rest x d(2,1)])
    ultimately show ?thesis
      using Cons.IH [OF rest d(1,2) x] False c
      by (auto simp: unlink_next_def unlink_prev_def split: if_splits)
  qed
qed

lemma dll_unlink:
  assumes "dll nx pv head xs" and "x \<in> set xs"
  shows "dll (unlink_next nx pv x) (unlink_prev nx pv x) (if head = x then nx x else head) (remove1 x xs)"
  using assms dll_from_unlink [of nx pv 0 head xs x] dll_from_nonnull [of nx pv 0 head xs]
  by (auto simp: dll_def)

lemma dll_unlink_head_iff:
  assumes "dll nx pv head xs" and "x \<in> set xs"
  shows "pv x = 0 \<longleftrightarrow> head = x"
  using assms dll_from_prev_hd [of nx pv 0 head xs x] dll_from_nonnull [of nx pv 0 head xs]
  by (auto simp: dll_def)

lemma dll_link:
  assumes "dll nx pv head xs" and "x \<notin> set xs" and "x \<noteq> 0"
  shows "dll (nx(x := head)) (if head \<noteq> 0 then (pv(x := 0))(head := x) else pv(x := 0)) x (x # xs)"
proof (cases xs)
  case Nil
  with assms show ?thesis by (auto simp: dll_def)
next
  case (Cons y ys)
  with assms have h: "head = y" "y \<noteq> 0" "y \<noteq> x" "y \<notin> set ys" "x \<notin> set ys"
    and r: "dll_from nx pv y (nx y) ys"
    by (auto simp: dll_def)
  have "dll_from (nx(x := y)) ((pv(x := 0))(y := x)) y (nx y) ys"
    using r by (rule dll_from_cong [THEN iffD1, rotated]) (use h in auto)
  with assms Cons h show ?thesis by (auto simp: dll_def)
qed

section \<open>The contract of an intrusive list\<close>

text \<open>
  \<open>chain s xs\<close>: in state \<open>s\<close> the list holds exactly the elements \<open>xs\<close>, front first.  The client
  links elements at the front and unlinks any element; \<open>linkable\<close> is the guard of the link.
\<close>

locale intrusive_list =
  fixes chain :: "'s \<Rightarrow> addr list \<Rightarrow> bool"
    and link :: "addr \<Rightarrow> 's \<Rightarrow> 's"
    and unlink :: "addr \<Rightarrow> 's \<Rightarrow> 's"
    and linkable :: "addr \<Rightarrow> 's \<Rightarrow> bool"
  assumes chain_distinct: "chain s xs \<Longrightarrow> distinct xs"
    and chain_nonnull: "chain s xs \<Longrightarrow> 0 \<notin> set xs"
    and chain_unique: "chain s xs \<Longrightarrow> chain s ys \<Longrightarrow> xs = ys"
    and chain_link: "chain s xs \<Longrightarrow> x \<notin> set xs \<Longrightarrow> x \<noteq> 0 \<Longrightarrow> linkable x s \<Longrightarrow> chain (link x s) (x # xs)"
    and chain_unlink: "chain s xs \<Longrightarrow> x \<in> set xs \<Longrightarrow> chain (unlink x s) (remove1 x xs)"
begin

lemma unlink_link:
  assumes "chain s xs" "x \<notin> set xs" "x \<noteq> 0" "linkable x s"
  shows "chain (unlink x (link x s)) xs"
  using chain_unlink [OF chain_link [OF assms], of x] by simp

lemma link_unlink_front:
  assumes "chain s xs" "x \<in> set xs" "linkable x (unlink x s)"
  shows "chain (link x (unlink x s)) (x # filter (\<lambda>y. y \<noteq> x) xs)"
proof -
  have "x \<noteq> 0" using assms chain_nonnull by metis
  moreover have "remove1 x xs = filter (\<lambda>y. y \<noteq> x) xs"
    by (rule remove1_filter_neq) (rule chain_distinct [OF assms(1)])
  ultimately show ?thesis
    using chain_link [OF chain_unlink [OF assms(1,2)], of x] assms(3) by simp
qed

lemma chain_unlink_all:
  assumes "chain s xs" "distinct ys" "set ys \<subseteq> set xs"
  shows "chain (fold unlink ys s) (filter (\<lambda>x. x \<notin> set ys) xs)"
  using assms
proof (induction ys arbitrary: s xs)
  case Nil
  then show ?case by simp
next
  case (Cons y ys)
  have ch: "chain (unlink y s) (filter (\<lambda>x. x \<noteq> y) xs)"
    using chain_unlink [OF Cons.prems(1), of y] Cons.prems(3)
      remove1_filter_neq [OF chain_distinct [OF Cons.prems(1)], of y] by simp
  have "set ys \<subseteq> set (filter (\<lambda>x. x \<noteq> y) xs)" using Cons.prems by auto
  then have "chain (fold unlink ys (unlink y s))
      (filter (\<lambda>x. x \<notin> set ys) (filter (\<lambda>x. x \<noteq> y) xs))"
    using Cons.prems(2) by (intro Cons.IH [OF ch]) simp_all
  then show ?case by (simp add: conj_commute)
qed

end

end
