(* ===== verification/Heap_Model.thy ===== *)
theory Heap_Model
  imports Machine_Arith Intrusive_List
begin

text \<open>
  The managed heap of \<open>src/src/mvm/runtime_memory.cc\<close>: its records, its global registry and the
  operations on them, from header initialisation to reclaiming one allocation.

  The C++ objects live in memory and are reached through pointers, so the state holds one store
  per type of record (\<open>hdrs\<close>, \<open>classes\<close>, \<open>pages\<close>), a total function from addresses, together
  with the file's global variables.  A store is total because a read through a valid address
  always yields some bits: what is read at an address where no record was built is arbitrary.
  The two libraries the file calls are arguments: \<open>std::malloc\<close> and the addresses \<open>new\<close>
  returns come with each operation (\<open>alloc_env\<close>), and the keys that \<open>llvm::DenseMap\<close> reserves are
  fields of the state.  \<open>mallocBlocks\<close> is the C library's own table of blocks handed out.

  Field names carry the initials of their C++ type (\<open>ah\<close>: \<open>AllocationHeader\<close>, \<open>sc\<close>:
  \<open>SlabClass\<close>, \<open>sp\<close>: \<open>SlabPage\<close>, \<open>td\<close>: \<open>GCTypeDescriptor\<close>).
\<close>

section \<open>Data\<close>

datatype AllocationKind = AObject | AArray

datatype AllocationStorageKind = SSystem | SSlab

record GCTypeDescriptor =
  td_abiVersion :: u64
  td_instanceSize :: u64
  td_instanceAlignment :: u64
  td_referenceSlotCount :: u64
  td_referenceSlotOffsets :: addr

record AllocationHeader =
  ah_magic :: u64
  ah_kind :: AllocationKind
  ah_storageKind :: AllocationStorageKind
  ah_elementCount :: u64
  ah_payloadSize :: u64
  ah_typeDescriptor :: addr
  ah_storageOwner :: addr
  ah_prev :: addr
  ah_next :: addr
  ah_marked :: bool
  ah_live :: bool

record SlabClass =
  sc_payloadSize :: u64
  sc_alignment :: u64
  sc_headerOffset :: u64
  sc_slotStride :: u64
  sc_slotsPerPage :: u64
  sc_nonFullPages :: addr

record SlabPage =
  sp_slabClass :: addr
  sp_allocationBase :: addr
  sp_pageStart :: addr
  sp_nextUnusedSlot :: u64
  sp_liveCount :: u64
  sp_freeList :: addr
  sp_prevNonFull :: addr
  sp_nextNonFull :: addr

definition kAllocationMagic :: u64 where
  "kAllocationMagic = 0x4D564D4152524159"

definition kManagedSlabPageBytes :: u64 where
  "kManagedSlabPageBytes = 64 * 1024"

definition kMaxSlabPayloadBytes :: u64 where
  "kMaxSlabPayloadBytes = 512"

definition kMaxSlabAlignment :: u64 where
  "kMaxSlabAlignment = 64"

text \<open>\<open>sizeof\<close> and \<open>alignof\<close> of \<open>AllocationHeader\<close>: nine 8-byte fields and two \<open>bool\<close>s, padded
  to a multiple of 8.\<close>

definition sizeofAllocationHeader :: u64 where
  "sizeofAllocationHeader = 80"

definition alignofAllocationHeader :: u64 where
  "alignofAllocationHeader = 8"

text \<open>The reasons a runtime operation ends the process.  \<open>InvalidFree\<close> is the C library's:
  \<open>std::free\<close> of an address that is no block is undefined behaviour.\<close>

datatype runtime_abort =
    NullManagedPointer string
  | NotManaged string
  | KindMismatch string AllocationKind
  | AllocationPageKeyCollision
  | SlabPageKeyCollision
  | InvalidLiveCount
  | UntypedAllocation string
  | IncompatibleDescriptor string
  | MissingAllocType string
  | InvalidFree addr

record heap =
  hdrs :: "addr \<Rightarrow> AllocationHeader"
  classes :: "addr \<Rightarrow> SlabClass"
  pages :: "addr \<Rightarrow> SlabPage"
  activeAllocationHead :: addr
  slabClassByKey :: "u64 \<rightharpoonup> addr"
  slabClassStorage :: "addr list"
  slabPageStorage :: "addr list"
  slabPagesByAddressPage :: "u64 \<rightharpoonup> addr"
  systemHeadersByPage :: "u64 \<rightharpoonup> addr list"
  mallocBlocks :: "addr \<rightharpoonup> u64"
  denseMapEmptyKey :: u64
  denseMapTombstoneKey :: u64

record alloc_env =
  env_malloc :: "u64 \<Rightarrow> addr"
  env_newClass :: addr
  env_newPage :: addr

definition updHdr :: "addr \<Rightarrow> (AllocationHeader \<Rightarrow> AllocationHeader) \<Rightarrow> heap \<Rightarrow> heap" where
  "updHdr a f st = st\<lparr>hdrs := (hdrs st)(a := f (hdrs st a))\<rparr>"

definition updClass :: "addr \<Rightarrow> (SlabClass \<Rightarrow> SlabClass) \<Rightarrow> heap \<Rightarrow> heap" where
  "updClass a f st = st\<lparr>classes := (classes st)(a := f (classes st a))\<rparr>"

definition updPage :: "addr \<Rightarrow> (SlabPage \<Rightarrow> SlabPage) \<Rightarrow> heap \<Rightarrow> heap" where
  "updPage a f st = st\<lparr>pages := (pages st)(a := f (pages st a))\<rparr>"

section \<open>The C library\<close>

definition c_malloc :: "(u64 \<Rightarrow> addr) \<Rightarrow> u64 \<Rightarrow> heap \<Rightarrow> addr \<times> heap" where
  "c_malloc f n st =
     (let a = f n in if a = 0 then (0, st) else (a, st\<lparr>mallocBlocks := (mallocBlocks st)(a \<mapsto> n)\<rparr>))"

definition c_free :: "addr \<Rightarrow> heap \<Rightarrow> runtime_abort + heap" where
  "c_free a st =
     (if a = 0 then Inr st
      else case mallocBlocks st a of
        None \<Rightarrow> Inl (InvalidFree a)
      | Some _ \<Rightarrow> Inr (st\<lparr>mallocBlocks := (mallocBlocks st)(a := None)\<rparr>))"

definition isReservedDenseMapKey :: "heap \<Rightarrow> u64 \<Rightarrow> bool" where
  "isReservedDenseMapKey st v \<longleftrightarrow> v = denseMapEmptyKey st \<or> v = denseMapTombstoneKey st"

section \<open>Headers and the list of active allocations\<close>

definition payloadAddress :: "addr \<Rightarrow> addr" where
  "payloadAddress header = header + sizeofAllocationHeader"

definition checkedHeader :: "heap \<Rightarrow> addr \<Rightarrow> string \<Rightarrow> AllocationKind option \<Rightarrow> runtime_abort + addr" where
  "checkedHeader st payload operation expectedKind =
     (if payload = 0 then Inl (NullManagedPointer operation)
      else let header = payload - sizeofAllocationHeader in
        if ah_magic (hdrs st header) \<noteq> kAllocationMagic \<or> \<not> ah_live (hdrs st header)
        then Inl (NotManaged operation)
        else case expectedKind of
            None \<Rightarrow> Inr header
          | Some k \<Rightarrow> if ah_kind (hdrs st header) \<noteq> k then Inl (KindMismatch operation k) else Inr header)"

definition linkActiveAllocation :: "addr \<Rightarrow> heap \<Rightarrow> heap" where
  "linkActiveAllocation header st =
     (let st = updHdr header (\<lambda>h. h\<lparr>ah_prev := 0\<rparr>) st;
          st = updHdr header (\<lambda>h. h\<lparr>ah_next := activeAllocationHead st\<rparr>) st;
          st = (if activeAllocationHead st \<noteq> 0
                then updHdr (activeAllocationHead st) (\<lambda>h. h\<lparr>ah_prev := header\<rparr>) st else st)
      in st\<lparr>activeAllocationHead := header\<rparr>)"

definition unlinkActiveAllocation :: "addr \<Rightarrow> heap \<Rightarrow> heap" where
  "unlinkActiveAllocation header st =
     (let st = (if ah_prev (hdrs st header) \<noteq> 0
                then updHdr (ah_prev (hdrs st header)) (\<lambda>h. h\<lparr>ah_next := ah_next (hdrs st header)\<rparr>) st
                else if activeAllocationHead st = header
                then st\<lparr>activeAllocationHead := ah_next (hdrs st header)\<rparr> else st);
          st = (if ah_next (hdrs st header) \<noteq> 0
                then updHdr (ah_next (hdrs st header)) (\<lambda>h. h\<lparr>ah_prev := ah_prev (hdrs st header)\<rparr>) st
                else st);
          st = updHdr header (\<lambda>h. h\<lparr>ah_prev := 0\<rparr>) st
      in updHdr header (\<lambda>h. h\<lparr>ah_next := 0\<rparr>) st)"

section \<open>The list of pages with room\<close>

definition slabPageHasFreeSlots :: "heap \<Rightarrow> addr \<Rightarrow> bool" where
  "slabPageHasFreeSlots st page \<longleftrightarrow>
     sp_freeList (pages st page) \<noteq> 0 \<or>
     sp_nextUnusedSlot (pages st page) < sc_slotsPerPage (classes st (sp_slabClass (pages st page)))"

definition isSlabPageLinked :: "heap \<Rightarrow> addr \<Rightarrow> bool" where
  "isSlabPageLinked st page \<longleftrightarrow>
     (if page = 0 \<or> sp_slabClass (pages st page) = 0 then False
      else sp_prevNonFull (pages st page) \<noteq> 0 \<or> sp_nextNonFull (pages st page) \<noteq> 0 \<or>
           sc_nonFullPages (classes st (sp_slabClass (pages st page))) = page)"

definition linkNonFullSlabPage :: "addr \<Rightarrow> heap \<Rightarrow> heap" where
  "linkNonFullSlabPage page st =
     (if page = 0 \<or> isSlabPageLinked st page \<or> \<not> slabPageHasFreeSlots st page then st
      else let cls = sp_slabClass (pages st page);
               head = sc_nonFullPages (classes st cls);
               st = updPage page (\<lambda>p. p\<lparr>sp_prevNonFull := 0\<rparr>) st;
               st = updPage page (\<lambda>p. p\<lparr>sp_nextNonFull := head\<rparr>) st;
               st = (if head \<noteq> 0 then updPage head (\<lambda>p. p\<lparr>sp_prevNonFull := page\<rparr>) st else st)
           in updClass cls (\<lambda>c. c\<lparr>sc_nonFullPages := page\<rparr>) st)"

definition unlinkNonFullSlabPage :: "addr \<Rightarrow> heap \<Rightarrow> heap" where
  "unlinkNonFullSlabPage page st =
     (if page = 0 \<or> \<not> isSlabPageLinked st page then st
      else let cls = sp_slabClass (pages st page);
               st = (if sp_prevNonFull (pages st page) \<noteq> 0
                     then updPage (sp_prevNonFull (pages st page))
                            (\<lambda>p. p\<lparr>sp_nextNonFull := sp_nextNonFull (pages st page)\<rparr>) st
                     else if sc_nonFullPages (classes st cls) = page
                     then updClass cls (\<lambda>c. c\<lparr>sc_nonFullPages := sp_nextNonFull (pages st page)\<rparr>) st
                     else st);
               st = (if sp_nextNonFull (pages st page) \<noteq> 0
                     then updPage (sp_nextNonFull (pages st page))
                            (\<lambda>p. p\<lparr>sp_prevNonFull := sp_prevNonFull (pages st page)\<rparr>) st
                     else st);
               st = updPage page (\<lambda>p. p\<lparr>sp_prevNonFull := 0\<rparr>) st
           in updPage page (\<lambda>p. p\<lparr>sp_nextNonFull := 0\<rparr>) st)"

definition slabClassKey :: "u64 \<Rightarrow> u64 \<Rightarrow> u64" where
  "slabClassKey payloadSize alignment = push_bit 32 alignment OR payloadSize"

definition slabHeaderAt :: "heap \<Rightarrow> addr \<Rightarrow> u64 \<Rightarrow> addr" where
  "slabHeaderAt st page slotIndex =
     (let cls = classes st (sp_slabClass (pages st page));
          slotStart = sp_pageStart (pages st page) + slotIndex * sc_slotStride cls
      in slotStart + sc_headerOffset cls)"

section \<open>Page tables\<close>

text \<open>The pages a range of addresses touches, in the order of the loop
  \<open>for (page = first; page <= last; ++page)\<close>.\<close>

definition pageRange :: "u64 \<Rightarrow> u64 \<Rightarrow> u64 list" where
  "pageRange firstPage lastPage = map of_nat [unat firstPage ..< Suc (unat lastPage)]"

definition headerPages :: "heap \<Rightarrow> addr \<Rightarrow> u64 list" where
  "headerPages st header =
     pageRange (allocationPageForAddress (payloadAddress header))
       (allocationPageForAddress
         (allocationLastAddress (payloadAddress header) (ah_payloadSize (hdrs st header))))"

fun registerPagesLoop :: "addr \<Rightarrow> u64 list \<Rightarrow> heap \<Rightarrow> runtime_abort + heap" where
  "registerPagesLoop header [] st = Inr st"
| "registerPagesLoop header (page # rest) st =
     (if isReservedDenseMapKey st page then Inl AllocationPageKeyCollision
      else registerPagesLoop header rest
        (st\<lparr>systemHeadersByPage := (systemHeadersByPage st)(page \<mapsto>
          (case systemHeadersByPage st page of None \<Rightarrow> [] | Some bucket \<Rightarrow> bucket) @ [header])\<rparr>))"

definition registerSystemAllocationPages :: "addr \<Rightarrow> heap \<Rightarrow> runtime_abort + heap" where
  "registerSystemAllocationPages header st = registerPagesLoop header (headerPages st header) st"

text \<open>\<open>*bucketIt = bucket.back(); bucket.pop_back();\<close> at the first occurrence.\<close>

fun swapRemove :: "addr \<Rightarrow> addr list \<Rightarrow> addr list" where
  "swapRemove header [] = []"
| "swapRemove header (x # xs) =
     (if x = header then (if xs = [] then [] else last xs # butlast xs) else x # swapRemove header xs)"

fun unregisterPagesLoop :: "addr \<Rightarrow> u64 list \<Rightarrow> heap \<Rightarrow> heap" where
  "unregisterPagesLoop header [] st = st"
| "unregisterPagesLoop header (page # rest) st =
     (case systemHeadersByPage st page of
        None \<Rightarrow> unregisterPagesLoop header rest st
      | Some bucket \<Rightarrow>
          (let bucket' = swapRemove header bucket in
           unregisterPagesLoop header rest
             (st\<lparr>systemHeadersByPage :=
                (systemHeadersByPage st)(page := (if bucket' = [] then None else Some bucket'))\<rparr>)))"

definition unregisterSystemAllocationPages :: "addr \<Rightarrow> heap \<Rightarrow> heap" where
  "unregisterSystemAllocationPages header st = unregisterPagesLoop header (headerPages st header) st"

definition slabPageKeys :: "heap \<Rightarrow> addr \<Rightarrow> u64 list" where
  "slabPageKeys st page =
     pageRange (allocationPageForAddress (sp_pageStart (pages st page)))
       (allocationPageForAddress (sp_pageStart (pages st page) + kManagedSlabPageBytes - 1))"

fun registerSlabKeysLoop :: "addr \<Rightarrow> u64 list \<Rightarrow> heap \<Rightarrow> runtime_abort + heap" where
  "registerSlabKeysLoop page [] st = Inr st"
| "registerSlabKeysLoop page (key # rest) st =
     (if isReservedDenseMapKey st key then Inl SlabPageKeyCollision
      else registerSlabKeysLoop page rest
        (st\<lparr>slabPagesByAddressPage := (slabPagesByAddressPage st)(key \<mapsto> page)\<rparr>))"

definition registerSlabPageMappings :: "addr \<Rightarrow> heap \<Rightarrow> runtime_abort + heap" where
  "registerSlabPageMappings page st = registerSlabKeysLoop page (slabPageKeys st page) st"

fun unregisterSlabKeysLoop :: "u64 list \<Rightarrow> heap \<Rightarrow> heap" where
  "unregisterSlabKeysLoop [] st = st"
| "unregisterSlabKeysLoop (key # rest) st =
     unregisterSlabKeysLoop rest
       (st\<lparr>slabPagesByAddressPage := (slabPagesByAddressPage st)(key := None)\<rparr>)"

definition unregisterSlabPageMappings :: "addr \<Rightarrow> heap \<Rightarrow> heap" where
  "unregisterSlabPageMappings page st = unregisterSlabKeysLoop (slabPageKeys st page) st"

section \<open>Slab classes and slab pages\<close>

text \<open>The layout of a class, or nothing where \<open>getOrCreateSlabClass\<close> returns \<open>nullptr\<close>.\<close>

definition slabClassLayout :: "u64 \<Rightarrow> u64 \<Rightarrow> SlabClass option" where
  "slabClassLayout payloadSize alignment =
     (let payloadOffset = alignUp sizeofAllocationHeader alignment;
          headerOffset = payloadOffset - sizeofAllocationHeader;
          slotStride = alignUp (payloadOffset + max payloadSize 1) alignment
      in if slotStride = 0 \<or> slotStride > kManagedSlabPageBytes then None
         else let slotsPerPage = kManagedSlabPageBytes div slotStride in
           if slotsPerPage = 0 then None
           else Some \<lparr>sc_payloadSize = payloadSize, sc_alignment = alignment,
                  sc_headerOffset = headerOffset, sc_slotStride = slotStride,
                  sc_slotsPerPage = slotsPerPage, sc_nonFullPages = 0\<rparr>)"

definition getOrCreateSlabClass :: "alloc_env \<Rightarrow> u64 \<Rightarrow> u64 \<Rightarrow> heap \<Rightarrow> addr \<times> heap" where
  "getOrCreateSlabClass env payloadSize alignment st =
     (let key = slabClassKey payloadSize alignment in
      case slabClassByKey st key of
        Some cls \<Rightarrow> (cls, st)
      | None \<Rightarrow>
          (case slabClassLayout payloadSize alignment of
             None \<Rightarrow> (0, st)
           | Some layout \<Rightarrow>
               (let cls = env_newClass env in
                (cls, st\<lparr>classes := (classes st)(cls := layout),
                         slabClassStorage := slabClassStorage st @ [cls],
                         slabClassByKey := (slabClassByKey st)(key \<mapsto> cls)\<rparr>))))"

definition createSlabPage :: "alloc_env \<Rightarrow> addr \<Rightarrow> heap \<Rightarrow> runtime_abort + addr \<times> heap" where
  "createSlabPage env slabClass st =
     (let totalBytes = kManagedSlabPageBytes + kAllocationPageBytes - 1;
          (rawAllocation, st) = c_malloc (env_malloc env) totalBytes st
      in if rawAllocation = 0 then Inr (0, st)
         else let alignedPage = alignUp rawAllocation kAllocationPageBytes;
                  page = env_newPage env;
                  st = st\<lparr>pages := (pages st)(page := \<lparr>sp_slabClass = slabClass,
                         sp_allocationBase = rawAllocation, sp_pageStart = alignedPage,
                         sp_nextUnusedSlot = 0, sp_liveCount = 0, sp_freeList = 0,
                         sp_prevNonFull = 0, sp_nextNonFull = 0\<rparr>),
                       slabPageStorage := slabPageStorage st @ [page]\<rparr>
              in bindE (registerSlabPageMappings page st)
                   (\<lambda>st. Inr (page, linkNonFullSlabPage page st)))"

definition releaseSlabPage :: "addr \<Rightarrow> heap \<Rightarrow> runtime_abort + heap" where
  "releaseSlabPage page st =
     (let st = unlinkNonFullSlabPage page st;
          st = unregisterSlabPageMappings page st
      in bindE (c_free (sp_allocationBase (pages st page)) st)
           (\<lambda>st. Inr (st\<lparr>slabPageStorage := remove1 page (slabPageStorage st)\<rparr>)))"

definition shouldUseSlabAllocator :: "AllocationKind \<Rightarrow> u64 \<Rightarrow> u64 \<Rightarrow> bool" where
  "shouldUseSlabAllocator kind payloadSize alignment \<longleftrightarrow>
     kind = AObject \<and> payloadSize \<le> kMaxSlabPayloadBytes \<and> alignment \<le> kMaxSlabAlignment"

section \<open>Allocation\<close>

definition initializeHeader ::
  "addr \<Rightarrow> AllocationKind \<Rightarrow> AllocationStorageKind \<Rightarrow> u64 \<Rightarrow> u64 \<Rightarrow> addr \<Rightarrow> addr \<Rightarrow> heap \<Rightarrow> heap" where
  "initializeHeader header kind storageKind payloadSize elementCount typeDescriptor storageOwner st =
     updHdr header (\<lambda>_. \<lparr>ah_magic = kAllocationMagic, ah_kind = kind, ah_storageKind = storageKind,
       ah_elementCount = elementCount, ah_payloadSize = max payloadSize 1,
       ah_typeDescriptor = typeDescriptor, ah_storageOwner = storageOwner,
       ah_prev = 0, ah_next = 0, ah_marked = False, ah_live = True\<rparr>) st"

definition allocateSystemTrackedLocked ::
  "alloc_env \<Rightarrow> AllocationKind \<Rightarrow> u64 \<Rightarrow> u64 \<Rightarrow> u64 \<Rightarrow> addr \<Rightarrow> heap \<Rightarrow> runtime_abort + addr \<times> heap" where
  "allocateSystemTrackedLocked env kind payloadSize elementCount alignment typeDescriptor st =
     (case checkedAdd sizeofAllocationHeader (alignment - 1) of
        None \<Rightarrow> Inr (0, st)
      | Some headerAndPadding \<Rightarrow>
          (case checkedAdd (max payloadSize 1) headerAndPadding of
             None \<Rightarrow> Inr (0, st)
           | Some totalBytes \<Rightarrow>
               (let (rawAllocation, st) = c_malloc (env_malloc env) totalBytes st
                in if rawAllocation = 0 then Inr (0, st)
                   else let alignedAddress = alignUp (rawAllocation + sizeofAllocationHeader) alignment;
                            header = alignedAddress - sizeofAllocationHeader;
                            st = initializeHeader header kind SSystem payloadSize elementCount
                                   typeDescriptor rawAllocation st
                        in bindE (registerSystemAllocationPages header st)
                             (\<lambda>st. Inr (alignedAddress, linkActiveAllocation header st)))))"

text \<open>The slot a page gives out next: the front of its free list, else its next unused slot.\<close>

definition takeSlot :: "addr \<Rightarrow> heap \<Rightarrow> addr \<times> heap" where
  "takeSlot page st =
     (if sp_freeList (pages st page) \<noteq> 0
      then let header = sp_freeList (pages st page)
           in (header, updPage page (\<lambda>p. p\<lparr>sp_freeList := ah_next (hdrs st header)\<rparr>) st)
      else let header = slabHeaderAt st page (sp_nextUnusedSlot (pages st page))
           in (header, updPage page (\<lambda>p. p\<lparr>sp_nextUnusedSlot := sp_nextUnusedSlot p + 1\<rparr>) st))"

text \<open>The part of \<open>allocateSlabTrackedLocked\<close> after a page with room has been found.\<close>

definition allocateFromPage :: "addr \<Rightarrow> u64 \<Rightarrow> addr \<Rightarrow> heap \<Rightarrow> addr \<times> heap" where
  "allocateFromPage page payloadSize typeDescriptor st =
     (let (header, st) = takeSlot page st;
          st = initializeHeader header AObject SSlab payloadSize 1 typeDescriptor page st;
          st = updPage page (\<lambda>p. p\<lparr>sp_liveCount := sp_liveCount p + 1\<rparr>) st;
          st = (if \<not> slabPageHasFreeSlots st page then unlinkNonFullSlabPage page st else st);
          st = linkActiveAllocation header st
      in (payloadAddress header, st))"

definition allocateSlabTrackedLocked ::
  "alloc_env \<Rightarrow> u64 \<Rightarrow> u64 \<Rightarrow> addr \<Rightarrow> heap \<Rightarrow> runtime_abort + addr \<times> heap" where
  "allocateSlabTrackedLocked env payloadSize alignment typeDescriptor st =
     (let (slabClass, st) = getOrCreateSlabClass env payloadSize alignment st
      in if slabClass = 0 then Inr (0, st)
         else let page = sc_nonFullPages (classes st slabClass)
              in if page \<noteq> 0 then Inr (allocateFromPage page payloadSize typeDescriptor st)
                 else bindE (createSlabPage env slabClass st) (\<lambda>(page, st).
                   if page = 0 then Inr (0, st)
                   else Inr (allocateFromPage page payloadSize typeDescriptor st)))"

text \<open>\<open>ensureAllocationRegistryStorage\<close> only reserves capacity in the tables and has no effect
  on their contents, so it has no counterpart.\<close>

definition allocateTrackedLocked ::
  "alloc_env \<Rightarrow> AllocationKind \<Rightarrow> u64 \<Rightarrow> u64 \<Rightarrow> u64 \<Rightarrow> addr \<Rightarrow> heap \<Rightarrow> runtime_abort + addr \<times> heap" where
  "allocateTrackedLocked env kind payloadSize elementCount alignment typeDescriptor st =
     (let alignment = (if alignment = 0 then defaultAlignment else alignment)
      in if \<not> isPowerOfTwo alignment then Inr (0, st)
         else let alignment = (if alignment < alignofAllocationHeader then alignofAllocationHeader
                               else alignment)
              in if shouldUseSlabAllocator kind payloadSize alignment
                 then bindE (allocateSlabTrackedLocked env payloadSize alignment typeDescriptor st)
                        (\<lambda>(payload, st). if payload \<noteq> 0 then Inr (payload, st)
                           else allocateSystemTrackedLocked env kind payloadSize elementCount
                                  alignment typeDescriptor st)
                 else allocateSystemTrackedLocked env kind payloadSize elementCount alignment
                        typeDescriptor st)"

section \<open>From an address to its allocation\<close>

definition inPayload :: "heap \<Rightarrow> addr \<Rightarrow> addr \<Rightarrow> bool" where
  "inPayload st address header \<longleftrightarrow>
     address \<ge> payloadAddress header \<and>
     address \<le> allocationLastAddress (payloadAddress header) (ah_payloadSize (hdrs st header))"

definition findOwningSlabAllocation :: "heap \<Rightarrow> addr \<Rightarrow> addr \<Rightarrow> addr option" where
  "findOwningSlabAllocation st address page =
     (let cls = classes st (sp_slabClass (pages st page));
          pageOffset = address - sp_pageStart (pages st page);
          slotIndex = pageOffset div sc_slotStride cls
      in if slotIndex \<ge> sc_slotsPerPage cls then None
         else let header = slabHeaderAt st page slotIndex in
           if \<not> ah_live (hdrs st header) \<or> ah_magic (hdrs st header) \<noteq> kAllocationMagic \<or>
              ah_storageKind (hdrs st header) \<noteq> SSlab then None
           else if \<not> inPayload st address header then None
           else Some header)"

definition findOwningAllocation :: "heap \<Rightarrow> addr \<Rightarrow> addr option" where
  "findOwningAllocation st address =
     (let page = allocationPageForAddress address in
      if isReservedDenseMapKey st page then None
      else let slab = (case slabPagesByAddressPage st page of
                         None \<Rightarrow> None | Some p \<Rightarrow> findOwningSlabAllocation st address p)
           in case slab of
                Some header \<Rightarrow> Some header
              | None \<Rightarrow>
                  (case systemHeadersByPage st page of
                     None \<Rightarrow> None
                   | Some bucket \<Rightarrow>
                       List.find (\<lambda>header. ah_live (hdrs st header) \<and> inPayload st address header) bucket))"

section \<open>Reclaiming one allocation\<close>

definition reclaimAllocation :: "addr \<Rightarrow> heap \<Rightarrow> runtime_abort + heap" where
  "reclaimAllocation header st =
     (let st = unlinkActiveAllocation header st;
          storageKind = ah_storageKind (hdrs st header);
          storageOwner = ah_storageOwner (hdrs st header);
          st = updHdr header (\<lambda>h. h\<lparr>ah_live := False\<rparr>) st;
          st = updHdr header (\<lambda>h. h\<lparr>ah_marked := False\<rparr>) st
      in if storageKind = SSystem
         then c_free storageOwner (unregisterSystemAllocationPages header st)
         else let page = storageOwner;
                  wasFull = (\<not> slabPageHasFreeSlots st page);
                  st = updHdr header (\<lambda>h. h\<lparr>ah_next := sp_freeList (pages st page)\<rparr>) st;
                  st = updPage page (\<lambda>p. p\<lparr>sp_freeList := header\<rparr>) st
              in if sp_liveCount (pages st page) = 0 then Inl InvalidLiveCount
                 else let st = updPage page (\<lambda>p. p\<lparr>sp_liveCount := sp_liveCount p - 1\<rparr>) st
                      in if sp_liveCount (pages st page) = 0 then releaseSlabPage page st
                         else Inr (if wasFull then linkNonFullSlabPage page st else st))"

end
