(* ===== verification/Heap_Lists.thy ===== *)
theory Heap_Lists
  imports Heap_Model
begin

text \<open>
  The two intrusive lists of the heap meet the contract of \<open>Intrusive_List\<close>: the list of active
  allocations and, for each slab class, the list of pages with room.  The section on frames says
  what the four pointer operations leave unchanged.
\<close>

section \<open>Frames\<close>

lemma updHdr_hdrs [simp]: "hdrs (updHdr a f st) b = (if b = a then f (hdrs st a) else hdrs st b)"
  by (simp add: updHdr_def)

lemma updPage_pages [simp]: "pages (updPage a f st) b = (if b = a then f (pages st a) else pages st b)"
  by (simp add: updPage_def)

lemma updClass_classes [simp]:
  "classes (updClass a f st) b = (if b = a then f (classes st a) else classes st b)"
  by (simp add: updClass_def)

lemma updHdr_frame [simp]:
  "classes (updHdr a f st) = classes st" "pages (updHdr a f st) = pages st"
  "activeAllocationHead (updHdr a f st) = activeAllocationHead st"
  "slabClassByKey (updHdr a f st) = slabClassByKey st"
  "slabClassStorage (updHdr a f st) = slabClassStorage st"
  "slabPageStorage (updHdr a f st) = slabPageStorage st"
  "slabPagesByAddressPage (updHdr a f st) = slabPagesByAddressPage st"
  "systemHeadersByPage (updHdr a f st) = systemHeadersByPage st"
  "mallocBlocks (updHdr a f st) = mallocBlocks st"
  "denseMapEmptyKey (updHdr a f st) = denseMapEmptyKey st"
  "denseMapTombstoneKey (updHdr a f st) = denseMapTombstoneKey st"
  by (simp_all add: updHdr_def)

lemma updPage_frame [simp]:
  "classes (updPage a f st) = classes st" "hdrs (updPage a f st) = hdrs st"
  "activeAllocationHead (updPage a f st) = activeAllocationHead st"
  "slabClassByKey (updPage a f st) = slabClassByKey st"
  "slabClassStorage (updPage a f st) = slabClassStorage st"
  "slabPageStorage (updPage a f st) = slabPageStorage st"
  "slabPagesByAddressPage (updPage a f st) = slabPagesByAddressPage st"
  "systemHeadersByPage (updPage a f st) = systemHeadersByPage st"
  "mallocBlocks (updPage a f st) = mallocBlocks st"
  "denseMapEmptyKey (updPage a f st) = denseMapEmptyKey st"
  "denseMapTombstoneKey (updPage a f st) = denseMapTombstoneKey st"
  by (simp_all add: updPage_def)

lemma updClass_frame [simp]:
  "pages (updClass a f st) = pages st" "hdrs (updClass a f st) = hdrs st"
  "activeAllocationHead (updClass a f st) = activeAllocationHead st"
  "slabClassByKey (updClass a f st) = slabClassByKey st"
  "slabClassStorage (updClass a f st) = slabClassStorage st"
  "slabPageStorage (updClass a f st) = slabPageStorage st"
  "slabPagesByAddressPage (updClass a f st) = slabPagesByAddressPage st"
  "systemHeadersByPage (updClass a f st) = systemHeadersByPage st"
  "mallocBlocks (updClass a f st) = mallocBlocks st"
  "denseMapEmptyKey (updClass a f st) = denseMapEmptyKey st"
  "denseMapTombstoneKey (updClass a f st) = denseMapTombstoneKey st"
  by (simp_all add: updClass_def)

text \<open>The active list operations touch only \<open>prev\<close> and \<open>next\<close> fields and the list head.\<close>

lemma linkActive_frame [simp]:
  "classes (linkActiveAllocation h st) = classes st" "pages (linkActiveAllocation h st) = pages st"
  "slabClassByKey (linkActiveAllocation h st) = slabClassByKey st"
  "slabClassStorage (linkActiveAllocation h st) = slabClassStorage st"
  "slabPageStorage (linkActiveAllocation h st) = slabPageStorage st"
  "slabPagesByAddressPage (linkActiveAllocation h st) = slabPagesByAddressPage st"
  "systemHeadersByPage (linkActiveAllocation h st) = systemHeadersByPage st"
  "mallocBlocks (linkActiveAllocation h st) = mallocBlocks st"
  "denseMapEmptyKey (linkActiveAllocation h st) = denseMapEmptyKey st"
  "denseMapTombstoneKey (linkActiveAllocation h st) = denseMapTombstoneKey st"
  "activeAllocationHead (linkActiveAllocation h st) = h"
  by (simp_all add: linkActiveAllocation_def Let_def)

lemma unlinkActive_frame [simp]:
  "classes (unlinkActiveAllocation h st) = classes st"
  "pages (unlinkActiveAllocation h st) = pages st"
  "slabClassByKey (unlinkActiveAllocation h st) = slabClassByKey st"
  "slabClassStorage (unlinkActiveAllocation h st) = slabClassStorage st"
  "slabPageStorage (unlinkActiveAllocation h st) = slabPageStorage st"
  "slabPagesByAddressPage (unlinkActiveAllocation h st) = slabPagesByAddressPage st"
  "systemHeadersByPage (unlinkActiveAllocation h st) = systemHeadersByPage st"
  "mallocBlocks (unlinkActiveAllocation h st) = mallocBlocks st"
  "denseMapEmptyKey (unlinkActiveAllocation h st) = denseMapEmptyKey st"
  "denseMapTombstoneKey (unlinkActiveAllocation h st) = denseMapTombstoneKey st"
  by (simp_all add: unlinkActiveAllocation_def Let_def)

text \<open>A header without its links, a page and a class without theirs.\<close>

definition hdrCore :: "AllocationHeader \<Rightarrow> AllocationHeader" where
  "hdrCore h = h\<lparr>ah_prev := 0, ah_next := 0\<rparr>"

lemma hdrCore_fields:
  assumes "hdrCore x = hdrCore y"
  shows "ah_magic x = ah_magic y" "ah_kind x = ah_kind y" "ah_storageKind x = ah_storageKind y"
    "ah_elementCount x = ah_elementCount y" "ah_payloadSize x = ah_payloadSize y"
    "ah_typeDescriptor x = ah_typeDescriptor y" "ah_storageOwner x = ah_storageOwner y"
    "ah_marked x = ah_marked y" "ah_live x = ah_live y"
  using assms by (cases x; cases y; simp add: hdrCore_def)+

lemma linkActive_core [simp]: "hdrCore (hdrs (linkActiveAllocation h st) a) = hdrCore (hdrs st a)"
  by (simp add: linkActiveAllocation_def Let_def hdrCore_def)

lemma unlinkActive_core [simp]: "hdrCore (hdrs (unlinkActiveAllocation h st) a) = hdrCore (hdrs st a)"
  by (simp add: unlinkActiveAllocation_def Let_def hdrCore_def)

lemmas linkActive_fields [simp] = hdrCore_fields [OF linkActive_core]
lemmas unlinkActive_fields [simp] = hdrCore_fields [OF unlinkActive_core]

lemma linkActive_next:
  "ah_next (hdrs (linkActiveAllocation h st) a) = (if a = h then activeAllocationHead st else ah_next (hdrs st a))"
  by (simp add: linkActiveAllocation_def Let_def)

lemma linkActive_prev:
  "ah_prev (hdrs (linkActiveAllocation h st) a) =
     (if activeAllocationHead st \<noteq> 0 \<and> a = activeAllocationHead st then h
      else if a = h then 0 else ah_prev (hdrs st a))"
  by (auto simp: linkActiveAllocation_def Let_def)

section \<open>The list of active allocations\<close>

definition activeChain :: "heap \<Rightarrow> addr list \<Rightarrow> bool" where
  "activeChain st xs \<longleftrightarrow>
     dll (\<lambda>a. ah_next (hdrs st a)) (\<lambda>a. ah_prev (hdrs st a)) (activeAllocationHead st) xs"

lemma unlinkActive_next:
  "ah_next (hdrs (unlinkActiveAllocation h st) a) =
     unlink_next (\<lambda>a. ah_next (hdrs st a)) (\<lambda>a. ah_prev (hdrs st a)) h a"
  by (auto simp: unlinkActiveAllocation_def Let_def unlink_next_def)

lemma unlinkActive_prev:
  "ah_prev (hdrs (unlinkActiveAllocation h st) a) =
     unlink_prev (\<lambda>a. ah_next (hdrs st a)) (\<lambda>a. ah_prev (hdrs st a)) h a"
  by (auto simp: unlinkActiveAllocation_def Let_def unlink_prev_def)

lemma unlinkActive_head:
  "activeAllocationHead (unlinkActiveAllocation h st) =
     (if ah_prev (hdrs st h) = 0 \<and> activeAllocationHead st = h then ah_next (hdrs st h)
      else activeAllocationHead st)"
  by (auto simp: unlinkActiveAllocation_def Let_def)

interpretation active: intrusive_list activeChain linkActiveAllocation unlinkActiveAllocation
  "\<lambda>h st. True"
proof (unfold_locales, goal_cases)
  case (1 s xs)
  then show ?case by (simp add: activeChain_def dll_def)
next
  case (2 s xs)
  then show ?case by (auto simp: activeChain_def dll_def dest: dll_from_nonnull)
next
  case (3 s xs ys)
  then show ?case by (auto simp: activeChain_def dll_def dest: dll_from_unique)
next
  case (4 s xs x)
  have "(\<lambda>a. ah_next (hdrs (linkActiveAllocation x s) a)) =
      (\<lambda>a. ah_next (hdrs s a))(x := activeAllocationHead s)"
    by (auto simp: linkActive_next)
  moreover have "(\<lambda>a. ah_prev (hdrs (linkActiveAllocation x s) a)) =
      (if activeAllocationHead s \<noteq> 0 then ((\<lambda>a. ah_prev (hdrs s a))(x := 0))(activeAllocationHead s := x)
       else (\<lambda>a. ah_prev (hdrs s a))(x := 0))"
    by (auto simp: linkActive_prev)
  ultimately show ?case
    using dll_link [OF 4(1) [unfolded activeChain_def] 4(2,3)] by (simp only: activeChain_def linkActive_frame)
next
  case (5 s xs x)
  note d = 5(1) [unfolded activeChain_def]
  have "(ah_prev (hdrs s x) = 0 \<and> activeAllocationHead s = x) \<longleftrightarrow> activeAllocationHead s = x"
    using dll_unlink_head_iff [OF d 5(2)] by auto
  with dll_unlink [OF d 5(2)] show ?case
    by (simp add: activeChain_def unlinkActive_next unlinkActive_prev unlinkActive_head cong: if_cong)
qed

text \<open>Outside the list, the links of other headers are not touched.\<close>

lemma unlinkActive_next_frame:
  assumes "activeChain st xs" "h \<in> set xs" "a \<notin> set xs"
  shows "ah_next (hdrs (unlinkActiveAllocation h st) a) = ah_next (hdrs st a)"
proof -
  from assms have d: "dll_from (\<lambda>a. ah_next (hdrs st a)) (\<lambda>a. ah_prev (hdrs st a)) 0 (activeAllocationHead st) xs"
    by (simp add: activeChain_def dll_def)
  from dll_from_prev_in [OF d assms(2)] assms show ?thesis
    by (auto simp: unlinkActive_next unlink_next_def)
qed

section \<open>The lists of pages with room\<close>

definition nonFullChain :: "addr \<Rightarrow> heap \<Rightarrow> addr list \<Rightarrow> bool" where
  "nonFullChain cls st ps \<longleftrightarrow>
     dll (\<lambda>a. sp_nextNonFull (pages st a)) (\<lambda>a. sp_prevNonFull (pages st a))
       (sc_nonFullPages (classes st cls)) ps \<and>
     cls \<noteq> 0 \<and> (\<forall>p \<in> set ps. sp_slabClass (pages st p) = cls)"

definition linkablePage :: "addr \<Rightarrow> addr \<Rightarrow> heap \<Rightarrow> bool" where
  "linkablePage cls page st \<longleftrightarrow> sp_slabClass (pages st page) = cls \<and> slabPageHasFreeSlots st page \<and>
     sp_prevNonFull (pages st page) = 0 \<and> sp_nextNonFull (pages st page) = 0"

definition pageCore :: "SlabPage \<Rightarrow> SlabPage" where
  "pageCore p = p\<lparr>sp_prevNonFull := 0, sp_nextNonFull := 0\<rparr>"

definition classCore :: "SlabClass \<Rightarrow> SlabClass" where
  "classCore c = c\<lparr>sc_nonFullPages := 0\<rparr>"

lemma pageCore_fields:
  assumes "pageCore x = pageCore y"
  shows "sp_slabClass x = sp_slabClass y" "sp_allocationBase x = sp_allocationBase y"
    "sp_pageStart x = sp_pageStart y" "sp_nextUnusedSlot x = sp_nextUnusedSlot y"
    "sp_liveCount x = sp_liveCount y" "sp_freeList x = sp_freeList y"
  using assms by (cases x; cases y; simp add: pageCore_def)+

lemma classCore_fields:
  assumes "classCore x = classCore y"
  shows "sc_payloadSize x = sc_payloadSize y" "sc_alignment x = sc_alignment y"
    "sc_headerOffset x = sc_headerOffset y" "sc_slotStride x = sc_slotStride y"
    "sc_slotsPerPage x = sc_slotsPerPage y"
  using assms by (cases x; cases y; simp add: classCore_def)+

lemma linkNonFull_core [simp]:
  "pageCore (pages (linkNonFullSlabPage q st) a) = pageCore (pages st a)"
  "classCore (classes (linkNonFullSlabPage q st) c) = classCore (classes st c)"
  by (simp_all add: linkNonFullSlabPage_def Let_def pageCore_def classCore_def)

lemma unlinkNonFull_core [simp]:
  "pageCore (pages (unlinkNonFullSlabPage q st) a) = pageCore (pages st a)"
  "classCore (classes (unlinkNonFullSlabPage q st) c) = classCore (classes st c)"
  by (simp_all add: unlinkNonFullSlabPage_def Let_def pageCore_def classCore_def)

lemmas linkNonFull_fields [simp] =
  pageCore_fields [OF linkNonFull_core(1)] classCore_fields [OF linkNonFull_core(2)]
lemmas unlinkNonFull_fields [simp] =
  pageCore_fields [OF unlinkNonFull_core(1)] classCore_fields [OF unlinkNonFull_core(2)]

lemma linkNonFull_frame [simp]:
  "hdrs (linkNonFullSlabPage p st) = hdrs st"
  "activeAllocationHead (linkNonFullSlabPage p st) = activeAllocationHead st"
  "slabClassByKey (linkNonFullSlabPage p st) = slabClassByKey st"
  "slabClassStorage (linkNonFullSlabPage p st) = slabClassStorage st"
  "slabPageStorage (linkNonFullSlabPage p st) = slabPageStorage st"
  "slabPagesByAddressPage (linkNonFullSlabPage p st) = slabPagesByAddressPage st"
  "systemHeadersByPage (linkNonFullSlabPage p st) = systemHeadersByPage st"
  "mallocBlocks (linkNonFullSlabPage p st) = mallocBlocks st"
  "denseMapEmptyKey (linkNonFullSlabPage p st) = denseMapEmptyKey st"
  "denseMapTombstoneKey (linkNonFullSlabPage p st) = denseMapTombstoneKey st"
  by (simp_all add: linkNonFullSlabPage_def Let_def)

lemma unlinkNonFull_frame [simp]:
  "hdrs (unlinkNonFullSlabPage p st) = hdrs st"
  "activeAllocationHead (unlinkNonFullSlabPage p st) = activeAllocationHead st"
  "slabClassByKey (unlinkNonFullSlabPage p st) = slabClassByKey st"
  "slabClassStorage (unlinkNonFullSlabPage p st) = slabClassStorage st"
  "slabPageStorage (unlinkNonFullSlabPage p st) = slabPageStorage st"
  "slabPagesByAddressPage (unlinkNonFullSlabPage p st) = slabPagesByAddressPage st"
  "systemHeadersByPage (unlinkNonFullSlabPage p st) = systemHeadersByPage st"
  "mallocBlocks (unlinkNonFullSlabPage p st) = mallocBlocks st"
  "denseMapEmptyKey (unlinkNonFullSlabPage p st) = denseMapEmptyKey st"
  "denseMapTombstoneKey (unlinkNonFullSlabPage p st) = denseMapTombstoneKey st"
  by (simp_all add: unlinkNonFullSlabPage_def Let_def)

lemma linkNonFull_next:
  assumes "\<not> (page = 0 \<or> isSlabPageLinked st page \<or> \<not> slabPageHasFreeSlots st page)"
  shows "sp_nextNonFull (pages (linkNonFullSlabPage page st) a) =
      (if a = page then sc_nonFullPages (classes st (sp_slabClass (pages st page)))
       else sp_nextNonFull (pages st a))"
    and "sp_prevNonFull (pages (linkNonFullSlabPage page st) a) =
      (if sc_nonFullPages (classes st (sp_slabClass (pages st page))) \<noteq> 0 \<and>
          a = sc_nonFullPages (classes st (sp_slabClass (pages st page))) then page
       else if a = page then 0 else sp_prevNonFull (pages st a))"
    and "sc_nonFullPages (classes (linkNonFullSlabPage page st) c) =
      (if c = sp_slabClass (pages st page) then page else sc_nonFullPages (classes st c))"
  using assms by (auto simp: linkNonFullSlabPage_def Let_def)

lemma unlinkNonFull_next:
  assumes "\<not> (page = 0 \<or> \<not> isSlabPageLinked st page)"
  shows "sp_nextNonFull (pages (unlinkNonFullSlabPage page st) a) =
      unlink_next (\<lambda>a. sp_nextNonFull (pages st a)) (\<lambda>a. sp_prevNonFull (pages st a)) page a"
    and "sp_prevNonFull (pages (unlinkNonFullSlabPage page st) a) =
      unlink_prev (\<lambda>a. sp_nextNonFull (pages st a)) (\<lambda>a. sp_prevNonFull (pages st a)) page a"
    and "sc_nonFullPages (classes (unlinkNonFullSlabPage page st) c) =
      (if c = sp_slabClass (pages st page) \<and> sp_prevNonFull (pages st page) = 0 \<and>
          sc_nonFullPages (classes st c) = page
       then sp_nextNonFull (pages st page) else sc_nonFullPages (classes st c))"
  using assms by (auto simp: unlinkNonFullSlabPage_def Let_def unlink_next_def unlink_prev_def)

lemma nonFullChain_linked:
  assumes "nonFullChain c st ps" "p \<in> set ps"
  shows "isSlabPageLinked st p" and "p \<noteq> 0"
proof -
  from assms have d: "dll (\<lambda>a. sp_nextNonFull (pages st a)) (\<lambda>a. sp_prevNonFull (pages st a))
      (sc_nonFullPages (classes st c)) ps" by (simp add: nonFullChain_def)
  then show "p \<noteq> 0" using assms(2) by (auto simp: dll_def dest: dll_from_nonnull)
  with dll_unlink_head_iff [OF d assms(2)] assms show "isSlabPageLinked st p"
    by (auto simp: isSlabPageLinked_def nonFullChain_def)
qed

lemma nonFullChain_not_linked:
  assumes "nonFullChain c st ps" "p \<notin> set ps" "linkablePage c p st" "p \<noteq> 0"
  shows "\<not> isSlabPageLinked st p"
proof -
  have "sc_nonFullPages (classes st c) \<noteq> p"
    using assms by (cases ps) (auto simp: nonFullChain_def dll_def)
  with assms show ?thesis by (auto simp: isSlabPageLinked_def linkablePage_def)
qed

interpretation nonFull: intrusive_list "nonFullChain cls" linkNonFullSlabPage unlinkNonFullSlabPage
  "linkablePage cls" for cls
proof (unfold_locales, goal_cases)
  case (1 s xs)
  then show ?case by (simp add: nonFullChain_def dll_def)
next
  case (2 s xs)
  then show ?case by (auto simp: nonFullChain_def dll_def dest: dll_from_nonnull)
next
  case (3 s xs ys)
  then show ?case by (auto simp: nonFullChain_def dll_def dest: dll_from_unique)
next
  case (4 s xs x)
  have g: "\<not> (x = 0 \<or> isSlabPageLinked s x \<or> \<not> slabPageHasFreeSlots s x)"
    using 4 nonFullChain_not_linked [OF 4(1,2,4,3)] by (simp add: linkablePage_def)
  have c: "sp_slabClass (pages s x) = cls" using 4(4) by (simp add: linkablePage_def)
  have "(\<lambda>a. sp_nextNonFull (pages (linkNonFullSlabPage x s) a)) =
      (\<lambda>a. sp_nextNonFull (pages s a))(x := sc_nonFullPages (classes s cls))"
    by (auto simp: linkNonFull_next(1) [OF g] c)
  moreover have "(\<lambda>a. sp_prevNonFull (pages (linkNonFullSlabPage x s) a)) =
      (if sc_nonFullPages (classes s cls) \<noteq> 0
       then ((\<lambda>a. sp_prevNonFull (pages s a))(x := 0))(sc_nonFullPages (classes s cls) := x)
       else (\<lambda>a. sp_prevNonFull (pages s a))(x := 0))"
    by (auto simp: linkNonFull_next(2) [OF g] c)
  moreover have "sc_nonFullPages (classes (linkNonFullSlabPage x s) cls) = x"
    by (simp add: linkNonFull_next(3) [OF g] c)
  moreover have "dll (\<lambda>a. sp_nextNonFull (pages s a)) (\<lambda>a. sp_prevNonFull (pages s a))
      (sc_nonFullPages (classes s cls)) xs" using 4(1) by (simp add: nonFullChain_def)
  note dll_link [OF this 4(2,3)]
  ultimately show ?case using 4(1) c by (simp add: nonFullChain_def)
next
  case (5 s xs x)
  have d: "dll (\<lambda>a. sp_nextNonFull (pages s a)) (\<lambda>a. sp_prevNonFull (pages s a))
      (sc_nonFullPages (classes s cls)) xs" using 5(1) by (simp add: nonFullChain_def)
  have g: "\<not> (x = 0 \<or> \<not> isSlabPageLinked s x)" using nonFullChain_linked [OF 5] by simp
  have c: "sp_slabClass (pages s x) = cls" using 5 by (simp add: nonFullChain_def)
  have "sc_nonFullPages (classes (unlinkNonFullSlabPage x s) cls) =
      (if sc_nonFullPages (classes s cls) = x then sp_nextNonFull (pages s x)
       else sc_nonFullPages (classes s cls))"
    using dll_unlink_head_iff [OF d 5(2)] by (simp add: unlinkNonFull_next(3) [OF g] c)
  with dll_unlink [OF d 5(2)] 5(1) show ?case
    using set_remove1_subset [of x xs]
    by (auto simp: nonFullChain_def unlinkNonFull_next(1,2) [OF g])
qed

end
