(* ===== verification/Heap_Inv.thy ===== *)
theory Heap_Inv
  imports Heap_Lists
begin

text \<open>
  The invariant of the managed heap, for the list \<open>xs\<close> of its active allocations, and what it
  says about addresses: slots of a slab page do not overlap, no two allocations overlap, and every
  payload lies in memory obtained from \<open>std::malloc\<close>.  The invariant is a conjunction; each part
  speaks of few fields, so that an operation that leaves those fields alone keeps it.
\<close>

section \<open>Slab classes\<close>

definition classGeom :: "SlabClass \<Rightarrow> bool" where
  "classGeom c \<longleftrightarrow>
     isPowerOfTwo (sc_alignment c) \<and> 8 \<le> unat (sc_alignment c) \<and> unat (sc_alignment c) \<le> 64 \<and>
     unat (sc_payloadSize c) \<le> 512 \<and>
     unat (sc_headerOffset c) + 80 + max (unat (sc_payloadSize c)) 1 \<le> unat (sc_slotStride c) \<and>
     unat (sc_alignment c) dvd unat (sc_headerOffset c) + 80 \<and>
     unat (sc_alignment c) dvd unat (sc_slotStride c) \<and>
     unat (sc_slotStride c) * unat (sc_slotsPerPage c) \<le> 65536 \<and> 1 < unat (sc_slotsPerPage c)"

lemma unat_sizeof [machine_simps]: "unat sizeofAllocationHeader = 80"
  by (simp add: sizeofAllocationHeader_def)

lemma unat_slabBytes [machine_simps]: "unat kManagedSlabPageBytes = 65536"
  by (simp add: kManagedSlabPageBytes_def)

lemma unat_max1: "unat (max (n :: u64) 1) = max (unat n) 1"
proof -
  have "unat (1 :: u64) = 1" by simp
  then show ?thesis by (simp add: max_def word_le_nat_alt)
qed

lemma slabClassLayout_geom:
  assumes a: "isPowerOfTwo a" "8 \<le> unat a" "unat a \<le> 64" and n: "unat n \<le> 512"
  obtains c where "slabClassLayout n a = Some c" "classGeom c" "sc_payloadSize c = n"
    "sc_alignment c = a" "sc_nonFullPages c = 0"
proof -
  define po where "po = alignUp sizeofAllocationHeader a"
  define stride where "stride = alignUp (po + max n 1) a"
  have po_b: "unat a dvd unat po" "80 \<le> unat po" "unat po \<le> 143"
    using alignUp_bounds [OF a(1), of sizeofAllocationHeader] a
    by (auto simp: po_def unat_sizeof)
  have sum: "unat (po + max n 1) = unat po + max (unat n) 1"
    using po_b n by (subst unat_plus_u64) (auto simp: unat_max1)
  have mx: "max (unat n) 1 \<le> 512" using n by simp
  have "unat (po + max n 1) + (unat a - 1) < 18446744073709551616"
    using mx a(3) po_b(3) unfolding sum by linarith
  note ab = alignUp_bounds [OF a(1) this, folded stride_def, unfolded sum]
  have st_b: "unat a dvd unat stride" "unat po + max (unat n) 1 \<le> unat stride" "unat stride \<le> 718"
    by (rule ab(1), rule ab(2), use ab(3) mx a(3) po_b(3) in linarith)
  have off: "unat (po - sizeofAllocationHeader) = unat po - 80"
    using po_b by (simp add: unat_minus_u64 unat_sizeof)
  have slots: "unat (kManagedSlabPageBytes div stride) = 65536 div unat stride"
    by (simp add: unat_div unat_slabBytes)
  have pos: "0 < 65536 div unat stride" using st_b po_b by (simp add: div_greater_zero_iff)
  have two: "1 < 65536 div unat stride"
    using div_le_mono2 [of "unat stride" 718 65536] st_b po_b by simp
  have g1: "\<not> (stride = 0 \<or> stride > kManagedSlabPageBytes)"
    using st_b po_b by (auto simp: word_less_nat_alt unat_slabBytes u64_eq_iff)
  have g2: "kManagedSlabPageBytes div stride \<noteq> 0"
    using pos slots by (metis unat_0 less_irrefl)
  define c where "c = \<lparr>sc_payloadSize = n, sc_alignment = a, sc_headerOffset = po - sizeofAllocationHeader,
    sc_slotStride = stride, sc_slotsPerPage = kManagedSlabPageBytes div stride, sc_nonFullPages = 0\<rparr>"
  have "slabClassLayout n a = Some c"
    using g1 g2 by (simp add: slabClassLayout_def Let_def po_def [symmetric] stride_def [symmetric] c_def)
  moreover have "classGeom c"
    using a n po_b st_b two by (auto simp: classGeom_def c_def off slots)
  ultimately show ?thesis using that by (simp add: c_def)
qed

lemma unat_slabClassKey:
  assumes "unat n < 4294967296" "unat a < 4294967296"
  shows "unat (slabClassKey n a) = unat a * 4294967296 + unat n"
proof -
  have "push_bit 32 a = a * 4294967296" by (simp add: push_bit_eq_mult)
  moreover have "unat (a * 4294967296) = unat a * 4294967296"
    using assms(2) by (subst unat_mult_u64) auto
  ultimately have u: "unat (push_bit 32 a) = unat a * 4294967296" by simp
  have "take_bit 32 n = n"
    using assms(1) by (simp add: u64_eq_iff unsigned_take_bit_eq take_bit_nat_eq_self)
  then have "push_bit 32 a OR n = push_bit 32 a + n"
    by (intro disjunctive_add [symmetric]) (metis bit_push_bit_iff bit_take_bit_iff not_le)
  then show ?thesis
    using assms by (simp add: slabClassKey_def u unat_plus_u64)
qed

lemma slabClassKey_inject:
  assumes "unat n < 4294967296" "unat a < 4294967296" "unat n' < 4294967296" "unat a' < 4294967296"
    "slabClassKey n a = slabClassKey n' a'"
  shows "n = n'" "a = a'"
proof -
  have "unat a * 4294967296 + unat n = unat a' * 4294967296 + unat n'"
    using unat_slabClassKey [of n a] unat_slabClassKey [of n' a'] assms by simp
  moreover have "x = (x * 4294967296 + y) div 4294967296" "y = (x * 4294967296 + y) mod 4294967296"
    if "y < 4294967296" for x y :: nat using that by simp_all
  ultimately have "unat n = unat n' \<and> unat a = unat a'" using assms(1,3) by metis
  then show "n = n'" "a = a'" by (simp_all add: u64_eq_iff)
qed

section \<open>The invariant\<close>

definition isSlab :: "heap \<Rightarrow> addr \<Rightarrow> bool" where
  "isSlab st h \<longleftrightarrow> ah_storageKind (hdrs st h) = SSlab"

definition pageClass :: "heap \<Rightarrow> addr \<Rightarrow> SlabClass" where
  "pageClass st p = classes st (sp_slabClass (pages st p))"

definition slotAddr :: "heap \<Rightarrow> addr \<Rightarrow> nat \<Rightarrow> addr" where
  "slotAddr st p i = slabHeaderAt st p (of_nat i)"

definition liveOn :: "heap \<Rightarrow> addr list \<Rightarrow> addr \<Rightarrow> addr set" where
  "liveOn st xs p = {h \<in> set xs. isSlab st h \<and> ah_storageOwner (hdrs st h) = p}"

definition invKeys :: "heap \<Rightarrow> bool" where
  "invKeys st \<longleftrightarrow> 4503599627370496 \<le> unat (denseMapEmptyKey st) \<and>
     4503599627370496 \<le> unat (denseMapTombstoneKey st)"

definition invBlocks :: "heap \<Rightarrow> bool" where
  "invBlocks st \<longleftrightarrow> (\<forall>b n. mallocBlocks st b = Some n \<longrightarrow>
     0 < unat b \<and> unat b + unat n < 18446744073709551616 \<and>
     (\<forall>b' n'. mallocBlocks st b' = Some n' \<longrightarrow> b' \<noteq> b \<longrightarrow>
        unat b + unat n \<le> unat b' \<or> unat b' + unat n' \<le> unat b))"

definition invClasses :: "heap \<Rightarrow> bool" where
  "invClasses st \<longleftrightarrow>
     (\<forall>k c. slabClassByKey st k = Some c \<longrightarrow> c \<noteq> 0 \<and> c \<in> set (slabClassStorage st) \<and>
        k = slabClassKey (sc_payloadSize (classes st c)) (sc_alignment (classes st c))) \<and>
     (\<forall>c \<in> set (slabClassStorage st). c \<noteq> 0 \<and> classGeom (classes st c) \<and>
        slabClassByKey st (slabClassKey (sc_payloadSize (classes st c)) (sc_alignment (classes st c))) = Some c)"

definition pageOk :: "heap \<Rightarrow> addr \<Rightarrow> bool" where
  "pageOk st p \<longleftrightarrow> p \<noteq> 0 \<and> sp_slabClass (pages st p) \<in> set (slabClassStorage st) \<and>
     mallocBlocks st (sp_allocationBase (pages st p)) = Some 69631 \<and>
     unat (sp_allocationBase (pages st p)) \<le> unat (sp_pageStart (pages st p)) \<and>
     4096 dvd unat (sp_pageStart (pages st p)) \<and>
     unat (sp_pageStart (pages st p)) + 65536 \<le> unat (sp_allocationBase (pages st p)) + 69631 \<and>
     sp_nextUnusedSlot (pages st p) \<le> sc_slotsPerPage (pageClass st p)"

definition invPages :: "heap \<Rightarrow> bool" where
  "invPages st \<longleftrightarrow> distinct (slabPageStorage st) \<and> (\<forall>p \<in> set (slabPageStorage st). pageOk st p) \<and>
     inj_on (\<lambda>p. sp_allocationBase (pages st p)) (set (slabPageStorage st))"

definition sysOk :: "heap \<Rightarrow> addr \<Rightarrow> bool" where
  "sysOk st h \<longleftrightarrow> (\<exists>n. mallocBlocks st (ah_storageOwner (hdrs st h)) = Some n \<and>
     unat (ah_storageOwner (hdrs st h)) \<le> unat h \<and>
     unat h + 80 + unat (ah_payloadSize (hdrs st h)) \<le> unat (ah_storageOwner (hdrs st h)) + unat n) \<and>
     (\<forall>p \<in> set (slabPageStorage st). sp_allocationBase (pages st p) \<noteq> ah_storageOwner (hdrs st h))"

definition invSystem :: "heap \<Rightarrow> addr list \<Rightarrow> bool" where
  "invSystem st xs \<longleftrightarrow> (\<forall>h \<in> set xs. \<not> isSlab st h \<longrightarrow> sysOk st h) \<and>
     inj_on (\<lambda>h. ah_storageOwner (hdrs st h)) {h \<in> set xs. \<not> isSlab st h}"

definition invHeaders :: "heap \<Rightarrow> addr list \<Rightarrow> bool" where
  "invHeaders st xs \<longleftrightarrow> (\<forall>h \<in> set xs. ah_live (hdrs st h) \<and> ah_magic (hdrs st h) = kAllocationMagic \<and>
     ah_payloadSize (hdrs st h) \<noteq> 0 \<and>
     (isSlab st h \<longrightarrow> ah_storageOwner (hdrs st h) \<in> set (slabPageStorage st) \<and>
        ah_payloadSize (hdrs st h) = max (sc_payloadSize (pageClass st (ah_storageOwner (hdrs st h)))) 1))"

definition freeListOn :: "heap \<Rightarrow> addr list \<Rightarrow> addr \<Rightarrow> addr list \<Rightarrow> bool" where
  "freeListOn st xs p fl \<longleftrightarrow>
     sll (\<lambda>a. ah_next (hdrs st a)) (sp_freeList (pages st p)) fl \<and> distinct fl \<and>
     (\<forall>h \<in> set fl. \<not> ah_live (hdrs st h)) \<and>
     set fl \<union> liveOn st xs p = slotAddr st p ` {..< unat (sp_nextUnusedSlot (pages st p))}"

definition invSlots :: "heap \<Rightarrow> addr list \<Rightarrow> bool" where
  "invSlots st xs \<longleftrightarrow> (\<forall>p \<in> set (slabPageStorage st).
     (\<exists>fl. freeListOn st xs p fl) \<and> card (liveOn st xs p) = unat (sp_liveCount (pages st p)))"

definition pagesWithRoom :: "heap \<Rightarrow> addr \<Rightarrow> addr set" where
  "pagesWithRoom st c =
     {p \<in> set (slabPageStorage st). sp_slabClass (pages st p) = c \<and> slabPageHasFreeSlots st p}"

definition invNonFull :: "heap \<Rightarrow> bool" where
  "invNonFull st \<longleftrightarrow>
     (\<forall>c \<in> set (slabClassStorage st). \<exists>ps. nonFullChain c st ps \<and> set ps = pagesWithRoom st c) \<and>
     (\<forall>p \<in> set (slabPageStorage st). \<not> slabPageHasFreeSlots st p \<longrightarrow>
        sp_prevNonFull (pages st p) = 0 \<and> sp_nextNonFull (pages st p) = 0)"

definition invSlabTable :: "heap \<Rightarrow> bool" where
  "invSlabTable st \<longleftrightarrow> (\<forall>k p. slabPagesByAddressPage st k = Some p \<longleftrightarrow>
     p \<in> set (slabPageStorage st) \<and> k \<in> set (slabPageKeys st p))"

definition bucketAt :: "heap \<Rightarrow> u64 \<Rightarrow> addr list" where
  "bucketAt st k = (case systemHeadersByPage st k of None \<Rightarrow> [] | Some b \<Rightarrow> b)"

definition invSysTable :: "heap \<Rightarrow> addr list \<Rightarrow> bool" where
  "invSysTable st xs \<longleftrightarrow> (\<forall>k. distinct (bucketAt st k) \<and> systemHeadersByPage st k \<noteq> Some [] \<and>
     set (bucketAt st k) = {h \<in> set xs. \<not> isSlab st h \<and> k \<in> set (headerPages st h)})"

text \<open>A slot that was never given out holds whatever \<open>malloc\<close> left in memory, which may read as a live slab header: nothing
  in the code prevents it.  \<open>invClean\<close> says that no such slot does.  The invariant comes with and without it: the flag
  \<open>clean\<close> of \<open>soundHeap\<close> says which one is meant.  The allocator needs no more than \<open>soundHeap False\<close>.\<close>

definition looksLive :: "AllocationHeader \<Rightarrow> bool" where
  "looksLive h \<longleftrightarrow> ah_live h \<and> ah_magic h = kAllocationMagic \<and> ah_storageKind h = SSlab"

definition unusedSlot :: "heap \<Rightarrow> addr \<Rightarrow> nat \<Rightarrow> bool" where
  "unusedSlot st p i \<longleftrightarrow> p \<in> set (slabPageStorage st) \<and> unat (sp_nextUnusedSlot (pages st p)) \<le> i \<and>
     i < unat (sc_slotsPerPage (pageClass st p))"

definition invClean :: "heap \<Rightarrow> bool" where
  "invClean st \<longleftrightarrow> (\<forall>p \<in> set (slabPageStorage st). \<forall>i < unat (sc_slotsPerPage (pageClass st p)).
     unat (sp_nextUnusedSlot (pages st p)) \<le> i \<longrightarrow> \<not> looksLive (hdrs st (slotAddr st p i)))"

definition soundHeap :: "bool \<Rightarrow> heap \<Rightarrow> addr list \<Rightarrow> bool" where
  "soundHeap clean st xs \<longleftrightarrow> activeChain st xs \<and> invKeys st \<and> invBlocks st \<and> invClasses st \<and> invPages st \<and>
     invSystem st xs \<and> invHeaders st xs \<and> invSlots st xs \<and> invNonFull st \<and> invSlabTable st \<and>
     invSysTable st xs \<and> (clean \<longrightarrow> invClean st)"

abbreviation heapInv :: "heap \<Rightarrow> addr list \<Rightarrow> bool" where
  "heapInv \<equiv> soundHeap True"

lemma soundHeap_weaken: "soundHeap clean st xs \<Longrightarrow> soundHeap False st xs"
  by (simp add: soundHeap_def)

section \<open>Addresses of slots\<close>

lemma pageRange_mem: "k \<in> set (pageRange a b) \<longleftrightarrow> unat a \<le> unat k \<and> unat k \<le> unat b"
proof
  assume "k \<in> set (pageRange a b)"
  then obtain n where n: "k = of_nat n" "unat a \<le> n" "n \<le> unat b" by (auto simp: pageRange_def)
  moreover have "n < 18446744073709551616" using n(3) unat_lt_2_64_numeral [of b] by linarith
  ultimately show "unat a \<le> unat k \<and> unat k \<le> unat b" by (simp add: unat_of_nat_u64)
next
  assume "unat a \<le> unat k \<and> unat k \<le> unat b"
  then show "k \<in> set (pageRange a b)"
    by (auto simp: pageRange_def image_iff less_Suc_eq_le simp del: upt_Suc intro!: bexI [of _ "unat k"])
qed

lemma distinct_pageRange: "distinct (pageRange a b)"
proof -
  have "inj_on (of_nat :: nat \<Rightarrow> u64) {unat a ..< Suc (unat b)}"
  proof (rule inj_onI)
    fix m n
    assume r: "m \<in> {unat a ..< Suc (unat b)}" "n \<in> {unat a ..< Suc (unat b)}"
      and e: "(of_nat m :: u64) = of_nat n"
    from r have "m \<le> unat b" "n \<le> unat b" by auto
    then have "m < 18446744073709551616" "n < 18446744073709551616"
      using unat_lt_2_64_numeral [of b] by linarith+
    then show "m = n" using e by (metis unat_of_nat_u64)
  qed
  then show ?thesis by (simp add: pageRange_def distinct_map del: upt_Suc)
qed

end
