(* ===== verification/Heap_Geometry.thy ===== *)
theory Heap_Geometry
  imports Heap_Inv
begin

text \<open>
  What the heap invariant says about addresses: where the slots of a page lie, that allocations do
  not overlap, which page keys an allocation is registered under, and that the owner lookup finds
  exactly the allocation whose payload contains an address.
\<close>

section \<open>Reading the invariant\<close>

lemma heapInv_page:
  assumes "soundHeap clean st xs" "p \<in> set (slabPageStorage st)"
  shows "pageOk st p" and "classGeom (pageClass st p)"
  using assms by (auto simp: soundHeap_def invPages_def invClasses_def pageOk_def pageClass_def)

lemma heapInv_block:
  assumes "soundHeap clean st xs" "mallocBlocks st b = Some n"
  shows "0 < unat b" and "unat b + unat n < 18446744073709551616"
  using assms by (auto simp: soundHeap_def invBlocks_def)

lemma heapInv_blocks_disjoint:
  assumes "soundHeap clean st xs" "mallocBlocks st b = Some n" "mallocBlocks st b' = Some n'" "b \<noteq> b'"
  shows "unat b + unat n \<le> unat b' \<or> unat b' + unat n' \<le> unat b"
  using assms unfolding soundHeap_def invBlocks_def by metis

lemma heapInv_header:
  assumes "soundHeap clean st xs" "h \<in> set xs"
  shows "ah_live (hdrs st h)" and "ah_magic (hdrs st h) = kAllocationMagic"
    and "0 < unat (ah_payloadSize (hdrs st h))"
  using assms by (auto simp: soundHeap_def invHeaders_def unat_gt_0)

lemma heapInv_sys:
  assumes "soundHeap clean st xs" "h \<in> set xs" "\<not> isSlab st h"
  shows "sysOk st h"
  using assms by (auto simp: soundHeap_def invSystem_def)

lemma heapInv_slab_owner:
  assumes "soundHeap clean st xs" "h \<in> set xs" "isSlab st h"
  shows "ah_storageOwner (hdrs st h) \<in> set (slabPageStorage st)"
    and "unat (ah_payloadSize (hdrs st h)) =
      max (unat (sc_payloadSize (pageClass st (ah_storageOwner (hdrs st h))))) 1"
  using assms by (auto simp: soundHeap_def invHeaders_def unat_max1)

section \<open>Slots\<close>

lemma slot_in_page:
  assumes "classGeom c" "i < unat (sc_slotsPerPage c)"
  shows "i * unat (sc_slotStride c) + unat (sc_headerOffset c) + 80 + max (unat (sc_payloadSize c)) 1
      \<le> Suc i * unat (sc_slotStride c)"
    and "Suc i * unat (sc_slotStride c) \<le> 65536"
    and "0 < unat (sc_slotStride c)"
proof -
  show "i * unat (sc_slotStride c) + unat (sc_headerOffset c) + 80 + max (unat (sc_payloadSize c)) 1
      \<le> Suc i * unat (sc_slotStride c)"
    using assms(1) by (simp add: classGeom_def)
  have "Suc i * unat (sc_slotStride c) \<le> unat (sc_slotsPerPage c) * unat (sc_slotStride c)"
    using assms(2) by (intro mult_le_mono1) simp
  then show "Suc i * unat (sc_slotStride c) \<le> 65536"
    using assms(1) by (simp add: classGeom_def mult.commute)
  show "0 < unat (sc_slotStride c)" using assms(1) by (simp add: classGeom_def)
qed

lemma page_end:
  assumes "soundHeap clean st xs" "p \<in> set (slabPageStorage st)"
  shows "unat (sp_pageStart (pages st p)) + 65536 < 18446744073709551616"
proof -
  have ok: "pageOk st p" by (rule heapInv_page(1) [OF assms])
  then have "mallocBlocks st (sp_allocationBase (pages st p)) = Some 69631" by (simp add: pageOk_def)
  from heapInv_block(2) [OF assms(1) this] ok show ?thesis by (simp add: pageOk_def)
qed

lemma unat_slotAddr_geom:
  assumes geom: "classGeom (pageClass st p)"
    and pe: "unat (sp_pageStart (pages st p)) + 65536 < 18446744073709551616"
    and i: "i < unat (sc_slotsPerPage (pageClass st p))"
  shows "unat (slotAddr st p i) = unat (sp_pageStart (pages st p)) +
    i * unat (sc_slotStride (pageClass st p)) + unat (sc_headerOffset (pageClass st p))"
proof -
  let ?c = "pageClass st p" and ?s = "sp_pageStart (pages st p)"
  note sp = slot_in_page [OF geom i]
  have "i < 18446744073709551616" using i unat_lt_2_64_numeral [of "sc_slotsPerPage ?c"] by linarith
  then have ui: "unat (of_nat i :: u64) = i" by (rule unat_of_nat_u64)
  have m: "unat (of_nat i * sc_slotStride ?c) = i * unat (sc_slotStride ?c)"
    using sp(2) by (subst unat_mult_u64) (simp_all add: ui)
  have a: "unat (?s + of_nat i * sc_slotStride ?c) = unat ?s + i * unat (sc_slotStride ?c)"
    using sp(2) pe by (subst unat_plus_u64) (simp_all add: m)
  have "unat (?s + of_nat i * sc_slotStride ?c + sc_headerOffset ?c) =
      unat (?s + of_nat i * sc_slotStride ?c) + unat (sc_headerOffset ?c)"
    using sp(1,2) pe by (subst unat_plus_u64) (simp_all add: a)
  then show ?thesis by (simp add: slotAddr_def slabHeaderAt_def Let_def pageClass_def [symmetric] a)
qed

lemma unat_slotAddr:
  assumes "soundHeap clean st xs" "p \<in> set (slabPageStorage st)" "i < unat (sc_slotsPerPage (pageClass st p))"
  shows "unat (slotAddr st p i) = unat (sp_pageStart (pages st p)) +
    i * unat (sc_slotStride (pageClass st p)) + unat (sc_headerOffset (pageClass st p))"
  by (rule unat_slotAddr_geom [OF heapInv_page(2) [OF assms(1,2)] page_end [OF assms(1,2)] assms(3)])

lemma slot_region:
  assumes "soundHeap clean st xs" "p \<in> set (slabPageStorage st)"
    and "i < unat (sc_slotsPerPage (pageClass st p))"
  shows "unat (sp_pageStart (pages st p)) \<le> unat (slotAddr st p i)"
    and "unat (slotAddr st p i) + 80 + max (unat (sc_payloadSize (pageClass st p))) 1 \<le>
      unat (sp_pageStart (pages st p)) + 65536"
  using unat_slotAddr [OF assms] slot_in_page [OF heapInv_page(2) [OF assms(1,2)] assms(3)]
  by linarith+

lemma slots_apart:
  assumes "soundHeap clean st xs" "p \<in> set (slabPageStorage st)" "i < j"
    and j: "j < unat (sc_slotsPerPage (pageClass st p))"
  shows "unat (slotAddr st p i) + 80 + max (unat (sc_payloadSize (pageClass st p))) 1
    \<le> unat (slotAddr st p j)"
proof -
  have i: "i < unat (sc_slotsPerPage (pageClass st p))" using assms(3) j by simp
  have "Suc i * unat (sc_slotStride (pageClass st p)) \<le> j * unat (sc_slotStride (pageClass st p))"
    using assms(3) by (intro mult_le_mono1) simp
  then show ?thesis
    using unat_slotAddr [OF assms(1,2) i] unat_slotAddr [OF assms(1,2) j]
      slot_in_page(1) [OF heapInv_page(2) [OF assms(1,2)] i] by linarith
qed

lemma pages_apart:
  assumes "soundHeap clean st xs" "p \<in> set (slabPageStorage st)" "q \<in> set (slabPageStorage st)" "p \<noteq> q"
  shows "unat (sp_pageStart (pages st p)) + 65536 \<le> unat (sp_pageStart (pages st q)) \<or>
    unat (sp_pageStart (pages st q)) + 65536 \<le> unat (sp_pageStart (pages st p))"
proof -
  have "inj_on (\<lambda>p. sp_allocationBase (pages st p)) (set (slabPageStorage st))"
    using assms(1) by (simp add: soundHeap_def invPages_def)
  then have "sp_allocationBase (pages st p) \<noteq> sp_allocationBase (pages st q)"
    using assms(2-4) by (auto dest: inj_onD)
  moreover have "pageOk st p" "pageOk st q" using assms heapInv_page by blast+
  ultimately show ?thesis
    using heapInv_blocks_disjoint [OF assms(1), of "sp_allocationBase (pages st p)" 69631
        "sp_allocationBase (pages st q)" 69631]
    by (auto simp: pageOk_def)
qed

lemma slotAddr_inject:
  assumes "soundHeap clean st xs" "p \<in> set (slabPageStorage st)" "q \<in> set (slabPageStorage st)"
    "i < unat (sc_slotsPerPage (pageClass st p))" "j < unat (sc_slotsPerPage (pageClass st q))"
    "slotAddr st p i = slotAddr st q j"
  shows "p = q" "i = j"
proof -
  show pq: "p = q"
  proof (rule ccontr)
    assume "p \<noteq> q"
    with pages_apart [OF assms(1-3)] slot_region [OF assms(1,2,4)] slot_region [OF assms(1,3,5)] assms(6)
    show False by auto
  qed
  show "i = j"
  proof (rule ccontr)
    assume "i \<noteq> j"
    then consider "i < j" | "j < i" by linarith
    then show False
      using slots_apart [OF assms(1,2), of i j] slots_apart [OF assms(1,2), of j i] assms pq
      by cases auto
  qed
qed

lemma nextUnused_le:
  assumes "soundHeap clean st xs" "p \<in> set (slabPageStorage st)"
  shows "unat (sp_nextUnusedSlot (pages st p)) \<le> unat (sc_slotsPerPage (pageClass st p))"
  using heapInv_page(1) [OF assms] by (simp add: pageOk_def word_le_nat_alt)

lemma heapInv_freeList:
  assumes "soundHeap clean st xs" "p \<in> set (slabPageStorage st)"
  obtains fl where "freeListOn st xs p fl"
  using assms by (auto simp: soundHeap_def invSlots_def)

lemma slab_header_slot:
  assumes "soundHeap clean st xs" "h \<in> set xs" "isSlab st h"
  obtains i where "i < unat (sp_nextUnusedSlot (pages st (ah_storageOwner (hdrs st h))))"
    "h = slotAddr st (ah_storageOwner (hdrs st h)) i"
proof -
  let ?p = "ah_storageOwner (hdrs st h)"
  obtain fl where "freeListOn st xs ?p fl"
    by (rule heapInv_freeList [OF assms(1) heapInv_slab_owner(1) [OF assms]])
  then have "h \<in> slotAddr st ?p ` {..< unat (sp_nextUnusedSlot (pages st ?p))}"
    using assms(2,3) by (auto simp: freeListOn_def liveOn_def)
  then show ?thesis using that by blast
qed

section \<open>Allocations do not overlap\<close>

text \<open>The malloc block an allocation lives in, and its position there.\<close>

definition homeBlock :: "heap \<Rightarrow> addr \<Rightarrow> addr" where
  "homeBlock st h = (if isSlab st h then sp_allocationBase (pages st (ah_storageOwner (hdrs st h)))
                     else ah_storageOwner (hdrs st h))"

lemma home_block:
  assumes "soundHeap clean st xs" "h \<in> set xs"
  obtains n where "mallocBlocks st (homeBlock st h) = Some n" "unat (homeBlock st h) \<le> unat h"
    "unat h + 80 + unat (ah_payloadSize (hdrs st h)) \<le> unat (homeBlock st h) + unat n"
proof (cases "isSlab st h")
  case False
  with heapInv_sys [OF assms] show ?thesis using that by (auto simp: sysOk_def homeBlock_def)
next
  case True
  let ?p = "ah_storageOwner (hdrs st h)"
  have p: "?p \<in> set (slabPageStorage st)" by (rule heapInv_slab_owner(1) [OF assms True])
  obtain i where i: "i < unat (sp_nextUnusedSlot (pages st ?p))" "h = slotAddr st ?p i"
    by (rule slab_header_slot [OF assms True])
  then have "i < unat (sc_slotsPerPage (pageClass st ?p))"
    using nextUnused_le [OF assms(1) p] by linarith
  note r = slot_region [OF assms(1) p this, folded i(2)]
  from heapInv_page(1) [OF assms(1) p] r heapInv_slab_owner(2) [OF assms True] True
  show ?thesis by (intro that [of 69631]) (auto simp: pageOk_def homeBlock_def)
qed

lemma header_end:
  assumes "soundHeap clean st xs" "h \<in> set xs"
  shows "unat h + 80 + unat (ah_payloadSize (hdrs st h)) < 18446744073709551616" and "0 < unat h"
proof -
  obtain n where n: "mallocBlocks st (homeBlock st h) = Some n" "unat (homeBlock st h) \<le> unat h"
    "unat h + 80 + unat (ah_payloadSize (hdrs st h)) \<le> unat (homeBlock st h) + unat n"
    by (rule home_block [OF assms])
  from heapInv_block [OF assms(1) n(1)] n(2,3)
  show "unat h + 80 + unat (ah_payloadSize (hdrs st h)) < 18446744073709551616" and "0 < unat h"
    by linarith+
qed

lemma homeBlock_distinct:
  assumes "soundHeap clean st xs" "h \<in> set xs" "h' \<in> set xs" "h \<noteq> h'" "homeBlock st h = homeBlock st h'"
  shows "isSlab st h \<and> isSlab st h' \<and> ah_storageOwner (hdrs st h) = ah_storageOwner (hdrs st h')"
proof -
  have inj: "inj_on (\<lambda>h. ah_storageOwner (hdrs st h)) {h \<in> set xs. \<not> isSlab st h}"
    and injp: "inj_on (\<lambda>p. sp_allocationBase (pages st p)) (set (slabPageStorage st))"
    using assms(1) by (simp_all add: soundHeap_def invSystem_def invPages_def)
  show ?thesis
  proof (cases "isSlab st h"; cases "isSlab st h'")
    assume s: "isSlab st h" "isSlab st h'"
    then have "ah_storageOwner (hdrs st h) = ah_storageOwner (hdrs st h')"
      using assms(5) heapInv_slab_owner(1) [OF assms(1,2)] heapInv_slab_owner(1) [OF assms(1,3)]
        inj_onD [OF injp, of "ah_storageOwner (hdrs st h)" "ah_storageOwner (hdrs st h')"]
      by (simp add: homeBlock_def)
    with s show ?thesis by simp
  next
    assume s: "isSlab st h" "\<not> isSlab st h'"
    then show ?thesis
      using assms(5) heapInv_sys [OF assms(1,3)] heapInv_slab_owner(1) [OF assms(1,2)]
      by (auto simp: sysOk_def homeBlock_def)
  next
    assume s: "\<not> isSlab st h" "isSlab st h'"
    then show ?thesis
      using assms(5) heapInv_sys [OF assms(1,2)] heapInv_slab_owner(1) [OF assms(1,3)]
      by (auto simp: sysOk_def homeBlock_def)
  next
    assume s: "\<not> isSlab st h" "\<not> isSlab st h'"
    then show ?thesis
      using assms(2-5) inj_onD [OF inj, of h h'] by (simp add: homeBlock_def)
  qed
qed

lemma allocations_disjoint:
  assumes "soundHeap clean st xs" "h \<in> set xs" "h' \<in> set xs" "h \<noteq> h'"
  shows "unat h + 80 + unat (ah_payloadSize (hdrs st h)) \<le> unat h' \<or>
    unat h' + 80 + unat (ah_payloadSize (hdrs st h')) \<le> unat h"
proof (cases "homeBlock st h = homeBlock st h'")
  case False
  obtain n where n: "mallocBlocks st (homeBlock st h) = Some n" "unat (homeBlock st h) \<le> unat h"
    "unat h + 80 + unat (ah_payloadSize (hdrs st h)) \<le> unat (homeBlock st h) + unat n"
    by (rule home_block [OF assms(1,2)])
  obtain n' where n': "mallocBlocks st (homeBlock st h') = Some n'" "unat (homeBlock st h') \<le> unat h'"
    "unat h' + 80 + unat (ah_payloadSize (hdrs st h')) \<le> unat (homeBlock st h') + unat n'"
    by (rule home_block [OF assms(1,3)])
  from heapInv_blocks_disjoint [OF assms(1) n(1) n'(1) False] n(2,3) n'(2,3) show ?thesis by linarith
next
  case True
  let ?p = "ah_storageOwner (hdrs st h)"
  from homeBlock_distinct [OF assms True] have s: "isSlab st h" "isSlab st h'"
    and o: "ah_storageOwner (hdrs st h') = ?p" by auto
  have p: "?p \<in> set (slabPageStorage st)" by (rule heapInv_slab_owner(1) [OF assms(1,2) s(1)])
  obtain i where i: "i < unat (sp_nextUnusedSlot (pages st ?p))" "h = slotAddr st ?p i"
    by (rule slab_header_slot [OF assms(1,2) s(1)])
  obtain j where j: "j < unat (sp_nextUnusedSlot (pages st ?p))" "h' = slotAddr st ?p j"
    using slab_header_slot [OF assms(1,3) s(2)] o by metis
  have "i \<noteq> j" using i(2) j(2) assms(4) by metis
  then consider "i < j" | "j < i" by linarith
  then show ?thesis
    using slots_apart [OF assms(1) p, of i j] slots_apart [OF assms(1) p, of j i]
      i j nextUnused_le [OF assms(1) p]
      heapInv_slab_owner(2) [OF assms(1,2) s(1)] heapInv_slab_owner(2) [OF assms(1,3) s(2)] o
    by cases auto
qed

section \<open>Payloads and page keys\<close>

lemma unat_payloadAddress:
  assumes "soundHeap clean st xs" "h \<in> set xs"
  shows "unat (payloadAddress h) = unat h + 80"
  using header_end [OF assms] by (simp add: payloadAddress_def unat_plus_u64 unat_sizeof)

lemma unat_payload_last:
  assumes "soundHeap clean st xs" "h \<in> set xs"
  shows "unat (allocationLastAddress (payloadAddress h) (ah_payloadSize (hdrs st h))) =
    unat h + 80 + unat (ah_payloadSize (hdrs st h)) - 1"
proof -
  have "ah_payloadSize (hdrs st h) \<noteq> 0" using heapInv_header(3) [OF assms] by auto
  from unat_lastAddress [OF this] show ?thesis
    using header_end [OF assms] heapInv_header(3) [OF assms]
    by (simp add: unat_payloadAddress [OF assms])
qed

lemma inPayload_iff:
  assumes "soundHeap clean st xs" "h \<in> set xs"
  shows "inPayload st a h \<longleftrightarrow> unat h + 80 \<le> unat a \<and>
    unat a < unat h + 80 + unat (ah_payloadSize (hdrs st h))"
  using heapInv_header(3) [OF assms]
  by (auto simp: inPayload_def word_le_nat_alt unat_payloadAddress [OF assms] unat_payload_last [OF assms])

lemma inPayload_unique:
  assumes "soundHeap clean st xs" "h \<in> set xs" "h' \<in> set xs" "inPayload st a h" "inPayload st a h'"
  shows "h = h'"
proof (rule ccontr)
  assume "h \<noteq> h'"
  from allocations_disjoint [OF assms(1-3) this] assms(4,5) show False
    by (auto simp: inPayload_iff [OF assms(1,2)] inPayload_iff [OF assms(1,3)])
qed

lemma headerPages_mem:
  assumes "soundHeap clean st xs" "h \<in> set xs" "inPayload st a h"
  shows "allocationPageForAddress a \<in> set (headerPages st h)"
proof -
  have "(unat h + 80) div 4096 \<le> unat a div 4096"
    "unat a div 4096 \<le> (unat h + 80 + unat (ah_payloadSize (hdrs st h)) - 1) div 4096"
    using assms(3) by (auto simp: inPayload_iff [OF assms(1,2)] intro!: div_le_mono)
  then show ?thesis
    by (simp add: headerPages_def pageRange_mem unat_page unat_payloadAddress [OF assms(1,2)]
        unat_payload_last [OF assms(1,2)])
qed

lemma slabPageKeys_mem:
  assumes "unat (sp_pageStart (pages st p)) + 65536 < 18446744073709551616"
  shows "k \<in> set (slabPageKeys st p) \<longleftrightarrow>
    unat (sp_pageStart (pages st p)) div 4096 \<le> unat k \<and>
    unat k \<le> (unat (sp_pageStart (pages st p)) + 65535) div 4096"
proof -
  have "unat (sp_pageStart (pages st p) + kManagedSlabPageBytes) = unat (sp_pageStart (pages st p)) + 65536"
    using assms by (simp add: unat_plus_u64 unat_slabBytes)
  moreover from this have "unat (sp_pageStart (pages st p) + kManagedSlabPageBytes - 1) =
      unat (sp_pageStart (pages st p)) + 65535"
    by (subst unat_minus_u64) simp_all
  ultimately show ?thesis by (simp add: slabPageKeys_def pageRange_mem unat_page)
qed

lemma slabPageKeys_address:
  assumes "soundHeap clean st xs" "p \<in> set (slabPageStorage st)"
  shows "allocationPageForAddress a \<in> set (slabPageKeys st p) \<longleftrightarrow>
    unat (sp_pageStart (pages st p)) \<le> unat a \<and> unat a < unat (sp_pageStart (pages st p)) + 65536"
proof -
  have "4096 dvd unat (sp_pageStart (pages st p))"
    using heapInv_page(1) [OF assms] by (simp add: pageOk_def)
  then obtain m where m: "unat (sp_pageStart (pages st p)) = 4096 * m" by auto
  have "m \<le> unat a div 4096 \<longleftrightarrow> 4096 * m \<le> unat a"
    by (simp add: less_eq_div_iff_mult_less_eq mult.commute)
  moreover have "(4096 * m + 65535) div 4096 = m + 15" by simp
  moreover have "unat a div 4096 \<le> m + 15 \<longleftrightarrow> unat a < 4096 * m + 65536"
    using div_less_iff_less_mult [of 4096 "unat a" "m + 16"] by (simp add: less_Suc_eq_le) linarith
  ultimately show ?thesis
    by (simp add: slabPageKeys_mem [OF page_end [OF assms]] unat_page m)
qed

section \<open>The owner of an address\<close>

lemma page_not_reserved:
  assumes "invKeys st"
  shows "\<not> isReservedDenseMapKey st (allocationPageForAddress a)"
  using assms page_lt [of a] by (auto simp: isReservedDenseMapKey_def invKeys_def)

text \<open>The header of a slot that was never given out, in whose part of the page the address lies, when the memory there reads as
  a live header with that payload.\<close>

definition staleOwner :: "heap \<Rightarrow> addr \<Rightarrow> addr \<Rightarrow> bool" where
  "staleOwner st a h \<longleftrightarrow> (\<exists>p i. unusedSlot st p i \<and> h = slotAddr st p i \<and> looksLive (hdrs st h) \<and> inPayload st a h \<and>
     unat (sp_pageStart (pages st p)) + i * unat (sc_slotStride (pageClass st p)) \<le> unat a \<and>
     unat a < unat (sp_pageStart (pages st p)) + Suc i * unat (sc_slotStride (pageClass st p)))"

lemma clean_no_stale: "soundHeap True st xs \<Longrightarrow> \<not> staleOwner st a h"
  by (auto simp: soundHeap_def invClean_def staleOwner_def unusedSlot_def)

lemma page_range_end:
  assumes "soundHeap clean st xs" "unusedSlot st p i"
  shows "unat (sp_pageStart (pages st p)) + Suc i * unat (sc_slotStride (pageClass st p)) \<le> unat (sp_pageStart (pages st p)) + 65536"
proof -
  have p: "p \<in> set (slabPageStorage st)" and i: "i < unat (sc_slotsPerPage (pageClass st p))"
    using assms(2) by (simp_all add: unusedSlot_def)
  have "Suc i * unat (sc_slotStride (pageClass st p)) \<le> unat (sc_slotsPerPage (pageClass st p)) * unat (sc_slotStride (pageClass st p))"
    using i by (intro mult_le_mono1) simp
  then show ?thesis using heapInv_page(2) [OF assms(1) p] by (simp add: classGeom_def mult.commute)
qed

lemma findSlab_sound:
  assumes inv: "soundHeap clean st xs" and p: "p \<in> set (slabPageStorage st)"
    and a: "unat (sp_pageStart (pages st p)) \<le> unat a"
    and f: "findOwningSlabAllocation st a p = Some h"
  shows "h \<in> set xs \<and> inPayload st a h \<or> staleOwner st a h"
proof -
  let ?s = "sp_pageStart (pages st p)" and ?w = "sc_slotStride (pageClass st p)"
  define i where "i = (a - ?s) div ?w"
  from f have i: "i < sc_slotsPerPage (pageClass st p)" and h: "h = slabHeaderAt st p i"
    and l: "looksLive (hdrs st h)" and ip: "inPayload st a h"
    by (auto simp: findOwningSlabAllocation_def Let_def pageClass_def [symmetric] i_def [symmetric]
        looksLive_def not_le split: if_splits)
  have h': "h = slotAddr st p (unat i)" by (simp add: slotAddr_def h)
  have i': "unat i < unat (sc_slotsPerPage (pageClass st p))" using i by (simp add: word_less_nat_alt)
  show ?thesis
  proof (cases "unat i < unat (sp_nextUnusedSlot (pages st p))")
    case True
    obtain fl where fl: "freeListOn st xs p fl" by (rule heapInv_freeList [OF inv p])
    then have "h \<in> set fl \<union> liveOn st xs p" using True h' by (auto simp: freeListOn_def)
    moreover have "h \<notin> set fl" using fl l by (auto simp: freeListOn_def looksLive_def)
    ultimately show ?thesis using ip by (auto simp: liveOn_def)
  next
    case False
    have "0 < unat ?w" using heapInv_page(2) [OF inv p] by (auto simp: classGeom_def)
    moreover have "unat i = (unat a - unat ?s) div unat ?w" using a by (simp add: i_def unat_div unat_minus_u64)
    ultimately have "unat i * unat ?w \<le> unat a - unat ?s" "unat a - unat ?s < Suc (unat i) * unat ?w"
      by (simp_all add: div_times_less_eq_dividend dividend_less_div_times)
    then have "unat ?s + unat i * unat ?w \<le> unat a" "unat a < unat ?s + Suc (unat i) * unat ?w" using a by linarith+
    then show ?thesis using False p i' h' l ip unfolding staleOwner_def unusedSlot_def by (metis not_less)
  qed
qed

lemma findSlab_stale:
  assumes inv: "soundHeap clean st xs" and u: "unusedSlot st p i" and l: "looksLive (hdrs st (slotAddr st p i))"
    and ip: "inPayload st a (slotAddr st p i)"
    and a: "unat (sp_pageStart (pages st p)) + i * unat (sc_slotStride (pageClass st p)) \<le> unat a"
      "unat a < unat (sp_pageStart (pages st p)) + Suc i * unat (sc_slotStride (pageClass st p))"
  shows "allocationPageForAddress a \<in> set (slabPageKeys st p)" "findOwningSlabAllocation st a p = Some (slotAddr st p i)"
proof -
  let ?s = "sp_pageStart (pages st p)" and ?w = "sc_slotStride (pageClass st p)"
  have p: "p \<in> set (slabPageStorage st)" and i: "i < unat (sc_slotsPerPage (pageClass st p))"
    using u by (simp_all add: unusedSlot_def)
  show "allocationPageForAddress a \<in> set (slabPageKeys st p)"
    using a page_range_end [OF inv u] by (simp add: slabPageKeys_address [OF inv p])
  have "unat (a - ?s) = unat a - unat ?s" using a by (simp add: unat_minus_u64)
  moreover have "(unat a - unat ?s) div unat ?w = i" using a by (intro div_nat_eqI) (simp_all add: mult.commute)
  ultimately have d: "unat ((a - ?s) div ?w) = i" by (simp add: unat_div)
  have "(a - ?s) div ?w = of_nat (unat ((a - ?s) div ?w))" by simp
  then have e: "(a - ?s) div ?w = of_nat i" by (simp only: d)
  have "\<not> of_nat i \<ge> sc_slotsPerPage (pageClass st p)" using i d e by (simp add: word_le_nat_alt)
  then show "findOwningSlabAllocation st a p = Some (slotAddr st p i)"
    using e l ip by (simp add: findOwningSlabAllocation_def Let_def pageClass_def [symmetric] slotAddr_def looksLive_def)
qed

lemma findSlab_complete:
  assumes inv: "soundHeap clean st xs" and h: "h \<in> set xs" "isSlab st h" and a: "inPayload st a h"
  shows "allocationPageForAddress a \<in> set (slabPageKeys st (ah_storageOwner (hdrs st h)))"
    and "findOwningSlabAllocation st a (ah_storageOwner (hdrs st h)) = Some h"
proof -
  let ?p = "ah_storageOwner (hdrs st h)"
  let ?c = "pageClass st ?p" and ?s = "sp_pageStart (pages st ?p)"
  have p: "?p \<in> set (slabPageStorage st)" by (rule heapInv_slab_owner(1) [OF inv h])
  obtain i where i0: "i < unat (sp_nextUnusedSlot (pages st ?p))" "h = slotAddr st ?p i"
    by (rule slab_header_slot [OF inv h])
  then have i: "i < unat (sc_slotsPerPage ?c)" using nextUnused_le [OF inv p] by linarith
  note g = slot_in_page [OF heapInv_page(2) [OF inv p] i]
  have uh: "unat h = unat ?s + i * unat (sc_slotStride ?c) + unat (sc_headerOffset ?c)"
    using unat_slotAddr [OF inv p i] i0(2) by simp
  have a': "unat h + 80 \<le> unat a" "unat a < unat h + 80 + max (unat (sc_payloadSize ?c)) 1"
    using a by (simp_all add: inPayload_iff [OF inv h(1)] heapInv_slab_owner(2) [OF inv h])
  show "allocationPageForAddress a \<in> set (slabPageKeys st ?p)"
    using a' uh g by (simp add: slabPageKeys_address [OF inv p])
  have sub: "unat (a - ?s) = unat a - unat ?s" using a' uh by (simp add: unat_minus_u64)
  have "(unat a - unat ?s) div unat (sc_slotStride ?c) = i"
    using a' uh g by (intro div_nat_eqI) (simp_all add: mult.commute)
  then have d: "unat ((a - ?s) div sc_slotStride ?c) = i" by (simp add: unat_div sub)
  have "(a - ?s) div sc_slotStride ?c = of_nat (unat ((a - ?s) div sc_slotStride ?c))" by simp
  then have "(a - ?s) div sc_slotStride ?c = of_nat i" by (simp only: d)
  moreover have "\<not> of_nat i \<ge> sc_slotsPerPage ?c"
    using i d calculation by (simp add: word_le_nat_alt)
  moreover have "slabHeaderAt st ?p (of_nat i) = h" using i0(2) by (simp add: slotAddr_def)
  ultimately show "findOwningSlabAllocation st a ?p = Some h"
    using heapInv_header [OF inv h(1)] h(2) a
    by (simp add: findOwningSlabAllocation_def Let_def pageClass_def [symmetric] isSlab_def)
qed

lemma find_SomeD: "List.find P ys = Some y \<Longrightarrow> y \<in> set ys \<and> P y"
  by (auto simp: find_Some_iff)

lemma slab_lookup:
  assumes "soundHeap clean st xs"
  shows "slabPagesByAddressPage st (allocationPageForAddress a) = Some p \<longleftrightarrow>
    p \<in> set (slabPageStorage st) \<and> unat (sp_pageStart (pages st p)) \<le> unat a \<and> unat a < unat (sp_pageStart (pages st p)) + 65536"
  using assms slabPageKeys_address [OF assms, of p a] by (auto simp: soundHeap_def invSlabTable_def)

text \<open>A payload outside the slab pages lies in a block of its own.\<close>

lemma system_not_in_page:
  assumes inv: "soundHeap clean st xs" and h: "h \<in> set xs" "\<not> isSlab st h" and a: "inPayload st a h"
  shows "slabPagesByAddressPage st (allocationPageForAddress a) = None"
proof (rule ccontr)
  assume "slabPagesByAddressPage st (allocationPageForAddress a) \<noteq> None"
  then obtain p where "slabPagesByAddressPage st (allocationPageForAddress a) = Some p" by blast
  then have p: "p \<in> set (slabPageStorage st)" "unat (sp_pageStart (pages st p)) \<le> unat a"
      "unat a < unat (sp_pageStart (pages st p)) + 65536"
    by (simp_all add: slab_lookup [OF inv])
  have ok: "pageOk st p" by (rule heapInv_page(1) [OF inv p(1)])
  have "sysOk st h" using inv h by (simp add: soundHeap_def invSystem_def)
  then obtain n where n: "mallocBlocks st (ah_storageOwner (hdrs st h)) = Some n"
    "unat (ah_storageOwner (hdrs st h)) \<le> unat h"
    "unat h + 80 + unat (ah_payloadSize (hdrs st h)) \<le> unat (ah_storageOwner (hdrs st h)) + unat n"
    "sp_allocationBase (pages st p) \<noteq> ah_storageOwner (hdrs st h)"
    using p(1) by (auto simp: sysOk_def)
  have page: "mallocBlocks st (sp_allocationBase (pages st p)) = Some 69631"
    using ok by (simp add: pageOk_def)
  have "invBlocks st" using inv by (simp add: soundHeap_def)
  then have "unat (ah_storageOwner (hdrs st h)) + unat n \<le> unat (sp_allocationBase (pages st p)) \<or>
      unat (sp_allocationBase (pages st p)) + unat (69631 :: u64) \<le> unat (ah_storageOwner (hdrs st h))"
    using n(1,4) page unfolding invBlocks_def by blast
  then have "unat (ah_storageOwner (hdrs st h)) + unat n \<le> unat (sp_allocationBase (pages st p)) \<or>
      unat (sp_allocationBase (pages st p)) + 69631 \<le> unat (ah_storageOwner (hdrs st h))" by simp
  then show False using p n ok a by (auto simp: inPayload_iff [OF inv h(1)] pageOk_def)
qed

lemma findOwning_sound:
  assumes inv: "soundHeap clean st xs" and f: "findOwningAllocation st a = Some h"
  shows "h \<in> set xs \<and> inPayload st a h \<or> staleOwner st a h"
proof -
  let ?k = "allocationPageForAddress a"
  have tab: "invSysTable st xs" using inv by (simp add: soundHeap_def)
  show ?thesis
  proof (cases "\<exists>p. slabPagesByAddressPage st ?k = Some p \<and> findOwningSlabAllocation st a p = Some h")
    case True
    then obtain p where p: "slabPagesByAddressPage st ?k = Some p"
      "findOwningSlabAllocation st a p = Some h" by blast
    then show ?thesis using findSlab_sound [OF inv _ _ p(2)] by (simp add: slab_lookup [OF inv])
  next
    case False
    with f obtain b where b: "systemHeadersByPage st ?k = Some b"
      "List.find (\<lambda>header. ah_live (hdrs st header) \<and> inPayload st a header) b = Some h"
      by (auto simp: findOwningAllocation_def Let_def split: if_splits option.splits)
    have "set (bucketAt st ?k) \<subseteq> set xs" using tab by (auto simp: invSysTable_def)
    with b(1) find_SomeD [OF b(2)] show ?thesis by (auto simp: bucketAt_def)
  qed
qed

lemma address_not_reserved: "soundHeap clean st xs \<Longrightarrow> \<not> isReservedDenseMapKey st (allocationPageForAddress a)"
  by (intro page_not_reserved) (simp add: soundHeap_def)

lemma findOwning_stale:
  assumes inv: "soundHeap clean st xs" and s: "staleOwner st a h"
  shows "findOwningAllocation st a = Some h"
proof -
  obtain p i where u: "unusedSlot st p i" "h = slotAddr st p i" "looksLive (hdrs st (slotAddr st p i))"
    "inPayload st a (slotAddr st p i)"
    "unat (sp_pageStart (pages st p)) + i * unat (sc_slotStride (pageClass st p)) \<le> unat a"
    "unat a < unat (sp_pageStart (pages st p)) + Suc i * unat (sc_slotStride (pageClass st p))"
    using s unfolding staleOwner_def by blast
  note f = findSlab_stale [OF inv u(1,3-6)]
  have "slabPagesByAddressPage st (allocationPageForAddress a) = Some p"
    using inv f(1) u(1) by (simp add: soundHeap_def invSlabTable_def unusedSlot_def)
  then show ?thesis using f(2) u(2) address_not_reserved [OF inv, of a] by (simp add: findOwningAllocation_def Let_def)
qed

lemma findOwning_complete:
  assumes inv: "soundHeap clean st xs" and h: "h \<in> set xs" and a: "inPayload st a h"
  shows "findOwningAllocation st a = Some h"
proof (cases "isSlab st h")
  case True
  let ?p = "ah_storageOwner (hdrs st h)"
  have "slabPagesByAddressPage st (allocationPageForAddress a) = Some ?p"
    using inv heapInv_slab_owner(1) [OF inv h True] findSlab_complete(1) [OF inv h True a]
    by (simp add: soundHeap_def invSlabTable_def)
  then show ?thesis
    using findSlab_complete(2) [OF inv h True a] address_not_reserved [OF inv, of a] by (simp add: findOwningAllocation_def Let_def)
next
  case False
  have tab: "invSysTable st xs" using inv by (simp add: soundHeap_def)
  have "h \<in> set (bucketAt st (allocationPageForAddress a))"
    using tab h False headerPages_mem [OF inv h a] by (simp add: invSysTable_def)
  then obtain b where b: "systemHeadersByPage st (allocationPageForAddress a) = Some b" "h \<in> set b"
    by (cases "systemHeadersByPage st (allocationPageForAddress a)") (auto simp: bucketAt_def)
  let ?P = "\<lambda>header. ah_live (hdrs st header) \<and> inPayload st a header"
  have "List.find ?P b \<noteq> None"
    using a b(2) heapInv_header(1) [OF inv h] by (auto simp: find_None_iff)
  then obtain g where g: "List.find ?P b = Some g" by blast
  have "set (bucketAt st (allocationPageForAddress a)) \<subseteq> set xs" using tab by (auto simp: invSysTable_def)
  with b(1) find_SomeD [OF g] have "g \<in> set xs" "inPayload st a g" by (auto simp: bucketAt_def)
  then have "g = h" using inPayload_unique [OF inv _ h _ a] by blast
  then show ?thesis
    using g b(1) system_not_in_page [OF inv h False a] address_not_reserved [OF inv, of a]
    by (simp add: findOwningAllocation_def Let_def)
qed

text \<open>The answer of the lookup, whatever the memory of unused slots holds: the active allocation of the address, or the
  stale header of an unused slot.\<close>

lemma findOwning_exact:
  assumes inv: "soundHeap clean st xs"
  shows "findOwningAllocation st a = Some h \<longleftrightarrow> h \<in> set xs \<and> inPayload st a h \<or> staleOwner st a h"
  using findOwning_sound [OF inv, of a h] findOwning_complete [OF inv, of h a] findOwning_stale [OF inv, of a h] by blast

lemma findOwning_iff:
  assumes inv: "soundHeap True st xs"
  shows "findOwningAllocation st a = Some h \<longleftrightarrow> h \<in> set xs \<and> inPayload st a h"
  using findOwning_exact [OF inv, of a h] clean_no_stale [OF inv] by blast

end
