(* ===== verification/Heap_Tables.thy ===== *)
theory Heap_Tables
  imports Heap_Geometry
begin

text \<open>
  The two page tables: what registering and unregistering an allocation or a slab page does to
  them, and that the abort branches on reserved keys are never taken.
\<close>

section \<open>System allocations by page\<close>

lemma bucketAt_upd [simp]:
  "bucketAt (st\<lparr>systemHeadersByPage := tab\<rparr>) k = (case tab k of None \<Rightarrow> [] | Some b \<Rightarrow> b)"
  by (simp add: bucketAt_def)

lemma headerPages_small: "k \<in> set (headerPages st h) \<Longrightarrow> unat k < 4503599627370496"
  using page_lt by (auto simp: headerPages_def pageRange_mem intro: le_less_trans)

lemma slabPageKeys_small: "k \<in> set (slabPageKeys st h) \<Longrightarrow> unat k < 4503599627370496"
  using page_lt by (auto simp: slabPageKeys_def pageRange_mem intro: le_less_trans)

lemma small_not_reserved:
  "invKeys st \<Longrightarrow> unat k < 4503599627370496 \<Longrightarrow> \<not> isReservedDenseMapKey st k"
  by (auto simp: isReservedDenseMapKey_def invKeys_def)

lemma registerPagesLoop_table:
  assumes "invKeys st" "\<forall>k \<in> set ks. unat k < 4503599627370496" "distinct ks"
  shows "\<exists>tab. registerPagesLoop h ks st = Inr (st\<lparr>systemHeadersByPage := tab\<rparr>) \<and>
    (\<forall>k. tab k = (if k \<in> set ks then Some (bucketAt st k @ [h]) else systemHeadersByPage st k))"
  using assms
proof (induction ks arbitrary: st)
  case Nil
  show ?case by (rule exI [of _ "systemHeadersByPage st"]) simp
next
  case (Cons k ks)
  let ?st = "st\<lparr>systemHeadersByPage := (systemHeadersByPage st)(k \<mapsto> bucketAt st k @ [h])\<rparr>"
  have "invKeys ?st" using Cons.prems(1) by (simp add: invKeys_def)
  with Cons obtain tab where t: "registerPagesLoop h ks ?st = Inr (?st\<lparr>systemHeadersByPage := tab\<rparr>)"
    "\<forall>j. tab j = (if j \<in> set ks then Some (bucketAt ?st j @ [h]) else systemHeadersByPage ?st j)"
    by (metis distinct.simps(2) list.set_intros(2))
  have "\<not> isReservedDenseMapKey st k" using Cons.prems by (simp add: small_not_reserved)
  then have "registerPagesLoop h (k # ks) st = Inr (st\<lparr>systemHeadersByPage := tab\<rparr>)"
    using t(1) by (simp add: bucketAt_def)
  moreover have "\<forall>j. tab j = (if j \<in> set (k # ks) then Some (bucketAt st j @ [h]) else systemHeadersByPage st j)"
    using t(2) Cons.prems(3) by (auto simp: bucketAt_def)
  ultimately show ?case by blast
qed

lemma registerSystem_table:
  assumes "invKeys st"
  obtains tab where "registerSystemAllocationPages h st = Inr (st\<lparr>systemHeadersByPage := tab\<rparr>)"
    "\<And>k. tab k = (if k \<in> set (headerPages st h) then Some (bucketAt st k @ [h])
                  else systemHeadersByPage st k)"
  using registerPagesLoop_table [OF assms, of "headerPages st h" h] headerPages_small
    distinct_pageRange by (fastforce simp: registerSystemAllocationPages_def headerPages_def)

lemma swapRemove_notin [simp]: "h \<notin> set b \<Longrightarrow> swapRemove h b = b"
  by (induction b) auto

lemma swapRemove_mset: "h \<in> set b \<Longrightarrow> distinct b \<Longrightarrow> distinct (swapRemove h b) \<and> set (swapRemove h b) = set b - {h}"
proof (induction b)
  case Nil
  then show ?case by simp
next
  case (Cons x xs)
  show ?case
  proof (cases "x = h")
    case False
    with Cons show ?thesis by auto
  next
    case True
    show ?thesis
    proof (cases "xs = []")
      case True
      with \<open>x = h\<close> show ?thesis by simp
    next
      case False
      then have e: "butlast xs @ [last xs] = xs" by simp
      then have "distinct (butlast xs @ [last xs])" "set (butlast xs @ [last xs]) = set xs"
        using Cons.prems by simp_all
      then have "distinct (last xs # butlast xs)" "set (last xs # butlast xs) = set xs" by auto
      with True False Cons.prems show ?thesis by auto
    qed
  qed
qed

lemma unregisterPagesLoop_table:
  assumes "distinct ks"
  shows "\<exists>tab. unregisterPagesLoop h ks st = st\<lparr>systemHeadersByPage := tab\<rparr> \<and>
    (\<forall>k. tab k = (if k \<in> set ks \<and> systemHeadersByPage st k \<noteq> None
       then (if swapRemove h (bucketAt st k) = [] then None else Some (swapRemove h (bucketAt st k)))
       else systemHeadersByPage st k))"
  using assms
proof (induction ks arbitrary: st)
  case Nil
  show ?case by (rule exI [of _ "systemHeadersByPage st"]) simp
next
  case (Cons k ks)
  show ?case
  proof (cases "systemHeadersByPage st k")
    case None
    from Cons.IH [of st] Cons.prems obtain tab where
      "unregisterPagesLoop h ks st = st\<lparr>systemHeadersByPage := tab\<rparr>"
      "\<forall>j. tab j = (if j \<in> set ks \<and> systemHeadersByPage st j \<noteq> None
         then (if swapRemove h (bucketAt st j) = [] then None else Some (swapRemove h (bucketAt st j)))
         else systemHeadersByPage st j)" by auto
    note t = this
    have "unregisterPagesLoop h (k # ks) st = st\<lparr>systemHeadersByPage := tab\<rparr>" using t(1) None by simp
    moreover have "\<forall>j. tab j = (if j \<in> set (k # ks) \<and> systemHeadersByPage st j \<noteq> None
         then (if swapRemove h (bucketAt st j) = [] then None else Some (swapRemove h (bucketAt st j)))
         else systemHeadersByPage st j)"
      using t(2) None by auto
    ultimately show ?thesis by blast
  next
    case (Some b)
    let ?b = "swapRemove h b"
    let ?st = "st\<lparr>systemHeadersByPage := (systemHeadersByPage st)(k := (if ?b = [] then None else Some ?b))\<rparr>"
    from Cons.IH [of ?st] Cons.prems obtain tab where t:
      "unregisterPagesLoop h ks ?st = ?st\<lparr>systemHeadersByPage := tab\<rparr>"
      "\<forall>j. tab j = (if j \<in> set ks \<and> systemHeadersByPage ?st j \<noteq> None
         then (if swapRemove h (bucketAt ?st j) = [] then None else Some (swapRemove h (bucketAt ?st j)))
         else systemHeadersByPage ?st j)" by auto
    have "unregisterPagesLoop h (k # ks) st = st\<lparr>systemHeadersByPage := tab\<rparr>"
      using t(1) Some by (simp add: Let_def)
    moreover have "\<forall>j. tab j = (if j \<in> set (k # ks) \<and> systemHeadersByPage st j \<noteq> None
         then (if swapRemove h (bucketAt st j) = [] then None else Some (swapRemove h (bucketAt st j)))
         else systemHeadersByPage st j)"
      using t(2) Cons.prems Some by (auto simp: bucketAt_def)
    ultimately show ?thesis by blast
  qed
qed

lemma unregisterSystem_table:
  obtains tab where "unregisterSystemAllocationPages h st = st\<lparr>systemHeadersByPage := tab\<rparr>"
    "\<And>k. tab k = (if k \<in> set (headerPages st h) \<and> systemHeadersByPage st k \<noteq> None
       then (if swapRemove h (bucketAt st k) = [] then None else Some (swapRemove h (bucketAt st k)))
       else systemHeadersByPage st k)"
proof -
  have "distinct (headerPages st h)" by (simp add: headerPages_def distinct_pageRange)
  from unregisterPagesLoop_table [OF this, of h st] obtain tab where
    "unregisterPagesLoop h (headerPages st h) st = st\<lparr>systemHeadersByPage := tab\<rparr>"
    "\<forall>k. tab k = (if k \<in> set (headerPages st h) \<and> systemHeadersByPage st k \<noteq> None
       then (if swapRemove h (bucketAt st k) = [] then None else Some (swapRemove h (bucketAt st k)))
       else systemHeadersByPage st k)" by blast
  with that show ?thesis by (simp add: unregisterSystemAllocationPages_def)
qed

section \<open>Slab pages by page\<close>

lemma registerSlabKeysLoop_table:
  assumes "invKeys st" "\<forall>k \<in> set ks. unat k < 4503599627370496"
  shows "\<exists>tab. registerSlabKeysLoop p ks st = Inr (st\<lparr>slabPagesByAddressPage := tab\<rparr>) \<and>
    (\<forall>k. tab k = (if k \<in> set ks then Some p else slabPagesByAddressPage st k))"
  using assms
proof (induction ks arbitrary: st)
  case Nil
  show ?case by (rule exI [of _ "slabPagesByAddressPage st"]) simp
next
  case (Cons k ks)
  let ?st = "st\<lparr>slabPagesByAddressPage := (slabPagesByAddressPage st)(k \<mapsto> p)\<rparr>"
  have "invKeys ?st" using Cons.prems(1) by (simp add: invKeys_def)
  with Cons obtain tab where t: "registerSlabKeysLoop p ks ?st = Inr (?st\<lparr>slabPagesByAddressPage := tab\<rparr>)"
    "\<forall>j. tab j = (if j \<in> set ks then Some p else slabPagesByAddressPage ?st j)"
    by (metis list.set_intros(2))
  have "\<not> isReservedDenseMapKey st k" using Cons.prems by (simp add: small_not_reserved)
  then have "registerSlabKeysLoop p (k # ks) st = Inr (st\<lparr>slabPagesByAddressPage := tab\<rparr>)"
    using t(1) by simp
  moreover have "\<forall>j. tab j = (if j \<in> set (k # ks) then Some p else slabPagesByAddressPage st j)"
    using t(2) by auto
  ultimately show ?case by blast
qed

lemma registerSlab_table:
  assumes "invKeys st"
  obtains tab where "registerSlabPageMappings p st = Inr (st\<lparr>slabPagesByAddressPage := tab\<rparr>)"
    "\<And>k. tab k = (if k \<in> set (slabPageKeys st p) then Some p else slabPagesByAddressPage st k)"
  using registerSlabKeysLoop_table [OF assms, of "slabPageKeys st p" p] slabPageKeys_small
  by (fastforce simp: registerSlabPageMappings_def)

lemma unregisterSlabKeysLoop_table:
  "unregisterSlabKeysLoop ks st =
     st\<lparr>slabPagesByAddressPage := \<lambda>k. if k \<in> set ks then None else slabPagesByAddressPage st k\<rparr>"
proof (induction ks arbitrary: st)
  case Nil
  show ?case by simp
next
  case (Cons k ks)
  show ?case unfolding unregisterSlabKeysLoop.simps Cons.IH
    by (auto intro!: arg_cong [where f = "\<lambda>t. st\<lparr>slabPagesByAddressPage := t\<rparr>"])
qed

lemma unregisterSlab_table:
  "unregisterSlabPageMappings p st =
     st\<lparr>slabPagesByAddressPage :=
       \<lambda>k. if k \<in> set (slabPageKeys st p) then None else slabPagesByAddressPage st k\<rparr>"
  by (simp add: unregisterSlabPageMappings_def unregisterSlabKeysLoop_table)

end
