(* ===== verification/Heap_System.thy ===== *)
theory Heap_System
  imports Heap_Tables
begin

text \<open>
  Allocations outside the slab allocator: \<open>allocateSystemTrackedLocked\<close> and the system branch of
  \<open>reclaimAllocation\<close> keep the heap invariant.
\<close>

section \<open>What \<open>std::malloc\<close> promises\<close>

text \<open>A block that \<open>malloc\<close> hands out was not handed out before, lies in the address space and
  does not overlap a block in use.\<close>

definition mallocFresh :: "heap \<Rightarrow> addr \<Rightarrow> u64 \<Rightarrow> bool" where
  "mallocFresh st raw n \<longleftrightarrow> mallocBlocks st raw = None \<and> unat raw + unat n < 18446744073709551616 \<and>
     (\<forall>b m. mallocBlocks st b = Some m \<longrightarrow>
        unat raw + unat n \<le> unat b \<or> unat b + unat m \<le> unat raw)"

definition mallocContract :: "heap \<Rightarrow> (u64 \<Rightarrow> addr) \<Rightarrow> bool" where
  "mallocContract st f \<longleftrightarrow> (\<forall>n. f n \<noteq> 0 \<longrightarrow> mallocFresh st (f n) n)"

lemma fresh_not_active:
  assumes "soundHeap clean st xs" "mallocFresh st raw n" "unat raw \<le> unat a" "unat a < unat raw + unat n"
  shows "a \<notin> set xs"
proof
  assume "a \<in> set xs"
  obtain m where m: "mallocBlocks st (homeBlock st a) = Some m" "unat (homeBlock st a) \<le> unat a"
    "unat a + 80 + unat (ah_payloadSize (hdrs st a)) \<le> unat (homeBlock st a) + unat m"
    by (rule home_block [OF assms(1) \<open>a \<in> set xs\<close>])
  then have "unat raw + unat n \<le> unat (homeBlock st a) \<or> unat (homeBlock st a) + unat m \<le> unat raw"
    using assms(2) by (simp add: mallocFresh_def)
  with assms(3,4) m show False by linarith
qed

lemma fresh_not_slot:
  assumes "soundHeap clean st xs" "mallocFresh st raw n" "unat raw \<le> unat a" "unat a < unat raw + unat n"
    "p \<in> set (slabPageStorage st)" "i < unat (sc_slotsPerPage (pageClass st p))"
  shows "slotAddr st p i \<noteq> a"
proof
  assume e: "slotAddr st p i = a"
  note r = slot_region [OF assms(1,5,6), unfolded e] and ok = heapInv_page(1) [OF assms(1,5)]
  from ok have "mallocBlocks st (sp_allocationBase (pages st p)) = Some 69631" by (simp add: pageOk_def)
  with assms(2) have "unat raw + unat n \<le> unat (sp_allocationBase (pages st p)) \<or>
      unat (sp_allocationBase (pages st p)) + 69631 \<le> unat raw"
    by (fastforce simp: mallocFresh_def)
  with assms(3,4) r ok show False by (auto simp: pageOk_def)
qed

lemma system_not_slot:
  assumes "soundHeap clean st xs" "h \<in> set xs" "\<not> isSlab st h"
    "p \<in> set (slabPageStorage st)" "i < unat (sc_slotsPerPage (pageClass st p))"
  shows "slotAddr st p i \<noteq> h"
proof
  assume e: "slotAddr st p i = h"
  let ?b = "sp_allocationBase (pages st p)" and ?o = "ah_storageOwner (hdrs st h)"
  note r = slot_region [OF assms(1,4,5), unfolded e] and ok = heapInv_page(1) [OF assms(1,4)]
  from heapInv_sys [OF assms(1-3)] obtain n where n: "mallocBlocks st ?o = Some n"
    "unat ?o \<le> unat h" "unat h + 80 + unat (ah_payloadSize (hdrs st h)) \<le> unat ?o + unat n"
    and ne: "?b \<noteq> ?o" using assms(4) by (auto simp: sysOk_def)
  from ok have "mallocBlocks st ?b = Some 69631" by (simp add: pageOk_def)
  from heapInv_blocks_disjoint [OF assms(1) this n(1) ne] r ok n(2,3) show False
    by (auto simp: pageOk_def)
qed

section \<open>Steps that leave the slab allocator alone\<close>

definition sameSlab :: "heap \<Rightarrow> heap \<Rightarrow> bool" where
  "sameSlab st st' \<longleftrightarrow> pages st' = pages st \<and> classes st' = classes st \<and>
     slabClassByKey st' = slabClassByKey st \<and> slabClassStorage st' = slabClassStorage st \<and>
     slabPageStorage st' = slabPageStorage st \<and>
     slabPagesByAddressPage st' = slabPagesByAddressPage st \<and>
     denseMapEmptyKey st' = denseMapEmptyKey st \<and> denseMapTombstoneKey st' = denseMapTombstoneKey st"

lemma sameSlab_simps:
  assumes "sameSlab st st'"
  shows "pages st' = pages st" "classes st' = classes st" "slabPageStorage st' = slabPageStorage st"
    "slabClassStorage st' = slabClassStorage st"
    "slotAddr st' = slotAddr st" "pageClass st' = pageClass st" "slabPageKeys st' = slabPageKeys st"
    "invKeys st' = invKeys st" "invClasses st' = invClasses st" "invSlabTable st' = invSlabTable st"
    "invNonFull st' = invNonFull st"
proof -
  have e: "slabPageHasFreeSlots st' = slabPageHasFreeSlots st"
    using assms by (intro ext) (simp add: sameSlab_def slabPageHasFreeSlots_def)
  have k: "slabPageKeys st' = slabPageKeys st"
    using assms by (intro ext) (simp add: sameSlab_def slabPageKeys_def)
  show "pages st' = pages st" "classes st' = classes st" "slabPageStorage st' = slabPageStorage st"
    "slabClassStorage st' = slabClassStorage st"
    "slotAddr st' = slotAddr st" "pageClass st' = pageClass st" "slabPageKeys st' = slabPageKeys st"
    "invKeys st' = invKeys st" "invClasses st' = invClasses st" "invSlabTable st' = invSlabTable st"
    "invNonFull st' = invNonFull st"
    using assms k e
    by (auto simp: sameSlab_def slotAddr_def slabHeaderAt_def Let_def pageClass_def invKeys_def
        invClasses_def invSlabTable_def invNonFull_def nonFullChain_def pagesWithRoom_def fun_eq_iff)
qed

lemma freeListOn_cong:
  assumes "freeListOn st xs p fl"
    and "sp_freeList (pages st' p) = sp_freeList (pages st p)"
    and "sp_nextUnusedSlot (pages st' p) = sp_nextUnusedSlot (pages st p)"
    and "\<And>i. i < unat (sp_nextUnusedSlot (pages st p)) \<Longrightarrow> slotAddr st' p i = slotAddr st p i"
    and "liveOn st' xs' p = liveOn st xs p"
    and "\<And>a. a \<in> set fl \<Longrightarrow> ah_next (hdrs st' a) = ah_next (hdrs st a) \<and> ah_live (hdrs st' a) = ah_live (hdrs st a)"
  shows "freeListOn st' xs' p fl"
proof -
  have "slotAddr st' p ` {..< unat (sp_nextUnusedSlot (pages st p))} =
      slotAddr st p ` {..< unat (sp_nextUnusedSlot (pages st p))}"
    using assms(4) by (intro image_cong) auto
  moreover have "sll (\<lambda>a. ah_next (hdrs st' a)) (sp_freeList (pages st p)) fl \<longleftrightarrow>
      sll (\<lambda>a. ah_next (hdrs st a)) (sp_freeList (pages st p)) fl"
    by (rule sll_cong) (use assms(6) in auto)
  ultimately show ?thesis using assms by (auto simp: freeListOn_def)
qed

lemma freeListOn_slot:
  assumes "soundHeap clean st xs" "p \<in> set (slabPageStorage st)" "freeListOn st xs p fl" "a \<in> set fl"
  obtains i where "i < unat (sc_slotsPerPage (pageClass st p))" "a = slotAddr st p i"
    "i < unat (sp_nextUnusedSlot (pages st p))"
proof -
  have "a \<in> slotAddr st p ` {..< unat (sp_nextUnusedSlot (pages st p))}"
    using assms(3,4) by (auto simp: freeListOn_def)
  then obtain i where "i < unat (sp_nextUnusedSlot (pages st p))" "a = slotAddr st p i" by blast
  with nextUnused_le [OF assms(1,2)] that show ?thesis by auto
qed

lemma freeListOn_not_active:
  assumes "soundHeap clean st xs" "freeListOn st xs p fl" "a \<in> set fl"
  shows "a \<notin> set xs"
  using assms heapInv_header(1) [OF assms(1)] by (auto simp: freeListOn_def)

section \<open>Adding a system allocation\<close>

lemma headerPages_cong:
  "ah_payloadSize (hdrs st' h) = ah_payloadSize (hdrs st h) \<Longrightarrow> headerPages st' h = headerPages st h"
  by (simp add: headerPages_def)

lemma heapInv_add_system:
  assumes inv: "soundHeap clean st xs" and slab: "sameSlab st st'"
    and core: "\<And>a. a \<noteq> h \<Longrightarrow> hdrCore (hdrs st' a) = hdrCore (hdrs st a)"
    and nxt: "\<And>a. a \<noteq> h \<Longrightarrow> ah_next (hdrs st' a) = ah_next (hdrs st a)"
    and h: "\<not> isSlab st' h" "ah_live (hdrs st' h)" "ah_magic (hdrs st' h) = kAllocationMagic"
      "ah_payloadSize (hdrs st' h) \<noteq> 0" "ah_storageOwner (hdrs st' h) = raw"
    and blocks: "mallocBlocks st' = (mallocBlocks st)(raw \<mapsto> n)" "mallocFresh st raw n" "raw \<noteq> 0"
    and pos: "unat raw \<le> unat h" "unat h + 80 + unat (ah_payloadSize (hdrs st' h)) \<le> unat raw + unat n"
    and tab: "\<And>k. systemHeadersByPage st' k =
      (if k \<in> set (headerPages st' h) then Some (bucketAt st k @ [h]) else systemHeadersByPage st k)"
    and chain: "activeChain st' (h # xs)"
  shows "soundHeap clean st' (h # xs)"
proof -
  note same = sameSlab_simps [OF slab] and fields = hdrCore_fields [OF core]
  have hn: "unat h < unat raw + unat n" using pos by linarith
  have hx: "h \<notin> set xs" by (rule fresh_not_active [OF inv blocks(2) pos(1) hn])
  have slot: "slotAddr st p i \<noteq> h"
    if "p \<in> set (slabPageStorage st)" "i < unat (sc_slotsPerPage (pageClass st p))" for p i
    by (rule fresh_not_slot [OF inv blocks(2) pos(1) hn that])
  have old: "isSlab st' x = isSlab st x" "ah_storageOwner (hdrs st' x) = ah_storageOwner (hdrs st x)"
    "ah_payloadSize (hdrs st' x) = ah_payloadSize (hdrs st x)" if "x \<in> set xs" for x
  proof -
    from that hx have "x \<noteq> h" by blast
    from fields [OF this]
    show "isSlab st' x = isSlab st x" "ah_storageOwner (hdrs st' x) = ah_storageOwner (hdrs st x)"
      "ah_payloadSize (hdrs st' x) = ah_payloadSize (hdrs st x)" by (simp_all add: isSlab_def)
  qed
  have rawNone: "mallocBlocks st raw = None" using blocks(2) by (simp add: mallocFresh_def)
  have live: "liveOn st' (h # xs) p = liveOn st xs p" for p
    using h(1) old hx by (auto simp: liveOn_def)
  have parts: "invKeys st" "invClasses st" "invSlabTable st" "invNonFull st" "invBlocks st" "invPages st"
    "invSystem st xs" "invHeaders st xs" "invSlots st xs" "invSysTable st xs" "clean \<longrightarrow> invClean st"
    using inv by (simp_all add: soundHeap_def)
  have "invBlocks st'"
    unfolding invBlocks_def
  proof (intro allI impI conjI)
    fix b m b' m'
    assume b: "mallocBlocks st' b = Some m"
    show "0 < unat b" "unat b + unat m < 18446744073709551616"
      using b parts(5) blocks by (auto simp: invBlocks_def mallocFresh_def unat_gt_0 split: if_splits)
    assume b': "mallocBlocks st' b' = Some m'" "b' \<noteq> b"
    show "unat b + unat m \<le> unat b' \<or> unat b' + unat m' \<le> unat b"
      using b b' parts(5) blocks
      by (auto simp: invBlocks_def mallocFresh_def split: if_splits)
  qed
  moreover have "invPages st'"
    using parts(6) rawNone by (auto simp: invPages_def pageOk_def same blocks(1))
  moreover have "invSystem st' (h # xs)"
    unfolding invSystem_def
  proof
    show "\<forall>x \<in> set (h # xs). \<not> isSlab st' x \<longrightarrow> sysOk st' x"
    proof (intro ballI impI)
      fix x assume x: "x \<in> set (h # xs)" "\<not> isSlab st' x"
      show "sysOk st' x"
      proof (cases "x = h")
        case True
        have "sp_allocationBase (pages st p) \<noteq> raw" if "p \<in> set (slabPageStorage st)" for p
          using heapInv_page(1) [OF inv that] rawNone by (auto simp: pageOk_def)
        with True h(5) pos show ?thesis by (auto simp: sysOk_def blocks(1) same)
      next
        case False
        with x have "sysOk st x" using heapInv_sys [OF inv, of x] old by auto
        with False x old [of x] rawNone show ?thesis by (auto simp: sysOk_def blocks(1) same)
      qed
    qed
    have sets: "{x \<in> set (h # xs). \<not> isSlab st' x} = insert h {x \<in> set xs. \<not> isSlab st x}"
      using old h(1) by auto
    have "inj_on (\<lambda>x. ah_storageOwner (hdrs st' x)) {x \<in> set xs. \<not> isSlab st x}"
      using parts(7) old by (auto simp: invSystem_def inj_on_def)
    moreover have "ah_storageOwner (hdrs st' h) \<noteq> ah_storageOwner (hdrs st' x)"
      if "x \<in> set xs" "\<not> isSlab st x" for x
      using heapInv_sys [OF inv that] rawNone old [OF that(1)] h(5) by (auto simp: sysOk_def)
    ultimately show "inj_on (\<lambda>h. ah_storageOwner (hdrs st' h)) {x \<in> set (h # xs). \<not> isSlab st' x}"
      unfolding sets inj_on_insert by blast
  qed
  moreover have "invHeaders st' (h # xs)"
    using parts(8) h old fields hx by (auto simp: invHeaders_def same) metis+
  moreover have "invSlots st' (h # xs)"
    unfolding invSlots_def
  proof (intro ballI conjI)
    fix p assume "p \<in> set (slabPageStorage st')"
    then have p: "p \<in> set (slabPageStorage st)" by (simp add: same)
    obtain fl where fl: "freeListOn st xs p fl" by (rule heapInv_freeList [OF inv p])
    have "a \<noteq> h" if "a \<in> set fl" for a
      using freeListOn_slot [OF inv p fl that] slot [OF p] by metis
    then have "freeListOn st' (h # xs) p fl"
      using fields nxt by (intro freeListOn_cong [OF fl]) (simp_all add: same live)
    then show "\<exists>fl. freeListOn st' (h # xs) p fl" by blast
    show "card (liveOn st' (h # xs) p) = unat (sp_liveCount (pages st' p))"
      using parts(9) p by (simp add: live same invSlots_def)
  qed
  moreover have "invSysTable st' (h # xs)"
    unfolding invSysTable_def
  proof
    fix k
    have o: "distinct (bucketAt st k)" "systemHeadersByPage st k \<noteq> Some []"
      "set (bucketAt st k) = {x \<in> set xs. \<not> isSlab st x \<and> k \<in> set (headerPages st x)}"
      using parts(10) by (simp_all add: invSysTable_def)
    have hp: "headerPages st' x = headerPages st x" if "x \<in> set xs" for x
      by (rule headerPages_cong [OF old(3) [OF that]])
    have b: "bucketAt st' k = (if k \<in> set (headerPages st' h) then bucketAt st k @ [h] else bucketAt st k)"
      by (simp add: bucketAt_def tab)
    show "distinct (bucketAt st' k) \<and> systemHeadersByPage st' k \<noteq> Some [] \<and>
        set (bucketAt st' k) = {x \<in> set (h # xs). \<not> isSlab st' x \<and> k \<in> set (headerPages st' x)}"
    proof (intro conjI)
      show "distinct (bucketAt st' k)" using o(1,3) hx by (auto simp: b)
      show "systemHeadersByPage st' k \<noteq> Some []" using o(2) by (simp add: tab)
      show "set (bucketAt st' k) = {x \<in> set (h # xs). \<not> isSlab st' x \<and> k \<in> set (headerPages st' x)}"
        using o(3) hx h(1) old hp by (auto simp: b)
    qed
  qed
  moreover have "clean \<longrightarrow> invClean st'"
    using parts(11) fields slot by (auto simp: invClean_def same looksLive_def)
  ultimately show ?thesis
    using chain parts(1-4) by (simp add: soundHeap_def same)
qed

section \<open>Removing a system allocation\<close>

lemma heapInv_remove_system:
  assumes inv: "soundHeap clean st xs" and hx: "h \<in> set xs" and hs: "\<not> isSlab st h" and slab: "sameSlab st st'"
    and core: "\<And>a. a \<noteq> h \<Longrightarrow> hdrCore (hdrs st' a) = hdrCore (hdrs st a)"
    and nxt: "\<And>a. a \<notin> set xs \<Longrightarrow> ah_next (hdrs st' a) = ah_next (hdrs st a)"
    and blocks: "mallocBlocks st' = (mallocBlocks st)(ah_storageOwner (hdrs st h) := None)"
    and tab: "\<And>k. systemHeadersByPage st' k =
      (if k \<in> set (headerPages st h) \<and> systemHeadersByPage st k \<noteq> None
       then (if swapRemove h (bucketAt st k) = [] then None else Some (swapRemove h (bucketAt st k)))
       else systemHeadersByPage st k)"
    and chain: "activeChain st' (remove1 h xs)"
  shows "soundHeap clean st' (remove1 h xs)"
proof -
  let ?xs = "remove1 h xs"
  note same = sameSlab_simps [OF slab] and fields = hdrCore_fields [OF core]
  have d: "distinct xs" using inv by (auto simp: soundHeap_def intro: active.chain_distinct)
  have xs: "set ?xs = set xs - {h}" using d by simp
  have old: "isSlab st' x = isSlab st x" "ah_storageOwner (hdrs st' x) = ah_storageOwner (hdrs st x)"
    "ah_payloadSize (hdrs st' x) = ah_payloadSize (hdrs st x)" if "x \<noteq> h" for x
    using fields [OF that] by (auto simp: isSlab_def)
  have parts: "invKeys st" "invClasses st" "invSlabTable st" "invNonFull st" "invBlocks st" "invPages st"
    "invSystem st xs" "invHeaders st xs" "invSlots st xs" "invSysTable st xs" "clean \<longrightarrow> invClean st"
    using inv by (simp_all add: soundHeap_def)
  have live: "liveOn st' ?xs p = liveOn st xs p" for p
  proof (rule set_eqI)
    fix x show "x \<in> liveOn st' ?xs p \<longleftrightarrow> x \<in> liveOn st xs p"
      by (cases "x = h") (use hs old [of x] in \<open>auto simp: liveOn_def xs\<close>)
  qed
  have "invBlocks st'"
    using parts(5) by (auto simp: invBlocks_def blocks split: if_splits)
  moreover have "invPages st'"
    using parts(6) heapInv_sys [OF inv hx hs] by (auto simp: invPages_def pageOk_def same blocks sysOk_def)
  moreover have "invSystem st' ?xs"
    unfolding invSystem_def
  proof
    have own: "ah_storageOwner (hdrs st x) \<noteq> ah_storageOwner (hdrs st h)"
      if "x \<in> set xs" "x \<noteq> h" "\<not> isSlab st x" for x
      using parts(7) that hx hs by (auto simp: invSystem_def inj_on_def)
    show "\<forall>x \<in> set ?xs. \<not> isSlab st' x \<longrightarrow> sysOk st' x"
      using own heapInv_sys [OF inv] old by (auto simp: xs sysOk_def blocks same)
    show "inj_on (\<lambda>h. ah_storageOwner (hdrs st' h)) {h \<in> set ?xs. \<not> isSlab st' h}"
      using parts(7) old by (auto simp: xs invSystem_def inj_on_def)
  qed
  moreover have "invHeaders st' ?xs"
    using parts(8) old fields by (auto simp: xs invHeaders_def same)
  moreover have "invSlots st' ?xs"
    unfolding invSlots_def
  proof (intro ballI conjI)
    fix p assume "p \<in> set (slabPageStorage st')"
    then have p: "p \<in> set (slabPageStorage st)" by (simp add: same)
    obtain fl where fl: "freeListOn st xs p fl" by (rule heapInv_freeList [OF inv p])
    have "ah_next (hdrs st' a) = ah_next (hdrs st a) \<and> ah_live (hdrs st' a) = ah_live (hdrs st a)"
      if "a \<in> set fl" for a
      using freeListOn_not_active [OF inv fl that] hx nxt [of a] fields(9) [of a] by auto
    then have "freeListOn st' ?xs p fl"
      by (intro freeListOn_cong [OF fl]) (simp_all add: same live)
    then show "\<exists>fl. freeListOn st' ?xs p fl" by blast
    show "card (liveOn st' ?xs p) = unat (sp_liveCount (pages st' p))"
      using parts(9) p by (simp add: live same invSlots_def)
  qed
  moreover have "invSysTable st' ?xs"
    unfolding invSysTable_def
  proof
    fix k
    have o: "distinct (bucketAt st k)" "systemHeadersByPage st k \<noteq> Some []"
      "set (bucketAt st k) = {x \<in> set xs. \<not> isSlab st x \<and> k \<in> set (headerPages st x)}"
      using parts(10) by (simp_all add: invSysTable_def)
    have hp: "headerPages st' x = headerPages st x" if "x \<noteq> h" for x
      by (rule headerPages_cong [OF old(3) [OF that]])
    have b: "bucketAt st' k = (if k \<in> set (headerPages st h) then swapRemove h (bucketAt st k) else bucketAt st k)"
      by (auto simp: bucketAt_def tab split: option.splits)
    have sw: "distinct (swapRemove h (bucketAt st k)) \<and> set (swapRemove h (bucketAt st k)) = set (bucketAt st k) - {h}"
      using swapRemove_mset [OF _ o(1), of h] o(1) by (cases "h \<in> set (bucketAt st k)") simp_all
    show "distinct (bucketAt st' k) \<and> systemHeadersByPage st' k \<noteq> Some [] \<and>
        set (bucketAt st' k) = {x \<in> set ?xs. \<not> isSlab st' x \<and> k \<in> set (headerPages st' x)}"
    proof (intro conjI)
      show "distinct (bucketAt st' k)" using o(1) sw by (simp add: b)
      show "systemHeadersByPage st' k \<noteq> Some []" using o(2) by (simp add: tab)
      show "set (bucketAt st' k) = {x \<in> set ?xs. \<not> isSlab st' x \<and> k \<in> set (headerPages st' x)}"
      proof (rule set_eqI)
        fix x
        show "x \<in> set (bucketAt st' k) \<longleftrightarrow>
            x \<in> {x \<in> set ?xs. \<not> isSlab st' x \<and> k \<in> set (headerPages st' x)}"
          by (cases "x = h") (use o(3) sw hp [of x] old [of x] in \<open>auto simp: b xs\<close>)
      qed
    qed
  qed
  moreover have "clean \<longrightarrow> invClean st'"
    using parts(11) fields system_not_slot [OF inv hx hs] by (auto simp: invClean_def same looksLive_def)
  ultimately show ?thesis
    using chain parts(1-4) by (simp add: soundHeap_def same)
qed

end
