(* ===== verification/Heap_Alloc.thy ===== *)
theory Heap_Alloc
  imports Heap_System
begin

text \<open>
  \<open>allocateSystemTrackedLocked\<close>: where the header and the payload lie in the block obtained from
  \<open>std::malloc\<close>, and that the invariant holds with the new allocation in front of the list.
\<close>

lemma activeChain_cong:
  assumes "activeAllocationHead st' = activeAllocationHead st"
    and "\<And>x. x \<in> set xs \<Longrightarrow> ah_next (hdrs st' x) = ah_next (hdrs st x) \<and> ah_prev (hdrs st' x) = ah_prev (hdrs st x)"
  shows "activeChain st' xs \<longleftrightarrow> activeChain st xs"
proof -
  have "dll_from (\<lambda>a. ah_next (hdrs st' a)) (\<lambda>a. ah_prev (hdrs st' a)) 0 (activeAllocationHead st) xs \<longleftrightarrow>
      dll_from (\<lambda>a. ah_next (hdrs st a)) (\<lambda>a. ah_prev (hdrs st a)) 0 (activeAllocationHead st) xs"
    by (rule dll_from_cong) (use assms(2) in auto)
  then show ?thesis by (simp add: activeChain_def dll_def assms(1))
qed

section \<open>What an allocation achieves\<close>

text \<open>The result of a successful allocation: the invariant for the list with the new header in
  front, the header's contents, the alignment of the payload, and every other allocation as it
  was.\<close>

definition allocationDone ::
  "bool \<Rightarrow> heap \<Rightarrow> addr list \<Rightarrow> AllocationKind \<Rightarrow> u64 \<Rightarrow> u64 \<Rightarrow> u64 \<Rightarrow> addr \<Rightarrow> addr \<Rightarrow> heap \<Rightarrow> bool" where
  "allocationDone clean st xs kind n e a d p st' \<longleftrightarrow>
     p \<noteq> 0 \<and> unat a dvd unat p \<and> p - 80 \<notin> set xs \<and> soundHeap clean st' ((p - 80) # xs) \<and>
     (let h = hdrs st' (p - 80) in ah_kind h = kind \<and> ah_elementCount h = e \<and>
        ah_payloadSize h = max n 1 \<and> ah_typeDescriptor h = d \<and> \<not> ah_marked h) \<and>
     (\<forall>x \<in> set xs. hdrCore (hdrs st' x) = hdrCore (hdrs st x))"

lemma allocateSystem_layout:
  assumes raw: "unat raw + unat tot < 18446744073709551616" "raw \<noteq> 0" and a: "isPowerOfTwo a" "8 \<le> unat a"
    and tot: "unat tot = max (unat n) 1 + (80 + (unat a - 1))"
    and p: "p = alignUp (raw + sizeofAllocationHeader) a"
  shows "unat a dvd unat p" and "unat raw + 80 \<le> unat p"
    and "unat p + max (unat n) 1 \<le> unat raw + unat tot" and "unat (p - 80) = unat p - 80"
    and "payloadAddress (p - 80) = p"
proof -
  have s: "unat (raw + sizeofAllocationHeader) = unat raw + 80"
    using raw(1) tot by (subst unat_plus_u64) (simp_all add: unat_sizeof)
  have "unat (raw + sizeofAllocationHeader) + (unat a - 1) < 18446744073709551616"
    using raw(1) tot unfolding s by simp
  note b = alignUp_bounds [OF a(1) this, folded p, unfolded s]
  show "unat a dvd unat p" "unat raw + 80 \<le> unat p" by (rule b(1), rule b(2))
  show "unat p + max (unat n) 1 \<le> unat raw + unat tot" using b(3) a(2) tot by linarith
  show "unat (p - 80) = unat p - 80" using b(2) by (subst unat_minus_u64) simp_all
  show "payloadAddress (p - 80) = p" by (simp add: payloadAddress_def sizeofAllocationHeader_def)
qed

lemma allocateSystem_done:
  assumes inv: "soundHeap clean st xs" and fresh: "mallocFresh st raw tot" and raw0: "raw \<noteq> 0"
    and a: "isPowerOfTwo a" "8 \<le> unat a"
    and tot: "unat tot = max (unat n) 1 + (80 + (unat a - 1))"
    and p: "p = alignUp (raw + sizeofAllocationHeader) a"
    and st1: "st1 = initializeHeader (p - 80) kind SSystem n e d raw
      (st\<lparr>mallocBlocks := (mallocBlocks st)(raw \<mapsto> tot)\<rparr>)"
  shows "\<exists>st2. registerSystemAllocationPages (p - 80) st1 = Inr st2 \<and>
    allocationDone clean st xs kind n e a d p (linkActiveAllocation (p - 80) st2)"
proof -
  let ?h = "p - 80"
  have raw: "unat raw + unat tot < 18446744073709551616" using fresh by (simp add: mallocFresh_def)
  note lay = allocateSystem_layout [OF raw raw0 a tot p]
  have size: "ah_payloadSize (hdrs st1 ?h) = max n 1" "unat (max n 1) = max (unat n) 1"
    by (simp_all add: st1 initializeHeader_def unat_max1)
  have size0: "max n 1 \<noteq> (0 :: u64)" by (simp add: u64_eq_iff unat_max1)
  have keys: "invKeys st1" using inv by (simp add: soundHeap_def invKeys_def st1 initializeHeader_def)
  obtain tab where reg: "registerSystemAllocationPages ?h st1 = Inr (st1\<lparr>systemHeadersByPage := tab\<rparr>)"
    "\<And>k. tab k = (if k \<in> set (headerPages st1 ?h) then Some (bucketAt st1 k @ [?h])
      else systemHeadersByPage st1 k)" using registerSystem_table [OF keys, of ?h] by blast
  define st2 where "st2 = st1\<lparr>systemHeadersByPage := tab\<rparr>"
  define st' where "st' = linkActiveAllocation ?h st2"
  have pos: "unat raw \<le> unat ?h" "unat ?h < unat raw + unat tot"
    "unat ?h + 80 + max (unat n) 1 \<le> unat raw + unat tot"
    using lay tot by linarith+
  have hx: "?h \<notin> set xs" by (rule fresh_not_active [OF inv fresh pos(1,2)])
  have h0: "?h \<noteq> 0" "p \<noteq> 0"
    using lay(2,4) raw0 by (auto simp: u64_eq_iff)
  have core: "hdrCore (hdrs st' x) = hdrCore (hdrs st x)"
    "ah_next (hdrs st' x) = ah_next (hdrs st x)" if "x \<noteq> ?h" for x
    using that by (simp_all add: st'_def st2_def st1 initializeHeader_def linkActive_next)
  have hdr: "hdrCore (hdrs st' ?h) = hdrCore (hdrs st1 ?h)" by (simp add: st'_def st2_def)
  note fields = hdrCore_fields [OF hdr]
  have hp: "headerPages st' ?h = headerPages st1 ?h" by (rule headerPages_cong) (simp add: fields)
  have chain: "activeChain st2 xs"
  proof -
    have "activeChain st xs" using inv by (simp add: soundHeap_def)
    moreover have "activeChain st2 xs \<longleftrightarrow> activeChain st xs"
      by (rule activeChain_cong) (use hx in \<open>auto simp: st2_def st1 initializeHeader_def\<close>)
    ultimately show ?thesis by simp
  qed
  have "soundHeap clean st' (?h # xs)"
  proof (rule heapInv_add_system [OF inv, where raw = raw and n = tot])
    show "activeChain st' (?h # xs)"
      unfolding st'_def by (rule active.chain_link [OF chain hx h0(1)]) simp
    show "unat ?h + 80 + unat (ah_payloadSize (hdrs st' ?h)) \<le> unat raw + unat tot"
      using pos(3) by (simp add: fields size)
    show "\<And>k. systemHeadersByPage st' k = (if k \<in> set (headerPages st' ?h) then Some (bucketAt st k @ [?h])
        else systemHeadersByPage st k)"
      using reg(2) by (simp add: hp) (simp add: st'_def st2_def st1 initializeHeader_def bucketAt_def)
    show "mallocBlocks st' = (mallocBlocks st)(raw \<mapsto> tot)"
      by (simp add: st'_def st2_def st1 initializeHeader_def)
  qed (use core fresh raw0 pos(1) in \<open>simp_all add: fields sameSlab_def isSlab_def\<close>,
      simp_all add: st'_def st2_def st1 initializeHeader_def size0)
  moreover have "\<forall>x \<in> set xs. hdrCore (hdrs st' x) = hdrCore (hdrs st x)"
    using core(1) hx by metis
  ultimately have "allocationDone clean st xs kind n e a d p st'"
    using h0 hx lay(1) unfolding allocationDone_def Let_def fields
    by (auto simp: st1 initializeHeader_def)
  with reg(1) show ?thesis by (auto simp: st'_def st2_def)
qed

text \<open>What an allocation asks of \<open>malloc\<close>: the payload, the header and the bytes lost to alignment.  It is refused when
  this does not fit in 64 bits or when \<open>malloc\<close> has no memory for it.\<close>

definition systemBytes :: "u64 \<Rightarrow> u64 \<Rightarrow> nat" where
  "systemBytes n a = max (unat n) 1 + (80 + (unat a - 1))"

definition systemRefuses :: "alloc_env \<Rightarrow> u64 \<Rightarrow> u64 \<Rightarrow> bool" where
  "systemRefuses env n a \<longleftrightarrow> 18446744073709551616 \<le> systemBytes n a \<or> env_malloc env (of_nat (systemBytes n a)) = 0"

lemma allocateSystem_ok:
  assumes inv: "soundHeap clean st xs" and env: "mallocContract st (env_malloc env)"
    and a: "isPowerOfTwo a" "8 \<le> unat a"
  shows "allocateSystemTrackedLocked env kind n e a d st = Inr (0, st) \<and> systemRefuses env n a \<or>
    (\<exists>p st'. allocateSystemTrackedLocked env kind n e a d st = Inr (p, st') \<and>
       allocationDone clean st xs kind n e a d p st')"
proof (cases "checkedAdd sizeofAllocationHeader (a - 1)")
  case None
  then have "18446744073709551616 \<le> 80 + (unat a - 1)"
    using a(2) by (simp add: checkedAdd_None unat_sizeof unat_minus_u64)
  then have "18446744073709551616 \<le> systemBytes n a" unfolding systemBytes_def by linarith
  with None show ?thesis by (simp add: allocateSystemTrackedLocked_def systemRefuses_def)
next
  case (Some hp)
  then have hp: "unat hp = 80 + (unat a - 1)"
    using a(2) by (simp add: checkedAdd_Some unat_sizeof unat_minus_u64)
  show ?thesis
  proof (cases "checkedAdd (max n 1) hp")
    case None
    then have "18446744073709551616 \<le> systemBytes n a" by (simp add: checkedAdd_None unat_max1 hp systemBytes_def)
    with None Some show ?thesis by (simp add: allocateSystemTrackedLocked_def systemRefuses_def)
  next
    case (Some tot)
    note t = Some
    then have tot: "unat tot = max (unat n) 1 + (80 + (unat a - 1))"
      by (simp add: checkedAdd_Some unat_max1 hp)
    let ?raw = "env_malloc env tot"
    show ?thesis
    proof (cases "?raw = 0")
      case True
      have "of_nat (systemBytes n a) = tot"
        unfolding systemBytes_def tot [symmetric] by simp
      with True t \<open>checkedAdd sizeofAllocationHeader (a - 1) = Some hp\<close> show ?thesis
        by (simp add: allocateSystemTrackedLocked_def c_malloc_def systemRefuses_def)
    next
      case False
      with env have "mallocFresh st ?raw tot" by (simp add: mallocContract_def)
      from allocateSystem_done [OF inv this False a tot refl refl, of kind e d]
      obtain st2 where r: "registerSystemAllocationPages (alignUp (?raw + sizeofAllocationHeader) a - 80)
          (initializeHeader (alignUp (?raw + sizeofAllocationHeader) a - 80) kind SSystem n e d ?raw
            (st\<lparr>mallocBlocks := (mallocBlocks st)(?raw \<mapsto> tot)\<rparr>)) = Inr st2"
        "allocationDone clean st xs kind n e a d (alignUp (?raw + sizeofAllocationHeader) a)
          (linkActiveAllocation (alignUp (?raw + sizeofAllocationHeader) a - 80) st2)" by blast
      have "sizeofAllocationHeader = 80" by (rule sizeofAllocationHeader_def)
      then have "allocateSystemTrackedLocked env kind n e a d st =
          Inr (alignUp (?raw + sizeofAllocationHeader) a,
               linkActiveAllocation (alignUp (?raw + sizeofAllocationHeader) a - 80) st2)"
        using r(1) t False \<open>checkedAdd sizeofAllocationHeader (a - 1) = Some hp\<close>
        by (simp add: allocateSystemTrackedLocked_def c_malloc_def Let_def)
      with r(2) show ?thesis by blast
    qed
  qed
qed

end
