(* ===== verification/Heap_Room.thy ===== *)
theory Heap_Room
  imports Heap_Alloc
begin

text \<open>
  The lists of pages with room, all slab classes at once: linking and unlinking a page changes the
  list of its own class and no other.
\<close>

lemma nonFullChain_cong:
  assumes "sc_nonFullPages (classes st' c) = sc_nonFullPages (classes st c)"
    and "\<And>x. x \<in> set ps \<Longrightarrow> sp_nextNonFull (pages st' x) = sp_nextNonFull (pages st x) \<and>
      sp_prevNonFull (pages st' x) = sp_prevNonFull (pages st x) \<and>
      sp_slabClass (pages st' x) = sp_slabClass (pages st x)"
  shows "nonFullChain c st' ps \<longleftrightarrow> nonFullChain c st ps"
proof -
  have "dll_from (\<lambda>a. sp_nextNonFull (pages st' a)) (\<lambda>a. sp_prevNonFull (pages st' a)) 0
      (sc_nonFullPages (classes st c)) ps \<longleftrightarrow>
    dll_from (\<lambda>a. sp_nextNonFull (pages st a)) (\<lambda>a. sp_prevNonFull (pages st a)) 0
      (sc_nonFullPages (classes st c)) ps"
    by (rule dll_from_cong) (use assms(2) in auto)
  with assms show ?thesis by (auto simp: nonFullChain_def dll_def)
qed

lemma nonFullChain_head:
  "nonFullChain c st ps \<Longrightarrow> sc_nonFullPages (classes st c) = (if ps = [] then 0 else hd ps)"
  by (cases ps) (auto simp: nonFullChain_def dll_def)

definition nonFullFor :: "heap \<Rightarrow> (addr \<Rightarrow> addr set) \<Rightarrow> bool" where
  "nonFullFor st R \<longleftrightarrow>
     (\<forall>c \<in> set (slabClassStorage st). \<exists>ps. nonFullChain c st ps \<and> set ps = R c) \<and>
     (\<forall>p \<in> set (slabPageStorage st). p \<notin> R (sp_slabClass (pages st p)) \<longrightarrow>
        sp_prevNonFull (pages st p) = 0 \<and> sp_nextNonFull (pages st p) = 0)"

lemma invNonFull_iff: "invNonFull st \<longleftrightarrow> nonFullFor st (pagesWithRoom st)"
  by (auto simp: invNonFull_def nonFullFor_def pagesWithRoom_def)

lemma nonFullFor_chain:
  assumes "nonFullFor st R" "c \<in> set (slabClassStorage st)"
  obtains ps where "nonFullChain c st ps" "set ps = R c"
  using assms by (auto simp: nonFullFor_def)

lemma nonFullFor_out:
  assumes "nonFullFor st R" "p \<in> set (slabPageStorage st)" "p \<notin> R (sp_slabClass (pages st p))"
  shows "sp_prevNonFull (pages st p) = 0" "sp_nextNonFull (pages st p) = 0"
  using assms by (auto simp: nonFullFor_def)

lemma nonFullFor_frame:
  assumes "nonFullFor st R" and "\<And>c. c \<in> set (slabClassStorage st) \<Longrightarrow> R' c = R c"
    and "slabClassStorage st' = slabClassStorage st" "set (slabPageStorage st') \<subseteq> set (slabPageStorage st)"
    and "\<And>p. p \<in> set (slabPageStorage st) \<Longrightarrow> sp_slabClass (pages st p) \<in> set (slabClassStorage st)"
    and "\<And>c. sc_nonFullPages (classes st' c) = sc_nonFullPages (classes st c)"
    and "\<And>x. sp_nextNonFull (pages st' x) = sp_nextNonFull (pages st x)"
    and "\<And>x. sp_prevNonFull (pages st' x) = sp_prevNonFull (pages st x)"
    and "\<And>x. sp_slabClass (pages st' x) = sp_slabClass (pages st x)"
  shows "nonFullFor st' R'"
  unfolding nonFullFor_def
proof (intro conjI ballI impI)
  fix c assume "c \<in> set (slabClassStorage st')"
  then have c: "c \<in> set (slabClassStorage st)" by (simp add: assms(3))
  obtain ps where ps: "nonFullChain c st ps" "set ps = R c" by (rule nonFullFor_chain [OF assms(1) c])
  have "nonFullChain c st' ps" using ps(1) nonFullChain_cong [of st' c st ps] assms(6-9) by simp
  with ps(2) assms(2) [OF c] show "\<exists>ps. nonFullChain c st' ps \<and> set ps = R' c" by auto
next
  fix p assume p: "p \<in> set (slabPageStorage st')" "p \<notin> R' (sp_slabClass (pages st' p))"
  with assms(2,4,5) have "p \<notin> R (sp_slabClass (pages st p))" "p \<in> set (slabPageStorage st)"
    by (auto simp: assms(9))
  with assms(1) show "sp_prevNonFull (pages st' p) = 0" "sp_nextNonFull (pages st' p) = 0"
    by (auto simp: nonFullFor_def assms(7,8))
qed

lemma nonFullFor_link:
  assumes R: "nonFullFor st R" and p: "p \<in> set (slabPageStorage st)" "p \<noteq> 0"
    and c: "sp_slabClass (pages st p) = c" "c \<in> set (slabClassStorage st)"
    and room: "p \<notin> R c" "slabPageHasFreeSlots st p"
  shows "nonFullFor (linkNonFullSlabPage p st) (R(c := insert p (R c)))"
proof -
  let ?st = "linkNonFullSlabPage p st"
  obtain ps where ps: "nonFullChain c st ps" "set ps = R c" by (rule nonFullFor_chain [OF R c(2)])
  have la: "linkablePage c p st" using R p c room by (simp add: linkablePage_def nonFullFor_def)
  have g: "\<not> (p = 0 \<or> isSlabPageLinked st p \<or> \<not> slabPageHasFreeSlots st p)"
    using nonFullChain_not_linked [OF ps(1) _ la p(2)] ps(2) room p by simp
  have own: "nonFullChain c ?st (p # ps)"
    by (rule nonFull.chain_link [OF ps(1) _ p(2) la]) (use ps(2) room in simp)
  have head: "sc_nonFullPages (classes st c) = 0 \<or> sc_nonFullPages (classes st c) \<in> set ps"
    using nonFullChain_head [OF ps(1)] by auto
  have cls: "sp_slabClass (pages st x) = c" if "x \<in> set ps" for x
    using ps(1) that by (simp add: nonFullChain_def)
  have touched: "sp_nextNonFull (pages ?st x) = sp_nextNonFull (pages st x) \<and>
      sp_prevNonFull (pages ?st x) = sp_prevNonFull (pages st x)" if "x \<noteq> p" "x \<notin> set ps" for x
    using that head by (auto simp: linkNonFull_next [OF g] c)
  show ?thesis
    unfolding nonFullFor_def
  proof (intro conjI ballI impI)
    fix c' assume "c' \<in> set (slabClassStorage ?st)"
    then have c': "c' \<in> set (slabClassStorage st)" by simp
    show "\<exists>qs. nonFullChain c' ?st qs \<and> set qs = (R(c := insert p (R c))) c'"
    proof (cases "c' = c")
      case True
      with own ps(2) show ?thesis by (auto intro!: exI [of _ "p # ps"])
    next
      case False
      obtain qs where qs: "nonFullChain c' st qs" "set qs = R c'" by (rule nonFullFor_chain [OF R c'])
      have "nonFullChain c' ?st qs \<longleftrightarrow> nonFullChain c' st qs"
      proof (rule nonFullChain_cong)
        show "sc_nonFullPages (classes ?st c') = sc_nonFullPages (classes st c')"
          using False c by (simp add: linkNonFull_next(3) [OF g])
        fix x assume "x \<in> set qs"
        with qs(1) False cls c(1) have "x \<noteq> p" "x \<notin> set ps" by (auto simp: nonFullChain_def)
        with touched show "sp_nextNonFull (pages ?st x) = sp_nextNonFull (pages st x) \<and>
            sp_prevNonFull (pages ?st x) = sp_prevNonFull (pages st x) \<and>
            sp_slabClass (pages ?st x) = sp_slabClass (pages st x)" by simp
      qed
      with qs False show ?thesis by auto
    qed
  next
    fix q assume q: "q \<in> set (slabPageStorage ?st)"
      "q \<notin> (R(c := insert p (R c))) (sp_slabClass (pages ?st q))"
    then have "q \<noteq> p" "q \<notin> set ps" "q \<notin> R (sp_slabClass (pages st q))"
      using cls c(1) ps(2) by (auto split: if_splits)
    with q(1) nonFullFor_out [OF R, of q] touched [of q]
    show "sp_prevNonFull (pages ?st q) = 0" "sp_nextNonFull (pages ?st q) = 0" by auto
  qed
qed

lemma nonFullFor_unlink:
  assumes R: "nonFullFor st R" and p: "p \<in> R c"
    and c: "sp_slabClass (pages st p) = c" "c \<in> set (slabClassStorage st)"
  shows "nonFullFor (unlinkNonFullSlabPage p st) (R(c := R c - {p}))"
proof -
  let ?st = "unlinkNonFullSlabPage p st"
  obtain ps where ps: "nonFullChain c st ps" "set ps = R c" by (rule nonFullFor_chain [OF R c(2)])
  then have pp: "p \<in> set ps" using p by simp
  have g: "\<not> (p = 0 \<or> \<not> isSlabPageLinked st p)" using nonFullChain_linked [OF ps(1) pp] by simp
  have own: "nonFullChain c ?st (remove1 p ps)" by (rule nonFull.chain_unlink [OF ps(1) pp])
  have d: "distinct ps" "0 \<notin> set ps"
    using nonFull.chain_distinct [OF ps(1)] nonFull.chain_nonnull [OF ps(1)] by auto
  have df: "dll_from (\<lambda>a. sp_nextNonFull (pages st a)) (\<lambda>a. sp_prevNonFull (pages st a)) 0
      (sc_nonFullPages (classes st c)) ps" using ps(1) by (simp add: nonFullChain_def dll_def)
  have cls: "sp_slabClass (pages st x) = c" if "x \<in> set ps" for x
    using ps(1) that by (simp add: nonFullChain_def)
  have touched: "sp_nextNonFull (pages ?st x) = sp_nextNonFull (pages st x) \<and>
      sp_prevNonFull (pages ?st x) = sp_prevNonFull (pages st x)" if "x \<notin> set ps" for x
  proof -
    have "x \<noteq> p" "sp_nextNonFull (pages st p) \<noteq> 0 \<longrightarrow> x \<noteq> sp_nextNonFull (pages st p)"
      "sp_prevNonFull (pages st p) \<noteq> 0 \<longrightarrow> x \<noteq> sp_prevNonFull (pages st p)"
      using that pp dll_from_next_in [OF df pp] dll_from_prev_in [OF df pp] by metis+
    then show ?thesis by (simp add: unlinkNonFull_next(1,2) [OF g] unlink_next_def unlink_prev_def)
  qed
  have self: "sp_nextNonFull (pages ?st p) = 0" "sp_prevNonFull (pages ?st p) = 0"
    by (simp_all add: unlinkNonFull_next(1,2) [OF g] unlink_next_def unlink_prev_def)
  show ?thesis
    unfolding nonFullFor_def
  proof (intro conjI ballI impI)
    fix c' assume "c' \<in> set (slabClassStorage ?st)"
    then have c': "c' \<in> set (slabClassStorage st)" by simp
    show "\<exists>qs. nonFullChain c' ?st qs \<and> set qs = (R(c := R c - {p})) c'"
    proof (cases "c' = c")
      case True
      moreover have "set (remove1 p ps) = R c - {p}" using ps(2) d(1) by simp
      ultimately show ?thesis using own unfolding fun_upd_def by (intro exI [of _ "remove1 p ps"]) simp
    next
      case False
      obtain qs where qs: "nonFullChain c' st qs" "set qs = R c'" by (rule nonFullFor_chain [OF R c'])
      have "nonFullChain c' ?st qs \<longleftrightarrow> nonFullChain c' st qs"
      proof (rule nonFullChain_cong)
        show "sc_nonFullPages (classes ?st c') = sc_nonFullPages (classes st c')"
          using False c by (simp add: unlinkNonFull_next(3) [OF g])
        fix x assume "x \<in> set qs"
        with qs(1) False cls have "x \<notin> set ps" by (auto simp: nonFullChain_def)
        with touched show "sp_nextNonFull (pages ?st x) = sp_nextNonFull (pages st x) \<and>
            sp_prevNonFull (pages ?st x) = sp_prevNonFull (pages st x) \<and>
            sp_slabClass (pages ?st x) = sp_slabClass (pages st x)" by simp
      qed
      with qs False show ?thesis by auto
    qed
  next
    fix q assume q: "q \<in> set (slabPageStorage ?st)"
      "q \<notin> (R(c := R c - {p})) (sp_slabClass (pages ?st q))"
    have "q = p \<or> (q \<notin> set ps \<and> q \<notin> R (sp_slabClass (pages st q)))"
      using q(2) cls [of q] ps(2) by (cases "q \<in> set ps") (simp_all split: if_splits)
    with q(1) nonFullFor_out [OF R, of q] touched [of q] self
    show "sp_prevNonFull (pages ?st q) = 0" "sp_nextNonFull (pages ?st q) = 0" by auto
  qed
qed

lemma nonFullFor_unlink_out:
  assumes R: "nonFullFor st R" and p: "p \<in> set (slabPageStorage st)" "p \<notin> R c" "p \<noteq> 0"
    and c: "sp_slabClass (pages st p) = c" "c \<in> set (slabClassStorage st)"
  shows "unlinkNonFullSlabPage p st = st"
proof -
  obtain ps where ps: "nonFullChain c st ps" "set ps = R c" by (rule nonFullFor_chain [OF R c(2)])
  have "sc_nonFullPages (classes st c) \<noteq> p"
    using nonFullChain_head [OF ps(1)] ps(2) p(2,3) by (auto split: if_splits)
  moreover have "sp_prevNonFull (pages st p) = 0" "sp_nextNonFull (pages st p) = 0"
    using R p c by (auto simp: nonFullFor_def)
  ultimately show ?thesis using c by (simp add: unlinkNonFullSlabPage_def isSlabPageLinked_def)
qed

end
