(* ===== verification/Heap_Slots.thy ===== *)
theory Heap_Slots
  imports Heap_Room
begin

text \<open>
  Giving out a slot of a slab page and taking it back keep the invariant, whatever happens to the
  links of the lists: those are the business of \<open>Heap_Lists\<close> and \<open>Heap_Room\<close>.
\<close>

section \<open>Steps on one slab page\<close>

definition onePage :: "addr \<Rightarrow> heap \<Rightarrow> heap \<Rightarrow> bool" where
  "onePage p st st' \<longleftrightarrow>
     mallocBlocks st' = mallocBlocks st \<and> slabClassByKey st' = slabClassByKey st \<and>
     slabClassStorage st' = slabClassStorage st \<and> slabPageStorage st' = slabPageStorage st \<and>
     slabPagesByAddressPage st' = slabPagesByAddressPage st \<and>
     systemHeadersByPage st' = systemHeadersByPage st \<and>
     denseMapEmptyKey st' = denseMapEmptyKey st \<and> denseMapTombstoneKey st' = denseMapTombstoneKey st \<and>
     (\<forall>c. classCore (classes st' c) = classCore (classes st c)) \<and>
     (\<forall>q. q \<noteq> p \<longrightarrow> pageCore (pages st' q) = pageCore (pages st q)) \<and>
     sp_slabClass (pages st' p) = sp_slabClass (pages st p) \<and>
     sp_allocationBase (pages st' p) = sp_allocationBase (pages st p) \<and>
     sp_pageStart (pages st' p) = sp_pageStart (pages st p)"

lemma onePage_simps:
  assumes "onePage p st st'"
  shows "mallocBlocks st' = mallocBlocks st" "slabClassStorage st' = slabClassStorage st"
    "slabPageStorage st' = slabPageStorage st" "systemHeadersByPage st' = systemHeadersByPage st"
    and "\<And>q. sp_slabClass (pages st' q) = sp_slabClass (pages st q)"
    and "\<And>q. sp_allocationBase (pages st' q) = sp_allocationBase (pages st q)"
    and "\<And>q. sp_pageStart (pages st' q) = sp_pageStart (pages st q)"
    and "\<And>q. sc_slotsPerPage (pageClass st' q) = sc_slotsPerPage (pageClass st q)"
    and "\<And>q. sc_payloadSize (pageClass st' q) = sc_payloadSize (pageClass st q)"
    and "slotAddr st' = slotAddr st" and "slabPageKeys st' = slabPageKeys st"
    and "invKeys st' = invKeys st" and "invClasses st' = invClasses st"
    and "invSlabTable st' = invSlabTable st" and "invBlocks st' = invBlocks st"
proof -
  have core: "classCore (classes st' c) = classCore (classes st c)" for c
    using assms by (simp add: onePage_def)
  note cf = classCore_fields [OF core]
  have pc: "sp_slabClass (pages st' q) = sp_slabClass (pages st q) \<and>
      sp_allocationBase (pages st' q) = sp_allocationBase (pages st q) \<and>
      sp_pageStart (pages st' q) = sp_pageStart (pages st q)" for q
  proof (cases "q = p")
    case False
    with assms have "pageCore (pages st' q) = pageCore (pages st q)" by (simp add: onePage_def)
    from pageCore_fields [OF this] show ?thesis by simp
  qed (use assms in \<open>simp add: onePage_def\<close>)
  show keys: "slabPageKeys st' = slabPageKeys st" by (auto simp: slabPageKeys_def pc fun_eq_iff)
  show sl: "slotAddr st' = slotAddr st" by (auto simp: slotAddr_def slabHeaderAt_def Let_def pc cf fun_eq_iff)
  have geom: "classGeom (classes st' c) = classGeom (classes st c)" for c
    by (simp add: classGeom_def cf)
  show "mallocBlocks st' = mallocBlocks st" "slabClassStorage st' = slabClassStorage st"
    "slabPageStorage st' = slabPageStorage st" "systemHeadersByPage st' = systemHeadersByPage st"
    using assms by (simp_all add: onePage_def)
  show "invKeys st' = invKeys st" "invBlocks st' = invBlocks st" "invClasses st' = invClasses st"
    "invSlabTable st' = invSlabTable st"
    using assms by (simp_all add: onePage_def invKeys_def invBlocks_def invClasses_def invSlabTable_def
        geom cf keys)
  fix q
  show "sp_slabClass (pages st' q) = sp_slabClass (pages st q)"
    "sp_allocationBase (pages st' q) = sp_allocationBase (pages st q)"
    "sp_pageStart (pages st' q) = sp_pageStart (pages st q)" by (simp_all add: pc)
  show "sc_slotsPerPage (pageClass st' q) = sc_slotsPerPage (pageClass st q)"
    "sc_payloadSize (pageClass st' q) = sc_payloadSize (pageClass st q)"
    by (simp_all add: pageClass_def pc cf)
qed

lemma onePage_other:
  assumes "onePage p st st'" "q \<noteq> p"
  shows "sp_nextUnusedSlot (pages st' q) = sp_nextUnusedSlot (pages st q)"
    and "sp_liveCount (pages st' q) = sp_liveCount (pages st q)"
    and "sp_freeList (pages st' q) = sp_freeList (pages st q)"
proof -
  have "pageCore (pages st' q) = pageCore (pages st q)" using assms by (simp add: onePage_def)
  from pageCore_fields [OF this] show "sp_nextUnusedSlot (pages st' q) = sp_nextUnusedSlot (pages st q)"
    "sp_liveCount (pages st' q) = sp_liveCount (pages st q)"
    "sp_freeList (pages st' q) = sp_freeList (pages st q)" by simp_all
qed

lemma onePage_pages:
  assumes "onePage p st st'" "invPages st"
    and "sp_nextUnusedSlot (pages st' p) \<le> sc_slotsPerPage (pageClass st p)"
  shows "invPages st'"
proof -
  have "pageOk st' q" if "q \<in> set (slabPageStorage st)" for q
    using assms(2,3) that onePage_other [OF assms(1), of q]
    by (cases "q = p") (simp_all add: invPages_def pageOk_def onePage_simps [OF assms(1)])
  with assms(2) show ?thesis by (simp add: invPages_def onePage_simps [OF assms(1)])
qed

text \<open>A system allocation, untouched, stays well placed and registered.\<close>

lemma onePage_system:
  assumes "onePage p st st'" "invSystem st xs"
    and "{x \<in> set ys. \<not> isSlab st' x} = {x \<in> set xs. \<not> isSlab st x}"
    and "\<And>x. x \<in> set xs \<Longrightarrow> \<not> isSlab st x \<Longrightarrow> hdrCore (hdrs st' x) = hdrCore (hdrs st x)"
  shows "invSystem st' ys"
proof -
  let ?S = "{x \<in> set xs. \<not> isSlab st x}"
  have f: "ah_storageOwner (hdrs st' x) = ah_storageOwner (hdrs st x)"
    "ah_payloadSize (hdrs st' x) = ah_payloadSize (hdrs st x)" if "x \<in> ?S" for x
    using hdrCore_fields [OF assms(4), of x] that by auto
  have "sysOk st' x" if "x \<in> ?S" for x
    using assms(2) that by (simp add: invSystem_def sysOk_def f [OF that] onePage_simps [OF assms(1)])
  moreover have "inj_on (\<lambda>h. ah_storageOwner (hdrs st' h)) ?S"
    using assms(2) inj_on_cong [of ?S "\<lambda>h. ah_storageOwner (hdrs st' h)" "\<lambda>h. ah_storageOwner (hdrs st h)"] f(1)
    by (simp add: invSystem_def)
  ultimately show ?thesis using assms(3) by (auto simp: invSystem_def)
qed

lemma onePage_sysTable:
  assumes "onePage p st st'" "invSysTable st xs"
    and "{x \<in> set ys. \<not> isSlab st' x} = {x \<in> set xs. \<not> isSlab st x}"
    and "\<And>x. x \<in> set xs \<Longrightarrow> \<not> isSlab st x \<Longrightarrow> hdrCore (hdrs st' x) = hdrCore (hdrs st x)"
  shows "invSysTable st' ys"
  unfolding invSysTable_def
proof
  fix k
  have b: "bucketAt st' k = bucketAt st k" by (simp add: bucketAt_def onePage_simps [OF assms(1)])
  have hp: "headerPages st' x = headerPages st x" if "x \<in> set xs" "\<not> isSlab st x" for x
    by (rule headerPages_cong) (rule hdrCore_fields(5) [OF assms(4) [OF that]])
  have "{x \<in> set ys. \<not> isSlab st' x \<and> k \<in> set (headerPages st' x)} =
      {x \<in> {x \<in> set ys. \<not> isSlab st' x}. k \<in> set (headerPages st' x)}" by blast
  also have "\<dots> = {x \<in> set xs. \<not> isSlab st x \<and> k \<in> set (headerPages st x)}"
    unfolding assms(3) using hp by auto
  finally show "distinct (bucketAt st' k) \<and> systemHeadersByPage st' k \<noteq> Some [] \<and>
      set (bucketAt st' k) = {x \<in> set ys. \<not> isSlab st' x \<and> k \<in> set (headerPages st' x)}"
    using assms(2) by (simp add: invSysTable_def b onePage_simps [OF assms(1)])
qed

section \<open>Giving out a slot\<close>

definition slotTaken :: "addr \<Rightarrow> addr \<Rightarrow> heap \<Rightarrow> heap \<Rightarrow> bool" where
  "slotTaken p h st st' \<longleftrightarrow>
     (if sp_freeList (pages st p) \<noteq> 0
      then h = sp_freeList (pages st p) \<and> sp_freeList (pages st' p) = ah_next (hdrs st h) \<and>
           sp_nextUnusedSlot (pages st' p) = sp_nextUnusedSlot (pages st p)
      else sp_nextUnusedSlot (pages st p) < sc_slotsPerPage (pageClass st p) \<and>
           h = slabHeaderAt st p (sp_nextUnusedSlot (pages st p)) \<and> sp_freeList (pages st' p) = 0 \<and>
           sp_nextUnusedSlot (pages st' p) = sp_nextUnusedSlot (pages st p) + 1)"

lemma slotTaken_split:
  assumes inv: "soundHeap clean st xs" and p: "p \<in> set (slabPageStorage st)" and t: "slotTaken p h st st'"
  obtains fl' i where "sll (\<lambda>a. ah_next (hdrs st a)) (sp_freeList (pages st' p)) fl'" "distinct fl'"
    "\<forall>x \<in> set fl'. \<not> ah_live (hdrs st x)" "h \<notin> set fl'" "h \<notin> set xs" "h = slotAddr st p i"
    "i < unat (sp_nextUnusedSlot (pages st' p))"
    "unat (sp_nextUnusedSlot (pages st p)) \<le> unat (sp_nextUnusedSlot (pages st' p))"
    "unat (sp_nextUnusedSlot (pages st' p)) \<le> unat (sc_slotsPerPage (pageClass st p))"
    "insert h (set fl' \<union> liveOn st xs p) = slotAddr st p ` {..< unat (sp_nextUnusedSlot (pages st' p))}"
proof -
  obtain fl where fl: "freeListOn st xs p fl" by (rule heapInv_freeList [OF inv p])
  note le = nextUnused_le [OF inv p]
  show ?thesis
  proof (cases "sp_freeList (pages st p) = 0")
    case False
    with fl obtain fl' where e: "fl = h # fl'" "h = sp_freeList (pages st p)"
      using t by (cases fl) (auto simp: freeListOn_def slotTaken_def)
    obtain i where i: "h = slotAddr st p i" "i < unat (sp_nextUnusedSlot (pages st p))"
      by (rule freeListOn_slot [OF inv p fl, of h]) (use e in auto)
    have t': "sp_freeList (pages st' p) = ah_next (hdrs st h)"
      "sp_nextUnusedSlot (pages st' p) = sp_nextUnusedSlot (pages st p)"
      using t False e by (simp_all add: slotTaken_def)
    show ?thesis
    proof (rule that [of fl' i])
      show "insert h (set fl' \<union> liveOn st xs p) = slotAddr st p ` {..< unat (sp_nextUnusedSlot (pages st' p))}"
        using fl by (simp add: freeListOn_def e(1) t'(2))
    qed (use fl i le freeListOn_not_active [OF inv fl, of h] in \<open>simp_all add: t' e(1) freeListOn_def\<close>)
  next
    case True
    define n where "n = unat (sp_nextUnusedSlot (pages st p))"
    from True t have t': "sp_freeList (pages st' p) = 0" "n < unat (sc_slotsPerPage (pageClass st p))"
      "h = slotAddr st p n" and s: "sp_nextUnusedSlot (pages st' p) = sp_nextUnusedSlot (pages st p) + 1"
      by (simp_all add: slotTaken_def n_def slotAddr_def word_less_nat_alt)
    have "n + 1 < 18446744073709551616"
      using t'(2) unat_lt_2_64_numeral [of "sc_slotsPerPage (pageClass st p)"] by linarith
    then have n': "unat (sp_nextUnusedSlot (pages st' p)) = Suc n"
      unfolding s by (subst unat_plus_u64) (simp_all add: n_def)
    have "fl = []" using fl True by (cases fl) (auto simp: freeListOn_def)
    with fl have live: "liveOn st xs p = slotAddr st p ` {..< n}" by (simp add: freeListOn_def n_def)
    have hx: "h \<notin> set xs"
    proof
      assume hx: "h \<in> set xs"
      have sl: "isSlab st h" using system_not_slot [OF inv hx _ p t'(2)] t'(3) by blast
      let ?q = "ah_storageOwner (hdrs st h)"
      obtain j where j: "j < unat (sp_nextUnusedSlot (pages st ?q))" "h = slotAddr st ?q j"
        by (rule slab_header_slot [OF inv hx sl])
      have q: "?q \<in> set (slabPageStorage st)" by (rule heapInv_slab_owner(1) [OF inv hx sl])
      have "j < unat (sc_slotsPerPage (pageClass st ?q))" using j(1) nextUnused_le [OF inv q] by linarith
      from slotAddr_inject [OF inv p q t'(2) this] t'(3) j have "p = ?q" "n = j" by simp_all
      with j(1) show False by (simp add: n_def)
    qed
    show ?thesis
    proof (rule that [of "[]" n])
      show "insert h (set [] \<union> liveOn st xs p) = slotAddr st p ` {..< unat (sp_nextUnusedSlot (pages st' p))}"
        by (simp add: live n' lessThan_Suc t'(3))
    qed (use hx t' n' in \<open>simp_all add: n_def\<close>)
  qed
qed

lemma freeListOn_other:
  assumes inv: "soundHeap clean st xs" and pg: "onePage p st st'" and q: "q \<in> set (slabPageStorage st)" "q \<noteq> p"
    and live: "liveOn st' ys q = liveOn st xs q"
    and h: "h = slotAddr st p i" "i < unat (sc_slotsPerPage (pageClass st p))" "p \<in> set (slabPageStorage st)"
    and keep: "\<And>a. a \<notin> set xs \<Longrightarrow> a \<noteq> h \<Longrightarrow>
      ah_next (hdrs st' a) = ah_next (hdrs st a) \<and> ah_live (hdrs st' a) = ah_live (hdrs st a)"
  shows "\<exists>fl. freeListOn st' ys q fl"
proof -
  obtain fl where fl: "freeListOn st xs q fl" by (rule heapInv_freeList [OF inv q(1)])
  have "ah_next (hdrs st' a) = ah_next (hdrs st a) \<and> ah_live (hdrs st' a) = ah_live (hdrs st a)"
    if a: "a \<in> set fl" for a
  proof (rule keep)
    show "a \<notin> set xs" by (rule freeListOn_not_active [OF inv fl a])
    obtain j where j: "j < unat (sc_slotsPerPage (pageClass st q))" "a = slotAddr st q j"
      by (rule freeListOn_slot [OF inv q(1) fl a])
    show "a \<noteq> h" using slotAddr_inject(1) [OF inv q(1) h(3) j(1) h(2)] j(2) h(1) q(2) by blast
  qed
  then have "freeListOn st' ys q fl"
    by (intro freeListOn_cong [OF fl])
       (simp_all add: live onePage_simps [OF pg] onePage_other [OF pg q(2)])
  then show ?thesis by blast
qed

lemma heapInv_take_slot:
  assumes inv: "soundHeap clean st xs" and p: "p \<in> set (slabPageStorage st)" and pg: "onePage p st st'"
    and t: "slotTaken p h st st'"
    and cnt: "sp_liveCount (pages st' p) = sp_liveCount (pages st p) + 1"
    and hdr: "isSlab st' h" "ah_storageOwner (hdrs st' h) = p" "ah_live (hdrs st' h)"
      "ah_magic (hdrs st' h) = kAllocationMagic"
      "ah_payloadSize (hdrs st' h) = max (sc_payloadSize (pageClass st p)) 1"
    and core: "\<And>a. a \<noteq> h \<Longrightarrow> hdrCore (hdrs st' a) = hdrCore (hdrs st a)"
    and nxt: "\<And>a. a \<noteq> h \<Longrightarrow> ah_next (hdrs st' a) = ah_next (hdrs st a)"
    and chain: "activeChain st' (h # xs)" and room: "nonFullFor st' (pagesWithRoom st')"
  shows "soundHeap clean st' (h # xs)"
proof -
  note same = onePage_simps [OF pg] and fields = hdrCore_fields [OF core]
  obtain fl' i where fl': "sll (\<lambda>a. ah_next (hdrs st a)) (sp_freeList (pages st' p)) fl'" "distinct fl'"
    "\<forall>x \<in> set fl'. \<not> ah_live (hdrs st x)" "h \<notin> set fl'" and hx: "h \<notin> set xs"
    and h: "h = slotAddr st p i" "i < unat (sp_nextUnusedSlot (pages st' p))"
    and le: "unat (sp_nextUnusedSlot (pages st p)) \<le> unat (sp_nextUnusedSlot (pages st' p))"
      "unat (sp_nextUnusedSlot (pages st' p)) \<le> unat (sc_slotsPerPage (pageClass st p))"
    and sl: "insert h (set fl' \<union> liveOn st xs p) = slotAddr st p ` {..< unat (sp_nextUnusedSlot (pages st' p))}"
    using slotTaken_split [OF inv p t] by metis
  have i: "i < unat (sc_slotsPerPage (pageClass st p))" using h(2) le(2) by linarith
  have old: "isSlab st' x = isSlab st x" if "x \<noteq> h" for x
    using fields [OF that] by (simp add: isSlab_def)
  have live: "liveOn st' (h # xs) q = (if q = p then insert h (liveOn st xs p) else liveOn st xs q)" for q
  proof (rule set_eqI)
    fix x show "x \<in> liveOn st' (h # xs) q \<longleftrightarrow>
        x \<in> (if q = p then insert h (liveOn st xs p) else liveOn st xs q)"
      by (cases "x = h") (use hx hdr(1,2) old [of x] fields [of x] in \<open>auto simp: liveOn_def\<close>)
  qed
  have sys: "{x \<in> set (h # xs). \<not> isSlab st' x} = {x \<in> set xs. \<not> isSlab st x}"
  proof (rule set_eqI)
    fix x show "x \<in> {x \<in> set (h # xs). \<not> isSlab st' x} \<longleftrightarrow> x \<in> {x \<in> set xs. \<not> isSlab st x}"
      by (cases "x = h") (use hdr(1) old [of x] hx in auto)
  qed
  have sysCore: "hdrCore (hdrs st' x) = hdrCore (hdrs st x)" if "x \<in> set xs" for x
    by (rule core) (use that hx in auto)
  have parts: "invPages st" "invSystem st xs" "invHeaders st xs" "invSlots st xs" "invSysTable st xs" "clean \<longrightarrow> invClean st"
    "invKeys st" "invBlocks st" "invClasses st" "invSlabTable st"
    using inv by (simp_all add: soundHeap_def)
  have pages: "invPages st'"
    by (rule onePage_pages [OF pg parts(1)]) (use le(2) in \<open>simp add: word_le_nat_alt\<close>)
  have "invHeaders st' (h # xs)"
  proof -
    have "max (sc_payloadSize (pageClass st p)) 1 \<noteq> (0 :: u64)" by (simp add: u64_eq_iff unat_max1)
    moreover have "x \<noteq> h" if "x \<in> set xs" for x using that hx by auto
    ultimately show ?thesis
      using parts(3) hdr p old fields by (simp add: invHeaders_def same)
  qed
  moreover have "invSlots st' (h # xs)"
    unfolding invSlots_def
  proof (intro ballI conjI)
    fix q assume "q \<in> set (slabPageStorage st')"
    then have q: "q \<in> set (slabPageStorage st)" by (simp add: same)
    show "\<exists>fl. freeListOn st' (h # xs) q fl"
    proof (cases "q = p")
      case False
      then show ?thesis
        by (intro freeListOn_other [OF inv pg q False _ h(1) i p]) (use fields nxt in \<open>auto simp: live\<close>)
    next
      case True
      have "sll (\<lambda>a. ah_next (hdrs st' a)) (sp_freeList (pages st' p)) fl'"
        using fl'(1,4) nxt sll_cong [of fl' "\<lambda>a. ah_next (hdrs st' a)" "\<lambda>a. ah_next (hdrs st a)"] by metis
      moreover have "\<forall>x \<in> set fl'. \<not> ah_live (hdrs st' x)" using fl'(3,4) fields(9) by metis
      ultimately have "freeListOn st' (h # xs) p fl'"
        using fl'(2) sl by (simp add: freeListOn_def live same Un_insert_right)
      with True show ?thesis by blast
    qed
    have cq: "card (liveOn st xs q) = unat (sp_liveCount (pages st q))" using parts(4) q by (simp add: invSlots_def)
    show "card (liveOn st' (h # xs) q) = unat (sp_liveCount (pages st' q))"
    proof (cases "q = p")
      case False
      with cq show ?thesis by (simp add: live onePage_other [OF pg False])
    next
      case True
      have "finite (liveOn st xs p)" "h \<notin> liveOn st xs p" using hx by (simp_all add: liveOn_def)
      then have c: "card (liveOn st' (h # xs) q) = Suc (unat (sp_liveCount (pages st p)))"
        using cq True by (simp add: live)
      have "card (liveOn st' (h # xs) q) \<le> card (slotAddr st p ` {..< unat (sp_nextUnusedSlot (pages st' p))})"
        using sl True by (intro card_mono) (auto simp: live)
      also have "\<dots> \<le> unat (sp_nextUnusedSlot (pages st' p))" using card_image_le [of "{..< unat (sp_nextUnusedSlot (pages st' p))}"] by simp
      finally have "Suc (unat (sp_liveCount (pages st p))) < 18446744073709551616"
        using c unat_lt_2_64_numeral [of "sp_nextUnusedSlot (pages st' p)"] by linarith
      then show ?thesis using c True cnt by (simp add: unat_plus_u64)
    qed
  qed
  moreover have "clean \<longrightarrow> invClean st'"
    unfolding invClean_def
  proof (intro ballI allI impI)
    fix q j assume cl: clean and q': "q \<in> set (slabPageStorage st')" and j: "j < unat (sc_slotsPerPage (pageClass st' q))"
      and un: "unat (sp_nextUnusedSlot (pages st' q)) \<le> j"
    from q' have q: "q \<in> set (slabPageStorage st)" by (simp add: same)
    from j have j': "j < unat (sc_slotsPerPage (pageClass st q))" by (simp add: same)
    have un': "unat (sp_nextUnusedSlot (pages st q)) \<le> j"
      using un le(1) onePage_other [OF pg, of q] by (cases "q = p") auto
    have "slotAddr st q j \<noteq> h"
      using slotAddr_inject [OF inv q p j' i] h un by auto
    from fields [OF this] parts(6) cl q j' un' show "\<not> looksLive (hdrs st' (slotAddr st' q j))"
      by (auto simp: invClean_def looksLive_def same)
  qed
  moreover have "invSystem st' (h # xs)"
    by (rule onePage_system [OF pg parts(2) sys]) (rule sysCore)
  moreover have "invSysTable st' (h # xs)"
    by (rule onePage_sysTable [OF pg parts(5) sys]) (rule sysCore)
  ultimately show ?thesis
    using chain room pages parts by (simp add: soundHeap_def invNonFull_iff same)
qed

section \<open>Taking a slot back\<close>

lemma liveCount_pos:
  assumes inv: "soundHeap clean st xs" and h: "h \<in> set xs" "isSlab st h"
  shows "0 < unat (sp_liveCount (pages st (ah_storageOwner (hdrs st h))))"
proof -
  let ?p = "ah_storageOwner (hdrs st h)"
  have "card (liveOn st xs ?p) = unat (sp_liveCount (pages st ?p))"
    using inv heapInv_slab_owner(1) [OF inv h] by (simp add: soundHeap_def invSlots_def)
  moreover have "h \<in> liveOn st xs ?p" "finite (liveOn st xs ?p)" using h by (simp_all add: liveOn_def)
  ultimately show ?thesis using card_gt_0_iff by fastforce
qed

lemma heapInv_put_slot:
  assumes inv: "soundHeap clean st xs" and hx: "h \<in> set xs" and sl: "isSlab st h"
    and p: "p = ah_storageOwner (hdrs st h)" and pg: "onePage p st st'"
    and free: "sp_freeList (pages st' p) = h" "ah_next (hdrs st' h) = sp_freeList (pages st p)"
      "sp_nextUnusedSlot (pages st' p) = sp_nextUnusedSlot (pages st p)"
    and cnt: "sp_liveCount (pages st' p) = sp_liveCount (pages st p) - 1"
    and dead: "\<not> ah_live (hdrs st' h)"
    and core: "\<And>a. a \<noteq> h \<Longrightarrow> hdrCore (hdrs st' a) = hdrCore (hdrs st a)"
    and nxt: "\<And>a. a \<notin> set xs \<Longrightarrow> ah_next (hdrs st' a) = ah_next (hdrs st a)"
    and chain: "activeChain st' (remove1 h xs)" and room: "nonFullFor st' (pagesWithRoom st')"
  shows "soundHeap clean st' (remove1 h xs)"
proof -
  let ?xs = "remove1 h xs"
  note same = onePage_simps [OF pg] and fields = hdrCore_fields [OF core]
  have pS: "p \<in> set (slabPageStorage st)" using heapInv_slab_owner(1) [OF inv hx sl] p by simp
  have parts: "invPages st" "invSystem st xs" "invHeaders st xs" "invSlots st xs" "invSysTable st xs" "clean \<longrightarrow> invClean st"
    "invKeys st" "invBlocks st" "invClasses st" "invSlabTable st" "activeChain st xs"
    using inv by (simp_all add: soundHeap_def)
  have xs: "set ?xs = set xs - {h}" using active.chain_distinct [OF parts(11)] by simp
  have h0: "h \<noteq> 0" using active.chain_nonnull [OF parts(11)] hx by metis
  obtain i where i': "i < unat (sp_nextUnusedSlot (pages st p))" "h = slotAddr st p i"
    by (rule slab_header_slot [OF inv hx sl, folded p])
  have i: "i < unat (sc_slotsPerPage (pageClass st p))" using i' nextUnused_le [OF inv pS] by linarith
  have old: "isSlab st' x = isSlab st x" if "x \<noteq> h" for x
    using fields [OF that] by (simp add: isSlab_def)
  have live: "liveOn st' ?xs q = (if q = p then liveOn st xs p - {h} else liveOn st xs q)" for q
  proof (rule set_eqI)
    fix x show "x \<in> liveOn st' ?xs q \<longleftrightarrow> x \<in> (if q = p then liveOn st xs p - {h} else liveOn st xs q)"
      by (cases "x = h") (use p sl old [of x] fields [of x] in \<open>auto simp: liveOn_def xs\<close>)
  qed
  have sys: "{x \<in> set ?xs. \<not> isSlab st' x} = {x \<in> set xs. \<not> isSlab st x}"
  proof (rule set_eqI)
    fix x show "x \<in> {x \<in> set ?xs. \<not> isSlab st' x} \<longleftrightarrow> x \<in> {x \<in> set xs. \<not> isSlab st x}"
      by (cases "x = h") (use sl old [of x] in \<open>auto simp: xs\<close>)
  qed
  have sysCore: "hdrCore (hdrs st' x) = hdrCore (hdrs st x)" if "\<not> isSlab st x" for x
    by (rule core) (use that sl in auto)
  have pages: "invPages st'"
    using parts(1) pS by (intro onePage_pages [OF pg parts(1)]) (simp add: free(3) invPages_def pageOk_def)
  have "invHeaders st' ?xs"
    using parts(3) old fields by (auto simp: invHeaders_def same xs)
  moreover have "invSlots st' ?xs"
    unfolding invSlots_def
  proof (intro ballI conjI)
    fix q assume "q \<in> set (slabPageStorage st')"
    then have q: "q \<in> set (slabPageStorage st)" by (simp add: same)
    have hl: "h \<in> liveOn st xs p" "finite (liveOn st xs p)" using hx sl p by (simp_all add: liveOn_def)
    show "\<exists>fl. freeListOn st' ?xs q fl"
    proof (cases "q = p")
      case False
      then show ?thesis
        by (intro freeListOn_other [OF inv pg q False _ i'(2) i pS]) (use fields nxt in \<open>auto simp: live\<close>)
    next
      case True
      obtain fl where fl: "freeListOn st xs p fl" by (rule heapInv_freeList [OF inv pS])
      have out: "a \<notin> set xs" "a \<noteq> h" if "a \<in> set fl" for a
        using freeListOn_not_active [OF inv fl that] hx by auto
      have "sll (\<lambda>a. ah_next (hdrs st' a)) (sp_freeList (pages st p)) fl"
        using fl nxt out sll_cong [of fl "\<lambda>a. ah_next (hdrs st' a)" "\<lambda>a. ah_next (hdrs st a)"]
        by (simp add: freeListOn_def)
      moreover have "\<forall>x \<in> set (h # fl). \<not> ah_live (hdrs st' x)"
        using fl dead out fields(9) by (simp add: freeListOn_def)
      moreover have "h \<notin> set fl" using out hx by blast
      moreover have "set (h # fl) \<union> (liveOn st xs p - {h}) = set fl \<union> liveOn st xs p" using hl by auto
      ultimately have "freeListOn st' ?xs p (h # fl)"
        using fl h0 by (simp add: freeListOn_def live free same)
      with True show ?thesis by blast
    qed
    have cq: "card (liveOn st xs q) = unat (sp_liveCount (pages st q))" using parts(4) q by (simp add: invSlots_def)
    show "card (liveOn st' ?xs q) = unat (sp_liveCount (pages st' q))"
    proof (cases "q = p")
      case False
      with cq show ?thesis by (simp add: live onePage_other [OF pg False])
    next
      case True
      have "0 < unat (sp_liveCount (pages st p))" using liveCount_pos [OF inv hx sl] p by simp
      with cq True hl show ?thesis by (simp add: live cnt unat_minus_u64)
    qed
  qed
  moreover have "clean \<longrightarrow> invClean st'"
    unfolding invClean_def
  proof (intro ballI allI impI)
    fix q j assume cl: clean and q': "q \<in> set (slabPageStorage st')" and j: "j < unat (sc_slotsPerPage (pageClass st' q))"
      and un: "unat (sp_nextUnusedSlot (pages st' q)) \<le> j"
    from q' have q: "q \<in> set (slabPageStorage st)" by (simp add: same)
    from j have j': "j < unat (sc_slotsPerPage (pageClass st q))" by (simp add: same)
    have un': "unat (sp_nextUnusedSlot (pages st q)) \<le> j"
      using un free(3) onePage_other [OF pg, of q] by (cases "q = p") auto
    have "slotAddr st q j \<noteq> h"
      using slotAddr_inject [OF inv q pS j' i] i' un' by auto
    from fields [OF this] parts(6) cl q j' un' show "\<not> looksLive (hdrs st' (slotAddr st' q j))"
      by (auto simp: invClean_def looksLive_def same)
  qed
  moreover have "invSystem st' ?xs"
    by (rule onePage_system [OF pg parts(2) sys]) (rule sysCore)
  moreover have "invSysTable st' ?xs"
    by (rule onePage_sysTable [OF pg parts(5) sys]) (rule sysCore)
  ultimately show ?thesis
    using chain room pages parts by (simp add: soundHeap_def invNonFull_iff same)
qed

end
