(* ===== verification/Heap_Pages.thy ===== *)
theory Heap_Pages
  imports Heap_Slots
begin

text \<open>
  New slab classes, new slab pages and released slab pages keep the invariant:
  \<open>getOrCreateSlabClass\<close>, \<open>createSlabPage\<close> and \<open>releaseSlabPage\<close>.
\<close>

section \<open>A new slab class\<close>

lemma invClasses_member:
  assumes "invClasses st" "c \<in> set (slabClassStorage st)"
  shows "c \<noteq> 0" and "classGeom (classes st c)"
    and "slabClassByKey st (slabClassKey (sc_payloadSize (classes st c)) (sc_alignment (classes st c))) = Some c"
  using assms by (simp_all add: invClasses_def)

lemma invClasses_key:
  assumes "invClasses st" "slabClassByKey st k = Some c"
  shows "c \<noteq> 0" and "c \<in> set (slabClassStorage st)"
    and "k = slabClassKey (sc_payloadSize (classes st c)) (sc_alignment (classes st c))"
  using assms unfolding invClasses_def by blast+

lemma heapInv_new_class:
  assumes inv: "soundHeap clean st xs" and cls: "cls \<noteq> 0" "cls \<notin> set (slabClassStorage st)"
    and layout: "classGeom layout" "sc_nonFullPages layout = 0"
    and key: "k = slabClassKey (sc_payloadSize layout) (sc_alignment layout)" "slabClassByKey st k = None"
    and st': "st' = st\<lparr>classes := (classes st)(cls := layout), slabClassStorage := slabClassStorage st @ [cls],
      slabClassByKey := (slabClassByKey st)(k \<mapsto> cls)\<rparr>"
  shows "soundHeap clean st' xs"
proof -
  have parts: "activeChain st xs" "invKeys st" "invBlocks st" "invClasses st" "invPages st" "invSystem st xs"
    "invHeaders st xs" "invSlots st xs" "invNonFull st" "invSlabTable st" "invSysTable st xs" "clean \<longrightarrow> invClean st"
    using inv by (simp_all add: soundHeap_def)
  have own: "sp_slabClass (pages st p) \<noteq> cls" if "p \<in> set (slabPageStorage st)" for p
    using heapInv_page(1) [OF inv that] cls(2) by (auto simp: pageOk_def)
  have fields: "hdrs st' = hdrs st" "pages st' = pages st" "slabPageStorage st' = slabPageStorage st"
    "mallocBlocks st' = mallocBlocks st" "slabPagesByAddressPage st' = slabPagesByAddressPage st"
    "systemHeadersByPage st' = systemHeadersByPage st" "activeAllocationHead st' = activeAllocationHead st"
    "slabClassStorage st' = slabClassStorage st @ [cls]" "slabClassByKey st' = (slabClassByKey st)(k \<mapsto> cls)"
    "classes st' = (classes st)(cls := layout)"
    "denseMapEmptyKey st' = denseMapEmptyKey st" "denseMapTombstoneKey st' = denseMapTombstoneKey st"
    by (simp_all add: st')
  have pc: "pageClass st' p = pageClass st p" "slotAddr st' p = slotAddr st p"
    "slabPageHasFreeSlots st' p = slabPageHasFreeSlots st p" if "p \<in> set (slabPageStorage st)" for p
    using own [OF that]
    by (auto simp: pageClass_def slotAddr_def slabHeaderAt_def slabPageHasFreeSlots_def fields fun_eq_iff)
  have lv: "liveOn st' xs = liveOn st xs" by (auto simp: liveOn_def isSlab_def fields fun_eq_iff)
  have hp: "headerPages st' = headerPages st" by (auto simp: headerPages_def fields fun_eq_iff)
  have keys: "slabPageKeys st' = slabPageKeys st" by (auto simp: slabPageKeys_def fields fun_eq_iff)
  have sl: "isSlab st' = isSlab st" by (auto simp: isSlab_def fields fun_eq_iff)
  have "invClasses st'"
    unfolding invClasses_def
  proof (intro conjI allI impI ballI)
    fix j c assume c: "slabClassByKey st' j = Some c"
    have "c \<noteq> 0 \<and> c \<in> set (slabClassStorage st') \<and>
        j = slabClassKey (sc_payloadSize (classes st' c)) (sc_alignment (classes st' c))"
    proof (cases "j = k")
      case True
      with c cls key(1) show ?thesis by (simp add: fields)
    next
      case False
      with c have c': "slabClassByKey st j = Some c" by (simp add: fields)
      note ik = invClasses_key [OF parts(4) c']
      then have "c \<noteq> cls" using cls(2) by blast
      with ik(1,2) ik(3) [symmetric] show ?thesis by (simp add: fields)
    qed
    then show "c \<noteq> 0" "c \<in> set (slabClassStorage st')"
      "j = slabClassKey (sc_payloadSize (classes st' c)) (sc_alignment (classes st' c))" by simp_all
  next
    fix c assume "c \<in> set (slabClassStorage st')"
    then consider "c = cls" | "c \<in> set (slabClassStorage st)" "c \<noteq> cls" using cls(2) by (auto simp: fields)
    then have "c \<noteq> 0 \<and> classGeom (classes st' c) \<and>
      slabClassByKey st' (slabClassKey (sc_payloadSize (classes st' c)) (sc_alignment (classes st' c))) = Some c"
    proof cases
      case 1
      with cls layout key show ?thesis by (simp add: fields)
    next
      case 2
      note im = invClasses_member [OF parts(4) 2(1)]
      then have "slabClassKey (sc_payloadSize (classes st c)) (sc_alignment (classes st c)) \<noteq> k"
        using key(2) by auto
      with im 2(2) show ?thesis by (simp add: fields)
    qed
    then show "c \<noteq> 0" "classGeom (classes st' c)"
      "slabClassByKey st' (slabClassKey (sc_payloadSize (classes st' c)) (sc_alignment (classes st' c))) = Some c"
      by simp_all
  qed
  moreover have "invNonFull st'"
    unfolding invNonFull_def
  proof (intro conjI ballI impI)
    fix c assume "c \<in> set (slabClassStorage st')"
    then consider "c = cls" | "c \<in> set (slabClassStorage st)" "c \<noteq> cls" using cls(2) by (auto simp: fields)
    then show "\<exists>ps. nonFullChain c st' ps \<and> set ps = pagesWithRoom st' c"
    proof cases
      case 1
      then have "nonFullChain c st' []" "pagesWithRoom st' c = {}"
        using cls(1) layout(2) own by (auto simp: nonFullChain_def dll_def fields pagesWithRoom_def)
      then show ?thesis by (intro exI [of _ "[]"]) simp
    next
      case 2
      with parts(9) obtain ps where ps: "nonFullChain c st ps" "set ps = pagesWithRoom st c"
        by (auto simp: invNonFull_def)
      have "nonFullChain c st' ps" using ps(1) 2 by (simp add: nonFullChain_def fields)
      moreover have "pagesWithRoom st' c = pagesWithRoom st c" by (auto simp: pagesWithRoom_def fields pc)
      ultimately show ?thesis using ps(2) by blast
    qed
  next
    fix p assume "p \<in> set (slabPageStorage st')" "\<not> slabPageHasFreeSlots st' p"
    then show "sp_prevNonFull (pages st' p) = 0" "sp_nextNonFull (pages st' p) = 0"
      using parts(9) by (auto simp: invNonFull_def fields pc)
  qed
  moreover have "invPages st'" using parts(5) by (auto simp: invPages_def pageOk_def fields pc)
  moreover have "invHeaders st' xs" using parts(7) by (auto simp: invHeaders_def fields sl pc)
  moreover have "invSlots st' xs" using parts(8) by (simp add: invSlots_def freeListOn_def fields lv pc)
  moreover have "invSystem st' xs" using parts(6) by (simp add: invSystem_def sysOk_def fields sl)
  moreover have "invSlabTable st'" using parts(10) by (simp add: invSlabTable_def fields keys)
  moreover have "invSysTable st' xs" using parts(11) by (simp add: invSysTable_def bucketAt_def fields sl hp)
  moreover have "clean \<longrightarrow> invClean st'" using parts(12) by (simp add: invClean_def fields pc)
  moreover have "activeChain st' xs" "invKeys st'" "invBlocks st'"
    using parts(1-3) by (simp_all add: activeChain_def invKeys_def invBlocks_def fields)
  ultimately show ?thesis by (simp add: soundHeap_def)
qed

definition slabRequest :: "u64 \<Rightarrow> u64 \<Rightarrow> bool" where
  "slabRequest n a \<longleftrightarrow> isPowerOfTwo a \<and> 8 \<le> unat a \<and> unat a \<le> 64 \<and> unat n \<le> 512"

lemma getOrCreate_ok:
  assumes inv: "soundHeap clean st xs" and r: "slabRequest n a"
    and env: "env_newClass env \<noteq> 0" "env_newClass env \<notin> set (slabClassStorage st)"
  obtains cls st' where "getOrCreateSlabClass env n a st = (cls, st')" "soundHeap clean st' xs"
    "cls \<in> set (slabClassStorage st')" "cls \<noteq> 0" "sc_payloadSize (classes st' cls) = n"
    "sc_alignment (classes st' cls) = a"
    "hdrs st' = hdrs st" "mallocBlocks st' = mallocBlocks st" "slabPageStorage st' = slabPageStorage st"
proof (cases "slabClassByKey st (slabClassKey n a)")
  case (Some c)
  from inv have "invClasses st" by (simp add: soundHeap_def)
  note ik = invClasses_key [OF this Some]
  from ik invClasses_member(2) [OF \<open>invClasses st\<close> ik(2)] have c: "c \<noteq> 0" "c \<in> set (slabClassStorage st)"
    "slabClassKey n a = slabClassKey (sc_payloadSize (classes st c)) (sc_alignment (classes st c))"
    "classGeom (classes st c)" by simp_all
  from c(4) have "unat (sc_payloadSize (classes st c)) < 4294967296"
    "unat (sc_alignment (classes st c)) < 4294967296" by (simp_all add: classGeom_def)
  with slabClassKey_inject [OF _ _ _ _ c(3)] r
  have "sc_payloadSize (classes st c) = n" "sc_alignment (classes st c) = a"
    by (simp_all add: slabRequest_def)
  with Some c(1,2) inv show ?thesis by (intro that [of c st]) (simp_all add: getOrCreateSlabClass_def Let_def)
next
  case None
  from r obtain c where c: "slabClassLayout n a = Some c" "classGeom c" "sc_payloadSize c = n"
    "sc_alignment c = a" "sc_nonFullPages c = 0"
    using slabClassLayout_geom [of a n] unfolding slabRequest_def by metis
  let ?cls = "env_newClass env"
  let ?st = "st\<lparr>classes := (classes st)(?cls := c), slabClassStorage := slabClassStorage st @ [?cls],
      slabClassByKey := (slabClassByKey st)(slabClassKey n a \<mapsto> ?cls)\<rparr>"
  have "soundHeap clean ?st xs"
    by (rule heapInv_new_class [OF inv env c(2,5) _ None refl]) (simp add: c)
  moreover have "getOrCreateSlabClass env n a st = (?cls, ?st)"
    using None c(1) by (simp add: getOrCreateSlabClass_def Let_def)
  ultimately show ?thesis using env c by (intro that [of ?cls ?st]) simp_all
qed

section \<open>A new slab page\<close>

lemma page_ranges_apart:
  assumes "(s :: nat) + 65536 \<le> t" "4096 dvd t" "s div 4096 \<le> k" "k \<le> (s + 65535) div 4096"
    "t div 4096 \<le> k" shows False
proof -
  obtain m where "t = 4096 * m" using assms(2) by blast
  with assms show False by simp
qed

lemma heapInv_new_page:
  assumes inv: "soundHeap clean st xs" and p: "p \<noteq> 0" "p \<notin> set (slabPageStorage st)" and c: "c \<in> set (slabClassStorage st)"
    and fields: "hdrs st' = hdrs st" "activeAllocationHead st' = activeAllocationHead st"
      "slabClassStorage st' = slabClassStorage st" "slabClassByKey st' = slabClassByKey st"
      "systemHeadersByPage st' = systemHeadersByPage st"
      "denseMapEmptyKey st' = denseMapEmptyKey st" "denseMapTombstoneKey st' = denseMapTombstoneKey st"
      "slabPageStorage st' = slabPageStorage st @ [p]"
      "mallocBlocks st' = (mallocBlocks st)(raw \<mapsto> 69631)"
    and raw: "raw \<noteq> 0" "mallocFresh st raw 69631"
    and ccore: "\<And>k. classCore (classes st' k) = classCore (classes st k)"
    and pcore: "\<And>q. q \<noteq> p \<Longrightarrow> pageCore (pages st' q) = pageCore (pages st q)"
    and new: "pageCore (pages st' p) = \<lparr>sp_slabClass = c, sp_allocationBase = raw,
      sp_pageStart = alignUp raw kAllocationPageBytes, sp_nextUnusedSlot = 0, sp_liveCount = 0,
      sp_freeList = 0, sp_prevNonFull = 0, sp_nextNonFull = 0\<rparr>"
    and tab: "\<And>k. slabPagesByAddressPage st' k =
      (if k \<in> set (slabPageKeys st' p) then Some p else slabPagesByAddressPage st k)"
    and fresh: "\<And>i. clean \<Longrightarrow> i < unat (sc_slotsPerPage (classes st c)) \<Longrightarrow> \<not> looksLive (hdrs st (slotAddr st' p i))"
    and room: "nonFullFor st' (pagesWithRoom st')"
  shows "soundHeap clean st' xs"
proof -
  have parts: "activeChain st xs" "invKeys st" "invBlocks st" "invClasses st" "invPages st" "invSystem st xs"
    "invHeaders st xs" "invSlots st xs" "invNonFull st" "invSlabTable st" "invSysTable st xs" "clean \<longrightarrow> invClean st"
    using inv by (simp_all add: soundHeap_def)
  note cf = classCore_fields [OF ccore]
  have np: "sp_slabClass (pages st' p) = c" "sp_allocationBase (pages st' p) = raw"
    "sp_pageStart (pages st' p) = alignUp raw kAllocationPageBytes" "sp_nextUnusedSlot (pages st' p) = 0"
    "sp_liveCount (pages st' p) = 0" "sp_freeList (pages st' p) = 0"
    using new by (cases "pages st' p"; simp add: pageCore_def)+
  have pf: "sp_slabClass (pages st' q) = sp_slabClass (pages st q)"
    "sp_allocationBase (pages st' q) = sp_allocationBase (pages st q)"
    "sp_pageStart (pages st' q) = sp_pageStart (pages st q)"
    "sp_nextUnusedSlot (pages st' q) = sp_nextUnusedSlot (pages st q)"
    "sp_liveCount (pages st' q) = sp_liveCount (pages st q)" "sp_freeList (pages st' q) = sp_freeList (pages st q)"
    if "q \<in> set (slabPageStorage st)" for q
    using pageCore_fields [OF pcore, of q] that p(2) by auto
  have pc: "sc_slotsPerPage (pageClass st' q) = sc_slotsPerPage (pageClass st q)"
    "sc_payloadSize (pageClass st' q) = sc_payloadSize (pageClass st q)"
    "slotAddr st' q = slotAddr st q" "slabPageKeys st' q = slabPageKeys st q" if "q \<in> set (slabPageStorage st)" for q
    using pf [OF that] by (auto simp: pageClass_def slotAddr_def slabHeaderAt_def slabPageKeys_def Let_def cf fun_eq_iff)
  have lv: "liveOn st' xs = liveOn st xs" by (auto simp: liveOn_def isSlab_def fields fun_eq_iff)
  have hp: "headerPages st' = headerPages st" by (auto simp: headerPages_def fields fun_eq_iff)
  have sl: "isSlab st' = isSlab st" by (auto simp: isSlab_def fields fun_eq_iff)
  have geom: "classGeom (classes st' k) = classGeom (classes st k)" for k by (simp add: classGeom_def cf)
  have rawNone: "mallocBlocks st raw = None" and rawEnd: "unat raw + 69631 < 18446744073709551616"
    using raw(2) by (simp_all add: mallocFresh_def)
  have pageBytes: "isPowerOfTwo kAllocationPageBytes" "unat kAllocationPageBytes = 4096"
    by (simp_all add: isPowerOfTwo_def kAllocationPageBytes_def kAllocationPageShift_def)
  have "unat raw + (unat kAllocationPageBytes - 1) < 18446744073709551616"
    using rawEnd by (simp add: pageBytes)
  note ab = alignUp_bounds [OF pageBytes(1) this, unfolded pageBytes]
  have base: "sp_allocationBase (pages st q) \<noteq> raw" if "q \<in> set (slabPageStorage st)" for q
    using heapInv_page(1) [OF inv that] rawNone by (auto simp: pageOk_def)
  have okp: "pageOk st' p" using p(1) c ab by (simp add: pageOk_def np fields)
  have ok: "pageOk st' q" if "q \<in> set (slabPageStorage st)" for q
    using heapInv_page(1) [OF inv that] base [OF that] by (simp add: pageOk_def pf [OF that] pc [OF that] fields)
  have apart: "k \<notin> set (slabPageKeys st q)" if q: "q \<in> set (slabPageStorage st)" and k: "k \<in> set (slabPageKeys st' p)" for q k
  proof
    assume kq: "k \<in> set (slabPageKeys st q)"
    have oq: "pageOk st q" by (rule heapInv_page(1) [OF inv q])
    have "unat raw + 69631 \<le> unat (sp_allocationBase (pages st q)) \<or>
        unat (sp_allocationBase (pages st q)) + 69631 \<le> unat raw"
      using raw(2) oq by (fastforce simp: mallocFresh_def pageOk_def)
    then have d: "unat (sp_pageStart (pages st' p)) + 65536 \<le> unat (sp_pageStart (pages st q)) \<or>
        unat (sp_pageStart (pages st q)) + 65536 \<le> unat (sp_pageStart (pages st' p))"
      using oq okp by (auto simp: pageOk_def np)
    have e: "unat (sp_pageStart (pages st' p)) + 65536 < 18446744073709551616"
      using okp rawEnd by (simp add: pageOk_def np)
    note m = k [unfolded slabPageKeys_mem [OF e]] kq [unfolded slabPageKeys_mem [OF page_end [OF inv q]]]
    have dv: "4096 dvd unat (sp_pageStart (pages st' p))" "4096 dvd unat (sp_pageStart (pages st q))"
      using okp oq by (simp_all add: pageOk_def)
    show False using d page_ranges_apart dv m by blast
  qed
  have "invBlocks st'"
    unfolding invBlocks_def
  proof (intro allI impI conjI)
    fix b m b' m'
    assume b: "mallocBlocks st' b = Some m"
    show "0 < unat b" "unat b + unat m < 18446744073709551616"
      using b parts(3) raw by (auto simp: invBlocks_def mallocFresh_def unat_gt_0 fields split: if_splits)
    assume b': "mallocBlocks st' b' = Some m'" "b' \<noteq> b"
    show "unat b + unat m \<le> unat b' \<or> unat b' + unat m' \<le> unat b"
      using b b' parts(3) raw by (auto simp: invBlocks_def mallocFresh_def fields split: if_splits)
  qed
  moreover have "invClasses st'" using parts(4) by (simp add: invClasses_def fields cf geom)
  moreover have "invPages st'"
  proof -
    have "inj_on (\<lambda>p. sp_allocationBase (pages st' p)) (set (slabPageStorage st))"
      using parts(5) inj_on_cong [of "set (slabPageStorage st)" "\<lambda>p. sp_allocationBase (pages st' p)"
          "\<lambda>p. sp_allocationBase (pages st p)"] pf by (simp add: invPages_def)
    moreover have "sp_allocationBase (pages st' p) \<notin> (\<lambda>p. sp_allocationBase (pages st' p)) ` set (slabPageStorage st)"
      using base pf by (auto simp: np)
    ultimately show ?thesis using parts(5) p(2) ok okp by (simp add: invPages_def fields)
  qed
  moreover have "invHeaders st' xs" using parts(7) pc by (auto simp: invHeaders_def fields sl)
  moreover have "invSlots st' xs"
    unfolding invSlots_def
  proof (intro ballI)
    fix q assume "q \<in> set (slabPageStorage st')"
    then consider "q = p" | "q \<in> set (slabPageStorage st)" by (auto simp: fields)
    then show "(\<exists>fl. freeListOn st' xs q fl) \<and> card (liveOn st' xs q) = unat (sp_liveCount (pages st' q))"
    proof cases
      case 1
      have "liveOn st xs p = {}" using heapInv_slab_owner(1) [OF inv] p(2) by (auto simp: liveOn_def)
      then show ?thesis using 1 by (auto simp: freeListOn_def np lv intro: exI [of _ "[]"])
    next
      case 2
      with parts(8) show ?thesis by (simp add: invSlots_def freeListOn_def fields lv pc pf)
    qed
  qed
  moreover have "invSystem st' xs"
  proof -
    have "sysOk st' h" if h: "h \<in> set xs" "\<not> isSlab st h" for h
    proof -
      have "sysOk st h" by (rule heapInv_sys [OF inv h])
      then have "ah_storageOwner (hdrs st h) \<noteq> raw" using rawNone by (auto simp: sysOk_def)
      with \<open>sysOk st h\<close> show ?thesis by (auto simp: sysOk_def fields np pf)
    qed
    then show ?thesis using parts(6) by (simp add: invSystem_def fields sl)
  qed
  moreover have "invSlabTable st'"
    unfolding invSlabTable_def
  proof (intro allI)
    fix k q
    show "slabPagesByAddressPage st' k = Some q \<longleftrightarrow> q \<in> set (slabPageStorage st') \<and> k \<in> set (slabPageKeys st' q)"
    proof (cases "k \<in> set (slabPageKeys st' p)")
      case True
      then show ?thesis using apart pc(4) by (auto simp: tab fields)
    next
      case False
      then show ?thesis using parts(10) pc(4) p(2) by (auto simp: tab fields invSlabTable_def)
    qed
  qed
  moreover have "invSysTable st' xs" using parts(11) by (simp add: invSysTable_def bucketAt_def fields sl hp)
  moreover have "clean \<longrightarrow> invClean st'"
    using parts(12) fresh by (auto simp: invClean_def fields pc pf pageClass_def np cf)
  moreover have "activeChain st' xs" "invKeys st'"
    using parts(1,2) by (simp_all add: activeChain_def invKeys_def fields)
  ultimately show ?thesis using room by (simp add: soundHeap_def invNonFull_iff)
qed

text \<open>What a slab allocation relies on beyond \<open>malloc\<close>: the addresses that \<open>new\<close> returns are not
  in use.  Only with \<open>clean\<close>, a fresh block also does not read as a live slab header.\<close>

definition pageEnv :: "bool \<Rightarrow> heap \<Rightarrow> alloc_env \<Rightarrow> bool" where
  "pageEnv clean st env \<longleftrightarrow> mallocContract st (env_malloc env) \<and>
     env_newPage env \<noteq> 0 \<and> env_newPage env \<notin> set (slabPageStorage st) \<and>
     (clean \<longrightarrow> (\<forall>n a. env_malloc env n \<noteq> 0 \<longrightarrow> unat (env_malloc env n) \<le> unat a \<longrightarrow> unat a < unat (env_malloc env n) + unat n \<longrightarrow>
        \<not> looksLive (hdrs st a)))"

definition allocEnv :: "bool \<Rightarrow> heap \<Rightarrow> alloc_env \<Rightarrow> bool" where
  "allocEnv clean st env \<longleftrightarrow> pageEnv clean st env \<and>
     env_newClass env \<noteq> 0 \<and> env_newClass env \<notin> set (slabClassStorage st)"

abbreviation slabEnv :: "heap \<Rightarrow> alloc_env \<Rightarrow> bool" where
  "slabEnv \<equiv> allocEnv True"

lemma pageEnv_cong:
  "mallocBlocks st' = mallocBlocks st \<Longrightarrow> slabPageStorage st' = slabPageStorage st \<Longrightarrow> hdrs st' = hdrs st \<Longrightarrow>
    pageEnv clean st' env \<longleftrightarrow> pageEnv clean st env"
  by (simp add: pageEnv_def mallocContract_def mallocFresh_def)

lemma createSlabPage_ok:
  assumes inv: "soundHeap clean st xs" and env: "pageEnv clean st env" and c: "c \<in> set (slabClassStorage st)"
  shows "createSlabPage env c st = Inr (0, st) \<or>
    (\<exists>st'. createSlabPage env c st = Inr (env_newPage env, st') \<and> soundHeap clean st' xs \<and> env_newPage env \<noteq> 0 \<and>
       env_newPage env \<in> pagesWithRoom st' c \<and> hdrs st' = hdrs st \<and> slabClassStorage st' = slabClassStorage st \<and>
       (\<forall>k. classCore (classes st' k) = classCore (classes st k)))"
proof (cases "env_malloc env 69631 = 0")
  case True
  then show ?thesis
    by (simp add: createSlabPage_def c_malloc_def kManagedSlabPageBytes_def kAllocationPageBytes_def kAllocationPageShift_def)
next
  case False
  define raw p where "raw = env_malloc env 69631" and "p = env_newPage env"
  have raw: "raw \<noteq> 0" "mallocFresh st raw 69631"
    using False env by (simp_all add: raw_def pageEnv_def mallocContract_def)
  have p: "p \<noteq> 0" "p \<notin> set (slabPageStorage st)" using env by (simp_all add: p_def pageEnv_def)
  define rec where "rec = \<lparr>sp_slabClass = c, sp_allocationBase = raw,
      sp_pageStart = alignUp raw kAllocationPageBytes, sp_nextUnusedSlot = 0, sp_liveCount = 0,
      sp_freeList = 0, sp_prevNonFull = 0, sp_nextNonFull = 0\<rparr>"
  define st1 where "st1 = st\<lparr>mallocBlocks := (mallocBlocks st)(raw \<mapsto> 69631), pages := (pages st)(p := rec),
      slabPageStorage := slabPageStorage st @ [p]\<rparr>"
  have cOk: "classGeom (classes st c)" "c \<noteq> 0"
    using invClasses_member [of st c] inv c by (simp_all add: soundHeap_def)
  have "invKeys st1" using inv by (simp add: soundHeap_def invKeys_def st1_def)
  then obtain tab where reg: "registerSlabPageMappings p st1 = Inr (st1\<lparr>slabPagesByAddressPage := tab\<rparr>)"
    "\<And>k. tab k = (if k \<in> set (slabPageKeys st1 p) then Some p else slabPagesByAddressPage st1 k)"
    using registerSlab_table [of st1 p] by blast
  define st2 where "st2 = st1\<lparr>slabPagesByAddressPage := tab\<rparr>"
  define st' where "st' = linkNonFullSlabPage p st2"
  have run: "createSlabPage env c st = Inr (p, st')"
    using raw(1) reg(1) unfolding createSlabPage_def Let_def c_malloc_def
    by (simp add: kManagedSlabPageBytes_def kAllocationPageBytes_def kAllocationPageShift_def
        raw_def p_def st'_def st2_def st1_def rec_def)
  have lookup: "pages st2 p = rec" "\<And>q. q \<noteq> p \<Longrightarrow> pages st2 q = pages st q" "classes st2 = classes st"
    "hdrs st2 = hdrs st" by (simp_all add: st2_def st1_def)
  have hasRoom: "slabPageHasFreeSlots st2 p"
    using cOk by (simp add: slabPageHasFreeSlots_def lookup rec_def classGeom_def word_less_nat_alt)
  have other: "slabPageHasFreeSlots st2 q \<longleftrightarrow> slabPageHasFreeSlots st q" "q \<noteq> p"
    if "q \<in> set (slabPageStorage st)" for q
  proof -
    show "q \<noteq> p" using that p by auto
    then show "slabPageHasFreeSlots st2 q \<longleftrightarrow> slabPageHasFreeSlots st q"
      by (simp add: slabPageHasFreeSlots_def lookup)
  qed
  have R: "nonFullFor st (pagesWithRoom st)" using inv by (simp add: soundHeap_def invNonFull_iff)
  have old: "sp_slabClass (pages st q) \<in> set (slabClassStorage st)" if "q \<in> set (slabPageStorage st)" for q
    using heapInv_page(1) [OF inv that] by (simp add: pageOk_def)
  have R2: "nonFullFor st2 (pagesWithRoom st)"
    unfolding nonFullFor_def
  proof (intro conjI ballI impI)
    fix k assume "k \<in> set (slabClassStorage st2)"
    then have k: "k \<in> set (slabClassStorage st)" by (simp add: st2_def st1_def)
    obtain ps where ps: "nonFullChain k st ps" "set ps = pagesWithRoom st k" by (rule nonFullFor_chain [OF R k])
    have "nonFullChain k st2 ps \<longleftrightarrow> nonFullChain k st ps"
      by (rule nonFullChain_cong) (use ps(2) other lookup in \<open>auto simp: pagesWithRoom_def\<close>)
    with ps show "\<exists>ps. nonFullChain k st2 ps \<and> set ps = pagesWithRoom st k" by blast
  next
    fix q assume q: "q \<in> set (slabPageStorage st2)" "q \<notin> pagesWithRoom st (sp_slabClass (pages st2 q))"
    have "sp_prevNonFull (pages st2 q) = 0 \<and> sp_nextNonFull (pages st2 q) = 0"
    proof (cases "q = p")
      case True
      then show ?thesis by (simp add: lookup rec_def)
    next
      case False
      with q have "q \<in> set (slabPageStorage st)" "q \<notin> pagesWithRoom st (sp_slabClass (pages st q))"
        by (simp_all add: lookup) (simp add: st2_def st1_def)
      with nonFullFor_out [OF R] False show ?thesis by (simp add: lookup)
    qed
    then show "sp_prevNonFull (pages st2 q) = 0" "sp_nextNonFull (pages st2 q) = 0" by simp_all
  qed
  have pR: "p \<notin> pagesWithRoom st c" using p(2) by (simp add: pagesWithRoom_def)
  have st2S: "slabPageStorage st2 = slabPageStorage st @ [p]" "slabClassStorage st2 = slabClassStorage st"
    by (simp_all add: st2_def st1_def)
  have linked: "nonFullFor st' ((pagesWithRoom st)(c := insert p (pagesWithRoom st c)))"
    unfolding st'_def
    by (rule nonFullFor_link [OF R2 _ p(1) _ _ pR hasRoom]) (simp_all add: st2S c lookup rec_def)
  have free': "slabPageHasFreeSlots st' q \<longleftrightarrow> slabPageHasFreeSlots st2 q" for q
    by (simp add: slabPageHasFreeSlots_def st'_def)
  have pw: "pagesWithRoom st' k = ((pagesWithRoom st)(c := insert p (pagesWithRoom st c))) k" for k
  proof (rule set_eqI)
    fix q
    show "q \<in> pagesWithRoom st' k \<longleftrightarrow> q \<in> ((pagesWithRoom st)(c := insert p (pagesWithRoom st c))) k"
      using hasRoom p(2) other [of q]
      by (cases "q = p") (auto simp: pagesWithRoom_def free', auto simp: st'_def st2S lookup rec_def)
  qed
  have room: "nonFullFor st' (pagesWithRoom st')"
    using linked by (simp only: ext [OF pw])
  have keysEq: "slabPageKeys st' p = slabPageKeys st1 p" by (simp add: slabPageKeys_def st'_def st2_def)
  have untouched: "\<not> looksLive (hdrs st (slotAddr st' p i))" if cl: clean and i: "i < unat (sc_slotsPerPage (classes st c))" for i
  proof -
    have pcl: "pageClass st2 p = classes st c" by (simp add: pageClass_def lookup rec_def)
    have pageBytes: "isPowerOfTwo kAllocationPageBytes" "unat kAllocationPageBytes = 4096"
      by (simp_all add: isPowerOfTwo_def kAllocationPageBytes_def kAllocationPageShift_def)
    have rawEnd: "unat raw + 69631 < 18446744073709551616" using raw(2) by (simp add: mallocFresh_def)
    then have "unat raw + (unat kAllocationPageBytes - 1) < 18446744073709551616" by (simp add: pageBytes)
    note ab = alignUp_bounds [OF pageBytes(1) this, unfolded pageBytes]
    have start: "sp_pageStart (pages st2 p) = alignUp raw kAllocationPageBytes" by (simp add: lookup rec_def)
    have e: "slotAddr st' p i = slotAddr st2 p i"
      by (simp add: slotAddr_def slabHeaderAt_def Let_def st'_def)
    have "unat (slotAddr st' p i) = unat (alignUp raw kAllocationPageBytes) +
        i * unat (sc_slotStride (classes st c)) + unat (sc_headerOffset (classes st c))"
      using unat_slotAddr_geom [of st2 p i] cOk(1) i ab(3) rawEnd by (simp add: pcl start e)
    moreover note slot_in_page(1,2) [OF cOk(1) i]
    ultimately have "unat raw \<le> unat (slotAddr st' p i)" "unat (slotAddr st' p i) < unat raw + 69631"
      using ab(2,3) by simp_all
    with env raw(1) cl show ?thesis by (auto simp: pageEnv_def raw_def)
  qed
  have "soundHeap clean st' xs"
  proof (rule heapInv_new_page [OF inv p c])
    show "pageCore (pages st' p) = \<lparr>sp_slabClass = c, sp_allocationBase = raw,
      sp_pageStart = alignUp raw kAllocationPageBytes, sp_nextUnusedSlot = 0, sp_liveCount = 0,
      sp_freeList = 0, sp_prevNonFull = 0, sp_nextNonFull = 0\<rparr>"
      by (simp add: st'_def lookup rec_def pageCore_def [of rec, unfolded rec_def])
    show "slabPagesByAddressPage st' k = (if k \<in> set (slabPageKeys st' p) then Some p
        else slabPagesByAddressPage st k)" for k
      unfolding keysEq by (simp add: st'_def st2_def reg(2)) (simp add: st1_def)
  qed (use raw untouched room lookup in \<open>simp_all add: st'_def st2_def st1_def\<close>)
  moreover have "p \<in> pagesWithRoom st' c" by (simp add: pw)
  ultimately show ?thesis
    using run p(1) by (auto simp: p_def [symmetric] st'_def lookup st2S)
qed

end
