(* ===== verification/Heap_Release.thy ===== *)
theory Heap_Release
  imports Heap_Pages
begin

text \<open>
  Releasing an empty slab page (\<open>releaseSlabPage\<close>) and reclaiming one allocation
  (\<open>reclaimAllocation\<close>) keep the invariant and never abort.
\<close>

section \<open>Releasing a slab page\<close>

lemma heapInv_drop_page:
  assumes inv: "soundHeap clean st xs" and p: "p \<in> set (slabPageStorage st)" and empty: "liveOn st xs p = {}"
    and fields: "hdrs st' = hdrs st" "activeAllocationHead st' = activeAllocationHead st"
      "slabClassStorage st' = slabClassStorage st" "slabClassByKey st' = slabClassByKey st"
      "systemHeadersByPage st' = systemHeadersByPage st"
      "denseMapEmptyKey st' = denseMapEmptyKey st" "denseMapTombstoneKey st' = denseMapTombstoneKey st"
      "slabPageStorage st' = remove1 p (slabPageStorage st)"
      "mallocBlocks st' = (mallocBlocks st)(sp_allocationBase (pages st p) := None)"
      "slabPagesByAddressPage st' =
         (\<lambda>k. if k \<in> set (slabPageKeys st p) then None else slabPagesByAddressPage st k)"
    and ccore: "\<And>k. classCore (classes st' k) = classCore (classes st k)"
    and pcore: "\<And>q. pageCore (pages st' q) = pageCore (pages st q)"
    and room: "nonFullFor st' (pagesWithRoom st')"
  shows "soundHeap clean st' xs"
proof -
  have parts: "activeChain st xs" "invKeys st" "invBlocks st" "invClasses st" "invPages st" "invSystem st xs"
    "invHeaders st xs" "invSlots st xs" "invNonFull st" "invSlabTable st" "invSysTable st xs" "clean \<longrightarrow> invClean st"
    using inv by (simp_all add: soundHeap_def)
  note cf = classCore_fields [OF ccore] and pf = pageCore_fields [OF pcore]
  have d: "distinct (slabPageStorage st)" using parts(5) by (simp add: invPages_def)
  have storage: "set (slabPageStorage st') = set (slabPageStorage st) - {p}" using d by (simp add: fields)
  have pc: "sc_slotsPerPage (pageClass st' q) = sc_slotsPerPage (pageClass st q)"
    "sc_payloadSize (pageClass st' q) = sc_payloadSize (pageClass st q)"
    "slotAddr st' q = slotAddr st q" "slabPageKeys st' q = slabPageKeys st q" for q
    by (auto simp: pageClass_def slotAddr_def slabHeaderAt_def slabPageKeys_def Let_def cf pf fun_eq_iff)
  have lv: "liveOn st' xs = liveOn st xs" by (auto simp: liveOn_def isSlab_def fields fun_eq_iff)
  have hp: "headerPages st' = headerPages st" by (auto simp: headerPages_def fields fun_eq_iff)
  have sl: "isSlab st' = isSlab st" by (auto simp: isSlab_def fields fun_eq_iff)
  have geom: "classGeom (classes st' k) = classGeom (classes st k)" for k by (simp add: classGeom_def cf)
  have base: "sp_allocationBase (pages st q) \<noteq> sp_allocationBase (pages st p)"
    if "q \<in> set (slabPageStorage st)" "q \<noteq> p" for q
  proof -
    have "inj_on (\<lambda>p. sp_allocationBase (pages st p)) (set (slabPageStorage st))"
      using parts(5) by (simp add: invPages_def)
    from inj_on_eq_iff [OF this that(1) p] that(2) show ?thesis by simp
  qed
  have "invBlocks st'" using parts(3) by (auto simp: invBlocks_def fields split: if_splits)
  moreover have "invClasses st'" using parts(4) by (simp add: invClasses_def fields cf geom)
  moreover have "invPages st'"
  proof -
    have "pageOk st' q" if q: "q \<in> set (slabPageStorage st)" "q \<noteq> p" for q
      using heapInv_page(1) [OF inv q(1)] base [OF q] by (simp add: pageOk_def pf pc fields)
    moreover have "inj_on (\<lambda>p. sp_allocationBase (pages st' p)) (set (slabPageStorage st) - {p})"
      using parts(5) by (auto simp: invPages_def pf intro: inj_on_diff)
    ultimately show ?thesis using d by (auto simp: invPages_def storage fields(8))
  qed
  moreover have "invHeaders st' xs"
  proof -
    have "ah_storageOwner (hdrs st h) \<noteq> p" if "h \<in> set xs" "isSlab st h" for h
      using empty that by (auto simp: liveOn_def)
    then show ?thesis using parts(7) by (simp add: invHeaders_def fields sl pc storage)
  qed
  moreover have "invSlots st' xs"
    using parts(8) by (simp add: invSlots_def freeListOn_def storage fields(1) lv pc pf)
  moreover have "invSystem st' xs"
  proof -
    have "sysOk st' h" if h: "h \<in> set xs" "\<not> isSlab st h" for h
    proof -
      have s: "sysOk st h" by (rule heapInv_sys [OF inv h])
      then have "sp_allocationBase (pages st p) \<noteq> ah_storageOwner (hdrs st h)"
        using p by (simp add: sysOk_def)
      with s show ?thesis by (auto simp: sysOk_def fields pf storage)
    qed
    then show ?thesis using parts(6) by (simp add: invSystem_def fields sl)
  qed
  moreover have "invSlabTable st'"
    unfolding invSlabTable_def
  proof (intro allI)
    fix k q
    have t: "slabPagesByAddressPage st k = Some q \<longleftrightarrow> q \<in> set (slabPageStorage st) \<and> k \<in> set (slabPageKeys st q)" for q
      using parts(10) by (simp add: invSlabTable_def)
    have one: "q = p" if "k \<in> set (slabPageKeys st p)" "q \<in> set (slabPageStorage st)" "k \<in> set (slabPageKeys st q)"
      using that p t [of q] t [of p] by simp
    show "slabPagesByAddressPage st' k = Some q \<longleftrightarrow> q \<in> set (slabPageStorage st') \<and> k \<in> set (slabPageKeys st' q)"
    proof (cases "k \<in> set (slabPageKeys st p)")
      case True
      with one show ?thesis by (auto simp: fields(10) storage pc)
    next
      case False
      with t show ?thesis by (auto simp: fields(10) storage pc)
    qed
  qed
  moreover have "invSysTable st' xs" using parts(11) by (simp add: invSysTable_def bucketAt_def fields sl hp)
  moreover have "clean \<longrightarrow> invClean st'" using parts(12) by (simp add: invClean_def storage fields(1) pc pf)
  moreover have "activeChain st' xs" "invKeys st'"
    using parts(1,2) by (simp_all add: activeChain_def invKeys_def fields)
  ultimately show ?thesis using room by (simp add: soundHeap_def invNonFull_iff)
qed

lemma releaseSlabPage_ok:
  assumes inv: "soundHeap clean st xs" and p: "p \<in> set (slabPageStorage st)" and empty: "liveOn st xs p = {}"
  obtains st' where "releaseSlabPage p st = Inr st'" "soundHeap clean st' xs" "hdrs st' = hdrs st"
proof -
  let ?c = "sp_slabClass (pages st p)"
  have ok: "pageOk st p" by (rule heapInv_page(1) [OF inv p])
  then have p0: "p \<noteq> 0" and c: "?c \<in> set (slabClassStorage st)" by (simp_all add: pageOk_def)
  define st1 where "st1 = unlinkNonFullSlabPage p st"
  define st2 where "st2 = unregisterSlabPageMappings p st1"
  define st3 where "st3 = st2\<lparr>mallocBlocks := (mallocBlocks st2)(sp_allocationBase (pages st2 p) := None)\<rparr>"
  define st' where "st' = st3\<lparr>slabPageStorage := remove1 p (slabPageStorage st3)\<rparr>"
  have keys: "slabPageKeys st1 p = slabPageKeys st p" by (simp add: slabPageKeys_def st1_def)
  have lookup: "pages st' = pages st1" "classes st' = classes st1" "hdrs st' = hdrs st"
    "activeAllocationHead st' = activeAllocationHead st" "slabClassStorage st' = slabClassStorage st"
    "slabClassByKey st' = slabClassByKey st" "systemHeadersByPage st' = systemHeadersByPage st"
    "denseMapEmptyKey st' = denseMapEmptyKey st" "denseMapTombstoneKey st' = denseMapTombstoneKey st"
    "slabPageStorage st' = remove1 p (slabPageStorage st)"
    "mallocBlocks st' = (mallocBlocks st)(sp_allocationBase (pages st p) := None)"
    "slabPagesByAddressPage st' =
       (\<lambda>k. if k \<in> set (slabPageKeys st p) then None else slabPagesByAddressPage st k)"
    by (simp_all add: st'_def st3_def st2_def st1_def unregisterSlab_table keys [unfolded st1_def]
        cong: if_cong)
  have "mallocBlocks st2 (sp_allocationBase (pages st2 p)) = Some 69631"
    "sp_allocationBase (pages st2 p) \<noteq> 0"
    using ok heapInv_block(1) [OF inv, of "sp_allocationBase (pages st p)"]
    by (auto simp: st2_def st1_def unregisterSlab_table pageOk_def unat_gt_0)
  then have run: "releaseSlabPage p st = Inr st'"
    by (simp add: releaseSlabPage_def Let_def c_free_def st'_def st3_def st2_def st1_def)
  have R: "nonFullFor st (pagesWithRoom st)" using inv by (simp add: soundHeap_def invNonFull_iff)
  have R1: "nonFullFor st1 ((pagesWithRoom st)(?c := pagesWithRoom st ?c - {p}))"
  proof (cases "p \<in> pagesWithRoom st ?c")
    case True
    show ?thesis unfolding st1_def by (rule nonFullFor_unlink [OF R True refl c])
  next
    case False
    then have "(pagesWithRoom st)(?c := pagesWithRoom st ?c - {p}) = pagesWithRoom st" by auto
    moreover have "st1 = st" unfolding st1_def by (rule nonFullFor_unlink_out [OF R p False p0 refl c])
    ultimately show ?thesis using R by simp
  qed
  have d: "distinct (slabPageStorage st)" using inv by (simp add: soundHeap_def invPages_def)
  have free': "slabPageHasFreeSlots st' q \<longleftrightarrow> slabPageHasFreeSlots st q" for q
    by (simp add: slabPageHasFreeSlots_def lookup) (simp add: st1_def)
  have room: "nonFullFor st' (pagesWithRoom st')"
  proof (rule nonFullFor_frame [OF R1])
    show "pagesWithRoom st' k = ((pagesWithRoom st)(?c := pagesWithRoom st ?c - {p})) k" for k
    proof (rule set_eqI)
      fix q show "q \<in> pagesWithRoom st' k \<longleftrightarrow> q \<in> ((pagesWithRoom st)(?c := pagesWithRoom st ?c - {p})) k"
        using d by (cases "q = p") (auto simp: pagesWithRoom_def free' lookup, auto simp: st1_def)
    qed
    show "sp_slabClass (pages st1 q) \<in> set (slabClassStorage st1)" if "q \<in> set (slabPageStorage st1)" for q
      using heapInv_page(1) [OF inv, of q] that by (simp add: st1_def pageOk_def)
  qed (use set_remove1_subset [of p "slabPageStorage st"] in \<open>simp_all add: lookup\<close>, simp_all add: st1_def)
  have "soundHeap clean st' xs"
    by (rule heapInv_drop_page [OF inv p empty _ _ _ _ _ _ _ _ _ _ _ _ room]) (simp_all add: lookup, simp_all add: st1_def)
  with run lookup(3) that show ?thesis by blast
qed

section \<open>Reclaiming an allocation\<close>

lemma unlinkedChain:
  assumes inv: "soundHeap clean st xs" and h: "h \<in> set xs"
  shows "activeChain (unlinkActiveAllocation h st) (remove1 h xs)"
    and "distinct xs" and "0 \<notin> set xs"
proof -
  have ch: "activeChain st xs" using inv by (simp add: soundHeap_def)
  show "activeChain (unlinkActiveAllocation h st) (remove1 h xs)" by (rule active.chain_unlink [OF ch h])
  show "distinct xs" "0 \<notin> set xs" using active.chain_distinct [OF ch] active.chain_nonnull [OF ch] .
qed

definition retired :: "addr \<Rightarrow> heap \<Rightarrow> heap" where
  "retired h st = updHdr h (\<lambda>h. h\<lparr>ah_marked := False\<rparr>)
     (updHdr h (\<lambda>h. h\<lparr>ah_live := False\<rparr>) (unlinkActiveAllocation h st))"

lemma retired_simps:
  "pages (retired h st) = pages st" "classes (retired h st) = classes st"
  "slabClassByKey (retired h st) = slabClassByKey st" "slabClassStorage (retired h st) = slabClassStorage st"
  "slabPageStorage (retired h st) = slabPageStorage st"
  "slabPagesByAddressPage (retired h st) = slabPagesByAddressPage st"
  "systemHeadersByPage (retired h st) = systemHeadersByPage st" "mallocBlocks (retired h st) = mallocBlocks st"
  "denseMapEmptyKey (retired h st) = denseMapEmptyKey st"
  "denseMapTombstoneKey (retired h st) = denseMapTombstoneKey st"
  "activeAllocationHead (retired h st) = activeAllocationHead (unlinkActiveAllocation h st)"
  "ah_next (hdrs (retired h st) a) = ah_next (hdrs (unlinkActiveAllocation h st) a)"
  "ah_prev (hdrs (retired h st) a) = ah_prev (hdrs (unlinkActiveAllocation h st) a)"
  "ah_payloadSize (hdrs (retired h st) a) = ah_payloadSize (hdrs st a)"
  "\<not> ah_live (hdrs (retired h st) h)"
  "a \<noteq> h \<Longrightarrow> hdrCore (hdrs (retired h st) a) = hdrCore (hdrs st a)"
  by (simp_all add: retired_def)

lemma reclaim_system_ok:
  assumes inv: "soundHeap clean st xs" and h: "h \<in> set xs" "\<not> isSlab st h"
  obtains st' where "reclaimAllocation h st = Inr st'" "soundHeap clean st' (remove1 h xs)"
    "\<And>a. a \<noteq> h \<Longrightarrow> hdrCore (hdrs st' a) = hdrCore (hdrs st a)"
proof -
  let ?o = "ah_storageOwner (hdrs st h)"
  obtain tab where tab: "unregisterSystemAllocationPages h (retired h st) =
      (retired h st)\<lparr>systemHeadersByPage := tab\<rparr>"
    "\<And>k. tab k = (if k \<in> set (headerPages (retired h st) h) \<and> systemHeadersByPage (retired h st) k \<noteq> None
       then (if swapRemove h (bucketAt (retired h st) k) = [] then None
             else Some (swapRemove h (bucketAt (retired h st) k)))
       else systemHeadersByPage (retired h st) k)"
    using unregisterSystem_table [of h "retired h st"] by blast
  have hp: "headerPages (retired h st) h = headerPages st h"
    by (rule headerPages_cong) (simp add: retired_simps)
  have bk: "bucketAt (retired h st) k = bucketAt st k" for k by (simp add: bucketAt_def retired_simps)
  define st' where "st' = (retired h st)\<lparr>systemHeadersByPage := tab,
    mallocBlocks := (mallocBlocks st)(?o := None)\<rparr>"
  obtain n where n: "mallocBlocks st ?o = Some n" using heapInv_sys [OF inv h] by (auto simp: sysOk_def)
  have o0: "?o \<noteq> 0" using heapInv_block(1) [OF inv n] by (simp add: unat_gt_0)
  have sys: "ah_storageKind (hdrs st h) = SSystem"
    using h(2) by (cases "ah_storageKind (hdrs st h)") (simp_all add: isSlab_def)
  have run: "reclaimAllocation h st = Inr st'"
    using n o0 tab(1) unfolding reclaimAllocation_def Let_def
    by (simp add: sys retired_def [symmetric] c_free_def retired_simps st'_def)
  have chain: "activeChain st' (remove1 h xs)"
    using unlinkedChain(1) [OF inv h(1)] by (subst activeChain_cong [of _ "unlinkActiveAllocation h st"])
      (simp_all add: st'_def retired_simps)
  have ch: "activeChain st xs" using inv by (simp add: soundHeap_def)
  have "soundHeap clean st' (remove1 h xs)"
  proof (rule heapInv_remove_system [OF inv h])
    show "ah_next (hdrs st' a) = ah_next (hdrs st a)" if "a \<notin> set xs" for a
      using unlinkActive_next_frame [OF ch h(1) that] by (simp add: st'_def retired_simps)
    show "systemHeadersByPage st' k =
      (if k \<in> set (headerPages st h) \<and> systemHeadersByPage st k \<noteq> None
       then (if swapRemove h (bucketAt st k) = [] then None else Some (swapRemove h (bucketAt st k)))
       else systemHeadersByPage st k)" for k
      using tab(2) [of k] by (simp add: st'_def hp bk retired_simps(7))
  qed (use chain in \<open>simp_all add: st'_def sameSlab_def retired_simps\<close>)
  moreover have "hdrCore (hdrs st' a) = hdrCore (hdrs st a)" if "a \<noteq> h" for a
    using that by (simp add: st'_def retired_simps)
  ultimately show ?thesis using run that by blast
qed

text \<open>A full page has a live allocation in every slot, and every class has at least two slots.\<close>

lemma full_page_count:
  assumes inv: "soundHeap clean st xs" and p: "p \<in> set (slabPageStorage st)" and full: "\<not> slabPageHasFreeSlots st p"
  shows "1 < unat (sp_liveCount (pages st p))"
proof -
  obtain fl where fl: "freeListOn st xs p fl" by (rule heapInv_freeList [OF inv p])
  have e: "sp_freeList (pages st p) = 0"
    "unat (sp_nextUnusedSlot (pages st p)) = unat (sc_slotsPerPage (pageClass st p))"
    using full nextUnused_le [OF inv p]
    by (auto simp: slabPageHasFreeSlots_def pageClass_def word_less_nat_alt)
  then have "fl = []" using fl by (cases fl) (auto simp: freeListOn_def)
  with fl e have "liveOn st xs p = slotAddr st p ` {..< unat (sc_slotsPerPage (pageClass st p))}"
    by (simp add: freeListOn_def)
  moreover have "inj_on (slotAddr st p) {..< unat (sc_slotsPerPage (pageClass st p))}"
    using slotAddr_inject(2) [OF inv p p] by (auto intro!: inj_onI)
  ultimately have "card (liveOn st xs p) = unat (sc_slotsPerPage (pageClass st p))"
    by (simp add: card_image)
  moreover have "card (liveOn st xs p) = unat (sp_liveCount (pages st p))"
    using inv p by (simp add: soundHeap_def invSlots_def)
  ultimately show ?thesis using heapInv_page(2) [OF inv p] by (simp add: classGeom_def)
qed

definition slotReturned :: "addr \<Rightarrow> addr \<Rightarrow> heap \<Rightarrow> heap" where
  "slotReturned p h st = updPage p (\<lambda>q. q\<lparr>sp_liveCount := sp_liveCount q - 1\<rparr>)
     (updPage p (\<lambda>q. q\<lparr>sp_freeList := h\<rparr>)
       (updHdr h (\<lambda>x. x\<lparr>ah_next := sp_freeList (pages st p)\<rparr>) (retired h st)))"

lemma slotReturned_simps:
  "classes (slotReturned p h st) = classes st"
  "pages (slotReturned p h st) =
     (pages st)(p := (pages st p)\<lparr>sp_freeList := h, sp_liveCount := sp_liveCount (pages st p) - 1\<rparr>)"
  "slabClassByKey (slotReturned p h st) = slabClassByKey st"
  "slabClassStorage (slotReturned p h st) = slabClassStorage st"
  "slabPageStorage (slotReturned p h st) = slabPageStorage st"
  "slabPagesByAddressPage (slotReturned p h st) = slabPagesByAddressPage st"
  "systemHeadersByPage (slotReturned p h st) = systemHeadersByPage st"
  "mallocBlocks (slotReturned p h st) = mallocBlocks st"
  "denseMapEmptyKey (slotReturned p h st) = denseMapEmptyKey st"
  "denseMapTombstoneKey (slotReturned p h st) = denseMapTombstoneKey st"
  "activeAllocationHead (slotReturned p h st) = activeAllocationHead (unlinkActiveAllocation h st)"
  "ah_next (hdrs (slotReturned p h st) a) =
     (if a = h then sp_freeList (pages st p) else ah_next (hdrs (unlinkActiveAllocation h st) a))"
  "ah_prev (hdrs (slotReturned p h st) a) = ah_prev (hdrs (unlinkActiveAllocation h st) a)"
  "\<not> ah_live (hdrs (slotReturned p h st) h)"
  "a \<noteq> h \<Longrightarrow> hdrCore (hdrs (slotReturned p h st) a) = hdrCore (hdrs st a)"
  by (simp_all add: slotReturned_def retired_simps updPage_def)

lemma reclaim_slab_run:
  assumes "isSlab st h" "p = ah_storageOwner (hdrs st h)" "sp_liveCount (pages st p) \<noteq> 0"
  shows "reclaimAllocation h st =
    (if sp_liveCount (pages st p) - 1 = 0 then releaseSlabPage p (slotReturned p h st)
     else Inr (if \<not> slabPageHasFreeSlots st p then linkNonFullSlabPage p (slotReturned p h st)
               else slotReturned p h st))"
proof -
  have sk: "ah_storageKind (hdrs st h) = SSlab" using assms(1) by (simp add: isSlab_def)
  have wf: "slabPageHasFreeSlots (retired h st) p = slabPageHasFreeSlots st p"
    by (simp add: slabPageHasFreeSlots_def retired_simps)
  have e: "reclaimAllocation h st =
     (let st1 = updHdr h (\<lambda>x. x\<lparr>ah_next := sp_freeList (pages (retired h st) p)\<rparr>) (retired h st);
          st1 = updPage p (\<lambda>p. p\<lparr>sp_freeList := h\<rparr>) st1
      in if sp_liveCount (pages st1 p) = 0 then Inl InvalidLiveCount
         else let st1 = updPage p (\<lambda>p. p\<lparr>sp_liveCount := sp_liveCount p - 1\<rparr>) st1
              in if sp_liveCount (pages st1 p) = 0 then releaseSlabPage p st1
                 else Inr (if \<not> slabPageHasFreeSlots (retired h st) p then linkNonFullSlabPage p st1 else st1))"
    using assms(2) unfolding reclaimAllocation_def Let_def by (simp add: sk retired_def [symmetric])
  show ?thesis using assms(3) unfolding e wf Let_def
    by (simp add: retired_simps slotReturned_def [symmetric]) (simp add: slotReturned_simps)
qed

lemma reclaim_slab_ok:
  assumes inv: "soundHeap clean st xs" and h: "h \<in> set xs" "isSlab st h"
  obtains st' where "reclaimAllocation h st = Inr st'" "soundHeap clean st' (remove1 h xs)"
    "\<And>a. a \<noteq> h \<Longrightarrow> hdrCore (hdrs st' a) = hdrCore (hdrs st a)"
proof -
  define p where "p = ah_storageOwner (hdrs st h)"
  define st1 where "st1 = slotReturned p h st"
  have pS: "p \<in> set (slabPageStorage st)" using heapInv_slab_owner(1) [OF inv h] by (simp add: p_def)
  have ok: "pageOk st p" by (rule heapInv_page(1) [OF inv pS])
  have p0: "p \<noteq> 0" and c: "sp_slabClass (pages st p) \<in> set (slabClassStorage st)"
    using ok by (simp_all add: pageOk_def)
  have ch: "activeChain st xs" using inv by (simp add: soundHeap_def)
  have h0: "h \<noteq> 0" using unlinkedChain(3) [OF inv h(1)] h(1) by metis
  have cnt: "sp_liveCount (pages st p) \<noteq> 0"
    using liveCount_pos [OF inv h] by (auto simp: p_def)
  have hxs: "h \<notin> set (remove1 h xs)" using unlinkedChain(2) [OF inv h(1)] by simp
  have chain: "activeChain st' (remove1 h xs)" if "activeAllocationHead st' = activeAllocationHead st1"
    "hdrs st' = hdrs st1" for st'
    using unlinkedChain(1) [OF inv h(1)] hxs that
    by (subst activeChain_cong [of _ "unlinkActiveAllocation h st"]) (auto simp: st1_def slotReturned_simps)
  have put: "soundHeap clean st' (remove1 h xs)"
    if st': "onePage p st st'" "hdrs st' = hdrs st1" "activeAllocationHead st' = activeAllocationHead st1"
      "pageCore (pages st' p) = pageCore (pages st1 p)" "nonFullFor st' (pagesWithRoom st')" for st'
  proof (rule heapInv_put_slot [OF inv h p_def st'(1)])
    note pf = pageCore_fields [OF st'(4)]
    show "ah_next (hdrs st' a) = ah_next (hdrs st a)" if "a \<notin> set xs" for a
      using unlinkActive_next_frame [OF ch h(1) that] that h(1) by (auto simp: st'(2) st1_def slotReturned_simps)
    show "activeChain st' (remove1 h xs)" by (rule chain [OF st'(3,2)])
    show "sp_freeList (pages st' p) = h" "sp_nextUnusedSlot (pages st' p) = sp_nextUnusedSlot (pages st p)"
      "sp_liveCount (pages st' p) = sp_liveCount (pages st p) - 1"
      by (simp_all add: pf) (simp_all add: st1_def slotReturned_simps)
  qed (use st' in \<open>simp_all add: st1_def slotReturned_simps\<close>)
  have onep: "onePage p st st1" by (simp add: onePage_def st1_def slotReturned_simps)
  have core: "hdrCore (hdrs st1 a) = hdrCore (hdrs st a)" if "a \<noteq> h" for a
    using that by (simp add: st1_def slotReturned_simps)
  have R: "nonFullFor st (pagesWithRoom st)" using inv by (simp add: soundHeap_def invNonFull_iff)
  have R1: "nonFullFor st1 (pagesWithRoom st)"
    by (rule nonFullFor_frame [OF R]) (use heapInv_page(1) [OF inv] in \<open>auto simp: st1_def slotReturned_simps pageOk_def\<close>)
  have free1: "slabPageHasFreeSlots st1 q \<longleftrightarrow> q = p \<or> slabPageHasFreeSlots st q" for q
    using h0 by (auto simp: slabPageHasFreeSlots_def st1_def slotReturned_simps)
  note run = reclaim_slab_run [OF h(2) p_def cnt, folded st1_def]
  show ?thesis
  proof (cases "slabPageHasFreeSlots st p")
    case False
    then have "1 < unat (sp_liveCount (pages st p))" by (rule full_page_count [OF inv pS])
    then have "sp_liveCount (pages st p) - 1 \<noteq> 0" by (auto simp: u64_eq_iff unat_minus_u64)
    with run False have r: "reclaimAllocation h st = Inr (linkNonFullSlabPage p st1)" by simp
    let ?c = "sp_slabClass (pages st p)" and ?st = "linkNonFullSlabPage p st1"
    have pR: "p \<notin> pagesWithRoom st ?c" using False by (simp add: pagesWithRoom_def)
    have linked: "nonFullFor ?st ((pagesWithRoom st)(?c := insert p (pagesWithRoom st ?c)))"
      by (rule nonFullFor_link [OF R1 _ p0 _ _ pR]) (simp_all add: pS c free1, simp_all add: st1_def slotReturned_simps pS c)
    have pw: "pagesWithRoom ?st k = ((pagesWithRoom st)(?c := insert p (pagesWithRoom st ?c))) k" for k
    proof (rule set_eqI)
      fix q
      have "slabPageHasFreeSlots ?st q \<longleftrightarrow> slabPageHasFreeSlots st1 q" by (simp add: slabPageHasFreeSlots_def)
      then show "q \<in> pagesWithRoom ?st k \<longleftrightarrow> q \<in> ((pagesWithRoom st)(?c := insert p (pagesWithRoom st ?c))) k"
        using pS by (cases "q = p") (auto simp: pagesWithRoom_def free1, auto simp: st1_def slotReturned_simps)
    qed
    have "soundHeap clean ?st (remove1 h xs)"
    proof (rule put)
      show "onePage p st ?st" using onep by (simp add: onePage_def)
      show "nonFullFor ?st (pagesWithRoom ?st)" using linked by (simp only: ext [OF pw])
    qed simp_all
    then show ?thesis by (rule that [OF r]) (simp add: core)
  next
    case True
    have "pagesWithRoom st1 = pagesWithRoom st"
      using True by (auto simp: pagesWithRoom_def free1 fun_eq_iff) (auto simp: st1_def slotReturned_simps split: if_splits)
    with R1 have room: "nonFullFor st1 (pagesWithRoom st1)" by simp
    have inv1: "soundHeap clean st1 (remove1 h xs)" by (rule put) (simp_all add: onep room)
    show ?thesis
    proof (cases "sp_liveCount (pages st p) - 1 = 0")
      case False
      with run True have "reclaimAllocation h st = Inr st1" by simp
      then show ?thesis using inv1 core that by blast
    next
      case dead: True
      have pS1: "p \<in> set (slabPageStorage st1)" using pS by (simp add: st1_def slotReturned_simps)
      have "card (liveOn st1 (remove1 h xs) p) = unat (sp_liveCount (pages st1 p))"
        using inv1 pS1 by (simp add: soundHeap_def invSlots_def)
      also have "\<dots> = 0" using dead by (simp add: st1_def slotReturned_simps)
      finally have "liveOn st1 (remove1 h xs) p = {}" by (simp add: liveOn_def)
      from releaseSlabPage_ok [OF inv1 pS1 this] obtain st' where st': "releaseSlabPage p st1 = Inr st'"
        "soundHeap clean st' (remove1 h xs)" "hdrs st' = hdrs st1" by blast
      from run dead st'(1) have "reclaimAllocation h st = Inr st'" by simp
      then show ?thesis using st'(2) by (rule that) (simp add: st'(3) core)
    qed
  qed
qed

lemma reclaim_ok:
  assumes "soundHeap clean st xs" "h \<in> set xs"
  obtains st' where "reclaimAllocation h st = Inr st'" "soundHeap clean st' (remove1 h xs)"
    "\<And>a. a \<noteq> h \<Longrightarrow> hdrCore (hdrs st' a) = hdrCore (hdrs st a)"
proof (cases "isSlab st h")
  case True
  show ?thesis by (rule reclaim_slab_ok [OF assms True]) (rule that)
next
  case False
  show ?thesis by (rule reclaim_system_ok [OF assms False]) (rule that)
qed

end
