(* ===== verification/Heap_Allocate.thy ===== *)
theory Heap_Allocate
  imports Heap_Release
begin

text \<open>
  Allocation from a slab page and the whole of \<open>allocateTrackedLocked\<close>: it never aborts, and
  either leaves the allocations alone or adds one, as \<open>allocationDone\<close> says.
\<close>

section \<open>Allocation from a page with room\<close>

definition slotGiven :: "addr \<Rightarrow> u64 \<Rightarrow> addr \<Rightarrow> heap \<Rightarrow> heap" where
  "slotGiven p n d st =
     updPage p (\<lambda>q. q\<lparr>sp_liveCount := sp_liveCount q + 1\<rparr>)
       (initializeHeader (fst (takeSlot p st)) AObject SSlab n 1 d p (snd (takeSlot p st)))"

definition givenHeader :: "u64 \<Rightarrow> addr \<Rightarrow> addr \<Rightarrow> AllocationHeader" where
  "givenHeader n d p = \<lparr>ah_magic = kAllocationMagic, ah_kind = AObject, ah_storageKind = SSlab,
     ah_elementCount = 1, ah_payloadSize = max n 1, ah_typeDescriptor = d, ah_storageOwner = p,
     ah_prev = 0, ah_next = 0, ah_marked = False, ah_live = True\<rparr>"

lemma slotGiven_simps:
  "hdrs (slotGiven p n d st) = (hdrs st)(fst (takeSlot p st) := givenHeader n d p)"
  "classes (slotGiven p n d st) = classes st"
  "q \<noteq> p \<Longrightarrow> pages (slotGiven p n d st) q = pages st q"
  "sp_slabClass (pages (slotGiven p n d st) p) = sp_slabClass (pages st p)"
  "sp_allocationBase (pages (slotGiven p n d st) p) = sp_allocationBase (pages st p)"
  "sp_pageStart (pages (slotGiven p n d st) p) = sp_pageStart (pages st p)"
  "sp_prevNonFull (pages (slotGiven p n d st) p) = sp_prevNonFull (pages st p)"
  "sp_nextNonFull (pages (slotGiven p n d st) p) = sp_nextNonFull (pages st p)"
  "sp_liveCount (pages (slotGiven p n d st) p) = sp_liveCount (pages st p) + 1"
  "sp_freeList (pages (slotGiven p n d st) p) =
     (if sp_freeList (pages st p) \<noteq> 0 then ah_next (hdrs st (sp_freeList (pages st p))) else 0)"
  "sp_nextUnusedSlot (pages (slotGiven p n d st) p) =
     (if sp_freeList (pages st p) \<noteq> 0 then sp_nextUnusedSlot (pages st p) else sp_nextUnusedSlot (pages st p) + 1)"
  "slabClassByKey (slotGiven p n d st) = slabClassByKey st"
  "slabClassStorage (slotGiven p n d st) = slabClassStorage st"
  "slabPageStorage (slotGiven p n d st) = slabPageStorage st"
  "slabPagesByAddressPage (slotGiven p n d st) = slabPagesByAddressPage st"
  "systemHeadersByPage (slotGiven p n d st) = systemHeadersByPage st"
  "mallocBlocks (slotGiven p n d st) = mallocBlocks st"
  "denseMapEmptyKey (slotGiven p n d st) = denseMapEmptyKey st"
  "denseMapTombstoneKey (slotGiven p n d st) = denseMapTombstoneKey st"
  "activeAllocationHead (slotGiven p n d st) = activeAllocationHead st"
  by (auto simp: slotGiven_def initializeHeader_def givenHeader_def takeSlot_def Let_def fun_eq_iff)

lemma allocateFromPage_run:
  "allocateFromPage p n d st =
     (let h = fst (takeSlot p st); st1 = slotGiven p n d st
      in (payloadAddress h,
          linkActiveAllocation h (if \<not> slabPageHasFreeSlots st1 p then unlinkNonFullSlabPage p st1 else st1)))"
  by (simp add: allocateFromPage_def Let_def slotGiven_def split_def)

lemma slotGiven_taken:
  assumes "slabPageHasFreeSlots st p"
  shows "slotTaken p (fst (takeSlot p st)) st (slotGiven p n d st)"
  using assms by (auto simp: slotTaken_def slotGiven_simps takeSlot_def Let_def slabPageHasFreeSlots_def pageClass_def)

lemma pow2_dvd_page:
  assumes "isPowerOfTwo a" "unat a \<le> 64"
  shows "unat a dvd 4096"
proof -
  from assms(1) obtain n where n: "n < 64" "a = 2 ^ n" by (auto simp: isPowerOfTwo_iff)
  then have u: "unat a = 2 ^ n" by (simp add: unat_exp_u64)
  have "(2::nat) ^ n \<le> 2 ^ 6" using assms(2) by (simp add: u)
  then have "n \<le> 12" using power_le_imp_le_exp [of "2::nat" n 6] by simp
  then have "(2::nat) ^ n dvd 2 ^ 12" by (rule le_imp_power_dvd)
  then show ?thesis by (simp add: u)
qed

lemma slot_payload:
  assumes inv: "soundHeap clean st xs" and p: "p \<in> set (slabPageStorage st)" and i: "i < unat (sc_slotsPerPage (pageClass st p))"
  shows "unat (sc_alignment (pageClass st p)) dvd unat (payloadAddress (slotAddr st p i))"
    and "payloadAddress (slotAddr st p i) \<noteq> 0"
proof -
  let ?c = "pageClass st p"
  have g: "classGeom ?c" and ok: "pageOk st p" using heapInv_page [OF inv p] by simp_all
  note r = slot_region [OF inv p i] and e = page_end [OF inv p]
  have u: "unat (payloadAddress (slotAddr st p i)) = unat (slotAddr st p i) + 80"
    unfolding payloadAddress_def using r(2) e by (subst unat_plus_u64) (simp_all add: unat_sizeof)
  then show "payloadAddress (slotAddr st p i) \<noteq> 0" by auto
  have "unat (sc_alignment ?c) dvd 4096" using g pow2_dvd_page by (simp add: classGeom_def)
  then have "unat (sc_alignment ?c) dvd unat (sp_pageStart (pages st p))"
    using ok by (auto simp: pageOk_def intro: dvd_trans)
  moreover have "unat (sc_alignment ?c) dvd i * unat (sc_slotStride ?c)" using g by (simp add: classGeom_def)
  moreover have "unat (sc_alignment ?c) dvd unat (sc_headerOffset ?c) + 80" using g by (simp add: classGeom_def)
  ultimately show "unat (sc_alignment ?c) dvd unat (payloadAddress (slotAddr st p i))"
    unfolding u unat_slotAddr [OF inv p i] by (simp add: add.assoc)
qed

lemma allocateFromPage_ok:
  assumes inv: "soundHeap clean st xs" and p: "p \<in> pagesWithRoom st c"
    and n: "sc_payloadSize (classes st c) = n" "sc_alignment (classes st c) = a"
  obtains q st' where "allocateFromPage p n d st = (q, st')" "allocationDone clean st xs AObject n 1 a d q st'"
proof -
  define h where "h = fst (takeSlot p st)"
  define st1 where "st1 = slotGiven p n d st"
  define st2 where "st2 = (if \<not> slabPageHasFreeSlots st1 p then unlinkNonFullSlabPage p st1 else st1)"
  define st' where "st' = linkActiveAllocation h st2"
  have run: "allocateFromPage p n d st = (payloadAddress h, st')"
    by (simp add: allocateFromPage_run Let_def h_def st1_def st2_def st'_def)
  have pS: "p \<in> set (slabPageStorage st)" and cl: "sp_slabClass (pages st p) = c" and free: "slabPageHasFreeSlots st p"
    using p by (simp_all add: pagesWithRoom_def)
  have ok: "pageOk st p" by (rule heapInv_page(1) [OF inv pS])
  have cS: "c \<in> set (slabClassStorage st)" using ok cl by (simp add: pageOk_def)
  have taken1: "slotTaken p h st st1" unfolding h_def st1_def by (rule slotGiven_taken [OF free])
  note g = slotGiven_simps [where p = p and n = n and d = d and st = st, folded st1_def h_def]
  have hdrs2: "hdrs st2 = hdrs st1" by (simp add: st2_def)
  have pcore2: "pageCore (pages st2 q) = pageCore (pages st1 q)" "classCore (classes st2 k) = classCore (classes st1 k)" for q k
    by (simp_all add: st2_def)
  note pf = pageCore_fields [OF pcore2(1)]
  have core': "hdrCore (hdrs st' x) = hdrCore (hdrs st1 x)" for x by (simp add: st'_def hdrs2)
  note fields = hdrCore_fields [OF core']
  obtain i where i: "h = slotAddr st p i" "i < unat (sp_nextUnusedSlot (pages st1 p))"
    "unat (sp_nextUnusedSlot (pages st1 p)) \<le> unat (sc_slotsPerPage (pageClass st p))" and hx: "h \<notin> set xs"
    using slotTaken_split [OF inv pS taken1] by metis
  have i': "i < unat (sc_slotsPerPage (pageClass st p))" using i(2,3) by linarith
  have h0: "h \<noteq> 0"
  proof
    assume "h = 0"
    with slot_region(1) [OF inv pS i'] i(1) have "unat (sp_pageStart (pages st p)) = 0" by simp
    with ok heapInv_block(1) [OF inv, of "sp_allocationBase (pages st p)" 69631] show False by (simp add: pageOk_def)
  qed
  have R: "nonFullFor st (pagesWithRoom st)" using inv by (simp add: soundHeap_def invNonFull_iff)
  have R1: "nonFullFor st1 (pagesWithRoom st)"
  proof (rule nonFullFor_frame [OF R])
    show "sp_slabClass (pages st q) \<in> set (slabClassStorage st)" if "q \<in> set (slabPageStorage st)" for q
      using heapInv_page(1) [OF inv that] by (simp add: pageOk_def)
    fix q
    show "sp_nextNonFull (pages st1 q) = sp_nextNonFull (pages st q)" "sp_prevNonFull (pages st1 q) = sp_prevNonFull (pages st q)"
      "sp_slabClass (pages st1 q) = sp_slabClass (pages st q)" by (cases "q = p"; simp add: g)+
  qed (simp_all add: g)
  have R2: "nonFullFor st2 (if slabPageHasFreeSlots st1 p then pagesWithRoom st
      else (pagesWithRoom st)(c := pagesWithRoom st c - {p}))"
    using R1 nonFullFor_unlink [OF R1 p] cS by (simp add: st2_def g cl)
  have pw: "pagesWithRoom st' k = (if slabPageHasFreeSlots st1 p then pagesWithRoom st
      else (pagesWithRoom st)(c := pagesWithRoom st c - {p})) k" for k
  proof (rule set_eqI)
    fix q
    have "slabPageHasFreeSlots st' q \<longleftrightarrow> slabPageHasFreeSlots st1 q"
      by (simp add: slabPageHasFreeSlots_def st'_def st2_def)
    moreover have "slabPageHasFreeSlots st1 q \<longleftrightarrow> slabPageHasFreeSlots st q" if "q \<noteq> p"
      using that by (simp add: slabPageHasFreeSlots_def g)
    moreover have "sp_slabClass (pages st' q) = sp_slabClass (pages st q)"
      by (cases "q = p") (simp_all add: st'_def pf g)
    moreover have "slabPageStorage st' = slabPageStorage st" by (simp add: st'_def st2_def g)
    ultimately show "q \<in> pagesWithRoom st' k \<longleftrightarrow> q \<in> (if slabPageHasFreeSlots st1 p then pagesWithRoom st
        else (pagesWithRoom st)(c := pagesWithRoom st c - {p})) k"
      using pS free cl by (cases "q = p") (auto simp: pagesWithRoom_def)
  qed
  have "nonFullFor st' (if slabPageHasFreeSlots st1 p then pagesWithRoom st
      else (pagesWithRoom st)(c := pagesWithRoom st c - {p}))"
  proof (rule nonFullFor_frame [OF R2 refl])
    show "sp_slabClass (pages st2 q) \<in> set (slabClassStorage st2)" if q: "q \<in> set (slabPageStorage st2)" for q
    proof -
      have "q \<in> set (slabPageStorage st)" using q by (simp add: st2_def g split: if_splits)
      from heapInv_page(1) [OF inv this] show ?thesis
        by (cases "q = p") (simp_all add: pf g pageOk_def, simp_all add: st2_def g)
    qed
  qed (simp_all add: st'_def)
  then have room: "nonFullFor st' (pagesWithRoom st')" by (simp only: ext [OF pw])
  have pg: "onePage p st st'"
  proof -
    have "pageCore (pages st' q) = pageCore (pages st q)" if "q \<noteq> p" for q
      using that by (simp add: st'_def pcore2 g)
    moreover have "classCore (classes st' k) = classCore (classes st k)" for k by (simp add: st'_def pcore2 g)
    ultimately show ?thesis by (simp add: onePage_def st'_def pf g) (simp add: st2_def g)
  qed
  have t: "slotTaken p h st st'" using taken1 by (simp add: slotTaken_def st'_def pf)
  have chain: "activeChain st' (h # xs)"
  proof -
    have "activeChain st xs" using inv by (simp add: soundHeap_def)
    moreover have "activeChain st2 xs \<longleftrightarrow> activeChain st xs"
      by (rule activeChain_cong) (use hx in \<open>auto simp: hdrs2 g, auto simp: st2_def g\<close>)
    ultimately have "activeChain st2 xs" by simp
    then show ?thesis unfolding st'_def by (rule active.chain_link [OF _ hx h0]) simp
  qed
  have "soundHeap clean st' (h # xs)"
  proof (rule heapInv_take_slot [OF inv pS pg t _ _ _ _ _ _ _ _ chain room])
    show "ah_next (hdrs st' a) = ah_next (hdrs st a)" "hdrCore (hdrs st' a) = hdrCore (hdrs st a)" if "a \<noteq> h" for a
      using that by (simp_all add: st'_def linkActive_next hdrs2 g)
    show "sp_liveCount (pages st' p) = sp_liveCount (pages st p) + 1" by (simp add: st'_def pf g)
  qed (simp_all add: isSlab_def fields g givenHeader_def pageClass_def cl n)
  moreover have "payloadAddress h - 80 = h" by (simp add: payloadAddress_def sizeofAllocationHeader_def)
  moreover note slot_payload [OF inv pS i', folded i(1)]
  moreover have "\<forall>x \<in> set xs. hdrCore (hdrs st' x) = hdrCore (hdrs st x)"
    using hx by (auto simp: core' g)
  ultimately have "allocationDone clean st xs AObject n 1 a d (payloadAddress h) st'"
    using hx n cl by (simp add: allocationDone_def Let_def fields g givenHeader_def pageClass_def)
  with run that show ?thesis by blast
qed

section \<open>The slab allocator\<close>

lemma allocationDone_base:
  "allocationDone clean st1 xs kind n e a d q st' \<Longrightarrow> hdrs st1 = hdrs st \<Longrightarrow> allocationDone clean st xs kind n e a d q st'"
  by (simp add: allocationDone_def)

text \<open>No memory: nothing changes but possibly the set of slab classes.\<close>

definition allocationFailed :: "bool \<Rightarrow> heap \<Rightarrow> addr list \<Rightarrow> heap \<Rightarrow> bool" where
  "allocationFailed clean st xs st' \<longleftrightarrow> soundHeap clean st' xs \<and> hdrs st' = hdrs st \<and> mallocBlocks st' = mallocBlocks st"

lemma allocateSlab_ok:
  assumes inv: "soundHeap clean st xs" and env: "allocEnv clean st env" and r: "slabRequest n a"
  shows "(\<exists>q st'. allocateSlabTrackedLocked env n a d st = Inr (q, st') \<and> allocationDone clean st xs AObject n 1 a d q st') \<or>
    (\<exists>st'. allocateSlabTrackedLocked env n a d st = Inr (0, st') \<and> allocationFailed clean st xs st')"
proof -
  have e: "env_newClass env \<noteq> 0" "env_newClass env \<notin> set (slabClassStorage st)" "pageEnv clean st env"
    using env by (simp_all add: allocEnv_def)
  obtain c st1 where run1: "getOrCreateSlabClass env n a st = (c, st1)" and inv1: "soundHeap clean st1 xs"
    and cc: "c \<in> set (slabClassStorage st1)" "c \<noteq> 0"
      "sc_payloadSize (classes st1 c) = n" "sc_alignment (classes st1 c) = a"
    and same: "hdrs st1 = hdrs st" "mallocBlocks st1 = mallocBlocks st" "slabPageStorage st1 = slabPageStorage st"
    by (rule getOrCreate_ok [OF inv r e(1,2)])
  note c = run1 cc
  have env1: "pageEnv clean st1 env" using e(3) by (simp add: pageEnv_cong [OF same(2,3,1)])
  show ?thesis
  proof (cases "sc_nonFullPages (classes st1 c) = 0")
    case False
    have R: "nonFullFor st1 (pagesWithRoom st1)" using inv1 by (simp add: soundHeap_def invNonFull_iff)
    obtain ps where ps: "nonFullChain c st1 ps" "set ps = pagesWithRoom st1 c"
      by (rule nonFullFor_chain [OF R c(2)])
    have "ps \<noteq> []" "sc_nonFullPages (classes st1 c) = hd ps"
      using False nonFullChain_head [OF ps(1)] by (simp_all split: if_splits)
    then have p: "sc_nonFullPages (classes st1 c) \<in> pagesWithRoom st1 c" using ps(2) hd_in_set by metis
    from allocateFromPage_ok [OF inv1 p c(4,5)] obtain q st' where
      q: "allocateFromPage (sc_nonFullPages (classes st1 c)) n d st1 = (q, st')"
        "allocationDone clean st1 xs AObject n 1 a d q st'" by blast
    have "allocateSlabTrackedLocked env n a d st = Inr (q, st')"
      using c(1,3) False q(1) by (simp add: allocateSlabTrackedLocked_def)
    with allocationDone_base [OF q(2) same(1)] show ?thesis by blast
  next
    case True
    have run: "allocateSlabTrackedLocked env n a d st = bindE (createSlabPage env c st1) (\<lambda>(page, st).
        if page = 0 then Inr (0, st) else Inr (allocateFromPage page n d st))"
      using c(1,3) True by (simp add: allocateSlabTrackedLocked_def)
    from createSlabPage_ok [OF inv1 env1 c(2)] show ?thesis
    proof (elim disjE exE conjE)
      assume "createSlabPage env c st1 = Inr (0, st1)"
      with run have "allocateSlabTrackedLocked env n a d st = Inr (0, st1)" by simp
      moreover have "allocationFailed clean st xs st1" using inv1 same by (simp add: allocationFailed_def)
      ultimately show ?thesis by blast
    next
      fix st2 assume st2: "createSlabPage env c st1 = Inr (env_newPage env, st2)" "soundHeap clean st2 xs"
        "env_newPage env \<noteq> 0" "env_newPage env \<in> pagesWithRoom st2 c" "hdrs st2 = hdrs st1"
        "\<forall>k. classCore (classes st2 k) = classCore (classes st1 k)"
      have "sc_payloadSize (classes st2 c) = n" "sc_alignment (classes st2 c) = a"
        using classCore_fields [OF st2(6) [rule_format, of c]] c(4,5) by simp_all
      from allocateFromPage_ok [OF st2(2,4) this] obtain q st' where
        q: "allocateFromPage (env_newPage env) n d st2 = (q, st')" "allocationDone clean st2 xs AObject n 1 a d q st'"
        by blast
      have "allocateSlabTrackedLocked env n a d st = Inr (q, st')" using run st2(1,3) q(1) by simp
      moreover have "allocationDone clean st xs AObject n 1 a d q st'"
        by (rule allocationDone_base [OF q(2)]) (simp add: st2(5) same(1))
      ultimately show ?thesis by blast
    qed
  qed
qed

section \<open>allocateTrackedLocked\<close>

text \<open>The alignment the allocator uses for a requested one.\<close>

definition effectiveAlignment :: "u64 \<Rightarrow> u64" where
  "effectiveAlignment a = max alignofAllocationHeader (if a = 0 then defaultAlignment else a)"

lemma isPowerOfTwo_8: "isPowerOfTwo alignofAllocationHeader" "isPowerOfTwo defaultAlignment"
  by (simp_all add: isPowerOfTwo_def alignofAllocationHeader_def defaultAlignment_def)

text \<open>Why an allocation returns null: the alignment is no power of two, or the last resort, a block of its own, is refused.\<close>

definition allocationRefused :: "alloc_env \<Rightarrow> u64 \<Rightarrow> u64 \<Rightarrow> bool" where
  "allocationRefused env n a \<longleftrightarrow>
     \<not> isPowerOfTwo (if a = 0 then defaultAlignment else a) \<or> systemRefuses env n (effectiveAlignment a)"

lemma allocateTracked_cases:
  assumes inv: "soundHeap clean st xs" and env: "allocEnv clean st env" and e: "kind = AObject \<Longrightarrow> e = 1"
  shows "(\<exists>q st'. allocateTrackedLocked env kind n e a d st = Inr (q, st') \<and>
      allocationDone clean st xs kind n e (effectiveAlignment a) d q st') \<or>
    (\<exists>st'. allocateTrackedLocked env kind n e a d st = Inr (0, st') \<and> allocationFailed clean st xs st' \<and>
       allocationRefused env n a)"
proof (cases "isPowerOfTwo (if a = 0 then defaultAlignment else a)")
  case False
  with inv show ?thesis by (simp add: allocateTrackedLocked_def Let_def allocationFailed_def allocationRefused_def)
next
  case True
  define b where "b = effectiveAlignment a"
  have b: "isPowerOfTwo b" using True isPowerOfTwo_8 by (simp add: b_def effectiveAlignment_def max_def)
  have b8: "8 \<le> unat b"
    by (auto simp: b_def effectiveAlignment_def max_def word_le_nat_alt alignofAllocationHeader_def defaultAlignment_def)
  have eff: "(if (if a = 0 then defaultAlignment else a) < alignofAllocationHeader then alignofAllocationHeader
      else (if a = 0 then defaultAlignment else a)) = b"
  proof -
    have mx: "(if x < y then y else x) = max y x" for x y :: u64 by (auto simp: max_def)
    show ?thesis by (simp only: mx b_def effectiveAlignment_def)
  qed
  have run: "allocateTrackedLocked env kind n e a d st =
     (if shouldUseSlabAllocator kind n b
      then bindE (allocateSlabTrackedLocked env n b d st)
             (\<lambda>(payload, st). if payload \<noteq> 0 then Inr (payload, st)
                else allocateSystemTrackedLocked env kind n e b d st)
      else allocateSystemTrackedLocked env kind n e b d st)"
    using True unfolding allocateTrackedLocked_def Let_def eff by simp
  have sys: "(\<exists>q st'. allocateSystemTrackedLocked env kind n e b d st1 = Inr (q, st') \<and>
      allocationDone clean st xs kind n e b d q st') \<or>
    (\<exists>st'. allocateSystemTrackedLocked env kind n e b d st1 = Inr (0, st') \<and> allocationFailed clean st xs st' \<and>
       allocationRefused env n a)"
    if "allocationFailed clean st xs st1" for st1
  proof -
    from that have inv1: "soundHeap clean st1 xs" and same: "hdrs st1 = hdrs st" "mallocBlocks st1 = mallocBlocks st"
      by (simp_all add: allocationFailed_def)
    have "mallocContract st1 (env_malloc env)"
      using env same(2) by (simp add: allocEnv_def pageEnv_def mallocContract_def mallocFresh_def)
    from allocateSystem_ok [OF inv1 this b b8, of kind n e d] show ?thesis
      using that allocationDone_base [OF _ same(1)] by (auto simp: allocationRefused_def b_def)
  qed
  show ?thesis
  proof (cases "shouldUseSlabAllocator kind n b")
    case False
    have "allocationFailed clean st xs st" using inv by (simp add: allocationFailed_def)
    from sys [OF this] False run show ?thesis by (simp add: b_def)
  next
    case slab: True
    then have k: "kind = AObject" "slabRequest n b"
      using b b8 by (simp_all add: shouldUseSlabAllocator_def slabRequest_def kMaxSlabPayloadBytes_def
          kMaxSlabAlignment_def word_le_nat_alt)
    from allocateSlab_ok [OF inv env k(2), of d] show ?thesis
    proof (elim disjE exE conjE)
      fix q st' assume q: "allocateSlabTrackedLocked env n b d st = Inr (q, st')" "allocationDone clean st xs AObject n 1 b d q st'"
      have "q \<noteq> 0" using q(2) by (simp add: allocationDone_def)
      with run slab q k(1) e show ?thesis by (auto simp: b_def)
    next
      fix st1 assume st1: "allocateSlabTrackedLocked env n b d st = Inr (0, st1)" "allocationFailed clean st xs st1"
      from run slab st1(1) have "allocateTrackedLocked env kind n e a d st = allocateSystemTrackedLocked env kind n e b d st1"
        by simp
      with sys [OF st1(2)] show ?thesis by (simp add: b_def)
    qed
  qed
qed

end
