(* ===== verification/GC_Trigger.thy ===== *)
theory GC_Trigger
  imports Prelude
begin

text \<open>
  The allocation accounting and the collection request of \<open>src/src/mvm/gc.cc\<close>: the bytes handed
  out since the last collection, the heap limit, and the request flag that the safepoint polls
  read.  The three atomics are the state; each function is one atomic step or a short sequence of
  them.  \<open>gcNotifications\<close> counts the calls of \<open>notifyRuntimeGCRequested\<close>, which wakes the VM
  thread.
\<close>

record gc_state =
  gcRequested :: bool
  gcTrackedHeapBytes :: u64
  gcHeapLimitBytes :: u64
  gcNotifications :: nat

definition kDefaultManagedHeapLimitBytes :: u64 where
  "kDefaultManagedHeapLimitBytes = 8 * 1024 * 1024"

definition initial_gc_state :: gc_state where
  "initial_gc_state = \<lparr>gcRequested = False, gcTrackedHeapBytes = 0,
     gcHeapLimitBytes = kDefaultManagedHeapLimitBytes, gcNotifications = 0\<rparr>"

definition requestGC :: "gc_state \<Rightarrow> gc_state" where
  "requestGC g =
     (let alreadyRequested = gcRequested g;
          g = g\<lparr>gcRequested := True\<rparr>
      in if \<not> alreadyRequested then g\<lparr>gcNotifications := Suc (gcNotifications g)\<rparr> else g)"

definition clearGCRequest :: "gc_state \<Rightarrow> gc_state" where
  "clearGCRequest g = g\<lparr>gcRequested := False\<rparr>"

definition isGCRequested :: "gc_state \<Rightarrow> bool" where
  "isGCRequested g = gcRequested g"

definition recordManagedAllocation :: "u64 \<Rightarrow> gc_state \<Rightarrow> gc_state" where
  "recordManagedAllocation bytes g =
     (if bytes = 0 then g
      else let total = gcTrackedHeapBytes g + bytes;
               g = g\<lparr>gcTrackedHeapBytes := gcTrackedHeapBytes g + bytes\<rparr>
           in if total \<ge> gcHeapLimitBytes g then requestGC g else g)"

definition updateManagedHeapUsage :: "u64 \<Rightarrow> gc_state \<Rightarrow> gc_state" where
  "updateManagedHeapUsage bytes g = g\<lparr>gcTrackedHeapBytes := bytes\<rparr>"

definition resetManagedHeapUsage :: "gc_state \<Rightarrow> gc_state" where
  "resetManagedHeapUsage g = updateManagedHeapUsage 0 g"

definition configureManagedHeapLimit :: "u64 \<Rightarrow> gc_state \<Rightarrow> gc_state" where
  "configureManagedHeapLimit bytes g = g\<lparr>gcHeapLimitBytes := bytes\<rparr>"

lemmas gc_trigger_defs =
  requestGC_def clearGCRequest_def isGCRequested_def recordManagedAllocation_def
  updateManagedHeapUsage_def resetManagedHeapUsage_def configureManagedHeapLimit_def Let_def

section \<open>When a collection is requested\<close>

lemma requestGC_flag [simp]: "gcRequested (requestGC g)"
  by (simp add: gc_trigger_defs)

lemma requestGC_frame [simp]:
  "gcTrackedHeapBytes (requestGC g) = gcTrackedHeapBytes g"
  "gcHeapLimitBytes (requestGC g) = gcHeapLimitBytes g"
  by (simp_all add: gc_trigger_defs)

lemma recordManagedAllocation_limit [simp]:
  "gcHeapLimitBytes (recordManagedAllocation n g) = gcHeapLimitBytes g"
  by (simp add: recordManagedAllocation_def Let_def)

lemma recordManagedAllocation_bytes:
  "gcTrackedHeapBytes (recordManagedAllocation n g) = gcTrackedHeapBytes g + n"
  by (simp add: recordManagedAllocation_def Let_def)

lemma recordManagedAllocation_keeps: "gcRequested g \<Longrightarrow> gcRequested (recordManagedAllocation n g)"
  by (simp add: recordManagedAllocation_def Let_def)

lemma fold_recordManagedAllocation_keeps:
  "gcRequested g \<Longrightarrow> gcRequested (fold recordManagedAllocation ns g)"
  by (induction ns arbitrary: g) (auto intro: recordManagedAllocation_keeps)

lemma fold_recordManagedAllocation_limit [simp]:
  "gcHeapLimitBytes (fold recordManagedAllocation ns g) = gcHeapLimitBytes g"
  by (induction ns arbitrary: g) auto

lemma fold_recordManagedAllocation_bytes:
  "gcTrackedHeapBytes (fold recordManagedAllocation ns g) = gcTrackedHeapBytes g + sum_list ns"
  by (induction ns arbitrary: g) (auto simp: recordManagedAllocation_bytes add.assoc)

text \<open>A run of allocations that reaches the limit, without the counter wrapping, has requested a
  collection at the allocation that reached it.\<close>

lemma fold_recordManagedAllocation_requests:
  assumes "gcTrackedHeapBytes g < gcHeapLimitBytes g"
    and "unat (gcTrackedHeapBytes g) + sum_list (map unat ns) < 18446744073709551616"
    and "unat (gcHeapLimitBytes g) \<le> unat (gcTrackedHeapBytes g) + sum_list (map unat ns)"
  shows "gcRequested (fold recordManagedAllocation ns g)"
  using assms
proof (induction ns arbitrary: g)
  case Nil
  then show ?case by (simp add: word_less_nat_alt)
next
  case (Cons n ns)
  let ?g = "recordManagedAllocation n g"
  have sum: "unat (gcTrackedHeapBytes g + n) = unat (gcTrackedHeapBytes g) + unat n"
    using Cons.prems(2) by (simp add: unat_plus_u64)
  show ?case
  proof (cases "gcHeapLimitBytes g \<le> gcTrackedHeapBytes g + n")
    case True
    then have "n \<noteq> 0" using Cons.prems(1) by auto
    with True have "gcRequested ?g" by (simp add: recordManagedAllocation_def Let_def)
    then show ?thesis by (simp add: fold_recordManagedAllocation_keeps)
  next
    case False
    have "gcRequested (fold recordManagedAllocation ns ?g)"
      using Cons.prems False
      by (intro Cons.IH) (simp_all add: recordManagedAllocation_bytes sum)
    then show ?thesis by simp
  qed
qed

text \<open>Repeated requests before the flag is cleared wake the VM thread once.\<close>

lemma requestGC_notifies_once:
  "\<not> gcRequested g \<Longrightarrow> gcNotifications ((requestGC ^^ Suc k) g) = Suc (gcNotifications g)"
proof (induction k)
  case 0
  then show ?case by (simp add: gc_trigger_defs)
next
  case (Suc k)
  have "gcRequested ((requestGC ^^ Suc k) g)" by simp
  then have "gcNotifications (requestGC ((requestGC ^^ Suc k) g)) = gcNotifications ((requestGC ^^ Suc k) g)"
    by (simp add: requestGC_def Let_def)
  with Suc show ?case by simp
qed

end
