(* ===== verification/Collector.thy ===== *)
theory Collector
  imports Heap_Model GC_Trigger
begin

text \<open>
  The mark-sweep collector of \<open>src/src/mvm/runtime_memory.cc\<close>: marking from the roots with a
  worklist, scanning payloads by their type descriptor or conservatively, sweeping the list of
  active allocations, and the statistics of a collection.

  The collector reads two things it does not own: eight bytes of payload or descriptor table at an
  address (\<open>rd_word\<close>, the \<open>memcpy\<close> and the offset array) and the type descriptors of the JITed
  module (\<open>rd_descriptor\<close>).  The worklist is a \<open>std::vector\<close> used at its back; the list here has
  the back first.
\<close>

record memory =
  rd_word :: "addr \<Rightarrow> u64"
  rd_descriptor :: "addr \<Rightarrow> GCTypeDescriptor"

type_synonym mark_state = "heap \<times> addr list"

section \<open>Marking\<close>

definition markAllocation :: "addr \<Rightarrow> mark_state \<Rightarrow> mark_state" where
  "markAllocation header s =
     (case s of (st, worklist) \<Rightarrow>
        if ah_marked (hdrs st header) then (st, worklist)
        else (updHdr header (\<lambda>h. h\<lparr>ah_marked := True\<rparr>) st, payloadAddress header # worklist))"

definition markAddress :: "addr \<Rightarrow> mark_state \<Rightarrow> mark_state" where
  "markAddress address s =
     (if address = 0 then s
      else case findOwningAllocation (fst s) address of
        None \<Rightarrow> s
      | Some header \<Rightarrow> markAllocation header s)"

text \<open>The two inner loops over reference slots and elements, and the conservative loop; the list
  argument is what remains of the index range.\<close>

fun scanSlots ::
  "memory \<Rightarrow> GCTypeDescriptor \<Rightarrow> addr \<Rightarrow> u64 \<Rightarrow> nat list \<Rightarrow> mark_state \<Rightarrow> mark_state" where
  "scanSlots rd d elementBase stride [] s = s"
| "scanSlots rd d elementBase stride (slotIndex # rest) s =
     (if td_referenceSlotOffsets d = 0 then s
      else let offset = rd_word rd (td_referenceSlotOffsets d + of_nat (8 * slotIndex))
           in if offset + 8 > stride then scanSlots rd d elementBase stride rest s
              else scanSlots rd d elementBase stride rest
                     (markAddress (rd_word rd (elementBase + offset)) s))"

fun scanElements ::
  "memory \<Rightarrow> GCTypeDescriptor \<Rightarrow> addr \<Rightarrow> u64 \<Rightarrow> nat list \<Rightarrow> mark_state \<Rightarrow> mark_state" where
  "scanElements rd d start stride [] s = s"
| "scanElements rd d start stride (elementIndex # rest) s =
     scanElements rd d start stride rest
       (scanSlots rd d (start + of_nat elementIndex * stride) stride
          [0 ..< unat (td_referenceSlotCount d)] s)"

fun scanWords :: "memory \<Rightarrow> addr \<Rightarrow> nat list \<Rightarrow> mark_state \<Rightarrow> mark_state" where
  "scanWords rd start [] s = s"
| "scanWords rd start (i # rest) s =
     scanWords rd start rest (markAddress (rd_word rd (start + of_nat (8 * i))) s)"

definition scanAllocationPayload :: "memory \<Rightarrow> addr \<Rightarrow> mark_state \<Rightarrow> mark_state" where
  "scanAllocationPayload rd header s =
     (let h = hdrs (fst s) header;
          start = payloadAddress header;
          d = rd_descriptor rd (ah_typeDescriptor h)
      in if ah_typeDescriptor h \<noteq> 0 \<and> td_instanceSize d \<noteq> 0
         then let elementCount = (if ah_kind h = AArray then ah_elementCount h else 1)
              in scanElements rd d start (td_instanceSize d) [0 ..< unat elementCount] s
         else scanWords rd start [0 ..< unat (ah_payloadSize h) div 8] s)"

definition rootStep :: "addr \<Rightarrow> mark_state \<Rightarrow> mark_state" where
  "rootStep root s = (if root = 0 then s else markAddress root s)"

section \<open>Termination of the mark loop\<close>

text \<open>Every address pushed on the worklist is paid for by a header that becomes marked, so the
  sum of the worklist length and the number of unmarked headers never grows.\<close>

definition unmarkedCount :: "heap \<Rightarrow> nat" where
  "unmarkedCount st = card {a. \<not> ah_marked (hdrs st a)}"

definition markWork :: "mark_state \<Rightarrow> nat" where
  "markWork s = unmarkedCount (fst s) + length (snd s)"

lemma markWork_markAllocation [simp]: "markWork (markAllocation header s) = markWork s"
proof (cases s)
  case (Pair st wl)
  show ?thesis
  proof (cases "ah_marked (hdrs st header)")
    case True
    with Pair show ?thesis by (simp add: markAllocation_def)
  next
    case False
    let ?U = "{a. \<not> ah_marked (hdrs st a)}"
    have "{a. \<not> ah_marked (hdrs (updHdr header (\<lambda>h. h\<lparr>ah_marked := True\<rparr>) st) a)} = ?U - {header}"
      by (auto simp: updHdr_def)
    moreover have "card ?U = Suc (card (?U - {header}))"
      using False by (intro card.remove) auto
    ultimately show ?thesis
      using Pair False by (simp add: markAllocation_def markWork_def unmarkedCount_def)
  qed
qed

lemma markWork_markAddress [simp]: "markWork (markAddress a s) = markWork s"
  by (simp add: markAddress_def split: option.split)

lemma markWork_scanSlots [simp]: "markWork (scanSlots rd d b n is s) = markWork s"
  by (induction rd d b n "is" s rule: scanSlots.induct) (simp_all add: Let_def)

lemma markWork_scanElements [simp]: "markWork (scanElements rd d b n is s) = markWork s"
  by (induction rd d b n "is" s rule: scanElements.induct) simp_all

lemma markWork_scanWords [simp]: "markWork (scanWords rd b is s) = markWork s"
  by (induction rd b "is" s rule: scanWords.induct) simp_all

lemma markWork_scanAllocationPayload [simp]: "markWork (scanAllocationPayload rd h s) = markWork s"
  by (simp add: scanAllocationPayload_def Let_def)

text \<open>The loop \<open>while (!worklist.empty())\<close>.\<close>

function markLoop :: "memory \<Rightarrow> mark_state \<Rightarrow> heap" where
  "markLoop rd (st, []) = st"
| "markLoop rd (st, address # worklist) =
     (let header = address - sizeofAllocationHeader;
          h = hdrs st header
      in if \<not> ah_live h \<or> \<not> ah_marked h \<or> ah_magic h \<noteq> kAllocationMagic
         then markLoop rd (st, worklist)
         else markLoop rd (scanAllocationPayload rd header (st, worklist)))"
  by pat_completeness auto
termination
proof (relation "measure (\<lambda>(rd, s). markWork s)", simp, goal_cases)
  case (1 rd st address worklist x xa)
  then show ?case by (simp add: markWork_def)
next
  case (2 rd st address worklist x xa)
  have "markWork (scanAllocationPayload rd x (st, worklist)) = markWork (st, worklist)" by simp
  then show ?case by (simp add: markWork_def)
qed

section \<open>Sweeping and statistics\<close>

record GCCollectionStats =
  gs_collectionCount :: u64
  gs_rootCount :: u64
  gs_liveObjectCount :: u64
  gs_sweptObjectCount :: u64
  gs_sweptBytes :: u64
  gs_heapBytesBefore :: u64
  gs_heapBytesAfter :: u64
  gs_heapObjectCountBefore :: u64
  gs_heapObjectCountAfter :: u64

definition emptyCollectionStats :: GCCollectionStats where
  "emptyCollectionStats = \<lparr>gs_collectionCount = 0, gs_rootCount = 0, gs_liveObjectCount = 0,
     gs_sweptObjectCount = 0, gs_sweptBytes = 0, gs_heapBytesBefore = 0, gs_heapBytesAfter = 0,
     gs_heapObjectCountBefore = 0, gs_heapObjectCountAfter = 0\<rparr>"

text \<open>The loops over the list of active allocations follow \<open>next\<close> pointers, and nothing in the
  code bounds them: on a cyclic list they do not return, which is the result \<open>None\<close>.\<close>

partial_function (option) countBeforeLoop ::
  "addr \<Rightarrow> heap \<Rightarrow> GCCollectionStats \<Rightarrow> GCCollectionStats option" where
  "countBeforeLoop header st stats =
     (if header = 0 then Some stats
      else countBeforeLoop (ah_next (hdrs st header)) st
        (stats\<lparr>gs_heapObjectCountBefore := gs_heapObjectCountBefore stats + 1,
               gs_heapBytesBefore := gs_heapBytesBefore stats + ah_payloadSize (hdrs st header)\<rparr>))"

partial_function (option) countAfterLoop ::
  "addr \<Rightarrow> heap \<Rightarrow> GCCollectionStats \<Rightarrow> GCCollectionStats option" where
  "countAfterLoop header st stats =
     (if header = 0 then Some stats
      else countAfterLoop (ah_next (hdrs st header)) st
        (stats\<lparr>gs_heapObjectCountAfter := gs_heapObjectCountAfter stats + 1\<rparr>))"

partial_function (option) sweepLoop ::
  "addr \<Rightarrow> heap \<Rightarrow> GCCollectionStats \<Rightarrow> (runtime_abort + heap \<times> GCCollectionStats) option" where
  "sweepLoop header st stats =
     (if header = 0 then Some (Inr (st, stats))
      else if ah_marked (hdrs st header)
      then sweepLoop (ah_next (hdrs st header)) (updHdr header (\<lambda>h. h\<lparr>ah_marked := False\<rparr>) st)
             (stats\<lparr>gs_liveObjectCount := gs_liveObjectCount stats + 1,
                    gs_heapBytesAfter := gs_heapBytesAfter stats + ah_payloadSize (hdrs st header)\<rparr>)
      else (case reclaimAllocation header st of
              Inl e \<Rightarrow> Some (Inl e)
            | Inr st' \<Rightarrow> sweepLoop (ah_next (hdrs st header)) st'
                (stats\<lparr>gs_sweptObjectCount := gs_sweptObjectCount stats + 1,
                       gs_sweptBytes := gs_sweptBytes stats + ah_payloadSize (hdrs st header)\<rparr>)))"

record runtime =
  rt_heap :: heap
  rt_gc :: gc_state
  rt_collectionCount :: u64
  rt_lastCollectionStats :: GCCollectionStats

definition collectManagedHeap ::
  "memory \<Rightarrow> addr list \<Rightarrow> runtime \<Rightarrow> (runtime_abort + runtime \<times> GCCollectionStats) option" where
  "collectManagedHeap rd roots rt =
     (let count = rt_collectionCount rt + 1;
          rt = rt\<lparr>rt_collectionCount := count\<rparr>;
          st = rt_heap rt;
          stats = emptyCollectionStats\<lparr>gs_collectionCount := count\<rparr>
      in Option.bind (countBeforeLoop (activeAllocationHead st) st stats) (\<lambda>stats.
         let stats = stats\<lparr>gs_rootCount := of_nat (length (filter (\<lambda>r. r \<noteq> 0) roots))\<rparr>;
             st = markLoop rd (fold rootStep roots (st, []))
         in Option.bind (sweepLoop (activeAllocationHead st) st stats) (\<lambda>swept.
            case swept of
              Inl e \<Rightarrow> Some (Inl e)
            | Inr (st, stats) \<Rightarrow>
                Option.bind (countAfterLoop (activeAllocationHead st) st stats) (\<lambda>stats.
                Some (Inr (rt\<lparr>rt_heap := st, rt_lastCollectionStats := stats,
                              rt_gc := updateManagedHeapUsage (gs_heapBytesAfter stats) (rt_gc rt)\<rparr>,
                           stats))))))"

definition clearLastGCCollectionStats :: "runtime \<Rightarrow> runtime" where
  "clearLastGCCollectionStats rt = rt\<lparr>rt_lastCollectionStats := emptyCollectionStats\<rparr>"

definition getLastGCCollectionStats :: "runtime \<Rightarrow> GCCollectionStats" where
  "getLastGCCollectionStats rt = rt_lastCollectionStats rt"

section \<open>The allocation entry points\<close>

definition mvm_malloc :: "runtime \<Rightarrow> runtime_abort + addr \<times> runtime" where
  "mvm_malloc rt = Inl (UntypedAllocation ''__mvm_malloc'')"

definition mvm_array_malloc :: "u64 \<Rightarrow> runtime \<Rightarrow> runtime_abort + addr \<times> runtime" where
  "mvm_array_malloc element_count rt = Inl (UntypedAllocation ''__mvm_array_malloc'')"

definition mvm_malloc_typed ::
  "memory \<Rightarrow> alloc_env \<Rightarrow> addr \<Rightarrow> runtime \<Rightarrow> runtime_abort + addr \<times> runtime" where
  "mvm_malloc_typed rd env type_descriptor rt =
     (let d = rd_descriptor rd type_descriptor in
      if type_descriptor = 0 \<or> td_abiVersion d \<noteq> 1
      then Inl (IncompatibleDescriptor ''__mvm_malloc_typed'')
      else if td_instanceSize d = 0 then Inl (MissingAllocType ''__mvm_malloc_typed'')
      else case toSize (td_instanceSize d) of
        None \<Rightarrow> Inr (0, rt)
      | Some payloadSize \<Rightarrow>
          (case (if td_instanceAlignment d \<noteq> 0 then toSize (td_instanceAlignment d) else Some 0) of
             None \<Rightarrow> Inr (0, rt)
           | Some alignment \<Rightarrow>
               bindE (allocateTrackedLocked env AObject payloadSize 1 alignment type_descriptor (rt_heap rt))
                 (\<lambda>(payload, st).
                   Inr (payload, rt\<lparr>rt_heap := st,
                     rt_gc := (if payload \<noteq> 0 then recordManagedAllocation payloadSize (rt_gc rt)
                               else rt_gc rt)\<rparr>))))"

definition mvm_array_malloc_typed ::
  "memory \<Rightarrow> alloc_env \<Rightarrow> u64 \<Rightarrow> addr \<Rightarrow> runtime \<Rightarrow> runtime_abort + addr \<times> runtime" where
  "mvm_array_malloc_typed rd env element_count type_descriptor rt =
     (case toSize element_count of
        None \<Rightarrow> Inr (0, rt)
      | Some elementCount \<Rightarrow>
     (let d = rd_descriptor rd type_descriptor in
      if type_descriptor = 0 \<or> td_abiVersion d \<noteq> 1
      then Inl (IncompatibleDescriptor ''__mvm_array_malloc_typed'')
      else if td_instanceSize d = 0 then Inl (MissingAllocType ''__mvm_array_malloc_typed'')
      else case toSize (td_instanceSize d) of
        None \<Rightarrow> Inr (0, rt)
      | Some elementSize \<Rightarrow>
          (case checkedMul elementSize elementCount of
             None \<Rightarrow> Inr (0, rt)
           | Some payloadSize \<Rightarrow>
               (case (if td_instanceAlignment d \<noteq> 0 then toSize (td_instanceAlignment d) else Some 0) of
                  None \<Rightarrow> Inr (0, rt)
                | Some alignment \<Rightarrow>
                    bindE (allocateTrackedLocked env AArray payloadSize elementCount alignment
                             type_descriptor (rt_heap rt))
                      (\<lambda>(payload, st).
                        Inr (payload, rt\<lparr>rt_heap := st,
                          rt_gc := (if payload \<noteq> 0 then recordManagedAllocation payloadSize (rt_gc rt)
                                    else rt_gc rt)\<rparr>))))))"

definition mvm_array_length :: "addr \<Rightarrow> runtime \<Rightarrow> runtime_abort + u64" where
  "mvm_array_length payload rt =
     bindE (checkedHeader (rt_heap rt) payload ''__mvm_array_length'' (Some AArray))
       (\<lambda>header. Inr (ah_elementCount (hdrs (rt_heap rt) header)))"

end
