(* ===== verification/Tracing.thy ===== *)
theory Tracing
  imports Prelude
begin

text \<open>
  What a tracing collector promises, independently of how the heap is laid out: from the roots,
  marking reaches exactly the objects that are reachable through owner lookups of the words a
  scan reads.  \<open>reach\<close> is the abstract specification; the locale states what the mark loop relies
  on in the heap (lookups, scans and validity tests do not depend on mark bits) and how its steps
  are composed.
\<close>

inductive reach ::
  "(addr \<Rightarrow> addr option) \<Rightarrow> (addr \<Rightarrow> addr list) \<Rightarrow> (addr \<Rightarrow> bool) \<Rightarrow> addr list \<Rightarrow> addr \<Rightarrow> bool"
  for ownerOf :: "addr \<Rightarrow> addr option" and refsOf :: "addr \<Rightarrow> addr list"
    and valid :: "addr \<Rightarrow> bool" and roots :: "addr list" where
  root: "r \<in> set roots \<Longrightarrow> r \<noteq> 0 \<Longrightarrow> ownerOf r = Some h \<Longrightarrow> reach ownerOf refsOf valid roots h"
| step: "reach ownerOf refsOf valid roots h \<Longrightarrow> valid h \<Longrightarrow> a \<in> set (refsOf h) \<Longrightarrow> a \<noteq> 0 \<Longrightarrow>
    ownerOf a = Some h' \<Longrightarrow> reach ownerOf refsOf valid roots h'"

inductive_simps reach_no_roots: "reach ownerOf refsOf valid [] h"

lemma reach_owned: "reach ownerOf refsOf valid roots h \<Longrightarrow> \<exists>a. ownerOf a = Some h"
  by (induction rule: reach.induct) auto

lemma reach_mono_roots:
  "reach ownerOf refsOf valid roots h \<Longrightarrow> set roots \<subseteq> set roots' \<Longrightarrow> reach ownerOf refsOf valid roots' h"
  by (induction rule: reach.induct) (auto intro: reach.intros)

locale tracing =
  fixes owner :: "'s \<Rightarrow> addr \<Rightarrow> addr option"
    and refs :: "'s \<Rightarrow> addr \<Rightarrow> addr list"
    and valid :: "'s \<Rightarrow> addr \<Rightarrow> bool"
    and marked :: "'s \<Rightarrow> addr \<Rightarrow> bool"
    and mark :: "addr \<Rightarrow> 's \<Rightarrow> 's"
    and push :: "addr \<Rightarrow> addr"
    and visit :: "addr \<Rightarrow> 's \<times> addr list \<Rightarrow> 's \<times> addr list"
    and loop :: "'s \<times> addr list \<Rightarrow> 's"
  assumes owner_mark: "owner (mark h s) = owner s"
    and refs_mark: "refs (mark h s) = refs s"
    and valid_mark: "valid (mark h s) = valid s"
    and marked_mark: "marked (mark h s) a \<longleftrightarrow> a = h \<or> marked s a"
    and visit_null: "a = 0 \<or> owner s a = None \<Longrightarrow> visit a (s, w) = (s, w)"
    and visit_seen: "a \<noteq> 0 \<Longrightarrow> owner s a = Some h \<Longrightarrow> marked s h \<Longrightarrow> visit a (s, w) = (s, w)"
    and visit_new: "a \<noteq> 0 \<Longrightarrow> owner s a = Some h \<Longrightarrow> \<not> marked s h \<Longrightarrow>
      visit a (s, w) = (mark h s, push h # w)"
    and loop_done: "loop (s, []) = s"
    and loop_scan: "marked s h \<Longrightarrow> valid s h \<Longrightarrow> loop (s, push h # w) = loop (fold visit (refs s h) (s, w))"
    and loop_skip: "marked s h \<Longrightarrow> \<not> valid s h \<Longrightarrow> loop (s, push h # w) = loop (s, w)"
begin

text \<open>The loop invariant: the worklist holds marked headers (\<open>hs\<close>), and a marked header off the
  worklist has all its successors marked.  \<open>s0\<close> is the state before marking.\<close>

definition agree :: "'s \<Rightarrow> 's \<Rightarrow> bool" where
  "agree s0 s \<longleftrightarrow> owner s = owner s0 \<and> refs s = refs s0 \<and> valid s = valid s0"

definition reached :: "'s \<Rightarrow> addr list \<Rightarrow> addr \<Rightarrow> bool" where
  "reached s0 roots h \<longleftrightarrow> reach (owner s0) (refs s0) (valid s0) roots h"

definition closed_except :: "'s \<Rightarrow> addr list \<Rightarrow> 's \<Rightarrow> addr list \<Rightarrow> bool" where
  "closed_except s0 roots s hs \<longleftrightarrow> (\<forall>h a h'. reached s0 roots h \<and> marked s h \<and> h \<notin> set hs \<and> valid s0 h \<and> a \<in> set (refs s0 h) \<and>
     a \<noteq> 0 \<and> owner s0 a = Some h' \<longrightarrow> marked s h')"

definition inv :: "'s \<Rightarrow> addr list \<Rightarrow> 's \<Rightarrow> addr list \<Rightarrow> bool" where
  "inv s0 roots s hs \<longleftrightarrow> agree s0 s \<and> (\<forall>h \<in> set hs. marked s h \<and> reached s0 roots h) \<and>
     (\<forall>h. marked s h \<and> \<not> marked s0 h \<longrightarrow> reached s0 roots h)"

definition work :: "'s \<Rightarrow> addr list \<Rightarrow> nat" where
  "work s hs = card {a. \<not> marked s a} + length hs"

lemma work_mark: "\<not> marked s h \<Longrightarrow> work (mark h s) (h # hs) = work s hs"
proof -
  assume "\<not> marked s h"
  then have "card {a. \<not> marked s a} = Suc (card ({a. \<not> marked s a} - {h}))"
    by (intro card.remove) auto
  moreover have "{a. \<not> marked (mark h s) a} = {a. \<not> marked s a} - {h}"
    by (auto simp: marked_mark)
  ultimately show ?thesis by (simp add: work_def)
qed

lemma visits:
  assumes "inv s0 roots s hs"
    and "\<And>a h. a \<in> set as \<Longrightarrow> a \<noteq> 0 \<Longrightarrow> owner s0 a = Some h \<Longrightarrow> reach (owner s0) (refs s0) (valid s0) roots h"
  obtains s' new where "fold visit as (s, map push hs) = (s', map push (new @ hs))"
    and "inv s0 roots s' (new @ hs)" and "work s' (new @ hs) = work s hs"
    and "\<And>h. marked s' h \<longleftrightarrow> marked s h \<or> h \<in> set new"
    and "\<And>a h. a \<in> set as \<Longrightarrow> a \<noteq> 0 \<Longrightarrow> owner s0 a = Some h \<Longrightarrow> marked s' h"
  using assms
proof (induction as arbitrary: s hs thesis)
  case Nil
  show ?case by (rule Nil(1) [of s "[]"]) (use Nil in auto)
next
  case (Cons a as)
  have ag: "owner s = owner s0" using Cons.prems(2) by (simp add: inv_def agree_def)
  consider (none) "a = 0 \<or> owner s a = None"
    | (seen) h where "a \<noteq> 0" "owner s a = Some h" "marked s h"
    | (new) h where "a \<noteq> 0" "owner s a = Some h" "\<not> marked s h"
    by (cases "owner s a") auto
  then show ?case
  proof cases
    case none
    show ?thesis
    proof (rule Cons.IH [OF _ Cons.prems(2)], goal_cases)
      case (1 s' new)
      show ?case by (rule Cons.prems(1) [of s' new]) (use 1 none ag in \<open>auto simp: visit_null\<close>)
    qed (use Cons.prems(3) in auto)
  next
    case seen
    show ?thesis
    proof (rule Cons.IH [OF _ Cons.prems(2)], goal_cases)
      case (1 s' new)
      show ?case by (rule Cons.prems(1) [of s' new]) (use 1 seen ag in \<open>auto simp: visit_seen\<close>)
    qed (use Cons.prems(3) in auto)
  next
    case new
    have r: "reach (owner s0) (refs s0) (valid s0) roots h"
      using Cons.prems(3) [of a h] new ag by simp
    have i: "inv s0 roots (mark h s) (h # hs)"
      using Cons.prems(2) r
      by (auto simp: inv_def agree_def reached_def owner_mark refs_mark valid_mark marked_mark)
    show ?thesis
    proof (rule Cons.IH [OF _ i], goal_cases)
      case (1 s' new')
      show ?case
        by (rule Cons.prems(1) [of s' "new' @ [h]"])
          (use 1 new ag work_mark [of s h hs] in \<open>auto simp: visit_new marked_mark\<close>)
    qed (use Cons.prems(3) in auto)
  qed
qed

lemma loop_marks:
  assumes "inv s0 roots s hs" and "closed_except s0 roots s hs"
  shows "\<exists>s'. loop (s, map push hs) = s' \<and> inv s0 roots s' [] \<and> closed_except s0 roots s' [] \<and>
    (\<forall>h. marked s h \<longrightarrow> marked s' h)"
  using assms
proof (induction "work s hs" arbitrary: s hs rule: less_induct)
  case less
  show ?case
  proof (cases hs)
    case Nil
    with less.prems show ?thesis by (simp add: loop_done)
  next
    case (Cons h ws)
    from less.prems(1) Cons have m: "marked s h" and oh: "reached s0 roots h" and ag: "agree s0 s" by (auto simp: inv_def)
    have i: "inv s0 roots s ws" using less.prems(1) Cons by (auto simp: inv_def)
    have w: "work s hs = Suc (work s ws)" by (simp add: work_def Cons)
    show ?thesis
    proof (cases "valid s h")
      case False
      then have "closed_except s0 roots s ws"
        using less.prems(2) Cons ag by (auto simp: closed_except_def agree_def)
      with less.hyps [of s ws] i w m False Cons show ?thesis by (simp add: loop_skip)
    next
      case True
      have reach_h: "reach (owner s0) (refs s0) (valid s0) roots h" using oh by (simp add: reached_def)
      have vh: "valid s0 h" and rh: "refs s = refs s0" using ag True by (auto simp: agree_def)
      obtain s' new where f: "fold visit (refs s0 h) (s, map push ws) = (s', map push (new @ ws))"
        and i': "inv s0 roots s' (new @ ws)" and w': "work s' (new @ ws) = work s ws"
        and m': "\<And>h. marked s' h \<longleftrightarrow> marked s h \<or> h \<in> set new"
        and succ: "\<And>a h'. a \<in> set (refs s0 h) \<Longrightarrow> a \<noteq> 0 \<Longrightarrow> owner s0 a = Some h' \<Longrightarrow> marked s' h'"
        by (rule visits [OF i, of "refs s0 h"]) (auto intro: reach.step [OF reach_h vh])
      have "closed_except s0 roots s' (new @ ws)"
        unfolding closed_except_def
      proof (intro allI impI, elim conjE)
        fix g a h'
        assume g: "reached s0 roots g" "marked s' g" "g \<notin> set (new @ ws)" "valid s0 g" "a \<in> set (refs s0 g)" "a \<noteq> 0"
          "owner s0 a = Some h'"
        show "marked s' h'"
        proof (cases "g = h")
          case True
          with g succ show ?thesis by blast
        next
          case False
          with g m' Cons have "marked s g" "g \<notin> set hs" by auto
          with g less.prems(2) m' show ?thesis by (auto simp: closed_except_def)
        qed
      qed
      moreover have "loop (s, map push hs) = loop (s', map push (new @ ws))"
        using Cons m True f rh by (simp add: loop_scan)
      ultimately show ?thesis using less.hyps [of s' "new @ ws"] i' w w' m' by auto
    qed
  qed
qed

theorem marks_exactly_reachable:
  assumes unmarked: "\<And>h. reach (owner s) (refs s) (valid s) roots h \<Longrightarrow> \<not> marked s h" and own: "\<not> marked s h"
  shows "marked (loop (fold visit roots (s, []))) h \<longleftrightarrow> reach (owner s) (refs s) (valid s) roots h"
proof -
  have i: "inv s roots s []" by (simp add: inv_def agree_def)
  obtain s' new where f: "fold visit roots (s, []) = (s', map push new)"
    and i': "inv s roots s' new"
    and m': "\<And>h. marked s' h \<longleftrightarrow> marked s h \<or> h \<in> set new"
    and rt: "\<And>a h. a \<in> set roots \<Longrightarrow> a \<noteq> 0 \<Longrightarrow> owner s a = Some h \<Longrightarrow> marked s' h"
    by (rule visits [OF i, of roots]) (auto intro: reach.root)
  have "closed_except s roots s' new" using m' unmarked by (auto simp: closed_except_def reached_def)
  from loop_marks [OF i' this] obtain t where t: "loop (s', map push new) = t" "inv s roots t []"
    "closed_except s roots t []" "\<And>h. marked s' h \<Longrightarrow> marked t h" by blast
  have "marked t h" if "reach (owner s) (refs s) (valid s) roots h" for h
    using that
  proof (induction rule: reach.induct)
    case (root r h)
    then show ?case by (intro t(4) rt)
  next
    case (step h a h')
    then show ?case using t(3) by (auto simp: closed_except_def reached_def)
  qed
  then show ?thesis using t(1,2) f own by (auto simp: inv_def reached_def)
qed

end

end
