(* ===== verification/Marking.thy ===== *)
theory Marking
  imports Collector Tracing
begin

text \<open>
  The mark phase marks exactly the reachable allocations.  The scan loops are first read as lists
  of the words they visit (\<open>payloadRefs\<close>); mark bits are shown to be invisible to owner lookups and
  scans; the contract of \<open>Tracing\<close> is then interpreted on the model's own functions.
\<close>

section \<open>What a scan visits\<close>

definition slotRefs :: "memory \<Rightarrow> GCTypeDescriptor \<Rightarrow> addr \<Rightarrow> u64 \<Rightarrow> nat list \<Rightarrow> addr list" where
  "slotRefs rd d elementBase stride slots =
     (if td_referenceSlotOffsets d = 0 then []
      else map (\<lambda>offset. rd_word rd (elementBase + offset))
             (filter (\<lambda>offset. \<not> offset + 8 > stride)
               (map (\<lambda>i. rd_word rd (td_referenceSlotOffsets d + of_nat (8 * i))) slots)))"

definition payloadRefs :: "memory \<Rightarrow> heap \<Rightarrow> addr \<Rightarrow> addr list" where
  "payloadRefs rd st header =
     (let h = hdrs st header;
          start = payloadAddress header;
          d = rd_descriptor rd (ah_typeDescriptor h)
      in if ah_typeDescriptor h \<noteq> 0 \<and> td_instanceSize d \<noteq> 0
         then concat (map (\<lambda>e. slotRefs rd d (start + of_nat e * td_instanceSize d) (td_instanceSize d)
                                 [0 ..< unat (td_referenceSlotCount d)])
                [0 ..< unat (if ah_kind h = AArray then ah_elementCount h else 1)])
         else map (\<lambda>i. rd_word rd (start + of_nat (8 * i))) [0 ..< unat (ah_payloadSize h) div 8])"

lemma scanSlots_fold: "scanSlots rd d b stride is s = fold markAddress (slotRefs rd d b stride is) s"
  by (induction rd d b stride "is" s rule: scanSlots.induct) (simp_all add: slotRefs_def Let_def)

lemma scanElements_fold:
  "scanElements rd d start stride is s =
     fold markAddress
       (concat (map (\<lambda>e. slotRefs rd d (start + of_nat e * stride) stride
                           [0 ..< unat (td_referenceSlotCount d)]) is)) s"
  by (induction rd d start stride "is" s rule: scanElements.induct) (simp_all add: scanSlots_fold)

lemma scanWords_fold:
  "scanWords rd start is s = fold markAddress (map (\<lambda>i. rd_word rd (start + of_nat (8 * i))) is) s"
  by (induction rd start "is" s rule: scanWords.induct) simp_all

lemma scanAllocationPayload_fold:
  "scanAllocationPayload rd header s = fold markAddress (payloadRefs rd (fst s) header) s"
  by (simp add: scanAllocationPayload_def payloadRefs_def Let_def scanElements_fold scanWords_fold)

section \<open>Mark bits are invisible to lookups and scans\<close>

text \<open>Two heaps that differ in mark bits only.\<close>

definition unmarkedHdr :: "AllocationHeader \<Rightarrow> AllocationHeader" where
  "unmarkedHdr h = h\<lparr>ah_marked := False\<rparr>"

definition markEq :: "heap \<Rightarrow> heap \<Rightarrow> bool" where
  "markEq s t \<longleftrightarrow> s\<lparr>hdrs := \<lambda>a. unmarkedHdr (hdrs s a)\<rparr> = t\<lparr>hdrs := \<lambda>a. unmarkedHdr (hdrs t a)\<rparr>"

lemma markEq_refl [simp]: "markEq s s"
  by (simp add: markEq_def)

lemma markEq_sym: "markEq s t \<Longrightarrow> markEq t s"
  by (simp add: markEq_def)

lemma markEq_trans: "markEq s t \<Longrightarrow> markEq t u \<Longrightarrow> markEq s u"
  by (simp add: markEq_def)

lemma markEq_setMarked: "markEq s (updHdr a (\<lambda>h. h\<lparr>ah_marked := b\<rparr>) s)"
  by (simp add: markEq_def updHdr_def unmarkedHdr_def fun_eq_iff)

lemma markEq_hdr:
  assumes "markEq s t"
  shows "ah_magic (hdrs t a) = ah_magic (hdrs s a)" "ah_kind (hdrs t a) = ah_kind (hdrs s a)"
    "ah_storageKind (hdrs t a) = ah_storageKind (hdrs s a)"
    "ah_elementCount (hdrs t a) = ah_elementCount (hdrs s a)"
    "ah_payloadSize (hdrs t a) = ah_payloadSize (hdrs s a)"
    "ah_typeDescriptor (hdrs t a) = ah_typeDescriptor (hdrs s a)"
    "ah_storageOwner (hdrs t a) = ah_storageOwner (hdrs s a)"
    "ah_prev (hdrs t a) = ah_prev (hdrs s a)" "ah_next (hdrs t a) = ah_next (hdrs s a)"
    "ah_live (hdrs t a) = ah_live (hdrs s a)"
proof -
  from assms have "hdrs (s\<lparr>hdrs := \<lambda>a. unmarkedHdr (hdrs s a)\<rparr>) a = hdrs (t\<lparr>hdrs := \<lambda>a. unmarkedHdr (hdrs t a)\<rparr>) a"
    by (simp add: markEq_def)
  then have "unmarkedHdr (hdrs s a) = unmarkedHdr (hdrs t a)" by simp
  then show "ah_magic (hdrs t a) = ah_magic (hdrs s a)" "ah_kind (hdrs t a) = ah_kind (hdrs s a)"
    "ah_storageKind (hdrs t a) = ah_storageKind (hdrs s a)"
    "ah_elementCount (hdrs t a) = ah_elementCount (hdrs s a)"
    "ah_payloadSize (hdrs t a) = ah_payloadSize (hdrs s a)"
    "ah_typeDescriptor (hdrs t a) = ah_typeDescriptor (hdrs s a)"
    "ah_storageOwner (hdrs t a) = ah_storageOwner (hdrs s a)"
    "ah_prev (hdrs t a) = ah_prev (hdrs s a)" "ah_next (hdrs t a) = ah_next (hdrs s a)"
    "ah_live (hdrs t a) = ah_live (hdrs s a)"
    by (cases "hdrs s a"; cases "hdrs t a"; simp add: unmarkedHdr_def)+
qed

lemma markEq_rest:
  assumes "markEq s t"
  shows "classes t = classes s" "pages t = pages s" "activeAllocationHead t = activeAllocationHead s"
    "slabClassByKey t = slabClassByKey s" "slabClassStorage t = slabClassStorage s"
    "slabPageStorage t = slabPageStorage s" "slabPagesByAddressPage t = slabPagesByAddressPage s"
    "systemHeadersByPage t = systemHeadersByPage s" "mallocBlocks t = mallocBlocks s"
    "denseMapEmptyKey t = denseMapEmptyKey s" "denseMapTombstoneKey t = denseMapTombstoneKey s"
  using assms by (cases s; cases t; simp add: markEq_def)+

lemmas markEq_simps = markEq_hdr markEq_rest

lemma markEq_inPayload: "markEq s t \<Longrightarrow> inPayload t a h = inPayload s a h"
  by (simp add: inPayload_def markEq_simps)

lemma markEq_findOwningSlab: "markEq s t \<Longrightarrow> findOwningSlabAllocation t a p = findOwningSlabAllocation s a p"
  by (simp add: findOwningSlabAllocation_def slabHeaderAt_def markEq_inPayload Let_def markEq_simps)

lemma markEq_findOwner: "markEq s t \<Longrightarrow> findOwningAllocation t = findOwningAllocation s"
  by (rule ext)
    (simp add: findOwningAllocation_def isReservedDenseMapKey_def Let_def markEq_simps
      markEq_inPayload markEq_findOwningSlab cong: option.case_cong)

lemma markEq_payloadRefs: "markEq s t \<Longrightarrow> payloadRefs rd t = payloadRefs rd s"
  by (rule ext) (simp add: payloadRefs_def Let_def markEq_simps)

definition scannable :: "heap \<Rightarrow> addr \<Rightarrow> bool" where
  "scannable st header \<longleftrightarrow> ah_live (hdrs st header) \<and> ah_magic (hdrs st header) = kAllocationMagic"

lemma markEq_scannable: "markEq s t \<Longrightarrow> scannable t = scannable s"
  by (rule ext) (simp add: scannable_def markEq_simps)

section \<open>The mark phase only sets mark bits\<close>

lemma markEq_markAddress: "markEq (fst s) (fst (markAddress a s))"
  by (cases s) (auto simp: markAddress_def markAllocation_def markEq_setMarked split: option.split)

lemma markEq_fold_markAddress: "markEq (fst s) (fst (fold markAddress as s))"
proof (induction as arbitrary: s)
  case (Cons a as)
  show ?case using markEq_trans [OF markEq_markAddress Cons.IH] by simp
qed simp

lemma markEq_markLoop: "markEq (fst s) (markLoop rd s)"
proof (induction rd s rule: markLoop.induct)
  case (1 rd st)
  show ?case by simp
next
  case (2 rd st address worklist)
  let ?h = "address - sizeofAllocationHeader"
  show ?case
  proof (cases "\<not> ah_live (hdrs st ?h) \<or> \<not> ah_marked (hdrs st ?h) \<or> ah_magic (hdrs st ?h) \<noteq> kAllocationMagic")
    case True
    with "2.IH"(1) show ?thesis by simp
  next
    case False
    with "2.IH"(2) have "markEq (fst (scanAllocationPayload rd ?h (st, worklist)))
        (markLoop rd (scanAllocationPayload rd ?h (st, worklist)))" by simp
    moreover have "markEq st (fst (scanAllocationPayload rd ?h (st, worklist)))"
      using markEq_fold_markAddress [of "(st, worklist)"] by (simp add: scanAllocationPayload_fold)
    ultimately show ?thesis using False by (simp add: Let_def) (blast intro: markEq_trans)
  qed
qed

lemma fold_rootStep: "fold rootStep roots s = fold markAddress roots s"
  by (induction roots arbitrary: s) (auto simp: rootStep_def markAddress_def)

section \<open>The contract holds of the code\<close>

interpretation tracer: tracing findOwningAllocation "payloadRefs rd" scannable
  "\<lambda>st a. ah_marked (hdrs st a)" "\<lambda>a. updHdr a (\<lambda>h. h\<lparr>ah_marked := True\<rparr>)" payloadAddress
  markAddress "markLoop rd" for rd
proof (unfold_locales, goal_cases)
  case (1 h s)
  show ?case by (rule markEq_findOwner [OF markEq_setMarked])
next
  case (2 h s)
  show ?case by (rule markEq_payloadRefs [OF markEq_setMarked])
next
  case (3 h s)
  show ?case by (rule markEq_scannable [OF markEq_setMarked])
next
  case (4 h s a)
  show ?case by (auto simp: updHdr_def)
next
  case (5 a s w)
  then show ?case by (auto simp: markAddress_def)
next
  case (6 a s h w)
  then show ?case by (simp add: markAddress_def markAllocation_def)
next
  case (7 a s h w)
  then show ?case by (simp add: markAddress_def markAllocation_def)
next
  case (8 s)
  show ?case by simp
next
  case (9 s h w)
  then show ?case
    by (simp add: scannable_def payloadAddress_def scanAllocationPayload_fold)
next
  case (10 s h w)
  then show ?case by (auto simp: scannable_def payloadAddress_def)
qed

text \<open>The state after the mark phase of a collection.\<close>

definition markPhase :: "memory \<Rightarrow> addr list \<Rightarrow> heap \<Rightarrow> heap" where
  "markPhase rd roots st = markLoop rd (fold rootStep roots (st, []))"

definition heapReach :: "memory \<Rightarrow> heap \<Rightarrow> addr list \<Rightarrow> addr \<Rightarrow> bool" where
  "heapReach rd st roots = reach (findOwningAllocation st) (payloadRefs rd st) (scannable st) roots"

lemma markPhase_markEq: "markEq st (markPhase rd roots st)"
  using markEq_fold_markAddress [of "(st, [])" roots] markEq_markLoop
  by (simp add: markPhase_def fold_rootStep) (blast intro: markEq_trans)

lemma markPhase_marked:
  "\<lbrakk>\<And>h. heapReach rd st roots h \<Longrightarrow> \<not> ah_marked (hdrs st h); \<not> ah_marked (hdrs st h)\<rbrakk>
    \<Longrightarrow> ah_marked (hdrs (markPhase rd roots st) h) \<longleftrightarrow> heapReach rd st roots h"
  unfolding markPhase_def heapReach_def fold_rootStep by (rule tracer.marks_exactly_reachable)

end
