(* ===== verification/Sweep.thy ===== *)
theory Sweep
  imports Heap_Allocate Marking
begin

text \<open>
  A whole collection: counting, marking, sweeping and the statistics.  Under the heap invariant the
  three loops return, the collection never aborts, the survivors are exactly the reachable
  allocations, in their order and with their headers as they were, and the invariant holds again.
\<close>

section \<open>Marks do not matter to the invariant\<close>

lemma heapInv_markEq:
  assumes m: "markEq s t"
  shows "soundHeap clean t xs \<longleftrightarrow> soundHeap clean s xs"
proof -
  note e = markEq_simps [OF m]
  have sl: "isSlab t = isSlab s" "slotAddr t = slotAddr s" "pageClass t = pageClass s"
    "liveOn t = liveOn s" "headerPages t = headerPages s" "slabPageKeys t = slabPageKeys s" "bucketAt t = bucketAt s"
    "slabPageHasFreeSlots t = slabPageHasFreeSlots s"
    by (auto simp: isSlab_def slotAddr_def slabHeaderAt_def pageClass_def liveOn_def headerPages_def
        slabPageKeys_def bucketAt_def slabPageHasFreeSlots_def e fun_eq_iff)
  have "activeChain t xs \<longleftrightarrow> activeChain s xs" by (simp add: activeChain_def e)
  moreover have "invKeys t \<longleftrightarrow> invKeys s" "invBlocks t \<longleftrightarrow> invBlocks s" "invClasses t \<longleftrightarrow> invClasses s"
    by (simp_all add: invKeys_def invBlocks_def invClasses_def e)
  moreover have "invPages t \<longleftrightarrow> invPages s" by (simp add: invPages_def pageOk_def e sl)
  moreover have "invSystem t xs \<longleftrightarrow> invSystem s xs" by (simp add: invSystem_def sysOk_def e sl)
  moreover have "invHeaders t xs \<longleftrightarrow> invHeaders s xs" by (simp add: invHeaders_def e sl)
  moreover have "invSlots t xs \<longleftrightarrow> invSlots s xs" by (simp add: invSlots_def freeListOn_def e sl)
  moreover have "invNonFull t \<longleftrightarrow> invNonFull s"
    by (simp add: invNonFull_def nonFullChain_def pagesWithRoom_def e sl)
  moreover have "invSlabTable t \<longleftrightarrow> invSlabTable s" by (simp add: invSlabTable_def e sl)
  moreover have "invSysTable t xs \<longleftrightarrow> invSysTable s xs" by (simp add: invSysTable_def e sl)
  moreover have "invClean t \<longleftrightarrow> invClean s" by (simp add: invClean_def looksLive_def e sl)
  ultimately show ?thesis by (simp add: soundHeap_def)
qed

section \<open>Walking the list of active allocations\<close>

definition firstOf :: "addr list \<Rightarrow> addr" where
  "firstOf xs = (case xs of [] \<Rightarrow> 0 | x # _ \<Rightarrow> x)"

lemma firstOf_simps [simp]: "firstOf [] = 0" "firstOf (x # xs) = x"
  by (simp_all add: firstOf_def)

lemma dll_from_next:
  "dll_from nx pv p c (ks @ y # ys) \<Longrightarrow> nx y = firstOf ys"
proof (induction ks arbitrary: p c)
  case Nil
  then show ?case by (cases ys) auto
next
  case (Cons k ks)
  then show ?case by auto
qed

lemma activeChain_next: "activeChain st (ks @ y # ys) \<Longrightarrow> ah_next (hdrs st y) = firstOf ys"
  by (auto simp: activeChain_def dll_def dest: dll_from_next)

lemma activeChain_head: "activeChain st xs \<Longrightarrow> activeAllocationHead st = firstOf xs"
  by (cases xs) (auto simp: activeChain_def dll_def)

definition payloadBytes :: "heap \<Rightarrow> addr list \<Rightarrow> u64" where
  "payloadBytes st xs = sum_list (map (\<lambda>h. ah_payloadSize (hdrs st h)) xs)"

lemma payloadBytes_simps [simp]:
  "payloadBytes st [] = 0" "payloadBytes st (x # xs) = ah_payloadSize (hdrs st x) + payloadBytes st xs"
  by (simp_all add: payloadBytes_def)

lemma payloadBytes_cong:
  "(\<And>h. h \<in> set xs \<Longrightarrow> ah_payloadSize (hdrs st' h) = ah_payloadSize (hdrs st h)) \<Longrightarrow> payloadBytes st' xs = payloadBytes st xs"
  by (auto simp: payloadBytes_def intro: arg_cong [where f = sum_list])

lemma countBeforeLoop_chain:
  assumes "activeChain st (ks @ ys)"
  shows "countBeforeLoop (firstOf ys) st stats = Some (stats\<lparr>
    gs_heapObjectCountBefore := gs_heapObjectCountBefore stats + of_nat (length ys),
    gs_heapBytesBefore := gs_heapBytesBefore stats + payloadBytes st ys\<rparr>)"
  using assms
proof (induction ys arbitrary: ks stats)
  case Nil
  show ?case by (subst countBeforeLoop.simps) simp
next
  case (Cons y ys)
  have "y \<noteq> 0" using active.chain_nonnull [OF Cons.prems] by auto
  moreover have "activeChain st ((ks @ [y]) @ ys)" using Cons.prems by simp
  note Cons.IH [OF this]
  ultimately show ?case
    by (subst countBeforeLoop.simps) (simp add: activeChain_next [OF Cons.prems] add_ac)
qed

lemma countAfterLoop_chain:
  assumes "activeChain st (ks @ ys)"
  shows "countAfterLoop (firstOf ys) st stats = Some (stats\<lparr>
    gs_heapObjectCountAfter := gs_heapObjectCountAfter stats + of_nat (length ys)\<rparr>)"
  using assms
proof (induction ys arbitrary: ks stats)
  case Nil
  show ?case by (subst countAfterLoop.simps) simp
next
  case (Cons y ys)
  have "y \<noteq> 0" using active.chain_nonnull [OF Cons.prems] by auto
  moreover have "activeChain st ((ks @ [y]) @ ys)" using Cons.prems by simp
  note Cons.IH [OF this]
  ultimately show ?case
    by (subst countAfterLoop.simps) (simp add: activeChain_next [OF Cons.prems] add_ac)
qed

section \<open>Sweeping\<close>

definition sweepStats :: "heap \<Rightarrow> addr list \<Rightarrow> GCCollectionStats \<Rightarrow> GCCollectionStats" where
  "sweepStats st ys stats =
     (let live = filter (\<lambda>h. ah_marked (hdrs st h)) ys; dead = filter (\<lambda>h. \<not> ah_marked (hdrs st h)) ys in
      stats\<lparr>gs_liveObjectCount := gs_liveObjectCount stats + of_nat (length live),
            gs_heapBytesAfter := gs_heapBytesAfter stats + payloadBytes st live,
            gs_sweptObjectCount := gs_sweptObjectCount stats + of_nat (length dead),
            gs_sweptBytes := gs_sweptBytes stats + payloadBytes st dead\<rparr>)"

lemma sweepStats_cong:
  assumes "\<And>h. h \<in> set ys \<Longrightarrow> hdrCore (hdrs st' h) = hdrCore (hdrs st h)"
  shows "sweepStats st' ys stats = sweepStats st ys stats"
    and "filter (\<lambda>h. ah_marked (hdrs st' h)) ys = filter (\<lambda>h. ah_marked (hdrs st h)) ys"
proof -
  have m: "ah_marked (hdrs st' h) = ah_marked (hdrs st h)"
    "ah_payloadSize (hdrs st' h) = ah_payloadSize (hdrs st h)" if "h \<in> set ys" for h
    using hdrCore_fields(5,8) [OF assms [OF that]] by simp_all
  show f: "filter (\<lambda>h. ah_marked (hdrs st' h)) ys = filter (\<lambda>h. ah_marked (hdrs st h)) ys"
    by (rule filter_cong) (simp_all add: m)
  have g: "filter (\<lambda>h. \<not> ah_marked (hdrs st' h)) ys = filter (\<lambda>h. \<not> ah_marked (hdrs st h)) ys"
    by (rule filter_cong) (simp_all add: m)
  have b: "payloadBytes st' (filter P ys) = payloadBytes st (filter P ys)" for P
    by (rule payloadBytes_cong) (simp add: m)
  show "sweepStats st' ys stats = sweepStats st ys stats"
    by (simp add: sweepStats_def f g b)
qed

text \<open>A header as the sweep leaves it: not marked, links aside.\<close>

definition sweptCore :: "AllocationHeader \<Rightarrow> AllocationHeader" where
  "sweptCore h = (hdrCore h)\<lparr>ah_marked := False\<rparr>"

lemma sweptCore_core: "hdrCore x = hdrCore y \<Longrightarrow> sweptCore x = sweptCore y"
  by (simp add: sweptCore_def)

lemma sweepLoop_sweeps:
  assumes "soundHeap clean st (ks @ ys)" and "\<forall>h \<in> set ks. \<not> ah_marked (hdrs st h)"
  shows "\<exists>st'. sweepLoop (firstOf ys) st stats = Some (Inr (st', sweepStats st ys stats)) \<and>
    soundHeap clean st' (ks @ filter (\<lambda>h. ah_marked (hdrs st h)) ys) \<and>
    (\<forall>h \<in> set (ks @ filter (\<lambda>h. ah_marked (hdrs st h)) ys).
       hdrCore (hdrs st' h) = sweptCore (hdrs st h))"
  using assms
proof (induction ys arbitrary: ks st stats)
  case Nil
  have "hdrCore (hdrs st h) = sweptCore (hdrs st h)" if "h \<in> set ks" for h
    using Nil.prems(2) that by (simp add: sweptCore_def hdrCore_def)
  with Nil.prems show ?case
    by (subst sweepLoop.simps) (simp add: sweepStats_def)
next
  case (Cons y ys)
  have ch: "activeChain st (ks @ y # ys)" using Cons.prems(1) by (simp add: soundHeap_def)
  have y0: "y \<noteq> 0" using active.chain_nonnull [OF ch] by auto
  have d: "distinct (ks @ y # ys)" by (rule active.chain_distinct [OF ch])
  note nx = activeChain_next [OF ch]
  show ?case
  proof (cases "ah_marked (hdrs st y)")
    case True
    define st1 where "st1 = updHdr y (\<lambda>h. h\<lparr>ah_marked := False\<rparr>) st"
    define stats1 where "stats1 = stats\<lparr>gs_liveObjectCount := gs_liveObjectCount stats + 1,
      gs_heapBytesAfter := gs_heapBytesAfter stats + ah_payloadSize (hdrs st y)\<rparr>"
    have "markEq st st1" unfolding st1_def by (rule markEq_setMarked)
    then have inv1: "soundHeap clean st1 ((ks @ [y]) @ ys)" using Cons.prems(1) heapInv_markEq by simp
    have un1: "\<forall>h \<in> set (ks @ [y]). \<not> ah_marked (hdrs st1 h)" using Cons.prems(2) by (simp add: st1_def)
    have same: "hdrs st1 h = hdrs st h" if "h \<noteq> y" for h using that by (simp add: st1_def)
    have sameY: "hdrCore (hdrs st1 h) = hdrCore (hdrs st h)" if "h \<in> set ys" for h
      using same [of h] that d by (cases "h = y") auto
    obtain st' where st': "sweepLoop (firstOf ys) st1 stats1 = Some (Inr (st', sweepStats st1 ys stats1))"
      "soundHeap clean st' ((ks @ [y]) @ filter (\<lambda>h. ah_marked (hdrs st1 h)) ys)"
      "\<forall>h \<in> set ((ks @ [y]) @ filter (\<lambda>h. ah_marked (hdrs st1 h)) ys). hdrCore (hdrs st' h) = sweptCore (hdrs st1 h)"
      using Cons.IH [OF inv1 un1] by blast
    have core1: "sweptCore (hdrs st1 h) = sweptCore (hdrs st h)" for h
      by (simp add: st1_def sweptCore_def hdrCore_def)
    have "sweepLoop (firstOf (y # ys)) st stats = Some (Inr (st', sweepStats st1 ys stats1))"
      using True y0 st'(1) by (subst sweepLoop.simps) (simp add: nx st1_def stats1_def)
    moreover have "sweepStats st1 ys stats1 = sweepStats st (y # ys) stats"
      using True by (simp add: sweepStats_cong(1) [OF sameY]) (simp add: sweepStats_def stats1_def Let_def add_ac)
    ultimately show ?thesis
      using st'(2,3) True by (simp add: sweepStats_cong(2) [OF sameY] core1)
  next
    case False
    obtain st1 where st1: "reclaimAllocation y st = Inr st1" "soundHeap clean st1 (remove1 y (ks @ y # ys))"
      "\<And>a. a \<noteq> y \<Longrightarrow> hdrCore (hdrs st1 a) = hdrCore (hdrs st a)"
      by (rule reclaim_ok [OF Cons.prems(1), of y]) auto
    define stats1 where "stats1 = stats\<lparr>gs_sweptObjectCount := gs_sweptObjectCount stats + 1,
      gs_sweptBytes := gs_sweptBytes stats + ah_payloadSize (hdrs st y)\<rparr>"
    have inv1: "soundHeap clean st1 (ks @ ys)" using st1(2) d by (simp add: remove1_append)
    have ne: "h \<noteq> y" if "h \<in> set ks \<or> h \<in> set ys" for h using that d by auto
    have un1: "\<forall>h \<in> set ks. \<not> ah_marked (hdrs st1 h)"
      using Cons.prems(2) hdrCore_fields(8) [OF st1(3)] ne by auto
    obtain st' where st': "sweepLoop (firstOf ys) st1 stats1 = Some (Inr (st', sweepStats st1 ys stats1))"
      "soundHeap clean st' (ks @ filter (\<lambda>h. ah_marked (hdrs st1 h)) ys)"
      "\<forall>h \<in> set (ks @ filter (\<lambda>h. ah_marked (hdrs st1 h)) ys). hdrCore (hdrs st' h) = sweptCore (hdrs st1 h)"
      using Cons.IH [OF inv1 un1] by blast
    have sameY: "hdrCore (hdrs st1 h) = hdrCore (hdrs st h)" if "h \<in> set ys" for h
      using st1(3) ne that by blast
    have "sweepLoop (firstOf (y # ys)) st stats = Some (Inr (st', sweepStats st1 ys stats1))"
      using False y0 st'(1) st1(1) by (subst sweepLoop.simps) (simp add: nx stats1_def)
    moreover have "sweepStats st1 ys stats1 = sweepStats st (y # ys) stats"
      using False by (simp add: sweepStats_cong(1) [OF sameY]) (simp add: sweepStats_def stats1_def Let_def add_ac)
    moreover have "sweptCore (hdrs st1 h) = sweptCore (hdrs st h)" if "h \<in> set ks \<or> h \<in> set ys" for h
      by (rule sweptCore_core) (rule st1(3) [OF ne [OF that]])
    ultimately show ?thesis
      using st'(2,3) False by (auto simp: sweepStats_cong(2) [OF sameY])
  qed
qed

section \<open>A whole collection\<close>

lemma countBeforeLoop_all:
  "activeChain st xs \<Longrightarrow> countBeforeLoop (activeAllocationHead st) st stats = Some (stats\<lparr>
    gs_heapObjectCountBefore := gs_heapObjectCountBefore stats + of_nat (length xs),
    gs_heapBytesBefore := gs_heapBytesBefore stats + payloadBytes st xs\<rparr>)"
  using countBeforeLoop_chain [of st "[]" xs] by (simp add: activeChain_head)

lemma countAfterLoop_all:
  "activeChain st xs \<Longrightarrow> countAfterLoop (activeAllocationHead st) st stats = Some (stats\<lparr>
    gs_heapObjectCountAfter := gs_heapObjectCountAfter stats + of_nat (length xs)\<rparr>)"
  using countAfterLoop_chain [of st "[]" xs] by (simp add: activeChain_head)

text \<open>The statistics a collection reports, from the allocations before it and those that survive.\<close>

definition collectionStats :: "heap \<Rightarrow> addr list \<Rightarrow> addr list \<Rightarrow> (addr \<Rightarrow> bool) \<Rightarrow> u64 \<Rightarrow> GCCollectionStats" where
  "collectionStats st xs roots keep count = \<lparr>gs_collectionCount = count,
     gs_rootCount = of_nat (length (filter (\<lambda>r. r \<noteq> 0) roots)),
     gs_liveObjectCount = of_nat (length (filter keep xs)),
     gs_sweptObjectCount = of_nat (length (filter (\<lambda>h. \<not> keep h) xs)),
     gs_sweptBytes = payloadBytes st (filter (\<lambda>h. \<not> keep h) xs),
     gs_heapBytesBefore = payloadBytes st xs,
     gs_heapBytesAfter = payloadBytes st (filter keep xs),
     gs_heapObjectCountBefore = of_nat (length xs),
     gs_heapObjectCountAfter = of_nat (length (filter keep xs))\<rparr>"

lemma findOwning_payload_start:
  assumes "soundHeap clean st xs" "h \<in> set xs"
  shows "findOwningAllocation st (payloadAddress h) = Some h"
proof -
  have "inPayload st (payloadAddress h) h"
    using assms heapInv_header(3) [OF assms] by (simp add: inPayload_iff unat_payloadAddress)
  then show ?thesis by (rule findOwning_complete [OF assms])
qed

text \<open>No pointer that a collection follows leads to the stale header of an unused slot.  A program whose pointers are null, or
  point into objects or outside of the managed heap, meets this, and a heap with clean memory does.\<close>

definition noStaleRefs :: "memory \<Rightarrow> heap \<Rightarrow> addr list \<Rightarrow> bool" where
  "noStaleRefs rd st roots \<longleftrightarrow> (\<forall>h a. heapReach rd st roots h \<longrightarrow> \<not> staleOwner st a h)"

lemma noStaleRefs_clean: "soundHeap True st xs \<Longrightarrow> noStaleRefs rd st roots"
  by (simp add: noStaleRefs_def clean_no_stale)

lemma reach_active:
  assumes "soundHeap clean st xs" "noStaleRefs rd st roots" "heapReach rd st roots h"
  shows "h \<in> set xs"
proof -
  obtain a where "findOwningAllocation st a = Some h" using assms(3) unfolding heapReach_def by (blast dest: reach_owned)
  then show ?thesis using findOwning_exact [OF assms(1)] assms(2,3) by (auto simp: noStaleRefs_def)
qed

lemma collect_sweeps:
  fixes rd :: memory and roots :: "addr list"
  assumes inv: "soundHeap clean (rt_heap rt) xs" and unmarked: "\<forall>h \<in> set xs. \<not> ah_marked (hdrs (rt_heap rt) h)"
    and refs: "noStaleRefs rd (rt_heap rt) roots"
  defines "keep \<equiv> heapReach rd (rt_heap rt) roots"
  obtains rt' stats where "collectManagedHeap rd roots rt = Some (Inr (rt', stats))"
    "soundHeap clean (rt_heap rt') (filter keep xs)"
    "\<And>h. h \<in> set (filter keep xs) \<Longrightarrow> hdrCore (hdrs (rt_heap rt') h) = hdrCore (hdrs (rt_heap rt) h)"
    "stats = collectionStats (rt_heap rt) xs roots keep (rt_collectionCount rt + 1)"
    "rt_gc rt' = updateManagedHeapUsage (gs_heapBytesAfter stats) (rt_gc rt)"
    "rt_collectionCount rt' = rt_collectionCount rt + 1" "rt_lastCollectionStats rt' = stats"
proof -
  let ?st = "rt_heap rt"
  define st1 where "st1 = markPhase rd roots ?st"
  have meq: "markEq ?st st1" unfolding st1_def by (rule markPhase_markEq)
  have inv1: "soundHeap clean st1 xs" using inv heapInv_markEq [OF meq] by simp
  have mk: "ah_marked (hdrs st1 h) \<longleftrightarrow> keep h" if h: "h \<in> set xs" for h
    unfolding st1_def keep_def
  proof (rule markPhase_marked)
    show "\<not> ah_marked (hdrs ?st h)" using unmarked h by blast
    show "\<not> ah_marked (hdrs ?st h')" if "heapReach rd ?st roots h'" for h'
      using reach_active [OF inv refs that] unmarked by blast
  qed
  have ch: "activeChain ?st xs" "activeChain st1 xs" using inv inv1 by (simp_all add: soundHeap_def)
  have kf: "filter (\<lambda>h. ah_marked (hdrs st1 h)) xs = filter keep xs"
    "filter (\<lambda>h. \<not> ah_marked (hdrs st1 h)) xs = filter (\<lambda>h. \<not> keep h) xs"
    by (rule filter_cong; simp add: mk)+
  have pb: "payloadBytes st1 ys = payloadBytes ?st ys" for ys
    by (rule payloadBytes_cong) (simp add: markEq_hdr [OF meq])
  define stats0 where "stats0 = emptyCollectionStats\<lparr>gs_collectionCount := rt_collectionCount rt + 1,
    gs_heapObjectCountBefore := of_nat (length xs), gs_heapBytesBefore := payloadBytes ?st xs,
    gs_rootCount := of_nat (length (filter (\<lambda>r. r \<noteq> 0) roots))\<rparr>"
  have "soundHeap clean st1 ([] @ xs)" using inv1 by simp
  from sweepLoop_sweeps [OF this, of stats0] obtain st2 where
    st2: "sweepLoop (firstOf xs) st1 stats0 = Some (Inr (st2, sweepStats st1 xs stats0))"
      "soundHeap clean st2 (filter keep xs)"
      "\<forall>h \<in> set (filter keep xs). hdrCore (hdrs st2 h) = sweptCore (hdrs st1 h)"
    by (auto simp: kf)
  have ch2: "activeChain st2 (filter keep xs)" using st2(2) by (simp add: soundHeap_def)
  define stats where "stats = (sweepStats st1 xs stats0)\<lparr>gs_heapObjectCountAfter := of_nat (length (filter keep xs))\<rparr>"
  have eqs: "stats = collectionStats ?st xs roots keep (rt_collectionCount rt + 1)"
    by (simp add: stats_def sweepStats_def kf pb stats0_def collectionStats_def emptyCollectionStats_def Let_def)
  have run: "collectManagedHeap rd roots rt = Some (Inr (rt\<lparr>rt_collectionCount := rt_collectionCount rt + 1,
      rt_heap := st2, rt_lastCollectionStats := stats,
      rt_gc := updateManagedHeapUsage (gs_heapBytesAfter stats) (rt_gc rt)\<rparr>, stats))"
  proof -
    have z: "gs_heapObjectCountAfter (sweepStats st1 xs stats0) = 0"
      by (simp add: sweepStats_def stats0_def emptyCollectionStats_def Let_def)
    have "countBeforeLoop (activeAllocationHead ?st) ?st (emptyCollectionStats\<lparr>gs_collectionCount := rt_collectionCount rt + 1\<rparr>)
        = Some (emptyCollectionStats\<lparr>gs_collectionCount := rt_collectionCount rt + 1,
            gs_heapObjectCountBefore := of_nat (length xs), gs_heapBytesBefore := payloadBytes ?st xs\<rparr>)"
      by (simp add: countBeforeLoop_all [OF ch(1)] emptyCollectionStats_def)
    moreover have "markLoop rd (fold rootStep roots (?st, [])) = st1" by (simp add: st1_def markPhase_def)
    moreover have "countAfterLoop (activeAllocationHead st2) st2 (sweepStats st1 xs stats0) = Some stats"
      by (simp add: countAfterLoop_all [OF ch2] stats_def z)
    ultimately show ?thesis
      using st2(1) activeChain_head [OF ch(2)]
      unfolding collectManagedHeap_def Let_def by (simp add: stats0_def [symmetric])
  qed
  have core: "hdrCore (hdrs st2 h) = hdrCore (hdrs ?st h)" if "h \<in> set (filter keep xs)" for h
  proof -
    have "hdrCore (hdrs st2 h) = sweptCore (hdrs st1 h)" using st2(3) that by blast
    also have "\<dots> = sweptCore (hdrs ?st h)"
      using markEq_hdr [OF meq, of h] by (cases "hdrs ?st h"; cases "hdrs st1 h") (simp add: sweptCore_def hdrCore_def)
    also have "\<dots> = hdrCore (hdrs ?st h)"
      using unmarked that by (simp add: sweptCore_def hdrCore_def)
    finally show ?thesis .
  qed
  show ?thesis by (rule that [OF run _ _ eqs]) (simp_all add: st2(2) core)
qed

end
