(* ===== verification/Runtime_Heap.thy ===== *)
theory Runtime_Heap
  imports Sweep
begin

text \<open>
  The allocation entry points called by managed code (\<open>__mvm_malloc_typed\<close> and the others of
  \<open>src/src/mvm/runtime_memory.cc\<close>) and the runtime seen as a transition system: allocations and
  collections, in any order, from an empty heap.
\<close>

section \<open>The invariant between calls\<close>

definition soundRuntime :: "bool \<Rightarrow> runtime \<Rightarrow> addr list \<Rightarrow> bool" where
  "soundRuntime clean rt xs \<longleftrightarrow> soundHeap clean (rt_heap rt) xs \<and> (\<forall>h \<in> set xs. \<not> ah_marked (hdrs (rt_heap rt) h))"

abbreviation runInv :: "runtime \<Rightarrow> addr list \<Rightarrow> bool" where
  "runInv \<equiv> soundRuntime True"

lemma runInv_allocated:
  assumes "soundRuntime clean rt xs" "allocationDone clean (rt_heap rt) xs kind n e a d p st'"
  shows "soundRuntime clean (rt\<lparr>rt_heap := st', rt_gc := g\<rparr>) ((p - 80) # xs)"
proof -
  have "\<not> ah_marked (hdrs st' h)" if "h \<in> set xs" for h
    using assms that hdrCore_fields(8) [of "hdrs st' h" "hdrs (rt_heap rt) h"]
    by (auto simp: soundRuntime_def allocationDone_def)
  with assms(2) show ?thesis by (simp add: soundRuntime_def allocationDone_def Let_def)
qed

lemma runInv_failed:
  assumes "soundRuntime clean rt xs" "allocationFailed clean (rt_heap rt) xs st'"
  shows "soundRuntime clean (rt\<lparr>rt_heap := st', rt_gc := g\<rparr>) xs"
  using assms by (simp add: soundRuntime_def allocationFailed_def)

text \<open>The outcome of an allocation entry point once the descriptor has been accepted: null only when the request is refused.\<close>

definition allocationOutcome ::
  "bool \<Rightarrow> runtime \<Rightarrow> addr list \<Rightarrow> alloc_env \<Rightarrow> AllocationKind \<Rightarrow> u64 \<Rightarrow> u64 \<Rightarrow> u64 \<Rightarrow> addr \<Rightarrow> addr \<Rightarrow> runtime \<Rightarrow> bool" where
  "allocationOutcome clean rt xs env kind n e a d p rt' \<longleftrightarrow>
     (if p = 0 then allocationRefused env n a \<and> soundRuntime clean rt' xs \<and> hdrs (rt_heap rt') = hdrs (rt_heap rt) \<and> rt_gc rt' = rt_gc rt
      else allocationDone clean (rt_heap rt) xs kind n e (effectiveAlignment a) d p (rt_heap rt') \<and>
           soundRuntime clean rt' ((p - 80) # xs) \<and> rt_gc rt' = recordManagedAllocation n (rt_gc rt))"

lemma allocationOutcome_inv: "allocationOutcome clean rt xs env kind n e a d p rt' \<Longrightarrow> \<exists>xs'. soundRuntime clean rt' xs'"
  by (auto simp: allocationOutcome_def split: if_splits)

lemma collect_sound:
  assumes "soundRuntime clean rt xs" and refs: "noStaleRefs rd (rt_heap rt) roots"
  obtains rt' stats where "collectManagedHeap rd roots rt = Some (Inr (rt', stats))"
    "soundRuntime clean rt' (filter (heapReach rd (rt_heap rt) roots) xs)"
proof -
  have h: "soundHeap clean (rt_heap rt) xs" "\<forall>h \<in> set xs. \<not> ah_marked (hdrs (rt_heap rt) h)"
    using assms by (simp_all add: soundRuntime_def)
  let ?ys = "filter (heapReach rd (rt_heap rt) roots) xs"
  obtain rt' stats where c: "collectManagedHeap rd roots rt = Some (Inr (rt', stats))" "soundHeap clean (rt_heap rt') ?ys"
    "\<And>h. h \<in> set ?ys \<Longrightarrow> hdrCore (hdrs (rt_heap rt') h) = hdrCore (hdrs (rt_heap rt) h)"
    by (rule collect_sweeps [OF h refs]) blast
  have "\<not> ah_marked (hdrs (rt_heap rt') h)" if "h \<in> set ?ys" for h
    using hdrCore_fields(8) [OF c(3) [OF that]] h(2) that by simp
  with c(2) have "soundRuntime clean rt' ?ys" by (simp add: soundRuntime_def)
  then show ?thesis by (rule that [OF c(1)])
qed

lemma noStaleRefs_runInv: "runInv rt xs \<Longrightarrow> noStaleRefs rd (rt_heap rt) roots"
  unfolding soundRuntime_def using noStaleRefs_clean by blast

lemma collect_runInv:
  assumes "runInv rt xs"
  obtains rt' stats where "collectManagedHeap rd roots rt = Some (Inr (rt', stats))"
    "runInv rt' (filter (heapReach rd (rt_heap rt) roots) xs)"
  by (rule collect_sound [OF assms noStaleRefs_runInv [OF assms]])

lemma allocateTracked_outcome:
  assumes "soundRuntime clean rt xs" "allocEnv clean (rt_heap rt) env" "kind = AObject \<Longrightarrow> e = 1"
  obtains p rt' where "bindE (allocateTrackedLocked env kind n e a d (rt_heap rt))
      (\<lambda>(payload, st). Inr (payload, rt\<lparr>rt_heap := st,
         rt_gc := (if payload \<noteq> 0 then recordManagedAllocation n (rt_gc rt) else rt_gc rt)\<rparr>)) = Inr (p, rt')"
    "allocationOutcome clean rt xs env kind n e a d p rt'"
proof -
  have inv: "soundHeap clean (rt_heap rt) xs" using assms(1) by (simp add: soundRuntime_def)
  have "(\<exists>q st'. allocateTrackedLocked env kind n e a d (rt_heap rt) = Inr (q, st') \<and>
      allocationDone clean (rt_heap rt) xs kind n e (effectiveAlignment a) d q st') \<or>
    (\<exists>st'. allocateTrackedLocked env kind n e a d (rt_heap rt) = Inr (0, st') \<and>
      allocationFailed clean (rt_heap rt) xs st' \<and> allocationRefused env n a)"
    by (rule allocateTracked_cases [OF inv assms(2)]) (rule assms(3))
  then show ?thesis
  proof (elim disjE exE conjE)
    fix q st' assume q: "allocateTrackedLocked env kind n e a d (rt_heap rt) = Inr (q, st')"
      "allocationDone clean (rt_heap rt) xs kind n e (effectiveAlignment a) d q st'"
    then have "q \<noteq> 0" by (simp add: allocationDone_def)
    with q runInv_allocated [OF assms(1) q(2), of "recordManagedAllocation n (rt_gc rt)"] show ?thesis
      by (intro that [of q "rt\<lparr>rt_heap := st', rt_gc := recordManagedAllocation n (rt_gc rt)\<rparr>"])
         (simp_all add: allocationOutcome_def)
  next
    fix st' assume q: "allocateTrackedLocked env kind n e a d (rt_heap rt) = Inr (0, st')"
      "allocationFailed clean (rt_heap rt) xs st'" "allocationRefused env n a"
    then show ?thesis using runInv_failed [OF assms(1) q(2), of "rt_gc rt"]
      by (intro that [of 0 "rt\<lparr>rt_heap := st', rt_gc := rt_gc rt\<rparr>"])
         (simp_all add: allocationOutcome_def allocationFailed_def)
  qed
qed

section \<open>The entry points\<close>

definition descriptorOk :: "memory \<Rightarrow> addr \<Rightarrow> bool" where
  "descriptorOk rd td \<longleftrightarrow> td \<noteq> 0 \<and> td_abiVersion (rd_descriptor rd td) = 1 \<and> td_instanceSize (rd_descriptor rd td) \<noteq> 0"

lemma mvm_malloc_typed_accepts:
  assumes "soundRuntime clean rt xs" "allocEnv clean (rt_heap rt) env" "descriptorOk rd td"
  obtains p rt' where "mvm_malloc_typed rd env td rt = Inr (p, rt')"
    "allocationOutcome clean rt xs env AObject (td_instanceSize (rd_descriptor rd td)) 1
       (td_instanceAlignment (rd_descriptor rd td)) td p rt'"
proof -
  let ?d = "rd_descriptor rd td"
  have "mvm_malloc_typed rd env td rt =
      bindE (allocateTrackedLocked env AObject (td_instanceSize ?d) 1 (td_instanceAlignment ?d) td (rt_heap rt))
      (\<lambda>(payload, st). Inr (payload, rt\<lparr>rt_heap := st,
         rt_gc := (if payload \<noteq> 0 then recordManagedAllocation (td_instanceSize ?d) (rt_gc rt) else rt_gc rt)\<rparr>))"
    using assms(3) by (simp add: mvm_malloc_typed_def descriptorOk_def Let_def)
  note run = this
  show ?thesis
    by (rule allocateTracked_outcome [OF assms(1,2) refl, of AObject "td_instanceSize ?d" "td_instanceAlignment ?d" td])
       (rule that, simp_all add: run)
qed

lemma mvm_array_malloc_typed_accepts:
  assumes "soundRuntime clean rt xs" "allocEnv clean (rt_heap rt) env" "descriptorOk rd td"
    and "unat (td_instanceSize (rd_descriptor rd td)) * unat n < 18446744073709551616"
  obtains p rt' where "mvm_array_malloc_typed rd env n td rt = Inr (p, rt')"
    "allocationOutcome clean rt xs env AArray (td_instanceSize (rd_descriptor rd td) * n) n
       (td_instanceAlignment (rd_descriptor rd td)) td p rt'"
proof -
  let ?d = "rd_descriptor rd td"
  have "checkedMul (td_instanceSize ?d) n = Some (td_instanceSize ?d * n)"
    using assms(4) unat_mult_u64 by (simp add: checkedMul_Some)
  then have "mvm_array_malloc_typed rd env n td rt =
      bindE (allocateTrackedLocked env AArray (td_instanceSize ?d * n) n (td_instanceAlignment ?d) td (rt_heap rt))
      (\<lambda>(payload, st). Inr (payload, rt\<lparr>rt_heap := st,
         rt_gc := (if payload \<noteq> 0 then recordManagedAllocation (td_instanceSize ?d * n) (rt_gc rt) else rt_gc rt)\<rparr>))"
    using assms(3) by (simp add: mvm_array_malloc_typed_def descriptorOk_def Let_def)
  note run = this
  show ?thesis
    by (rule allocateTracked_outcome [OF assms(1,2), where kind = AArray and e = n and
          n = "td_instanceSize ?d * n" and a = "td_instanceAlignment ?d" and d = td])
       (simp, rule that, simp_all add: run)
qed

lemma mvm_array_malloc_typed_overflow:
  assumes "descriptorOk rd td" "18446744073709551616 \<le> unat (td_instanceSize (rd_descriptor rd td)) * unat n"
  shows "mvm_array_malloc_typed rd env n td rt = Inr (0, rt)"
proof -
  have "checkedMul (td_instanceSize (rd_descriptor rd td)) n = None"
    using assms(2) checkedMul_Some [of "td_instanceSize (rd_descriptor rd td)" n]
    by (cases "checkedMul (td_instanceSize (rd_descriptor rd td)) n") auto
  with assms(1) show ?thesis by (simp add: mvm_array_malloc_typed_def descriptorOk_def Let_def)
qed

lemma mvm_malloc_typed_rejects:
  "\<not> descriptorOk rd td \<Longrightarrow> mvm_malloc_typed rd env td rt =
     Inl (if td = 0 \<or> td_abiVersion (rd_descriptor rd td) \<noteq> 1 then IncompatibleDescriptor ''__mvm_malloc_typed''
          else MissingAllocType ''__mvm_malloc_typed'')"
  by (auto simp: mvm_malloc_typed_def descriptorOk_def Let_def)

lemma mvm_array_malloc_typed_rejects:
  "\<not> descriptorOk rd td \<Longrightarrow> mvm_array_malloc_typed rd env n td rt =
     Inl (if td = 0 \<or> td_abiVersion (rd_descriptor rd td) \<noteq> 1 then IncompatibleDescriptor ''__mvm_array_malloc_typed''
          else MissingAllocType ''__mvm_array_malloc_typed'')"
  by (auto simp: mvm_array_malloc_typed_def descriptorOk_def Let_def)

lemma mvm_array_length_active:
  assumes "soundRuntime clean rt xs" "h \<in> set xs"
  shows "mvm_array_length (payloadAddress h) rt =
    (if ah_kind (hdrs (rt_heap rt) h) = AArray then Inr (ah_elementCount (hdrs (rt_heap rt) h))
     else Inl (KindMismatch ''__mvm_array_length'' AArray))"
proof -
  have inv: "soundHeap clean (rt_heap rt) xs" using assms(1) by (simp add: soundRuntime_def)
  have "payloadAddress h \<noteq> 0"
    using unat_payloadAddress [OF inv assms(2)] by auto
  then show ?thesis
    using heapInv_header(1,2) [OF inv assms(2)]
    by (simp add: mvm_array_length_def checkedHeader_def Let_def payloadAddress_def)
qed

section \<open>The runtime as a transition system\<close>

text \<open>One call of the runtime by managed code or by the VM thread.  Of \<open>malloc\<close> only its contract is assumed; the memory that
  the collector reads and the roots are whatever they are at that moment, as long as the pointers a collection follows do not
  lead to unused slots.\<close>

inductive runtimeStep :: "runtime \<Rightarrow> runtime \<Rightarrow> bool" where
  step_malloc: "allocEnv False (rt_heap rt) env \<Longrightarrow> mvm_malloc_typed rd env td rt = Inr (p, rt') \<Longrightarrow> runtimeStep rt rt'"
| step_array: "allocEnv False (rt_heap rt) env \<Longrightarrow> mvm_array_malloc_typed rd env n td rt = Inr (p, rt') \<Longrightarrow> runtimeStep rt rt'"
| step_collect: "noStaleRefs rd (rt_heap rt) roots \<Longrightarrow> collectManagedHeap rd roots rt = Some (Inr (rt', stats)) \<Longrightarrow> runtimeStep rt rt'"
| step_clear: "runtimeStep rt (clearLastGCCollectionStats rt)"

inductive_cases runtimeStepE: "runtimeStep rt rt'"

definition runtimeReach :: "runtime \<Rightarrow> runtime \<Rightarrow> bool" where
  "runtimeReach = runtimeStep\<^sup>*\<^sup>*"

text \<open>The runtime at the start of the process; the store and the C library's blocks are arbitrary.\<close>

definition initialHeap :: "(addr \<Rightarrow> AllocationHeader) \<Rightarrow> (addr \<Rightarrow> SlabClass) \<Rightarrow> (addr \<Rightarrow> SlabPage) \<Rightarrow> (addr \<rightharpoonup> u64) \<Rightarrow> heap" where
  "initialHeap hs cs ps blocks = \<lparr>hdrs = hs, classes = cs, pages = ps, activeAllocationHead = 0,
     slabClassByKey = Map.empty, slabClassStorage = [], slabPageStorage = [],
     slabPagesByAddressPage = Map.empty, systemHeadersByPage = Map.empty, mallocBlocks = blocks,
     denseMapEmptyKey = 18446744073709551615, denseMapTombstoneKey = 18446744073709551614\<rparr>"

definition initialRuntime :: "heap \<Rightarrow> runtime" where
  "initialRuntime st = \<lparr>rt_heap = st, rt_gc = initial_gc_state, rt_collectionCount = 0,
     rt_lastCollectionStats = emptyCollectionStats\<rparr>"

lemma initialHeap_inv:
  assumes "invBlocks (initialHeap hs cs ps blocks)"
  shows "soundHeap clean (initialHeap hs cs ps blocks) []"
  using assms
  by (simp add: soundHeap_def activeChain_def dll_def initialHeap_def invKeys_def invClasses_def invPages_def
      invSystem_def invHeaders_def invSlots_def invNonFull_def invSlabTable_def invSysTable_def bucketAt_def invClean_def)

lemma runtimeStep_inv:
  assumes "runtimeStep rt rt'" "soundRuntime False rt xs"
  shows "\<exists>xs'. soundRuntime False rt' xs'"
  using assms(1)
proof cases
  case (step_malloc env rd td p)
  have ok: "descriptorOk rd td"
    using step_malloc(2) mvm_malloc_typed_rejects [of rd td env rt] by (cases "descriptorOk rd td") auto
  obtain q rt1 where r: "mvm_malloc_typed rd env td rt = Inr (q, rt1)"
    "allocationOutcome False rt xs env AObject (td_instanceSize (rd_descriptor rd td)) 1
       (td_instanceAlignment (rd_descriptor rd td)) td q rt1"
    by (rule mvm_malloc_typed_accepts [OF assms(2) step_malloc(1) ok])
  then have "rt' = rt1" using step_malloc(2) by simp
  with allocationOutcome_inv [OF r(2)] show ?thesis by simp
next
  case (step_array env rd n td p)
  have ok: "descriptorOk rd td"
    using step_array(2) mvm_array_malloc_typed_rejects [of rd td env n rt] by (cases "descriptorOk rd td") auto
  show ?thesis
  proof (cases "unat (td_instanceSize (rd_descriptor rd td)) * unat n < 18446744073709551616")
    case True
    obtain q rt1 where r: "mvm_array_malloc_typed rd env n td rt = Inr (q, rt1)"
      "allocationOutcome False rt xs env AArray (td_instanceSize (rd_descriptor rd td) * n) n
         (td_instanceAlignment (rd_descriptor rd td)) td q rt1"
      by (rule mvm_array_malloc_typed_accepts [OF assms(2) step_array(1) ok True])
    then have "rt' = rt1" using step_array(2) by simp
    with allocationOutcome_inv [OF r(2)] show ?thesis by simp
  next
    case False
    then have "rt' = rt" using mvm_array_malloc_typed_overflow [OF ok, of n env rt] step_array(2) by simp
    with assms(2) show ?thesis by blast
  qed
next
  case (step_collect rd roots stats)
  obtain rt1 stats1 where c: "collectManagedHeap rd roots rt = Some (Inr (rt1, stats1))"
    "soundRuntime False rt1 (filter (heapReach rd (rt_heap rt) roots) xs)"
    by (rule collect_sound [OF assms(2) step_collect(1)])
  then have "rt' = rt1" using step_collect by simp
  with c(2) show ?thesis by blast
next
  case step_clear
  with assms(2) show ?thesis by (auto simp: soundRuntime_def clearLastGCCollectionStats_def)
qed

lemma runtimeReach_inv:
  assumes "runtimeReach rt rt'" "soundRuntime False rt xs"
  shows "\<exists>xs'. soundRuntime False rt' xs'"
proof -
  from assms(1) have "runtimeStep\<^sup>*\<^sup>* rt rt'" by (simp add: runtimeReach_def)
  then show ?thesis
  proof (induction rule: rtranclp_induct)
    case base
    show ?case using assms(2) by blast
  next
    case (step rt1 rt2)
    from step.IH runtimeStep_inv [OF step.hyps(2)] show ?case by blast
  qed
qed

end
