(* ===== verification/Heap_Examples.thy ===== *)
theory Heap_Examples
  imports Runtime_Heap
begin

text \<open>
  Concrete runtimes for the witnesses: the empty runtime, the runtime after one object allocation
  (through the slab allocator) and after a further array allocation (through \<open>malloc\<close>).
\<close>

definition deadHeader :: AllocationHeader where
  "deadHeader = \<lparr>ah_magic = 0, ah_kind = AObject, ah_storageKind = SSystem, ah_elementCount = 0, ah_payloadSize = 0,
     ah_typeDescriptor = 0, ah_storageOwner = 0, ah_prev = 0, ah_next = 0, ah_marked = False, ah_live = False\<rparr>"

definition blankClass :: SlabClass where
  "blankClass = \<lparr>sc_payloadSize = 0, sc_alignment = 0, sc_headerOffset = 0, sc_slotStride = 0, sc_slotsPerPage = 0,
     sc_nonFullPages = 0\<rparr>"

definition blankPage :: SlabPage where
  "blankPage = \<lparr>sp_slabClass = 0, sp_allocationBase = 0, sp_pageStart = 0, sp_nextUnusedSlot = 0, sp_liveCount = 0,
     sp_freeList = 0, sp_prevNonFull = 0, sp_nextNonFull = 0\<rparr>"

definition emptyHeap :: heap where
  "emptyHeap = initialHeap (\<lambda>_. deadHeader) (\<lambda>_. blankClass) (\<lambda>_. blankPage) Map.empty"

definition emptyRuntime :: runtime where
  "emptyRuntime = initialRuntime emptyHeap"

definition blockAt :: "addr \<Rightarrow> alloc_env" where
  "blockAt a = \<lparr>env_malloc = (\<lambda>n. if n \<le> 1048576 then a else 0), env_newClass = 256, env_newPage = 512\<rparr>"

definition plainMemory :: memory where
  "plainMemory = \<lparr>rd_word = (\<lambda>_. 0), rd_descriptor = (\<lambda>_. \<lparr>td_abiVersion = 1, td_instanceSize = 24,
     td_instanceAlignment = 8, td_referenceSlotCount = 0, td_referenceSlotOffsets = 0\<rparr>)\<rparr>"

lemma emptyHeap_inv: "heapInv emptyHeap []"
  unfolding emptyHeap_def by (rule initialHeap_inv) (simp add: invBlocks_def initialHeap_def)

lemma emptyRuntime_inv: "runInv emptyRuntime []"
  by (simp add: soundRuntime_def emptyRuntime_def initialRuntime_def emptyHeap_inv)

lemma emptyHeap_env: "slabEnv emptyHeap (blockAt 1048576)"
proof -
  have "mallocFresh emptyHeap 1048576 n" if "n \<le> (1048576 :: u64)" for n
  proof -
    have "unat n \<le> 1048576" using that by (simp add: word_le_nat_alt)
    then show ?thesis by (simp add: mallocFresh_def emptyHeap_def initialHeap_def)
  qed
  then show ?thesis
    by (auto simp: allocEnv_def pageEnv_def mallocContract_def blockAt_def emptyHeap_def initialHeap_def
        looksLive_def deadHeader_def split: if_splits)
qed

lemma emptyRuntime_env: "slabEnv (rt_heap emptyRuntime) (blockAt 1048576)"
  by (simp add: emptyRuntime_def initialRuntime_def emptyHeap_env)

definition objectAllocation :: "runtime_abort + addr \<times> runtime" where
  "objectAllocation = mvm_malloc_typed plainMemory (blockAt 1048576) 64 emptyRuntime"

definition objectRuntime :: runtime where
  "objectRuntime = (case objectAllocation of Inr (_, rt) \<Rightarrow> rt | Inl _ \<Rightarrow> emptyRuntime)"

lemma objectAllocation_address: "case objectAllocation of Inr (p, _) \<Rightarrow> p = 1048656 | Inl _ \<Rightarrow> False"
  by code_simp

lemma plainMemory_descriptor: "descriptorOk plainMemory 64"
  by (simp add: descriptorOk_def plainMemory_def)

lemma objectAllocation_outcome:
  "objectAllocation = Inr (1048656, objectRuntime)"
  "allocationOutcome True emptyRuntime [] (blockAt 1048576) AObject 24 1 8 64 1048656 objectRuntime"
proof -
  obtain p rt' where r: "objectAllocation = Inr (p, rt')"
    "allocationOutcome True emptyRuntime [] (blockAt 1048576) AObject (td_instanceSize (rd_descriptor plainMemory 64)) 1
       (td_instanceAlignment (rd_descriptor plainMemory 64)) 64 p rt'"
    unfolding objectAllocation_def
    by (rule mvm_malloc_typed_accepts [OF emptyRuntime_inv emptyRuntime_env plainMemory_descriptor])
  have p: "p = 1048656" using objectAllocation_address by (simp add: r(1))
  moreover have "rt' = objectRuntime" by (simp add: objectRuntime_def r(1))
  ultimately show "objectAllocation = Inr (1048656, objectRuntime)"
    "allocationOutcome True emptyRuntime [] (blockAt 1048576) AObject 24 1 8 64 1048656 objectRuntime"
    using r by (simp_all add: plainMemory_def)
qed

lemma objectRuntime_inv: "runInv objectRuntime [1048576]"
  using objectAllocation_outcome(2) by (simp add: allocationOutcome_def)

lemma objectHeap_inv: "heapInv (rt_heap objectRuntime) [1048576]"
  using objectRuntime_inv by (simp add: soundRuntime_def)

lemma objectHeap_header:
  "ah_kind (hdrs (rt_heap objectRuntime) 1048576) = AObject"
  "ah_payloadSize (hdrs (rt_heap objectRuntime) 1048576) = 24"
  "ah_typeDescriptor (hdrs (rt_heap objectRuntime) 1048576) = 64"
proof -
  have "max (24 :: u64) 1 = 24" by (simp add: max_def word_le_nat_alt)
  with objectAllocation_outcome(2) show
    "ah_kind (hdrs (rt_heap objectRuntime) 1048576) = AObject"
    "ah_payloadSize (hdrs (rt_heap objectRuntime) 1048576) = 24"
    "ah_typeDescriptor (hdrs (rt_heap objectRuntime) 1048576) = 64"
    by (simp_all add: allocationOutcome_def allocationDone_def Let_def)
qed

text \<open>A second object, in the next slot of the page, with no memory left to allocate.\<close>

definition noMemory :: alloc_env where
  "noMemory = \<lparr>env_malloc = (\<lambda>_. 0), env_newClass = 257, env_newPage = 513\<rparr>"

definition secondAllocation :: "runtime_abort + addr \<times> runtime" where
  "secondAllocation = mvm_malloc_typed plainMemory noMemory 64 objectRuntime"

definition twoRuntime :: runtime where
  "twoRuntime = (case secondAllocation of Inr (_, rt) \<Rightarrow> rt | Inl _ \<Rightarrow> emptyRuntime)"

lemma objectHeap_facts:
  "slabClassByKey (rt_heap objectRuntime) (slabClassKey 24 8) = Some 256"
  "sc_nonFullPages (classes (rt_heap objectRuntime) 256) = 512"
  "fst (takeSlot 512 (rt_heap objectRuntime)) = 1048680"
  by code_simp+

lemma secondAllocation_address: "case secondAllocation of Inr (p, _) \<Rightarrow> p = 1048760 | Inl _ \<Rightarrow> False"
proof -
  have "allocateSlabTrackedLocked noMemory 24 8 64 (rt_heap objectRuntime) =
      Inr (allocateFromPage 512 24 64 (rt_heap objectRuntime))"
    by (simp add: allocateSlabTrackedLocked_def getOrCreateSlabClass_def Let_def objectHeap_facts)
  moreover have "fst (allocateFromPage 512 24 64 (rt_heap objectRuntime)) = 1048760"
    by (simp add: allocateFromPage_run Let_def objectHeap_facts payloadAddress_def sizeofAllocationHeader_def)
  moreover have "shouldUseSlabAllocator AObject 24 8" "isPowerOfTwo 8" "\<not> (8 :: u64) < alignofAllocationHeader"
    by (simp_all add: shouldUseSlabAllocator_def kMaxSlabPayloadBytes_def kMaxSlabAlignment_def isPowerOfTwo_def
        alignofAllocationHeader_def)
  ultimately have "\<exists>st. allocateTrackedLocked noMemory AObject 24 1 8 64 (rt_heap objectRuntime) = Inr (1048760, st)"
    by (cases "allocateFromPage 512 24 64 (rt_heap objectRuntime)") (simp add: allocateTrackedLocked_def Let_def)
  then show ?thesis
    by (auto simp: secondAllocation_def mvm_malloc_typed_def plainMemory_def Let_def)
qed

lemma objectRuntime_storage:
  "slabClassStorage (rt_heap objectRuntime) = [256] \<and> slabPageStorage (rt_heap objectRuntime) = [512]"
  by code_simp

lemma objectRuntime_env: "slabEnv (rt_heap objectRuntime) noMemory"
  by (simp add: allocEnv_def pageEnv_def mallocContract_def noMemory_def objectRuntime_storage)

lemma secondAllocation_outcome:
  "secondAllocation = Inr (1048760, twoRuntime)"
  "allocationOutcome True objectRuntime [1048576] noMemory AObject 24 1 8 64 1048760 twoRuntime"
proof -
  obtain p rt' where r: "secondAllocation = Inr (p, rt')"
    "allocationOutcome True objectRuntime [1048576] noMemory AObject (td_instanceSize (rd_descriptor plainMemory 64)) 1
       (td_instanceAlignment (rd_descriptor plainMemory 64)) 64 p rt'"
    unfolding secondAllocation_def
    by (rule mvm_malloc_typed_accepts [OF objectRuntime_inv objectRuntime_env plainMemory_descriptor])
  have p: "p = 1048760" using secondAllocation_address by (simp add: r(1))
  moreover have "rt' = twoRuntime" by (simp add: twoRuntime_def r(1))
  ultimately show "secondAllocation = Inr (1048760, twoRuntime)"
    "allocationOutcome True objectRuntime [1048576] noMemory AObject 24 1 8 64 1048760 twoRuntime"
    using r by (simp_all add: plainMemory_def)
qed

lemma twoRuntime_inv: "runInv twoRuntime [1048680, 1048576]"
  using secondAllocation_outcome(2) by (simp add: allocationOutcome_def)

lemma twoHeap_inv: "heapInv (rt_heap twoRuntime) [1048680, 1048576]"
  using twoRuntime_inv by (simp add: soundRuntime_def)

end
