(* ===== verification/Core_Properties.thy ===== *)
theory Core_Properties
  imports Heap_Examples
begin

text \<open>
  The properties of the heap's building blocks: checked arithmetic, rounding, slab class layout,
  the list of active allocations, the mark phase and the collection trigger.
\<close>

section \<open>Machine arithmetic\<close>

text \<open>The checked operations fail exactly when the mathematical result does not fit in 64 bits,
  and otherwise return it.\<close>

theorem checked_arithmetic_is_exact:
  "checkedAdd a b = (if unat a + unat b < 18446744073709551616 then Some (a + b) else None) \<and>
   checkedMul a b = (if unat a * unat b < 18446744073709551616 then Some (a * b) else None)"
proof
  show "checkedAdd a b = (if unat a + unat b < 18446744073709551616 then Some (a + b) else None)"
    using checkedAdd_Some [of a b "a + b"] checkedAdd_None [of a b] unat_plus_u64 [of a b] by auto
  show "checkedMul a b = (if unat a * unat b < 18446744073709551616 then Some (a * b) else None)"
    using checkedMul_Some [of a b] unat_mult_u64 [of a b]
    by (cases "checkedMul a b") (auto simp: u64_eq_iff)
qed

text \<open>\<open>alignUp\<close> of a power of two returns the smallest multiple of it that is not below the
  value, as long as the padding does not overflow.\<close>

theorem alignUp_is_least_multiple:
  assumes "isPowerOfTwo a" "unat v + (unat a - 1) < 18446744073709551616"
  shows "unat a dvd unat (alignUp v a) \<and> unat v \<le> unat (alignUp v a) \<and>
    (\<forall>m. unat a dvd m \<longrightarrow> unat v \<le> m \<longrightarrow> unat (alignUp v a) \<le> m)"
  using alignUp_bounds(1,2) [OF assms] alignUp_least [OF assms] by blast

theorem alignUp_is_least_multiple_witness: "unat (16 :: u64) dvd unat (alignUp 4097 16) \<and> 4097 \<le> unat (alignUp 4097 16)"
  using alignUp_is_least_multiple [of 16 4097] by (simp add: isPowerOfTwo_def)

text \<open>For every request the slab allocator accepts there is a class layout: the payload of each
  slot is aligned, header and payload fit in the slot's stride, all slots fit in the page, and there
  are at least two of them.\<close>

theorem slab_class_layout_fits:
  assumes "isPowerOfTwo a" "8 \<le> unat a" "shouldUseSlabAllocator AObject n a"
  shows "\<exists>c. slabClassLayout n a = Some c \<and> sc_payloadSize c = n \<and> sc_alignment c = a \<and>
    unat a dvd unat (sc_headerOffset c) + 80 \<and> unat a dvd unat (sc_slotStride c) \<and>
    unat (sc_headerOffset c) + 80 + max (unat n) 1 \<le> unat (sc_slotStride c) \<and>
    unat (sc_slotStride c) * unat (sc_slotsPerPage c) \<le> 65536 \<and> 1 < unat (sc_slotsPerPage c)"
proof -
  have "unat a \<le> 64" "unat n \<le> 512"
    using assms(3) by (simp_all add: shouldUseSlabAllocator_def kMaxSlabPayloadBytes_def kMaxSlabAlignment_def word_le_nat_alt)
  then obtain c where "slabClassLayout n a = Some c" "classGeom c" "sc_payloadSize c = n" "sc_alignment c = a"
    using slabClassLayout_geom [OF assms(1,2)] by metis
  then show ?thesis by (auto simp: classGeom_def)
qed

theorem slab_class_layout_fits_witness: "\<exists>c. slabClassLayout 24 16 = Some c \<and> 1 < unat (sc_slotsPerPage c)"
proof -
  have "shouldUseSlabAllocator AObject 24 16"
    by (simp add: shouldUseSlabAllocator_def kMaxSlabPayloadBytes_def kMaxSlabAlignment_def)
  from slab_class_layout_fits [OF _ _ this] show ?thesis by (auto simp: isPowerOfTwo_def)
qed

section \<open>The list of active allocations\<close>

text \<open>Unlinking any set of headers from the list of active allocations, in any order, leaves a
  well-formed doubly linked list of the others in their order, and relinking a header puts it in
  front.\<close>

theorem active_list_unlinks_any_order:
  assumes "activeChain st xs" "distinct ys" "set ys \<subseteq> set xs" "h \<in> set ys"
  shows "activeChain (linkActiveAllocation h (fold unlinkActiveAllocation ys st))
    (h # filter (\<lambda>x. x \<notin> set ys) xs)"
proof (rule active.chain_link)
  show "activeChain (fold unlinkActiveAllocation ys st) (filter (\<lambda>x. x \<notin> set ys) xs)"
    by (rule active.chain_unlink_all [OF assms(1-3)])
  show "h \<noteq> 0" using active.chain_nonnull [OF assms(1)] assms(3,4) by auto
qed (use assms(4) in auto)

theorem active_list_unlinks_any_order_witness:
  "activeChain (linkActiveAllocation 1048680 (fold unlinkActiveAllocation [1048576, 1048680] (rt_heap twoRuntime))) [1048680]"
proof -
  have "activeChain (rt_heap twoRuntime) [1048680, 1048576]" using twoHeap_inv by (simp add: soundHeap_def)
  from active_list_unlinks_any_order [OF this, of "[1048576, 1048680]" 1048680] show ?thesis by simp
qed

section \<open>Marking\<close>

text \<open>The mark phase terminates and, when no allocation that can be found was marked before,
  marks exactly those that can be reached from the roots through the words the scans visit.\<close>

theorem mark_phase_is_exact:
  assumes "\<And>a h. findOwningAllocation st a = Some h \<Longrightarrow> \<not> ah_marked (hdrs st h)"
    and "findOwningAllocation st b = Some h"
  shows "ah_marked (hdrs (markLoop rd (fold rootStep roots (st, []))) h) \<longleftrightarrow> heapReach rd st roots h"
  unfolding markPhase_def [symmetric] by (rule markPhase_marked) (use assms in \<open>auto simp: heapReach_def dest: reach_owned\<close>)

theorem mark_phase_is_exact_witness:
  "ah_marked (hdrs (markLoop plainMemory (fold rootStep [1048656] (rt_heap objectRuntime, []))) 1048576) \<longleftrightarrow>
    heapReach plainMemory (rt_heap objectRuntime) [1048656] 1048576"
proof (rule mark_phase_is_exact)
  show "findOwningAllocation (rt_heap objectRuntime) 1048656 = Some 1048576"
    using findOwning_payload_start [OF objectHeap_inv, of 1048576] by (simp add: payloadAddress_def sizeofAllocationHeader_def)
  show "\<not> ah_marked (hdrs (rt_heap objectRuntime) h)" if "findOwningAllocation (rt_heap objectRuntime) a = Some h" for a h
    using findOwning_iff [OF objectHeap_inv] that objectRuntime_inv by (auto simp: soundRuntime_def)
qed

section \<open>The collection trigger\<close>

text \<open>A run of allocations that brings the tracked bytes to the heap limit requests a
  collection, however the bytes are split over the allocations, and never changes the limit.\<close>

theorem allocations_request_collection:
  assumes "gcTrackedHeapBytes g < gcHeapLimitBytes g"
    and "unat (gcTrackedHeapBytes g) + sum_list (map unat ns) < 18446744073709551616"
    and "unat (gcHeapLimitBytes g) \<le> unat (gcTrackedHeapBytes g) + sum_list (map unat ns)"
  shows "isGCRequested (fold recordManagedAllocation ns g) \<and>
    gcHeapLimitBytes (fold recordManagedAllocation ns g) = gcHeapLimitBytes g"
  using fold_recordManagedAllocation_requests [OF assms] by (simp add: isGCRequested_def)

theorem allocations_request_collection_witness:
  "isGCRequested (fold recordManagedAllocation [4194304, 4194304] initial_gc_state)"
  using allocations_request_collection [of initial_gc_state "[4194304, 4194304]"]
  by (simp add: initial_gc_state_def kDefaultManagedHeapLimitBytes_def)

text \<open>However often a collection is requested before the flag is cleared, the VM thread is
  notified once.\<close>

theorem repeated_requests_notify_once:
  assumes "\<not> isGCRequested g"
  shows "gcNotifications ((requestGC ^^ Suc k) g) = Suc (gcNotifications g) \<and> isGCRequested ((requestGC ^^ Suc k) g)"
  using requestGC_notifies_once [of g k] assms by (simp add: isGCRequested_def)

theorem repeated_requests_notify_once_witness:
  "gcNotifications ((requestGC ^^ Suc 5) initial_gc_state) = 1"
  using repeated_requests_notify_once [of initial_gc_state 5]
  by (simp add: isGCRequested_def initial_gc_state_def del: funpow.simps)

end
