(* ===== verification/Heap_Properties.thy ===== *)
theory Heap_Properties
  imports Heap_Examples
begin

text \<open>
  The properties of the managed heap and of its collector, each followed by a witness on a
  concrete runtime.
\<close>

section \<open>Collections\<close>

text \<open>C1. A collection returns, never aborts, and leaves exactly the allocations that can be reached
  from the roots, in the order they had and with their headers as they were; the heap invariant
  holds again and no mark is left behind.\<close>

theorem collection_keeps_reachable:
  assumes "runInv rt xs"
  shows "\<exists>rt' stats. collectManagedHeap rd roots rt = Some (Inr (rt', stats)) \<and>
    runInv rt' (filter (heapReach rd (rt_heap rt) roots) xs) \<and>
    (\<forall>h \<in> set xs. heapReach rd (rt_heap rt) roots h \<longrightarrow>
       hdrCore (hdrs (rt_heap rt') h) = hdrCore (hdrs (rt_heap rt) h))"
proof -
  have h: "heapInv (rt_heap rt) xs" "\<forall>h \<in> set xs. \<not> ah_marked (hdrs (rt_heap rt) h)"
    using assms by (simp_all add: soundRuntime_def)
  let ?ys = "filter (heapReach rd (rt_heap rt) roots) xs"
  obtain rt' stats where c: "collectManagedHeap rd roots rt = Some (Inr (rt', stats))" "heapInv (rt_heap rt') ?ys"
    "\<And>h. h \<in> set ?ys \<Longrightarrow> hdrCore (hdrs (rt_heap rt') h) = hdrCore (hdrs (rt_heap rt) h)"
    by (rule collect_sweeps [OF h noStaleRefs_clean [OF h(1)], of rd roots]) blast
  have "\<not> ah_marked (hdrs (rt_heap rt') h)" if "h \<in> set ?ys" for h
    using hdrCore_fields(8) [OF c(3) [OF that]] h(2) that by simp
  with c show ?thesis by (auto simp: soundRuntime_def)
qed

lemma reach_no_roots: "\<not> heapReach rd st [] h"
proof
  assume "heapReach rd st [] h"
  then show False unfolding heapReach_def by (induction rule: reach.induct) simp_all
qed

theorem collection_keeps_reachable_witness:
  "\<exists>rt' stats. collectManagedHeap plainMemory [] objectRuntime = Some (Inr (rt', stats)) \<and> runInv rt' []"
  using collection_keeps_reachable [OF objectRuntime_inv, of plainMemory "[]"] by (auto simp: reach_no_roots)

text \<open>The statistics of a collection are the ones a count over the heap before and after gives:
  the allocations and bytes before, the survivors, the swept allocations and their bytes; the
  allocation counter that triggers the next collection is reset to the surviving bytes and the
  collection number is one more than before.\<close>

theorem collection_statistics:
  assumes "runInv rt xs"
  shows "\<exists>rt'. collectManagedHeap rd roots rt = Some (Inr (rt', getLastGCCollectionStats rt')) \<and>
    getLastGCCollectionStats rt' =
      collectionStats (rt_heap rt) xs roots (heapReach rd (rt_heap rt) roots) (rt_collectionCount rt + 1) \<and>
    gcTrackedHeapBytes (rt_gc rt') = payloadBytes (rt_heap rt) (filter (heapReach rd (rt_heap rt) roots) xs) \<and>
    rt_collectionCount rt' = rt_collectionCount rt + 1"
proof -
  have h: "heapInv (rt_heap rt) xs" "\<forall>h \<in> set xs. \<not> ah_marked (hdrs (rt_heap rt) h)"
    using assms by (simp_all add: soundRuntime_def)
  obtain rt' stats where c: "collectManagedHeap rd roots rt = Some (Inr (rt', stats))"
    "stats = collectionStats (rt_heap rt) xs roots (heapReach rd (rt_heap rt) roots) (rt_collectionCount rt + 1)"
    "rt_gc rt' = updateManagedHeapUsage (gs_heapBytesAfter stats) (rt_gc rt)"
    "rt_collectionCount rt' = rt_collectionCount rt + 1" "rt_lastCollectionStats rt' = stats"
    by (rule collect_sweeps [OF h noStaleRefs_clean [OF h(1)], of rd roots]) blast
  then show ?thesis
    by (auto simp: getLastGCCollectionStats_def updateManagedHeapUsage_def collectionStats_def)
qed

theorem collection_statistics_witness:
  "\<exists>rt'. collectManagedHeap plainMemory [] objectRuntime = Some (Inr (rt', getLastGCCollectionStats rt')) \<and>
    gs_sweptObjectCount (getLastGCCollectionStats rt') = 1 \<and> gs_sweptBytes (getLastGCCollectionStats rt') = 24 \<and>
    gcTrackedHeapBytes (rt_gc rt') = 0"
  using collection_statistics [OF objectRuntime_inv, of plainMemory "[]"]
  by (auto simp: reach_no_roots collectionStats_def objectHeap_header)

section \<open>Allocation\<close>

text \<open>C3. An object allocation with a valid descriptor never aborts.  It returns null only when it is refused: the alignment is
  no power of two, the request does not fit in 64 bits, or \<open>malloc\<close> has no memory for it; then neither the allocations nor the
  accounting change.  Otherwise it returns a new payload, aligned as the descriptor asks, whose header holds the size, the kind
  and the descriptor, leaves every other header as it was and adds the bytes to the trigger.  A descriptor that is null or of
  another ABI version, or one without a size, aborts.  Nothing is assumed of the contents of fresh memory (\<open>clean\<close> may be false).\<close>

theorem malloc_typed_correct:
  assumes "soundRuntime clean rt xs" "allocEnv clean (rt_heap rt) env"
  shows "if descriptorOk rd td
    then \<exists>p rt'. mvm_malloc_typed rd env td rt = Inr (p, rt') \<and>
      allocationOutcome clean rt xs env AObject (td_instanceSize (rd_descriptor rd td)) 1
        (td_instanceAlignment (rd_descriptor rd td)) td p rt'
    else mvm_malloc_typed rd env td rt =
      Inl (if td = 0 \<or> td_abiVersion (rd_descriptor rd td) \<noteq> 1 then IncompatibleDescriptor ''__mvm_malloc_typed''
           else MissingAllocType ''__mvm_malloc_typed'')"
proof (cases "descriptorOk rd td")
  case True
  obtain p rt' where "mvm_malloc_typed rd env td rt = Inr (p, rt')"
    "allocationOutcome clean rt xs env AObject (td_instanceSize (rd_descriptor rd td)) 1
       (td_instanceAlignment (rd_descriptor rd td)) td p rt'"
    by (rule mvm_malloc_typed_accepts [OF assms True])
  then show ?thesis using True by auto
next
  case False
  then show ?thesis by (simp add: mvm_malloc_typed_rejects)
qed

theorem malloc_typed_correct_witness:
  "\<exists>p rt'. mvm_malloc_typed plainMemory (blockAt 1048576) 64 emptyRuntime = Inr (p, rt') \<and>
    allocationOutcome True emptyRuntime [] (blockAt 1048576) AObject 24 1 8 64 p rt'"
proof -
  have "td_instanceSize (rd_descriptor plainMemory 64) = 24" "td_instanceAlignment (rd_descriptor plainMemory 64) = 8"
    by (simp_all add: plainMemory_def)
  with malloc_typed_correct [OF emptyRuntime_inv emptyRuntime_env, of plainMemory 64] show ?thesis
    by (simp add: plainMemory_descriptor)
qed

text \<open>C4. An array allocation multiplies the element size by the element count without overflow.  When the product does not fit
  in 64 bits it returns null and changes nothing; otherwise it behaves as an allocation of that many bytes, which is null only
  when it is refused (as for an object), and whose header records the element count.\<close>

theorem array_malloc_typed_correct:
  assumes "soundRuntime clean rt xs" "allocEnv clean (rt_heap rt) env" "descriptorOk rd td"
  shows "if 18446744073709551616 \<le> unat (td_instanceSize (rd_descriptor rd td)) * unat n
    then mvm_array_malloc_typed rd env n td rt = Inr (0, rt)
    else \<exists>p rt'. mvm_array_malloc_typed rd env n td rt = Inr (p, rt') \<and>
      allocationOutcome clean rt xs env AArray (td_instanceSize (rd_descriptor rd td) * n) n
        (td_instanceAlignment (rd_descriptor rd td)) td p rt'"
proof (cases "18446744073709551616 \<le> unat (td_instanceSize (rd_descriptor rd td)) * unat n")
  case True
  then show ?thesis by (simp add: mvm_array_malloc_typed_overflow [OF assms(3)])
next
  case False
  then have "unat (td_instanceSize (rd_descriptor rd td)) * unat n < 18446744073709551616" by simp
  then obtain p rt' where "mvm_array_malloc_typed rd env n td rt = Inr (p, rt')"
    "allocationOutcome clean rt xs env AArray (td_instanceSize (rd_descriptor rd td) * n) n
       (td_instanceAlignment (rd_descriptor rd td)) td p rt'"
    by (rule mvm_array_malloc_typed_accepts [OF assms])
  then show ?thesis using False by auto
qed

theorem array_malloc_typed_correct_witness:
  "\<exists>p rt'. mvm_array_malloc_typed plainMemory (blockAt 1048576) 10 64 emptyRuntime = Inr (p, rt') \<and>
    allocationOutcome True emptyRuntime [] (blockAt 1048576) AArray 240 10 8 64 p rt'"
proof -
  have "td_instanceSize (rd_descriptor plainMemory 64) = 24" "td_instanceAlignment (rd_descriptor plainMemory 64) = 8"
    by (simp_all add: plainMemory_def)
  with array_malloc_typed_correct [OF emptyRuntime_inv emptyRuntime_env plainMemory_descriptor, of 10] show ?thesis
    by simp
qed

lemma initialRuntime_sound:
  "invBlocks (initialHeap hs cs ps blocks) \<Longrightarrow> soundRuntime clean (initialRuntime (initialHeap hs cs ps blocks)) []"
  by (simp add: soundRuntime_def initialRuntime_def initialHeap_inv)

lemma initialBlocks_empty: "invBlocks (initialHeap hs cs ps Map.empty)"
  by (simp add: invBlocks_def initialHeap_def)

text \<open>C5. Whatever allocations and collections the program runs, in any order and from any start with a sane C heap, the heap
  invariant holds between the calls, so that the guarantees above apply to every call.  Of \<open>malloc\<close> nothing but its contract is
  assumed; a collection of the sequence must not follow a pointer to the stale header of a slot that was never given out.\<close>

theorem every_reachable_runtime_is_sound:
  assumes "invBlocks (initialHeap hs cs ps blocks)" "runtimeReach (initialRuntime (initialHeap hs cs ps blocks)) rt"
  shows "\<exists>xs. soundRuntime False rt xs"
  by (rule runtimeReach_inv [OF assms(2) initialRuntime_sound [OF assms(1)]])

lemma allocEnv_weaken: "allocEnv clean st env \<Longrightarrow> allocEnv False st env"
  by (simp add: allocEnv_def pageEnv_def)

text \<open>A start whose memory holds stale headers everywhere.\<close>

definition staleHeader :: AllocationHeader where
  "staleHeader = deadHeader\<lparr>ah_magic := kAllocationMagic, ah_storageKind := SSlab, ah_payloadSize := 24, ah_live := True\<rparr>"

abbreviation staleStart :: runtime where
  "staleStart \<equiv> initialRuntime (initialHeap (\<lambda>_. staleHeader) (\<lambda>_. blankClass) (\<lambda>_. blankPage) Map.empty)"

lemma staleStart_reach:
  "\<exists>p rt. mvm_malloc_typed plainMemory (blockAt 1048576) 64 staleStart = Inr (p, rt) \<and> runtimeReach staleStart rt"
proof -
  have env: "allocEnv False (rt_heap staleStart) (blockAt 1048576)"
    using allocEnv_weaken [OF emptyHeap_env]
    by (simp add: allocEnv_def pageEnv_def mallocContract_def mallocFresh_def emptyHeap_def initialHeap_def initialRuntime_def)
  have inv: "soundRuntime False staleStart []" by (rule initialRuntime_sound [OF initialBlocks_empty])
  obtain p rt where "mvm_malloc_typed plainMemory (blockAt 1048576) 64 staleStart = Inr (p, rt)"
    by (rule mvm_malloc_typed_accepts [OF inv env plainMemory_descriptor])
  then show ?thesis using step_malloc [OF env] by (auto simp: runtimeReach_def)
qed

theorem every_reachable_runtime_is_sound_witness:
  "\<exists>p rt xs. mvm_malloc_typed plainMemory (blockAt 1048576) 64 staleStart = Inr (p, rt) \<and> soundRuntime False rt xs"
proof -
  obtain p rt where rt: "mvm_malloc_typed plainMemory (blockAt 1048576) 64 staleStart = Inr (p, rt)" "runtimeReach staleStart rt"
    using staleStart_reach by blast
  from every_reachable_runtime_is_sound [OF initialBlocks_empty rt(2)] rt(1) show ?thesis by blast
qed

section \<open>Where allocations lie\<close>

lemma twoRuntime_reach: "runtimeReach emptyRuntime twoRuntime"
proof -
  have "runtimeStep emptyRuntime objectRuntime"
    by (rule step_malloc [of _ "blockAt 1048576" plainMemory 64 1048656])
      (use objectAllocation_outcome(1) allocEnv_weaken [OF emptyRuntime_env] in \<open>simp_all add: objectAllocation_def\<close>)
  moreover have "runtimeStep objectRuntime twoRuntime"
    by (rule step_malloc [of _ noMemory plainMemory 64 1048760])
      (use secondAllocation_outcome(1) allocEnv_weaken [OF objectRuntime_env] in \<open>simp_all add: secondAllocation_def\<close>)
  ultimately show ?thesis by (simp add: runtimeReach_def)
qed

text \<open>C13. In every runtime that allocations and collections can reach, two allocations on the list of active ones, header and
  payload, do not overlap, and each lies inside one block obtained from \<open>std::malloc\<close>.\<close>

theorem allocations_are_separate:
  assumes "invBlocks (initialHeap hs cs ps blocks)" "runtimeReach (initialRuntime (initialHeap hs cs ps blocks)) rt"
    and "activeChain (rt_heap rt) xs" "h \<in> set xs" "h' \<in> set xs" "h \<noteq> h'"
  shows "(unat h + 80 + unat (ah_payloadSize (hdrs (rt_heap rt) h)) \<le> unat h' \<or>
      unat h' + 80 + unat (ah_payloadSize (hdrs (rt_heap rt) h')) \<le> unat h) \<and>
    (\<exists>b n. mallocBlocks (rt_heap rt) b = Some n \<and> unat b \<le> unat h \<and>
      unat h + 80 + unat (ah_payloadSize (hdrs (rt_heap rt) h)) \<le> unat b + unat n)"
proof -
  obtain ys where ys: "soundHeap False (rt_heap rt) ys"
    using runtimeReach_inv [OF assms(2) initialRuntime_sound [OF assms(1)]] unfolding soundRuntime_def by blast
  then have "ys = xs" using active.chain_unique [OF _ assms(3)] by (simp add: soundHeap_def)
  with ys have inv: "soundHeap False (rt_heap rt) xs" by simp
  show ?thesis using allocations_disjoint [OF inv assms(4-6)] home_block [OF inv assms(4)] by metis
qed

theorem allocations_are_separate_witness:
  "unat (1048576 :: addr) + 80 + unat (ah_payloadSize (hdrs (rt_heap twoRuntime) 1048576)) \<le> unat (1048680 :: addr)"
proof -
  have "activeChain (rt_heap twoRuntime) [1048680, 1048576]" using twoHeap_inv unfolding soundHeap_def by blast
  from allocations_are_separate [OF initialBlocks_empty twoRuntime_reach [unfolded emptyRuntime_def emptyHeap_def] this, of 1048576 1048680]
  show ?thesis by simp
qed

text \<open>C12. The answer of \<open>findOwningAllocation\<close>, whatever the memory of fresh pages holds: an allocation is found just when it
  is active and the address lies in its payload, interior pointers included, or when the address lies in a slot that was never
  given out, whose memory reads as a live header with a payload there.  So the lookup is exact for all addresses but those of
  stale headers, and those it takes for allocations.\<close>

theorem find_owner_exact:
  assumes "soundHeap clean st xs"
  shows "findOwningAllocation st a = Some h \<longleftrightarrow> (h \<in> set xs \<and> unat h + 80 \<le> unat a \<and>
    unat a < unat h + 80 + unat (ah_payloadSize (hdrs st h))) \<or> staleOwner st a h"
  using findOwning_exact [OF assms, of a h] inPayload_iff [OF assms, of h a] by auto

theorem find_owner_exact_witness:
  "findOwningAllocation (rt_heap objectRuntime) 1048660 = Some 1048576 \<and>
   findOwningAllocation (rt_heap objectRuntime) 1048680 \<noteq> Some 1048576"
  using find_owner_exact [OF objectHeap_inv, of 1048660 1048576] find_owner_exact [OF objectHeap_inv, of 1048680 1048576]
  by (simp add: objectHeap_header clean_no_stale [OF objectHeap_inv])

text \<open>The last case happens: a slot that was never given out is taken for an allocation when the bytes that \<open>malloc\<close> left
  there read as a live slab header, because \<open>findOwningSlabAllocation\<close> does not compare the slot with \<open>nextUnusedSlot\<close>.\<close>

lemma unused_slot_can_be_found:
  "(let st = updHdr 1048680 (\<lambda>_. staleHeader) (rt_heap objectRuntime) in
     sp_nextUnusedSlot (pages st 512) = 1 \<and> slabHeaderAt st 512 1 = 1048680 \<and>
     findOwningAllocation st 1048760 = Some 1048680)"
  by code_simp

section \<open>Reclaiming\<close>

text \<open>Reclaiming an active allocation never aborts (the live count of its page is not zero, its
  block is one that \<open>malloc\<close> returned), removes it and nothing else from the heap, and leaves the
  header of every other allocation alone.\<close>

theorem reclaim_removes_one:
  assumes "heapInv st xs" "h \<in> set xs"
  shows "\<exists>st'. reclaimAllocation h st = Inr st' \<and> heapInv st' (remove1 h xs) \<and>
    (\<forall>a. a \<noteq> h \<longrightarrow> hdrCore (hdrs st' a) = hdrCore (hdrs st a))"
  using reclaim_ok [OF assms] by metis

theorem reclaim_removes_one_witness:
  "\<exists>st'. reclaimAllocation 1048576 (rt_heap objectRuntime) = Inr st' \<and> heapInv st' []"
  using reclaim_removes_one [OF objectHeap_inv, of 1048576] by auto

text \<open>\<open>__mvm_array_length\<close> of an active array is the count it was allocated with; on an active
  object it aborts.\<close>

theorem array_length_correct:
  assumes "runInv rt xs" "h \<in> set xs"
  shows "mvm_array_length (payloadAddress h) rt =
    (if ah_kind (hdrs (rt_heap rt) h) = AArray then Inr (ah_elementCount (hdrs (rt_heap rt) h))
     else Inl (KindMismatch ''__mvm_array_length'' AArray))"
  by (rule mvm_array_length_active [OF assms])

theorem array_length_correct_witness:
  "mvm_array_length (payloadAddress 1048576) objectRuntime = Inl (KindMismatch ''__mvm_array_length'' AArray)"
  using array_length_correct [OF objectRuntime_inv, of 1048576] by (simp add: objectHeap_header)

end
