(* ===== verification/Root_Scan.thy ===== *)
theory Root_Scan
  imports Collector
begin

text \<open>
  Precise root scanning, \<open>src/src/mvm/gc.cc\<close>: decoding the locations of a stackmap record, reading
  a root from a frame, finding the safepoint record of a return address and walking the frames.

  \<open>llvm::StackMapParser\<close> reads the bytes of a stackmap section; what its accessors return is the
  record \<open>stackmap_location\<close> here.  The stack is memory, read eight bytes at a time (\<open>rd_word\<close>).
  The bounds of the two frame loops are the code's own constants.
\<close>

section \<open>Data\<close>

text \<open>The kind is read from a byte of the section; \<open>LOther\<close> is a byte that is no kind.\<close>

datatype LocationKind = LRegister | LDirect | LIndirect | LConstant | LConstantIndex | LOther "8 word"

record stackmap_location =
  loc_kind :: LocationKind
  loc_sizeInBytes :: "32 word"
  loc_dwarfRegNum :: "16 word"
  loc_offset :: "32 word"
  loc_smallConstant :: "32 word"
  loc_constantIndex :: "32 word"

datatype RootKind = KRegister | KDirect | KIndirect | KConstant

record GCRootLocation =
  rl_kind :: RootKind
  rl_dwarfRegister :: "16 word"
  rl_offset :: "32 word"
  rl_size :: "16 word"
  rl_constant :: u64

record GCRootLocationPair =
  rp_base :: GCRootLocation
  rp_derived :: GCRootLocation

record SafepointRecord =
  sr_id :: u64
  sr_functionAddress :: u64
  sr_functionEndAddress :: u64
  sr_instructionAddress :: u64
  sr_rootPairs :: "GCRootLocationPair list"

record GCRootScanSummary =
  rs_safepointAddress :: u64
  rs_rootPairCount :: u64
  rs_rootLocationCount :: u64
  rs_nonNullRootCount :: u64
  rs_mutatorCount :: u64
  rs_gcCycle :: u64
  rs_rootValues :: "addr list"

definition emptySummary :: GCRootScanSummary where
  "emptySummary = \<lparr>rs_safepointAddress = 0, rs_rootPairCount = 0, rs_rootLocationCount = 0,
     rs_nonNullRootCount = 0, rs_mutatorCount = 0, rs_gcCycle = 0, rs_rootValues = []\<rparr>"

text \<open>The messages of \<open>makeError\<close>, with the values they print.  \<open>ObjectFileError\<close> is an error that
  an accessor of the object file returned and \<open>InvalidStackMapHeader\<close> one of the stackmap parser;
  \<open>DereferencedSectionEnd\<close> is no message but the undefined behaviour described at its use.\<close>

datatype gc_error =
    ConstantIndexOutOfRange "32 word"
  | ExpectedConstantLocation
  | MissingPrefixLocations
  | PrefixNotConstant nat
  | UnpairedRootLocations
  | UnsupportedRegister "16 word"
  | NotPointerSized "16 word"
  | NoRecordForID u64
  | NoRecordForAddress u64 "(u64 \<times> u64) option"
  | NotAMutator
  | NoRegistry
  | NoRuntimeFrame
  | UnsupportedLocationKind "8 word"
  | ObjectFileError string
  | InvalidStackMapHeader
  | RelocationWithoutSymbol
  | RelocationSymbolWithoutSection
  | DereferencedSectionEnd
  | RelocationSectionUnknown "32 word"
  | TooFewRecords
  | UnconsumedRecords

definition kX86_64RBPDwarfRegister :: "16 word" where
  "kX86_64RBPDwarfRegister = 6"

definition kX86_64RSPDwarfRegister :: "16 word" where
  "kX86_64RSPDwarfRegister = 7"

section \<open>Decoding a record\<close>

definition readStackMapConstant :: "stackmap_location \<Rightarrow> u64 list \<Rightarrow> gc_error + u64" where
  "readStackMapConstant location constants =
     (case loc_kind location of
        LConstant \<Rightarrow> Inr (ucast (loc_smallConstant location))
      | LConstantIndex \<Rightarrow>
          (let index = loc_constantIndex location in
           if unat index \<ge> length constants then Inl (ConstantIndexOutOfRange index)
           else Inr (constants ! unat index))
      | _ \<Rightarrow> Inl ExpectedConstantLocation)"

definition parseRootLocation :: "stackmap_location \<Rightarrow> u64 list \<Rightarrow> gc_error + GCRootLocation" where
  "parseRootLocation location constants =
     (let parsed = \<lparr>rl_kind = KIndirect, rl_dwarfRegister = loc_dwarfRegNum location, rl_offset = 0,
            rl_size = ucast (loc_sizeInBytes location), rl_constant = 0\<rparr>
      in case loc_kind location of
           LRegister \<Rightarrow> Inr (parsed\<lparr>rl_kind := KRegister\<rparr>)
         | LDirect \<Rightarrow> Inr (parsed\<lparr>rl_kind := KDirect, rl_offset := loc_offset location\<rparr>)
         | LIndirect \<Rightarrow> Inr (parsed\<lparr>rl_kind := KIndirect, rl_offset := loc_offset location\<rparr>)
         | LOther b \<Rightarrow> Inl (UnsupportedLocationKind b)
         | _ \<Rightarrow> bindE (readStackMapConstant location constants) (\<lambda>c.
             Inr (parsed\<lparr>rl_kind := KConstant, rl_constant := c, rl_dwarfRegister := 0, rl_offset := 0\<rparr>)))"

definition kStatepointPrefixLocationCount :: nat where
  "kStatepointPrefixLocationCount = 3"

definition isConstantKind :: "LocationKind \<Rightarrow> bool" where
  "isConstantKind k \<longleftrightarrow> k = LConstant \<or> k = LConstantIndex"

fun checkPrefix :: "stackmap_location list \<Rightarrow> nat list \<Rightarrow> gc_error option" where
  "checkPrefix locations [] = None"
| "checkPrefix locations (index # rest) =
     (if \<not> isConstantKind (loc_kind (locations ! index)) then Some (PrefixNotConstant index)
      else checkPrefix locations rest)"

text \<open>The loop over base and derived locations; the list is what remains of the record.\<close>

fun parsePairs :: "stackmap_location list \<Rightarrow> u64 list \<Rightarrow> gc_error + GCRootLocationPair list" where
  "parsePairs (base # derived # rest) constants =
     bindE (parseRootLocation base constants) (\<lambda>b.
     bindE (parseRootLocation derived constants) (\<lambda>d.
     bindE (parsePairs rest constants) (\<lambda>pairs. Inr (\<lparr>rp_base = b, rp_derived = d\<rparr> # pairs))))"
| "parsePairs locations constants = Inr []"

definition parseRootPairs :: "stackmap_location list \<Rightarrow> u64 list \<Rightarrow> gc_error + GCRootLocationPair list" where
  "parseRootPairs locations constants =
     (if length locations < kStatepointPrefixLocationCount then Inl MissingPrefixLocations
      else case checkPrefix locations [0 ..< kStatepointPrefixLocationCount] of
             Some e \<Rightarrow> Inl e
           | None \<Rightarrow>
               let rootLocationCount = length locations - kStatepointPrefixLocationCount
               in if rootLocationCount mod 2 \<noteq> 0 then Inl UnpairedRootLocations
                  else parsePairs (drop kStatepointPrefixLocationCount locations) constants)"

section \<open>Reading a root\<close>

definition resolveTrackedRegisterValue :: "16 word \<Rightarrow> addr \<Rightarrow> addr \<Rightarrow> gc_error + addr" where
  "resolveTrackedRegisterValue dwarfRegister callerSP callerBP =
     (if dwarfRegister = kX86_64RSPDwarfRegister then Inr callerSP
      else if dwarfRegister = kX86_64RBPDwarfRegister then Inr callerBP
      else Inl (UnsupportedRegister dwarfRegister))"

definition resolveRootValue :: "memory \<Rightarrow> GCRootLocation \<Rightarrow> addr \<Rightarrow> addr \<Rightarrow> gc_error + addr" where
  "resolveRootValue rd location callerSP callerBP =
     (if rl_kind location \<noteq> KConstant \<and> rl_size location \<noteq> 8
      then Inl (NotPointerSized (rl_size location))
      else case rl_kind location of
          KConstant \<Rightarrow> Inr (rl_constant location)
        | KRegister \<Rightarrow> resolveTrackedRegisterValue (rl_dwarfRegister location) callerSP callerBP
        | KDirect \<Rightarrow>
            bindE (resolveTrackedRegisterValue (rl_dwarfRegister location) callerSP callerBP)
              (\<lambda>base. Inr (base + scast (rl_offset location)))
        | KIndirect \<Rightarrow>
            bindE (resolveTrackedRegisterValue (rl_dwarfRegister location) callerSP callerBP)
              (\<lambda>base. Inr (rd_word rd (base + scast (rl_offset location)))))"

definition recordRoot :: "addr \<Rightarrow> GCRootScanSummary \<Rightarrow> GCRootScanSummary" where
  "recordRoot value summary =
     (if value \<noteq> 0
      then summary\<lparr>rs_nonNullRootCount := rs_nonNullRootCount summary + 1,
                   rs_rootValues := rs_rootValues summary @ [value]\<rparr>
      else summary)"

fun scanPairs ::
  "memory \<Rightarrow> GCRootLocationPair list \<Rightarrow> addr \<Rightarrow> addr \<Rightarrow> GCRootScanSummary \<Rightarrow> gc_error + GCRootScanSummary" where
  "scanPairs rd [] frameSP frameBP summary = Inr summary"
| "scanPairs rd (pair # rest) frameSP frameBP summary =
     bindE (resolveRootValue rd (rp_base pair) frameSP frameBP) (\<lambda>base.
     let summary = recordRoot base summary in
     bindE (resolveRootValue rd (rp_derived pair) frameSP frameBP) (\<lambda>derived.
     scanPairs rd rest frameSP frameBP (recordRoot derived summary)))"

definition scanSingleManagedFrame ::
  "memory \<Rightarrow> SafepointRecord \<Rightarrow> addr \<Rightarrow> addr \<Rightarrow> GCRootScanSummary \<Rightarrow> gc_error + GCRootScanSummary" where
  "scanSingleManagedFrame rd rec frameSP frameBP summary =
     (let summary = (if rs_safepointAddress summary = 0
            then summary\<lparr>rs_safepointAddress := sr_instructionAddress rec\<rparr> else summary);
          summary = summary\<lparr>rs_rootPairCount := rs_rootPairCount summary + of_nat (length (sr_rootPairs rec)),
            rs_rootLocationCount := rs_rootLocationCount summary + of_nat (length (sr_rootPairs rec)) * 2\<rparr>
      in scanPairs rd (sr_rootPairs rec) frameSP frameBP summary)"

section \<open>Finding records and walking frames\<close>

definition findSafepointRecord :: "SafepointRecord list \<Rightarrow> addr \<Rightarrow> SafepointRecord option" where
  "findSafepointRecord safepoints address = List.find (\<lambda>r. sr_instructionAddress r = address) safepoints"

definition kMaxReturnAddressDistance :: u64 where
  "kMaxReturnAddressDistance = 4096"

text \<open>The loop keeps the best record so far with its distance.\<close>

fun nearestRecord ::
  "SafepointRecord list \<Rightarrow> addr \<Rightarrow> (SafepointRecord \<times> u64) option \<Rightarrow> (SafepointRecord \<times> u64) option" where
  "nearestRecord [] address best = best"
| "nearestRecord (r # rest) address best =
     (if sr_instructionAddress r > address then nearestRecord rest address best
      else let distance = address - sr_instructionAddress r
           in nearestRecord rest address
                (case best of
                   None \<Rightarrow> Some (r, distance)
                 | Some (b, bestDistance) \<Rightarrow> if distance < bestDistance then Some (r, distance) else best))"

definition findSafepointRecordForReturnAddress :: "SafepointRecord list \<Rightarrow> addr \<Rightarrow> SafepointRecord option" where
  "findSafepointRecordForReturnAddress safepoints address =
     (case nearestRecord safepoints address None of
        Some (best, bestDistance) \<Rightarrow> if bestDistance \<le> kMaxReturnAddressDistance then Some best else None
      | None \<Rightarrow> None)"

definition findCallerRecord :: "SafepointRecord list \<Rightarrow> addr \<Rightarrow> SafepointRecord option" where
  "findCallerRecord safepoints address =
     (case findSafepointRecord safepoints address of
        Some r \<Rightarrow> Some r
      | None \<Rightarrow> findSafepointRecordForReturnAddress safepoints address)"

definition kMaxManagedFrameDepth :: nat where
  "kMaxManagedFrameDepth = 256"

text \<open>The walk from \<open>framePointer\<close>; the number is how many more frames the loop may visit.\<close>

fun walkFrames ::
  "memory \<Rightarrow> SafepointRecord list \<Rightarrow> nat \<Rightarrow> addr \<Rightarrow> GCRootScanSummary \<Rightarrow> gc_error + GCRootScanSummary" where
  "walkFrames rd safepoints 0 framePointer summary = Inr summary"
| "walkFrames rd safepoints (Suc n) framePointer summary =
     (if framePointer = 0 then Inr summary
      else let nextFramePointer = rd_word rd framePointer;
               nextReturnAddress = rd_word rd (framePointer + 8)
           in if nextReturnAddress = 0 then Inr summary
              else case findCallerRecord safepoints nextReturnAddress of
                     None \<Rightarrow> Inr summary
                   | Some callerRecord \<Rightarrow>
                       bindE (scanSingleManagedFrame rd callerRecord (framePointer + 16) nextFramePointer summary)
                         (walkFrames rd safepoints n nextFramePointer))"

definition scanFrom ::
  "memory \<Rightarrow> SafepointRecord list \<Rightarrow> SafepointRecord \<Rightarrow> addr \<Rightarrow> addr \<Rightarrow> gc_error + GCRootScanSummary" where
  "scanFrom rd safepoints rec startSP startBP =
     bindE (scanSingleManagedFrame rd rec startSP startBP emptySummary)
       (walkFrames rd safepoints kMaxManagedFrameDepth startBP)"

definition scanCurrentSafepointByID ::
  "memory \<Rightarrow> SafepointRecord list \<Rightarrow> u64 \<Rightarrow> addr \<Rightarrow> addr \<Rightarrow> gc_error + GCRootScanSummary" where
  "scanCurrentSafepointByID rd safepoints statepointID callerSP callerBP =
     (case List.find (\<lambda>r. sr_id r = statepointID) safepoints of
        None \<Rightarrow> Inl (NoRecordForID statepointID)
      | Some rec \<Rightarrow> scanFrom rd safepoints rec callerSP callerBP)"

text \<open>The nearest record on either side, for the error message of a failed lookup.\<close>

fun nearestEitherSide :: "SafepointRecord list \<Rightarrow> addr \<Rightarrow> (u64 \<times> u64) option \<Rightarrow> (u64 \<times> u64) option" where
  "nearestEitherSide [] address best = best"
| "nearestEitherSide (r # rest) address best =
     (let distance = (if sr_instructionAddress r > address then sr_instructionAddress r - address
                      else address - sr_instructionAddress r)
      in nearestEitherSide rest address
           (case best of
              None \<Rightarrow> Some (sr_instructionAddress r, distance)
            | Some (_, nearestDistance) \<Rightarrow>
                if distance < nearestDistance then Some (sr_instructionAddress r, distance) else best))"

definition makeMissingSafepointMessage :: "SafepointRecord list \<Rightarrow> addr \<Rightarrow> gc_error" where
  "makeMissingSafepointMessage safepoints address =
     NoRecordForAddress address (nearestEitherSide safepoints address None)"

definition kMaxStartFrameProbeDepth :: nat where
  "kMaxStartFrameProbeDepth = 8"

text \<open>The probe for the frame to start from: the record, its stack pointer and its frame pointer.\<close>

fun probeStartFrame ::
  "memory \<Rightarrow> SafepointRecord list \<Rightarrow> nat list \<Rightarrow> addr \<Rightarrow> addr \<Rightarrow> addr \<Rightarrow> (SafepointRecord \<times> addr \<times> addr) option" where
  "probeStartFrame rd safepoints [] returnAddress framePointer callerSP = None"
| "probeStartFrame rd safepoints (probeDepth # rest) returnAddress framePointer callerSP =
     (let rec = (case findSafepointRecord safepoints returnAddress of
                   Some r \<Rightarrow> Some r
                 | None \<Rightarrow> if probeDepth > 0 then findSafepointRecordForReturnAddress safepoints returnAddress else None)
      in case rec of
           Some r \<Rightarrow> Some (r, callerSP, framePointer)
         | None \<Rightarrow>
             if framePointer = 0 then None
             else probeStartFrame rd safepoints rest (rd_word rd (framePointer + 8)) (rd_word rd framePointer) (framePointer + 16))"

definition scanCurrentSafepoint ::
  "memory \<Rightarrow> SafepointRecord list \<Rightarrow> addr \<Rightarrow> addr \<Rightarrow> addr \<Rightarrow> gc_error + GCRootScanSummary" where
  "scanCurrentSafepoint rd safepoints returnAddress callerSP callerBP =
     (case probeStartFrame rd safepoints [0 ..< kMaxStartFrameProbeDepth] returnAddress callerBP callerSP of
        None \<Rightarrow> Inl (makeMissingSafepointMessage safepoints returnAddress)
      | Some (rec, startCallerSP, startFramePointer) \<Rightarrow>
          scanFrom rd safepoints rec startCallerSP startFramePointer)"

definition scanCurrentRuntimeSafepointFromFrame ::
  "memory \<Rightarrow> bool \<Rightarrow> SafepointRecord list option \<Rightarrow> addr \<Rightarrow> u64 \<Rightarrow> gc_error + GCRootScanSummary" where
  "scanCurrentRuntimeSafepointFromFrame rd currentThreadIsMutator registry runtimeFrame statepointID =
     (if \<not> currentThreadIsMutator then Inl NotAMutator
      else case registry of
          None \<Rightarrow> Inl NoRegistry
        | Some safepoints \<Rightarrow>
            if runtimeFrame = 0 then Inl NoRuntimeFrame
            else let returnAddress = rd_word rd (runtimeFrame + 8);
                     callerSP = runtimeFrame + 16;
                     callerBP = rd_word rd runtimeFrame
                 in if statepointID \<noteq> 0 then scanCurrentSafepointByID rd safepoints statepointID callerSP callerBP
                    else scanCurrentSafepoint rd safepoints returnAddress callerSP callerBP)"

end
