(* ===== verification/Runtime_Threads.thy ===== *)
theory Runtime_Threads
  imports Runtime_Heap Root_Scan
begin

text \<open>
  The protocol between mutator threads and the VM thread: \<open>src/src/mvm/runtime_threads.cc\<close> and the
  safepoint handling at the end of \<open>src/src/mvm/gc.cc\<close>.

  Every method of \<open>RuntimeThreads\<close> runs under \<open>mutex_\<close>, so a method, or the part of it between two
  waits, is one atomic step.  A mutator is between steps in one of the states of \<open>mutator\<close>; the VM
  thread in one of its two waits.  The values of the mutator's roots at a safepoint are what the
  stackmap scan returns for it (\<open>Root_Scan\<close> says how they are read).  \<open>gcRequested\<close>, the heap and the
  allocation accounting are in the field \<open>ts_runtime\<close>.  Counters of threads are natural numbers; the
  epoch keeps its 64 bits.
\<close>

section \<open>State\<close>

definition mergeRootScanSummary :: "GCRootScanSummary \<Rightarrow> GCRootScanSummary \<Rightarrow> GCRootScanSummary" where
  "mergeRootScanSummary destination source =
     (let d = (if rs_safepointAddress destination = 0
               then destination\<lparr>rs_safepointAddress := rs_safepointAddress source\<rparr> else destination)
      in d\<lparr>rs_rootPairCount := rs_rootPairCount d + rs_rootPairCount source,
           rs_rootLocationCount := rs_rootLocationCount d + rs_rootLocationCount source,
           rs_nonNullRootCount := rs_nonNullRootCount d + rs_nonNullRootCount source,
           rs_rootValues := rs_rootValues d @ rs_rootValues source\<rparr>)"

text \<open>Where a mutator is: not started, running managed code, between the exchange of
  \<open>gcRequested\<close> and the call of \<open>notifyGCRequested\<close>, between the root scan and \<open>parkCurrentMutatorAtSafepoint\<close>,
  waiting there for the epoch to change, or finished.\<close>

datatype mutator = Idle | Running | Notifying | Scanned GCRootScanSummary | Waiting u64 | Finished

datatype vm_state = WaitPending | WaitParked

record threads =
  ts_activeMutatorCount :: nat
  ts_parkedMutatorCount :: nat
  ts_gcPending :: bool
  ts_gcCycleEpoch :: u64
  ts_completedGCCycleCount :: u64
  ts_pendingRootSummary :: GCRootScanSummary
  ts_lastRootScanSummary :: GCRootScanSummary
  ts_runtime :: runtime
  ts_vm :: vm_state
  ts_mutator :: "nat \<Rightarrow> mutator"
  ts_roots :: "nat \<Rightarrow> addr list"

definition initialThreads :: "runtime \<Rightarrow> threads" where
  "initialThreads rt = \<lparr>ts_activeMutatorCount = 0, ts_parkedMutatorCount = 0, ts_gcPending = False,
     ts_gcCycleEpoch = 0, ts_completedGCCycleCount = 0, ts_pendingRootSummary = emptySummary,
     ts_lastRootScanSummary = emptySummary, ts_runtime = rt, ts_vm = WaitPending,
     ts_mutator = (\<lambda>_. Idle), ts_roots = (\<lambda>_. [])\<rparr>"

section \<open>The methods of RuntimeThreads\<close>

definition markMutatorStarted :: "threads \<Rightarrow> threads" where
  "markMutatorStarted t = t\<lparr>ts_activeMutatorCount := Suc (ts_activeMutatorCount t)\<rparr>"

definition markMutatorStopped :: "threads \<Rightarrow> threads" where
  "markMutatorStopped t =
     (let t = (if ts_activeMutatorCount t \<noteq> 0
               then t\<lparr>ts_activeMutatorCount := ts_activeMutatorCount t - 1\<rparr> else t)
      in if ts_activeMutatorCount t = 0
         then t\<lparr>ts_gcPending := False, ts_pendingRootSummary := emptySummary\<rparr> else t)"

definition notifyGCRequested :: "threads \<Rightarrow> threads" where
  "notifyGCRequested t = t\<lparr>ts_gcPending := True\<rparr>"

text \<open>\<open>parkCurrentMutatorAtSafepoint\<close> up to its wait; the result is the epoch it waits to change.\<close>

definition parkCurrentMutator :: "GCRootScanSummary \<Rightarrow> threads \<Rightarrow> u64 \<times> threads" where
  "parkCurrentMutator summary t =
     (ts_gcCycleEpoch t,
      t\<lparr>ts_parkedMutatorCount := Suc (ts_parkedMutatorCount t),
        ts_pendingRootSummary := mergeRootScanSummary (ts_pendingRootSummary t) summary\<rparr>)"

definition unparkCurrentMutator :: "threads \<Rightarrow> threads" where
  "unparkCurrentMutator t = t\<lparr>ts_parkedMutatorCount := ts_parkedMutatorCount t - 1\<rparr>"

text \<open>One round of the loop of \<open>vmThreadMain\<close>, from one wait to the next.  \<open>None\<close>: the predicate of
  the wait does not hold, or the collection aborted.\<close>

definition collectPending :: "memory \<Rightarrow> threads \<Rightarrow> threads option" where
  "collectPending rd t =
     (case collectManagedHeap rd (rs_rootValues (ts_pendingRootSummary t)) (ts_runtime t) of
        Some (Inr (rt, stats)) \<Rightarrow>
          (let count = ts_completedGCCycleCount t + 1;
               summary = (ts_pendingRootSummary t)\<lparr>rs_mutatorCount := of_nat (ts_activeMutatorCount t), rs_gcCycle := count\<rparr>
           in Some (t\<lparr>ts_completedGCCycleCount := count, ts_lastRootScanSummary := summary,
                ts_runtime := rt\<lparr>rt_gc := clearGCRequest (rt_gc rt)\<rparr>, ts_gcPending := False,
                ts_pendingRootSummary := emptySummary, ts_gcCycleEpoch := ts_gcCycleEpoch t + 1,
                ts_vm := WaitPending\<rparr>))
      | _ \<Rightarrow> None)"

definition vmThreadRound :: "memory \<Rightarrow> threads \<Rightarrow> threads option" where
  "vmThreadRound rd t =
     (case ts_vm t of
        WaitPending \<Rightarrow>
          if \<not> ts_gcPending t then None
          else if ts_activeMutatorCount t = 0 then Some t
          else Some (t\<lparr>ts_vm := WaitParked\<rparr>)
      | WaitParked \<Rightarrow>
          if \<not> (ts_activeMutatorCount t = 0 \<or> ts_parkedMutatorCount t \<ge> ts_activeMutatorCount t) then None
          else if \<not> ts_gcPending t \<or> ts_activeMutatorCount t = 0 then Some (t\<lparr>ts_vm := WaitPending\<rparr>)
          else collectPending rd t)"

section \<open>Safepoints\<close>

text \<open>What a poll does: nothing, a fatal error of the root scan, parking with the scanned roots, or,
  when no \<open>RuntimeThreads\<close> is installed, only recording them.\<close>

datatype safepoint =
    SafepointSkipped
  | SafepointFatal gc_error
  | SafepointPark GCRootScanSummary
  | SafepointRecorded GCRootScanSummary

definition rememberCurrentRuntimeSafepointOrFatal ::
  "(gc_error + GCRootScanSummary) \<Rightarrow> bool \<Rightarrow> gc_state \<Rightarrow> safepoint \<times> gc_state" where
  "rememberCurrentRuntimeSafepointOrFatal scan threadsInstalled g =
     (case scan of
        Inl message \<Rightarrow> (SafepointFatal message, g)
      | Inr summary \<Rightarrow>
          if threadsInstalled then (SafepointPark summary, g)
          else (SafepointRecorded summary, clearGCRequest g))"

definition handlePendingRuntimeGCSafepoint ::
  "bool \<Rightarrow> bool \<Rightarrow> (gc_error + GCRootScanSummary) \<Rightarrow> bool \<Rightarrow> gc_state \<Rightarrow> safepoint \<times> gc_state" where
  "handlePendingRuntimeGCSafepoint currentThreadIsMutator registryInstalled scan threadsInstalled g =
     (if \<not> isGCRequested g then (SafepointSkipped, g)
      else if \<not> currentThreadIsMutator then (SafepointSkipped, clearGCRequest g)
      else if \<not> registryInstalled then (SafepointSkipped, clearGCRequest g)
      else rememberCurrentRuntimeSafepointOrFatal scan threadsInstalled g)"

section \<open>Steps\<close>

definition setMutator :: "nat \<Rightarrow> mutator \<Rightarrow> threads \<Rightarrow> threads" where
  "setMutator m s t = t\<lparr>ts_mutator := (ts_mutator t)(m := s)\<rparr>"

text \<open>The step of a mutator after a call that may have requested a collection: it has to notify the
  VM thread just when this call was the first to request.\<close>

definition afterCall :: "nat \<Rightarrow> runtime \<Rightarrow> threads \<Rightarrow> threads" where
  "afterCall m rt t =
     setMutator m (if gcNotifications (rt_gc rt) \<noteq> gcNotifications (rt_gc (ts_runtime t)) then Notifying else Running)
       (t\<lparr>ts_runtime := rt\<rparr>)"

inductive threadStep :: "nat set \<Rightarrow> threads \<Rightarrow> threads \<Rightarrow> bool" for M where
  m_start: "m \<in> M \<Longrightarrow> ts_mutator t m = Idle \<Longrightarrow> threadStep M t (setMutator m Running (markMutatorStarted t))"
| m_clear: "m \<in> M \<Longrightarrow> ts_mutator t m = Running \<Longrightarrow>
    threadStep M t (t\<lparr>ts_runtime := (ts_runtime t)\<lparr>rt_gc := clearGCRequest (rt_gc (ts_runtime t))\<rparr>\<rparr>)"
| m_mutate: "m \<in> M \<Longrightarrow> ts_mutator t m = Running \<Longrightarrow> threadStep M t (t\<lparr>ts_roots := (ts_roots t)(m := rs)\<rparr>)"
| m_malloc: "m \<in> M \<Longrightarrow> ts_mutator t m = Running \<Longrightarrow> slabEnv (rt_heap (ts_runtime t)) env \<Longrightarrow>
    mvm_malloc_typed rd env td (ts_runtime t) = Inr (p, rt) \<Longrightarrow>
    threadStep M t ((afterCall m rt t)\<lparr>ts_roots := (ts_roots t)(m := p # ts_roots t m)\<rparr>)"
| m_array: "m \<in> M \<Longrightarrow> ts_mutator t m = Running \<Longrightarrow> slabEnv (rt_heap (ts_runtime t)) env \<Longrightarrow>
    mvm_array_malloc_typed rd env n td (ts_runtime t) = Inr (p, rt) \<Longrightarrow>
    threadStep M t ((afterCall m rt t)\<lparr>ts_roots := (ts_roots t)(m := p # ts_roots t m)\<rparr>)"
| m_request: "m \<in> M \<Longrightarrow> ts_mutator t m = Running \<Longrightarrow>
    threadStep M t (afterCall m ((ts_runtime t)\<lparr>rt_gc := requestGC (rt_gc (ts_runtime t))\<rparr>) t)"
| m_notify: "m \<in> M \<Longrightarrow> ts_mutator t m = Notifying \<Longrightarrow> threadStep M t (setMutator m Running (notifyGCRequested t))"
| m_poll: "m \<in> M \<Longrightarrow> ts_mutator t m = Running \<Longrightarrow> rs_rootValues summary = ts_roots t m \<Longrightarrow>
    handlePendingRuntimeGCSafepoint True True (Inr summary) True (rt_gc (ts_runtime t)) = (SafepointPark s, g) \<Longrightarrow>
    threadStep M t (setMutator m (Scanned s) (t\<lparr>ts_runtime := (ts_runtime t)\<lparr>rt_gc := g\<rparr>\<rparr>))"
| m_park: "m \<in> M \<Longrightarrow> ts_mutator t m = Scanned s \<Longrightarrow> parkCurrentMutator s t = (e, t') \<Longrightarrow>
    threadStep M t (setMutator m (Waiting e) t')"
| m_resume: "m \<in> M \<Longrightarrow> ts_mutator t m = Waiting e \<Longrightarrow> ts_gcCycleEpoch t \<noteq> e \<Longrightarrow>
    threadStep M t (setMutator m Running (unparkCurrentMutator t))"
| m_stop: "m \<in> M \<Longrightarrow> ts_mutator t m = Running \<Longrightarrow> threadStep M t (setMutator m Finished (markMutatorStopped t))"
| v_round: "vmThreadRound rd t = Some t' \<Longrightarrow> threadStep M t t'"

definition threadReach :: "nat set \<Rightarrow> threads \<Rightarrow> threads \<Rightarrow> bool" where
  "threadReach M = (threadStep M)\<^sup>*\<^sup>*"

text \<open>The VM thread is about to collect.\<close>

definition collecting :: "threads \<Rightarrow> bool" where
  "collecting t \<longleftrightarrow> ts_vm t = WaitParked \<and> ts_gcPending t \<and> ts_activeMutatorCount t \<noteq> 0 \<and>
     ts_parkedMutatorCount t \<ge> ts_activeMutatorCount t"

definition isActive :: "mutator \<Rightarrow> bool" where
  "isActive s \<longleftrightarrow> s \<noteq> Idle \<and> s \<noteq> Finished"

end
