(* ===== verification/Thread_Safety.thy ===== *)
theory Thread_Safety
  imports Runtime_Threads Heap_Examples
begin

text \<open>
  What the parking protocol guarantees.  With one mutator, as \<open>runManagedProgram\<close> starts it, every
  collection has the mutator's roots, the mutator is never left waiting, and the VM thread never
  spins.  With several mutators a collection has the roots of all of them as long as none is still
  leaving the previous one; without that condition it may not, and an object in use is reclaimed.
\<close>

section \<open>What the threads rely on in the heap\<close>

locale managed_heap =
  fixes ok :: "'h \<Rightarrow> addr list \<Rightarrow> bool"
    and reachable :: "'m \<Rightarrow> 'h \<Rightarrow> addr list \<Rightarrow> addr \<Rightarrow> bool"
    and collect :: "'m \<Rightarrow> addr list \<Rightarrow> 'h \<Rightarrow> 'h option"
  assumes collect_total: "ok h xs \<Longrightarrow> \<exists>h'. collect m roots h = Some h' \<and> ok h' (filter (reachable m h roots) xs)"
    and reachable_mono: "reachable m h roots x \<Longrightarrow> set roots \<subseteq> set roots' \<Longrightarrow> reachable m h roots' x"
begin

lemma collect_keeps:
  assumes "ok h xs" "collect m roots h = Some h'" "x \<in> set xs" "reachable m h rs x" "set rs \<subseteq> set roots"
  shows "\<exists>xs'. ok h' xs' \<and> x \<in> set xs'"
proof -
  have "ok h' (filter (reachable m h roots) xs)" using collect_total [OF assms(1), of m roots] assms(2) by auto
  moreover have "x \<in> set (filter (reachable m h roots) xs)"
    using assms(3) reachable_mono [OF assms(4,5)] by simp
  ultimately show ?thesis by blast
qed

lemma collect_exact:
  assumes "ok h xs" "collect m roots h = Some h'"
  shows "ok h' (filter (reachable m h roots) xs)"
  using collect_total [OF assms(1), of m roots] assms(2) by auto

end

definition collectRuntime :: "memory \<Rightarrow> addr list \<Rightarrow> runtime \<Rightarrow> runtime option" where
  "collectRuntime rd roots rt =
     (case collectManagedHeap rd roots rt of Some (Inr (rt', _)) \<Rightarrow> Some rt' | _ \<Rightarrow> None)"

interpretation rtheap: managed_heap runInv "\<lambda>rd rt. heapReach rd (rt_heap rt)" collectRuntime
proof (unfold_locales, goal_cases)
  case (1 h xs m roots)
  obtain rt' stats where "collectManagedHeap m roots h = Some (Inr (rt', stats))"
    "runInv rt' (filter (heapReach m (rt_heap h) roots) xs)" by (rule collect_runInv [OF 1])
  then show ?case by (simp add: collectRuntime_def)
next
  case (2 m h roots x roots')
  then show ?case unfolding heapReach_def by (rule reach_mono_roots)
qed

text \<open>The request flag and the accounting do not matter to the heap.\<close>

lemma runInv_gc [simp]: "runInv (rt\<lparr>rt_gc := g\<rparr>) xs \<longleftrightarrow> runInv rt xs"
  by (simp add: soundRuntime_def)

lemma collectPending_collect:
  assumes "runInv (ts_runtime t) xs"
  obtains t' where "collectPending rd t = Some t'"
    "runInv (ts_runtime t') (filter (heapReach rd (rt_heap (ts_runtime t)) (rs_rootValues (ts_pendingRootSummary t))) xs)"
    "\<not> gcRequested (rt_gc (ts_runtime t'))" "\<not> ts_gcPending t'" "ts_pendingRootSummary t' = emptySummary"
    "ts_gcCycleEpoch t' = ts_gcCycleEpoch t + 1" "ts_vm t' = WaitPending" "ts_mutator t' = ts_mutator t"
    "ts_roots t' = ts_roots t" "ts_activeMutatorCount t' = ts_activeMutatorCount t"
    "ts_parkedMutatorCount t' = ts_parkedMutatorCount t"
proof -
  obtain rt stats where c: "collectManagedHeap rd (rs_rootValues (ts_pendingRootSummary t)) (ts_runtime t) = Some (Inr (rt, stats))"
    by (rule collect_runInv [OF assms])
  then have "collectRuntime rd (rs_rootValues (ts_pendingRootSummary t)) (ts_runtime t) = Some rt"
    by (simp add: collectRuntime_def)
  note inv = rtheap.collect_exact [OF assms this]
  obtain t' where t': "collectPending rd t = Some t'" by (simp add: collectPending_def c Let_def)
  show ?thesis
    by (rule that [OF t']) (use t' c inv in \<open>auto simp: collectPending_def clearGCRequest_def Let_def\<close>)
qed

section \<open>One mutator\<close>

definition oneMutator :: "threads \<Rightarrow> bool" where
  "oneMutator t \<longleftrightarrow>
     (\<exists>xs. runInv (ts_runtime t) xs) \<and>
     ts_activeMutatorCount t = (if isActive (ts_mutator t 0) then 1 else 0) \<and>
     ts_parkedMutatorCount t = (case ts_mutator t 0 of Waiting e \<Rightarrow> 1 | _ \<Rightarrow> 0) \<and>
     (case ts_mutator t 0 of
        Waiting e \<Rightarrow>
          if e = ts_gcCycleEpoch t
          then ts_gcPending t \<and> rs_rootValues (ts_pendingRootSummary t) = ts_roots t 0
          else \<not> ts_gcPending t \<and> \<not> gcRequested (rt_gc (ts_runtime t)) \<and> rs_rootValues (ts_pendingRootSummary t) = []
      | Scanned s \<Rightarrow> rs_rootValues s = ts_roots t 0 \<and> ts_gcPending t \<and> rs_rootValues (ts_pendingRootSummary t) = []
      | Running \<Rightarrow> (gcRequested (rt_gc (ts_runtime t)) \<longrightarrow> ts_gcPending t) \<and> rs_rootValues (ts_pendingRootSummary t) = []
      | Notifying \<Rightarrow> rs_rootValues (ts_pendingRootSummary t) = []
      | _ \<Rightarrow> \<not> ts_gcPending t \<and> rs_rootValues (ts_pendingRootSummary t) = [] \<and>
             (ts_mutator t 0 = Idle \<longrightarrow> \<not> gcRequested (rt_gc (ts_runtime t))))"

text \<open>A call of the runtime by a mutator either leaves the request flag, or sets it and leaves the
  mutator with the duty to notify.\<close>

definition gcCall :: "gc_state \<Rightarrow> gc_state \<Rightarrow> bool" where
  "gcCall g g' \<longleftrightarrow> (gcNotifications g' = gcNotifications g \<longrightarrow> gcRequested g' = gcRequested g)"

lemma gcCall_refl [simp]: "gcCall g g"
  by (simp add: gcCall_def)

lemma gcCall_request [simp]: "gcCall g (requestGC g)" "gcCall g (recordManagedAllocation n g)"
  by (simp_all add: gcCall_def requestGC_def recordManagedAllocation_def Let_def)

lemma allocationOutcome_gc: "allocationOutcome True rt xs env kind n e a d p rt' \<Longrightarrow> gcCall (rt_gc rt) (rt_gc rt')"
  by (auto simp: allocationOutcome_def split: if_splits)

lemma malloc_call:
  assumes "runInv rt xs" "slabEnv (rt_heap rt) env" "mvm_malloc_typed rd env td rt = Inr (p, rt')"
  shows "\<exists>xs'. runInv rt' xs'" and "gcCall (rt_gc rt) (rt_gc rt')"
proof -
  have ok: "descriptorOk rd td"
    using assms(3) mvm_malloc_typed_rejects [of rd td env rt] by (cases "descriptorOk rd td") auto
  obtain q rt1 where r: "mvm_malloc_typed rd env td rt = Inr (q, rt1)"
    "allocationOutcome True rt xs env AObject (td_instanceSize (rd_descriptor rd td)) 1
       (td_instanceAlignment (rd_descriptor rd td)) td q rt1"
    by (rule mvm_malloc_typed_accepts [OF assms(1,2) ok])
  then have "rt' = rt1" using assms(3) by simp
  with allocationOutcome_inv [OF r(2)] allocationOutcome_gc [OF r(2)]
  show "\<exists>xs'. runInv rt' xs'" "gcCall (rt_gc rt) (rt_gc rt')" by simp_all
qed

lemma array_call:
  assumes "runInv rt xs" "slabEnv (rt_heap rt) env" "mvm_array_malloc_typed rd env n td rt = Inr (p, rt')"
  shows "\<exists>xs'. runInv rt' xs'" and "gcCall (rt_gc rt) (rt_gc rt')"
proof -
  have ok: "descriptorOk rd td"
    using assms(3) mvm_array_malloc_typed_rejects [of rd td env n rt] by (cases "descriptorOk rd td") auto
  have "(\<exists>xs'. runInv rt' xs') \<and> gcCall (rt_gc rt) (rt_gc rt')"
  proof (cases "unat (td_instanceSize (rd_descriptor rd td)) * unat n < 18446744073709551616")
    case True
    obtain q rt1 where r: "mvm_array_malloc_typed rd env n td rt = Inr (q, rt1)"
      "allocationOutcome True rt xs env AArray (td_instanceSize (rd_descriptor rd td) * n) n
         (td_instanceAlignment (rd_descriptor rd td)) td q rt1"
      by (rule mvm_array_malloc_typed_accepts [OF assms(1,2) ok True])
    then have "rt' = rt1" using assms(3) by simp
    with allocationOutcome_inv [OF r(2)] allocationOutcome_gc [OF r(2)] show ?thesis by simp
  next
    case False
    then have "rt' = rt" using mvm_array_malloc_typed_overflow [OF ok, of n env rt] assms(3) by simp
    with assms(1) show ?thesis by auto
  qed
  then show "\<exists>xs'. runInv rt' xs'" "gcCall (rt_gc rt) (rt_gc rt')" by simp_all
qed

lemma oneMutator_call:
  assumes "oneMutator t" "ts_mutator t 0 = Running" "\<exists>xs. runInv rt xs" "gcCall (rt_gc (ts_runtime t)) (rt_gc rt)"
  shows "oneMutator (afterCall 0 rt t)" "oneMutator ((afterCall 0 rt t)\<lparr>ts_roots := (ts_roots t)(0 := rs)\<rparr>)"
  using assms by (auto simp: oneMutator_def afterCall_def setMutator_def isActive_def gcCall_def)

lemma oneMutator_vm [simp]: "oneMutator (t\<lparr>ts_vm := v\<rparr>) \<longleftrightarrow> oneMutator t"
  by (simp add: oneMutator_def cong: mutator.case_cong)

lemma oneMutator_round:
  assumes o: "oneMutator t" and r: "vmThreadRound rd t = Some t'"
  shows "oneMutator t'"
proof (cases "ts_vm t")
  case WaitPending
  with r have "t' = t \<or> t' = t\<lparr>ts_vm := WaitParked\<rparr>" by (auto simp: vmThreadRound_def split: if_splits)
  with o show ?thesis by auto
next
  case WaitParked
  show ?thesis
  proof (cases "\<not> ts_gcPending t \<or> ts_activeMutatorCount t = 0")
    case True
    with r WaitParked have "t' = t\<lparr>ts_vm := WaitPending\<rparr>" by (auto simp: vmThreadRound_def split: if_splits)
    with o show ?thesis by simp
  next
    case False
    with r WaitParked have c: "collectPending rd t = Some t'" "ts_parkedMutatorCount t \<ge> ts_activeMutatorCount t"
      by (auto simp: vmThreadRound_def split: if_splits)
    have w: "isActive (ts_mutator t 0)" using False o by (auto simp: oneMutator_def split: if_splits)
    then obtain e where e: "ts_mutator t 0 = Waiting e"
      using c(2) False o by (cases "ts_mutator t 0") (auto simp: oneMutator_def isActive_def)
    obtain xs where "runInv (ts_runtime t) xs" using o by (auto simp: oneMutator_def)
    then obtain t1 where t1: "collectPending rd t = Some t1"
      "runInv (ts_runtime t1) (filter (heapReach rd (rt_heap (ts_runtime t)) (rs_rootValues (ts_pendingRootSummary t))) xs)"
      "\<not> gcRequested (rt_gc (ts_runtime t1))" "\<not> ts_gcPending t1" "ts_pendingRootSummary t1 = emptySummary"
      "ts_gcCycleEpoch t1 = ts_gcCycleEpoch t + 1" "ts_vm t1 = WaitPending" "ts_mutator t1 = ts_mutator t"
      "ts_roots t1 = ts_roots t" "ts_activeMutatorCount t1 = ts_activeMutatorCount t"
      "ts_parkedMutatorCount t1 = ts_parkedMutatorCount t" by (rule collectPending_collect)
    have "t' = t1" using c(1) t1(1) by simp
    moreover have "e = ts_gcCycleEpoch t" using o e False by (auto simp: oneMutator_def split: if_splits)
    ultimately show ?thesis using o e t1 by (auto simp: oneMutator_def emptySummary_def)
  qed
qed

lemma oneMutator_step:
  assumes "threadStep {0} t t'" "oneMutator t"
  shows "oneMutator t'"
  using assms(1)
proof cases
  case (m_start m)
  then have "m = 0" "ts_mutator t 0 = Idle" by simp_all
  with assms(2) show ?thesis unfolding m_start(1)
    by (simp add: oneMutator_def setMutator_def markMutatorStarted_def isActive_def)
next
  case (m_clear m)
  then have "ts_mutator t 0 = Running" by simp
  with assms(2) show ?thesis unfolding m_clear(1) by (simp add: oneMutator_def clearGCRequest_def)
next
  case (m_mutate m rs)
  then have "m = 0" "ts_mutator t 0 = Running" by simp_all
  with assms(2) show ?thesis unfolding m_mutate(1) by (simp add: oneMutator_def)
next
  case (m_malloc m env rd td p rt)
  then have m: "m = 0" "ts_mutator t 0 = Running" by simp_all
  obtain xs where xs: "runInv (ts_runtime t) xs" using assms(2) by (auto simp: oneMutator_def)
  show ?thesis unfolding m_malloc(1) m(1)
    by (rule oneMutator_call(2) [OF assms(2) m(2) malloc_call [OF xs m_malloc(4,5)]])
next
  case (m_array m env rd n td p rt)
  then have m: "m = 0" "ts_mutator t 0 = Running" by simp_all
  obtain xs where xs: "runInv (ts_runtime t) xs" using assms(2) by (auto simp: oneMutator_def)
  show ?thesis unfolding m_array(1) m(1)
    by (rule oneMutator_call(2) [OF assms(2) m(2) array_call [OF xs m_array(4,5)]])
next
  case (m_request m)
  then have m: "m = 0" "ts_mutator t 0 = Running" by simp_all
  have "\<exists>xs. runInv ((ts_runtime t)\<lparr>rt_gc := requestGC (rt_gc (ts_runtime t))\<rparr>) xs"
    using assms(2) by (simp add: oneMutator_def)
  then show ?thesis unfolding m_request(1) m(1)
    by (rule oneMutator_call(1) [OF assms(2) m(2)]) simp
next
  case (m_notify m)
  then have "m = 0" "ts_mutator t 0 = Notifying" by simp_all
  with assms(2) show ?thesis unfolding m_notify(1)
    by (simp add: oneMutator_def setMutator_def notifyGCRequested_def isActive_def)
next
  case (m_poll m summary s g)
  then have "s = summary" "g = rt_gc (ts_runtime t)" "gcRequested (rt_gc (ts_runtime t))"
    by (simp_all add: handlePendingRuntimeGCSafepoint_def rememberCurrentRuntimeSafepointOrFatal_def isGCRequested_def
        split: if_splits)
  moreover have "m = 0" "ts_mutator t 0 = Running" using m_poll by simp_all
  ultimately show ?thesis using assms(2) m_poll(4) unfolding m_poll(1)
    by (simp add: oneMutator_def setMutator_def isActive_def)
next
  case (m_park m s e t1)
  then have m: "m = 0" "ts_mutator t 0 = Scanned s" by simp_all
  have e: "e = ts_gcCycleEpoch t" "t1 = snd (parkCurrentMutator s t)"
    using m_park(4) by (simp_all add: parkCurrentMutator_def)
  show ?thesis using assms(2) unfolding m_park(1) m(1) e
    by (simp add: oneMutator_def setMutator_def parkCurrentMutator_def mergeRootScanSummary_def Let_def isActive_def m(2))
next
  case (m_resume m e)
  then have m: "m = 0" "ts_mutator t 0 = Waiting e" "e \<noteq> ts_gcCycleEpoch t" by simp_all
  show ?thesis using assms(2) m(3) unfolding m_resume(1) m(1)
    by (simp add: oneMutator_def setMutator_def unparkCurrentMutator_def isActive_def m(2))
next
  case (m_stop m)
  then have "m = 0" "ts_mutator t 0 = Running" by simp_all
  with assms(2) show ?thesis unfolding m_stop(1)
    by (simp add: oneMutator_def setMutator_def markMutatorStopped_def Let_def isActive_def emptySummary_def)
next
  case (v_round rd)
  then show ?thesis using oneMutator_round [OF assms(2)] by simp
qed

lemma oneMutator_reach:
  assumes "threadReach {0} (initialThreads rt) t" "runInv rt xs" "\<not> gcRequested (rt_gc rt)"
  shows "oneMutator t"
proof -
  from assms(1) have "(threadStep {0})\<^sup>*\<^sup>* (initialThreads rt) t" by (simp add: threadReach_def)
  then show ?thesis
  proof (induction rule: rtranclp_induct)
    case base
    show ?case using assms(2,3) by (auto simp: oneMutator_def initialThreads_def isActive_def emptySummary_def)
  next
    case (step t1 t2)
    show ?case by (rule oneMutator_step [OF step.hyps(2) step.IH])
  qed
qed

section \<open>Several mutators\<close>

definition activeSet :: "nat set \<Rightarrow> threads \<Rightarrow> nat set" where
  "activeSet M t = {m \<in> M. isActive (ts_mutator t m)}"

definition waitingSet :: "nat set \<Rightarrow> threads \<Rightarrow> nat set" where
  "waitingSet M t = {m \<in> M. \<exists>e. ts_mutator t m = Waiting e}"

definition manyMutators :: "nat set \<Rightarrow> nat \<Rightarrow> threads \<Rightarrow> bool" where
  "manyMutators M n t \<longleftrightarrow> finite M \<and>
     ts_activeMutatorCount t = card (activeSet M t) \<and> ts_parkedMutatorCount t = card (waitingSet M t) \<and>
     unat (ts_gcCycleEpoch t) \<le> n \<and>
     (\<forall>m \<in> M. \<forall>e. ts_mutator t m = Waiting e \<longrightarrow> unat e \<le> unat (ts_gcCycleEpoch t) \<and>
        (e = ts_gcCycleEpoch t \<longrightarrow> set (ts_roots t m) \<subseteq> set (rs_rootValues (ts_pendingRootSummary t)))) \<and>
     (\<forall>m \<in> M. \<forall>s. ts_mutator t m = Scanned s \<longrightarrow> rs_rootValues s = ts_roots t m)"

lemma waiting_active: "waitingSet M t \<subseteq> activeSet M t"
  by (auto simp: waitingSet_def activeSet_def isActive_def)

lemma card_sets:
  assumes "finite M" "m \<in> M" "ts_mutator t' = (ts_mutator t)(m := s)"
  shows "isActive (ts_mutator t m) \<Longrightarrow> isActive s \<Longrightarrow> card (activeSet M t') = card (activeSet M t)"
    and "\<not> isActive (ts_mutator t m) \<Longrightarrow> isActive s \<Longrightarrow> card (activeSet M t') = Suc (card (activeSet M t))"
    and "isActive (ts_mutator t m) \<Longrightarrow> \<not> isActive s \<Longrightarrow> card (activeSet M t') = card (activeSet M t) - 1"
    and "\<forall>e. ts_mutator t m \<noteq> Waiting e \<Longrightarrow> \<forall>e. s \<noteq> Waiting e \<Longrightarrow> card (waitingSet M t') = card (waitingSet M t)"
    and "\<forall>e. ts_mutator t m \<noteq> Waiting e \<Longrightarrow> s = Waiting d \<Longrightarrow> card (waitingSet M t') = Suc (card (waitingSet M t))"
    and "ts_mutator t m = Waiting d \<Longrightarrow> \<forall>e. s \<noteq> Waiting e \<Longrightarrow> card (waitingSet M t') = card (waitingSet M t) - 1"
proof -
  have a: "activeSet M t' = (if isActive s then insert m (activeSet M t) else activeSet M t - {m})"
    "m \<in> activeSet M t \<longleftrightarrow> isActive (ts_mutator t m)" "finite (activeSet M t)"
    using assms by (auto simp: activeSet_def)
  have w: "waitingSet M t' = (if \<exists>e. s = Waiting e then insert m (waitingSet M t) else waitingSet M t - {m})"
    "m \<in> waitingSet M t \<longleftrightarrow> (\<exists>e. ts_mutator t m = Waiting e)" "finite (waitingSet M t)"
    using assms by (auto simp: waitingSet_def)
  show "isActive (ts_mutator t m) \<Longrightarrow> isActive s \<Longrightarrow> card (activeSet M t') = card (activeSet M t)"
    "\<not> isActive (ts_mutator t m) \<Longrightarrow> isActive s \<Longrightarrow> card (activeSet M t') = Suc (card (activeSet M t))"
    "isActive (ts_mutator t m) \<Longrightarrow> \<not> isActive s \<Longrightarrow> card (activeSet M t') = card (activeSet M t) - 1"
    using a by (simp_all add: insert_absorb)
  show "\<forall>e. ts_mutator t m \<noteq> Waiting e \<Longrightarrow> \<forall>e. s \<noteq> Waiting e \<Longrightarrow> card (waitingSet M t') = card (waitingSet M t)"
    "\<forall>e. ts_mutator t m \<noteq> Waiting e \<Longrightarrow> s = Waiting d \<Longrightarrow> card (waitingSet M t') = Suc (card (waitingSet M t))"
    "ts_mutator t m = Waiting d \<Longrightarrow> \<forall>e. s \<noteq> Waiting e \<Longrightarrow> card (waitingSet M t') = card (waitingSet M t) - 1"
    using w by simp_all
qed

text \<open>A step of a mutator that neither parks, resumes, starts nor stops.\<close>

lemma many_running:
  assumes many: "manyMutators M n t" and m: "m \<in> M"
    and t': "ts_mutator t' = (ts_mutator t)(m := s)" "ts_activeMutatorCount t' = ts_activeMutatorCount t"
      "ts_parkedMutatorCount t' = ts_parkedMutatorCount t" "ts_gcCycleEpoch t' = ts_gcCycleEpoch t"
      "ts_pendingRootSummary t' = ts_pendingRootSummary t" "\<forall>k. k \<noteq> m \<longrightarrow> ts_roots t' k = ts_roots t k"
    and s: "isActive (ts_mutator t m)" "\<forall>e. ts_mutator t m \<noteq> Waiting e" "isActive s" "\<forall>e. s \<noteq> Waiting e"
      "\<forall>r. s = Scanned r \<longrightarrow> rs_rootValues r = ts_roots t' m"
  shows "manyMutators M n t'"
proof -
  have f: "finite M" using many by (simp add: manyMutators_def)
  note cs = card_sets [OF f m t'(1)]
  have "ts_activeMutatorCount t' = card (activeSet M t')" "ts_parkedMutatorCount t' = card (waitingSet M t')"
    using many cs(1) [OF s(1,3)] cs(4) [OF s(2,4)] t'(2,3) by (simp_all add: manyMutators_def)
  then show ?thesis using many t' s(4,5) by (simp add: manyMutators_def)
qed

lemma many_call:
  assumes "manyMutators M n t" "m \<in> M" "ts_mutator t m = Running"
  shows "manyMutators M n (afterCall m rt t)"
    and "manyMutators M n ((afterCall m rt t)\<lparr>ts_roots := (ts_roots t)(m := rs)\<rparr>)"
  by (rule many_running [OF assms(1,2), where s = "if gcNotifications (rt_gc rt) \<noteq> gcNotifications (rt_gc (ts_runtime t))
        then Notifying else Running"];
      simp add: afterCall_def setMutator_def assms(3) isActive_def)+

lemma many_start:
  assumes many: "manyMutators M n t" and m: "m \<in> M" "ts_mutator t m = Idle"
  shows "manyMutators M n (setMutator m Running (markMutatorStarted t))"
proof -
  let ?t = "setMutator m Running (markMutatorStarted t)"
  have f: "finite M" using many by (simp add: manyMutators_def)
  have u: "ts_mutator ?t = (ts_mutator t)(m := Running)" by (simp add: setMutator_def markMutatorStarted_def)
  note cs = card_sets [OF f m(1) u]
  have "card (activeSet M ?t) = Suc (card (activeSet M t))" "card (waitingSet M ?t) = card (waitingSet M t)"
    using cs(2,4) m(2) by (simp_all add: isActive_def)
  with many show ?thesis unfolding manyMutators_def by (simp add: u) (simp add: setMutator_def markMutatorStarted_def)
qed

lemma many_stop:
  assumes many: "manyMutators M n t" and m: "m \<in> M" "ts_mutator t m = Running"
  shows "manyMutators M n (setMutator m Finished (markMutatorStopped t))"
proof -
  let ?t = "setMutator m Finished (markMutatorStopped t)"
  have f: "finite M" and act: "ts_activeMutatorCount t = card (activeSet M t)"
    using many by (simp_all add: manyMutators_def)
  have u: "ts_mutator ?t = (ts_mutator t)(m := Finished)"
    by (simp add: setMutator_def markMutatorStopped_def Let_def)
  note cs = card_sets [OF f m(1) u]
  have c: "card (activeSet M ?t) = card (activeSet M t) - 1" "card (waitingSet M ?t) = card (waitingSet M t)"
    using cs(3,4) m(2) by (simp_all add: isActive_def)
  have none: "\<forall>k \<in> M. \<forall>e. ts_mutator ?t k \<noteq> Waiting e" if "card (activeSet M ?t) = 0"
  proof -
    have "finite (activeSet M ?t)" using f by (simp add: activeSet_def)
    with that have "activeSet M ?t = {}" by simp
    then show ?thesis by (auto simp: activeSet_def isActive_def)
  qed
  have counts: "ts_activeMutatorCount ?t = card (activeSet M ?t)" "ts_parkedMutatorCount ?t = card (waitingSet M ?t)"
    "ts_gcCycleEpoch ?t = ts_gcCycleEpoch t" "ts_roots ?t = ts_roots t"
    using many unfolding c by (simp_all add: setMutator_def markMutatorStopped_def Let_def manyMutators_def)
  have summary: "ts_pendingRootSummary ?t = (if card (activeSet M ?t) = 0 then emptySummary else ts_pendingRootSummary t)"
    unfolding c act [symmetric] by (simp add: setMutator_def markMutatorStopped_def Let_def)
  have "unat e \<le> unat (ts_gcCycleEpoch t) \<and>
      (e = ts_gcCycleEpoch t \<longrightarrow> set (ts_roots t k) \<subseteq> set (rs_rootValues (ts_pendingRootSummary ?t)))"
    if k: "k \<in> M" "ts_mutator ?t k = Waiting e" for k e
  proof -
    have "card (activeSet M ?t) \<noteq> 0" using none k by blast
    moreover have "ts_mutator t k = Waiting e" using k(2) unfolding u by (simp split: if_splits)
    ultimately show ?thesis using many k(1) by (simp add: manyMutators_def summary)
  qed
  moreover have "rs_rootValues s = ts_roots t k" if "k \<in> M" "ts_mutator ?t k = Scanned s" for k s
    using many that unfolding u by (simp add: manyMutators_def split: if_splits)
  moreover have "unat (ts_gcCycleEpoch t) \<le> n" using many by (simp add: manyMutators_def)
  ultimately show ?thesis using f counts(1,2) unfolding manyMutators_def counts(3,4) by simp
qed

lemma many_park:
  assumes many: "manyMutators M n t" and m: "m \<in> M" "ts_mutator t m = Scanned s"
  shows "manyMutators M n (setMutator m (Waiting (ts_gcCycleEpoch t)) (snd (parkCurrentMutator s t)))"
proof -
  let ?t = "setMutator m (Waiting (ts_gcCycleEpoch t)) (snd (parkCurrentMutator s t))"
  have f: "finite M" using many by (simp add: manyMutators_def)
  have u: "ts_mutator ?t = (ts_mutator t)(m := Waiting (ts_gcCycleEpoch t))"
    by (simp add: setMutator_def parkCurrentMutator_def)
  note cs = card_sets [OF f m(1) u]
  have c: "card (activeSet M ?t) = card (activeSet M t)" "card (waitingSet M ?t) = Suc (card (waitingSet M t))"
    using cs(1,5) m(2) by (simp_all add: isActive_def)
  have roots: "rs_rootValues (ts_pendingRootSummary ?t) = rs_rootValues (ts_pendingRootSummary t) @ ts_roots t m"
    using many m by (simp add: setMutator_def parkCurrentMutator_def mergeRootScanSummary_def Let_def manyMutators_def)
  have same: "ts_roots ?t = ts_roots t" "ts_gcCycleEpoch ?t = ts_gcCycleEpoch t"
    "ts_activeMutatorCount ?t = ts_activeMutatorCount t" "ts_parkedMutatorCount ?t = Suc (ts_parkedMutatorCount t)"
    by (simp_all add: setMutator_def parkCurrentMutator_def)
  have "unat e \<le> unat (ts_gcCycleEpoch t) \<and>
      (e = ts_gcCycleEpoch t \<longrightarrow> set (ts_roots t k) \<subseteq> set (rs_rootValues (ts_pendingRootSummary ?t)))"
    if k: "k \<in> M" "ts_mutator ?t k = Waiting e" for k e
  proof (cases "k = m")
    case True
    then have "e = ts_gcCycleEpoch t" using k(2) by (simp add: u)
    with True show ?thesis unfolding roots by simp
  next
    case False
    with k many show ?thesis by (auto simp: u roots manyMutators_def)
  qed
  moreover have "rs_rootValues r = ts_roots t k" if "k \<in> M" "ts_mutator ?t k = Scanned r" for k r
    using many that unfolding u by (simp add: manyMutators_def split: if_splits)
  ultimately show ?thesis using many c unfolding manyMutators_def same by simp
qed

lemma many_resume:
  assumes many: "manyMutators M n t" and m: "m \<in> M" "ts_mutator t m = Waiting e"
  shows "manyMutators M n (setMutator m Running (unparkCurrentMutator t))"
proof -
  let ?t = "setMutator m Running (unparkCurrentMutator t)"
  have f: "finite M" using many by (simp add: manyMutators_def)
  have u: "ts_mutator ?t = (ts_mutator t)(m := Running)" by (simp add: setMutator_def unparkCurrentMutator_def)
  note cs = card_sets [OF f m(1) u]
  have c: "card (activeSet M ?t) = card (activeSet M t)" "card (waitingSet M ?t) = card (waitingSet M t) - 1"
    using cs(1,6) m(2) by (simp_all add: isActive_def)
  have same: "ts_roots ?t = ts_roots t" "ts_gcCycleEpoch ?t = ts_gcCycleEpoch t"
    "ts_pendingRootSummary ?t = ts_pendingRootSummary t"
    "ts_activeMutatorCount ?t = ts_activeMutatorCount t" "ts_parkedMutatorCount ?t = ts_parkedMutatorCount t - 1"
    by (simp_all add: setMutator_def unparkCurrentMutator_def)
  show ?thesis using many c unfolding manyMutators_def same u by simp
qed

lemma many_round:
  assumes many: "manyMutators M n t" and r: "vmThreadRound rd t = Some t'" and n: "Suc n < 18446744073709551616"
  shows "manyMutators M (Suc n) t'"
proof (cases "\<exists>v. t' = t\<lparr>ts_vm := v\<rparr>")
  case True
  then obtain v where "t' = t\<lparr>ts_vm := v\<rparr>" by blast
  moreover have "activeSet M (t\<lparr>ts_vm := v\<rparr>) = activeSet M t" "waitingSet M (t\<lparr>ts_vm := v\<rparr>) = waitingSet M t"
    by (simp_all add: activeSet_def waitingSet_def)
  ultimately show ?thesis using many by (simp add: manyMutators_def)
next
  case False
  have "collectPending rd t = Some t'"
  proof (cases "ts_vm t")
    case WaitPending
    then have "t = t\<lparr>ts_vm := WaitPending\<rparr>" by simp
    moreover have "t' = t \<or> t' = t\<lparr>ts_vm := WaitParked\<rparr>"
      using r WaitPending by (auto simp: vmThreadRound_def split: if_splits)
    ultimately show ?thesis using False by metis
  next
    case WaitParked
    with r False show ?thesis by (auto simp: vmThreadRound_def split: if_splits)
  qed
  then have t': "ts_mutator t' = ts_mutator t" "ts_roots t' = ts_roots t" "ts_gcCycleEpoch t' = ts_gcCycleEpoch t + 1"
    "ts_activeMutatorCount t' = ts_activeMutatorCount t" "ts_parkedMutatorCount t' = ts_parkedMutatorCount t"
    by (auto simp: collectPending_def Let_def split: option.splits sum.splits prod.splits)
  have e: "unat (ts_gcCycleEpoch t + 1) = Suc (unat (ts_gcCycleEpoch t))"
    using many n by (subst unat_plus_u64) (simp_all add: manyMutators_def)
  have "activeSet M t' = activeSet M t" "waitingSet M t' = waitingSet M t"
    by (simp_all add: activeSet_def waitingSet_def t')
  moreover have "e \<noteq> ts_gcCycleEpoch t + 1" if "unat e \<le> unat (ts_gcCycleEpoch t)" for e
    using that e by auto
  ultimately show ?thesis using many unfolding manyMutators_def t' e by (simp add: le_SucI)
qed

lemma many_mono: "manyMutators M n t \<Longrightarrow> manyMutators M (Suc n) t"
  by (simp add: manyMutators_def)

lemma many_step:
  assumes "threadStep M t t'" "manyMutators M n t" "Suc n < 18446744073709551616"
  shows "manyMutators M (Suc n) t'"
  using assms(1)
proof cases
  case (m_start m)
  show ?thesis unfolding m_start(1) by (rule many_mono [OF many_start [OF assms(2) m_start(2,3)]])
next
  case (m_clear m)
  show ?thesis by (rule many_mono, rule many_running [OF assms(2) m_clear(2), where s = Running])
    (use m_clear in \<open>auto simp: isActive_def\<close>)
next
  case (m_mutate m rs)
  show ?thesis by (rule many_mono, rule many_running [OF assms(2) m_mutate(2), where s = Running])
    (use m_mutate in \<open>auto simp: isActive_def\<close>)
next
  case (m_malloc m env rd td p rt)
  show ?thesis unfolding m_malloc(1) by (rule many_mono [OF many_call(2) [OF assms(2) m_malloc(2,3)]])
next
  case (m_array m env rd n td p rt)
  show ?thesis unfolding m_array(1) by (rule many_mono [OF many_call(2) [OF assms(2) m_array(2,3)]])
next
  case (m_request m)
  show ?thesis unfolding m_request(1) by (rule many_mono [OF many_call(1) [OF assms(2) m_request(2,3)]])
next
  case (m_notify m)
  show ?thesis by (rule many_mono, rule many_running [OF assms(2) m_notify(2), where s = Running])
    (use m_notify in \<open>auto simp: isActive_def setMutator_def notifyGCRequested_def\<close>)
next
  case (m_poll m summary s g)
  then have "s = summary"
    by (simp add: handlePendingRuntimeGCSafepoint_def rememberCurrentRuntimeSafepointOrFatal_def split: if_splits)
  then show ?thesis by (intro many_mono many_running [OF assms(2) m_poll(2), where s = "Scanned s"])
    (use m_poll in \<open>auto simp: isActive_def setMutator_def\<close>)
next
  case (m_park m s e t1)
  then have e: "e = ts_gcCycleEpoch t" "t1 = snd (parkCurrentMutator s t)" by (simp_all add: parkCurrentMutator_def)
  show ?thesis unfolding m_park(1) e by (rule many_mono [OF many_park [OF assms(2) m_park(2,3)]])
next
  case (m_resume m e)
  show ?thesis unfolding m_resume(1) by (rule many_mono [OF many_resume [OF assms(2) m_resume(2,3)]])
next
  case (m_stop m)
  show ?thesis unfolding m_stop(1) by (rule many_mono [OF many_stop [OF assms(2) m_stop(2,3)]])
next
  case (v_round rd)
  show ?thesis by (rule many_round [OF assms(2) v_round assms(3)])
qed

lemma many_reach:
  assumes "(threadStep M ^^ n) (initialThreads rt) t" "finite M" "n < 18446744073709551616"
  shows "manyMutators M n t"
  using assms(1,3)
proof (induction n arbitrary: t)
  case 0
  then have "t = initialThreads rt" by simp
  moreover have "activeSet M (initialThreads rt) = {}" "waitingSet M (initialThreads rt) = {}"
    by (auto simp: activeSet_def waitingSet_def initialThreads_def isActive_def)
  ultimately show ?case using assms(2) by (simp add: manyMutators_def) (simp add: initialThreads_def)
next
  case (Suc n)
  then obtain t1 where "(threadStep M ^^ n) (initialThreads rt) t1" "threadStep M t1 t" by auto
  with Suc show ?case using many_step by auto
qed

end
