(* ===== verification/Thread_Properties.thy ===== *)
theory Thread_Properties
  imports Thread_Safety
begin

text \<open>
  The properties of the parking protocol, with the runs that serve as witnesses and the run in
  which two mutators lose an object in use.
\<close>

section \<open>Runs\<close>

text \<open>A mutator requests a collection and notifies the VM thread; a mutator polls and parks.\<close>

definition requestedBy :: "nat \<Rightarrow> threads \<Rightarrow> threads" where
  "requestedBy m t = setMutator m Running (notifyGCRequested
     (afterCall m ((ts_runtime t)\<lparr>rt_gc := requestGC (rt_gc (ts_runtime t))\<rparr>) t))"

definition rootsOf :: "nat \<Rightarrow> threads \<Rightarrow> GCRootScanSummary" where
  "rootsOf m t = emptySummary\<lparr>rs_rootValues := ts_roots t m\<rparr>"

definition parkedBy :: "nat \<Rightarrow> threads \<Rightarrow> threads" where
  "parkedBy m t = setMutator m (Waiting (ts_gcCycleEpoch t))
     (snd (parkCurrentMutator (rootsOf m t) (setMutator m (Scanned (rootsOf m t)) t)))"

lemma requestedBy_simps [simp]:
  "ts_mutator (requestedBy m t) = (ts_mutator t)(m := Running)" "ts_gcPending (requestedBy m t)"
  "ts_roots (requestedBy m t) = ts_roots t" "ts_vm (requestedBy m t) = ts_vm t"
  "ts_activeMutatorCount (requestedBy m t) = ts_activeMutatorCount t"
  "ts_parkedMutatorCount (requestedBy m t) = ts_parkedMutatorCount t"
  "ts_gcCycleEpoch (requestedBy m t) = ts_gcCycleEpoch t"
  "ts_pendingRootSummary (requestedBy m t) = ts_pendingRootSummary t"
  "gcRequested (rt_gc (ts_runtime (requestedBy m t)))"
  "runInv (ts_runtime (requestedBy m t)) xs \<longleftrightarrow> runInv (ts_runtime t) xs"
  "rt_heap (ts_runtime (requestedBy m t)) = rt_heap (ts_runtime t)"
  by (simp_all add: requestedBy_def afterCall_def setMutator_def notifyGCRequested_def)

lemma parkedBy_simps [simp]:
  "ts_mutator (parkedBy m t) = (ts_mutator t)(m := Waiting (ts_gcCycleEpoch t))"
  "ts_roots (parkedBy m t) = ts_roots t" "ts_gcPending (parkedBy m t) = ts_gcPending t" "ts_vm (parkedBy m t) = ts_vm t"
  "ts_activeMutatorCount (parkedBy m t) = ts_activeMutatorCount t"
  "ts_parkedMutatorCount (parkedBy m t) = Suc (ts_parkedMutatorCount t)"
  "ts_gcCycleEpoch (parkedBy m t) = ts_gcCycleEpoch t"
  "rs_rootValues (ts_pendingRootSummary (parkedBy m t)) = rs_rootValues (ts_pendingRootSummary t) @ ts_roots t m"
  "ts_runtime (parkedBy m t) = ts_runtime t"
  by (simp_all add: parkedBy_def rootsOf_def setMutator_def parkCurrentMutator_def mergeRootScanSummary_def Let_def)

lemma reach_trans: "threadReach M s t \<Longrightarrow> threadReach M t u \<Longrightarrow> threadReach M s u"
  by (simp add: threadReach_def)

lemma reach_step: "threadStep M s t \<Longrightarrow> threadReach M s t"
  by (simp add: threadReach_def)

lemma reach_requested:
  assumes "m \<in> M" "ts_mutator t m = Running" "\<not> gcRequested (rt_gc (ts_runtime t))"
  shows "threadReach M t (requestedBy m t)"
proof -
  let ?t = "afterCall m ((ts_runtime t)\<lparr>rt_gc := requestGC (rt_gc (ts_runtime t))\<rparr>) t"
  have "threadStep M t ?t" by (rule m_request [OF assms(1,2)])
  moreover have "ts_mutator ?t m = Notifying"
    using assms(3) by (simp add: afterCall_def setMutator_def requestGC_def Let_def)
  then have "threadStep M ?t (requestedBy m t)" unfolding requestedBy_def by (rule m_notify [OF assms(1)])
  ultimately show ?thesis by (simp add: threadReach_def)
qed

lemma reach_parked:
  assumes "m \<in> M" "ts_mutator t m = Running" "gcRequested (rt_gc (ts_runtime t))"
  shows "threadReach M t (parkedBy m t)"
proof -
  let ?s = "rootsOf m t" and ?t = "setMutator m (Scanned (rootsOf m t)) t"
  have "threadStep M t (setMutator m (Scanned ?s) (t\<lparr>ts_runtime := (ts_runtime t)\<lparr>rt_gc := rt_gc (ts_runtime t)\<rparr>\<rparr>))"
    by (rule m_poll [OF assms(1,2), of ?s])
      (use assms(3) in \<open>simp_all add: rootsOf_def handlePendingRuntimeGCSafepoint_def isGCRequested_def
          rememberCurrentRuntimeSafepointOrFatal_def\<close>)
  then have "threadStep M t ?t" by simp
  moreover have "threadStep M ?t (parkedBy m t)"
    unfolding parkedBy_def
    by (rule m_park [OF assms(1), of _ ?s]) (simp_all add: setMutator_def parkCurrentMutator_def)
  ultimately show ?thesis by (simp add: threadReach_def)
qed

text \<open>One mutator, up to the point where the VM thread collects.\<close>

definition singleRun :: threads where
  "singleRun = (parkedBy 0 (requestedBy 0 (setMutator 0 Running (markMutatorStarted (initialThreads objectRuntime)))))
     \<lparr>ts_vm := WaitParked\<rparr>"

lemma objectRuntime_quiet: "\<not> gcRequested (rt_gc objectRuntime)"
proof -
  have "rt_gc objectRuntime = recordManagedAllocation 24 (rt_gc emptyRuntime)"
    using objectAllocation_outcome(2) by (simp add: allocationOutcome_def)
  then show ?thesis
    by (simp add: recordManagedAllocation_def emptyRuntime_def initialRuntime_def initial_gc_state_def Let_def
        kDefaultManagedHeapLimitBytes_def)
qed

lemma singleRun_reach: "threadReach {0} (initialThreads objectRuntime) singleRun"
proof -
  let ?t1 = "setMutator 0 Running (markMutatorStarted (initialThreads objectRuntime))"
  have "threadReach {0} (initialThreads objectRuntime) ?t1"
    by (rule reach_step, rule m_start) (simp_all add: initialThreads_def)
  moreover have "threadReach {0} ?t1 (requestedBy 0 ?t1)"
    by (rule reach_requested)
      (simp_all add: setMutator_def markMutatorStarted_def initialThreads_def objectRuntime_quiet)
  moreover have "threadReach {0} (requestedBy 0 ?t1) (parkedBy 0 (requestedBy 0 ?t1))"
    by (rule reach_parked) simp_all
  moreover have "threadReach {0} (parkedBy 0 (requestedBy 0 ?t1)) singleRun"
    by (rule reach_step, rule v_round)
      (simp add: vmThreadRound_def singleRun_def setMutator_def markMutatorStarted_def initialThreads_def)
  ultimately show ?thesis using reach_trans by blast
qed

lemma singleRun_collecting: "collecting singleRun"
  by (simp add: collecting_def singleRun_def setMutator_def markMutatorStarted_def initialThreads_def)

section \<open>One mutator\<close>

lemma round_collects:
  assumes "vmThreadRound rd t = Some t'" "ts_completedGCCycleCount t' \<noteq> ts_completedGCCycleCount t"
  shows "collecting t" "collectPending rd t = Some t'"
  using assms by (auto simp: vmThreadRound_def collecting_def split: vm_state.splits if_splits)

lemma collectPending_counts: "collectPending rd t = Some t' \<Longrightarrow> ts_completedGCCycleCount t' = ts_completedGCCycleCount t + 1"
  by (auto simp: collectPending_def Let_def split: option.splits sum.splits prod.splits)

text \<open>C2. With one mutator, as \<open>runManagedProgram\<close> starts it: whenever a round of the VM thread completes a collection, the
  mutator is parked at a safepoint of this cycle, the collection is made with exactly its roots, and the objects that survive
  are exactly those the mutator can reach.  The collection is seen from the count of completed cycles; that the mutator has
  parked is a consequence.  The allocations of the run get memory that does not read as live headers.\<close>

theorem single_mutator_collection_is_sound:
  assumes "threadReach {0} (initialThreads rt) t" "runInv rt xs" "\<not> gcRequested (rt_gc rt)"
    and "vmThreadRound rd t = Some t'" "ts_completedGCCycleCount t' \<noteq> ts_completedGCCycleCount t"
  shows "ts_mutator t 0 = Waiting (ts_gcCycleEpoch t) \<and> rs_rootValues (ts_pendingRootSummary t) = ts_roots t 0 \<and>
    (\<exists>ys. runInv (ts_runtime t) ys \<and>
       runInv (ts_runtime t') (filter (heapReach rd (rt_heap (ts_runtime t)) (ts_roots t 0)) ys))"
proof -
  note c = round_collects [OF assms(4,5)]
  have o: "oneMutator t" by (rule oneMutator_reach [OF assms(1-3)])
  have w: "isActive (ts_mutator t 0)" using c(1) o by (auto simp: oneMutator_def collecting_def split: if_splits)
  then obtain e where e: "ts_mutator t 0 = Waiting e"
    using c(1) o by (cases "ts_mutator t 0") (auto simp: oneMutator_def collecting_def isActive_def)
  have roots: "e = ts_gcCycleEpoch t" "rs_rootValues (ts_pendingRootSummary t) = ts_roots t 0"
    using o e c(1) by (auto simp: oneMutator_def collecting_def split: if_splits)
  obtain ys where ys: "runInv (ts_runtime t) ys" using o by (auto simp: oneMutator_def)
  then obtain t1 where "collectPending rd t = Some t1"
    "runInv (ts_runtime t1) (filter (heapReach rd (rt_heap (ts_runtime t)) (rs_rootValues (ts_pendingRootSummary t))) ys)"
    by (rule collectPending_collect)
  with c(2) e roots ys show ?thesis by auto
qed

lemma singleRun_round:
  obtains t' where "vmThreadRound plainMemory singleRun = Some t'"
    "ts_completedGCCycleCount t' \<noteq> ts_completedGCCycleCount singleRun"
proof -
  have "oneMutator singleRun" by (rule oneMutator_reach [OF singleRun_reach objectRuntime_inv objectRuntime_quiet])
  then obtain ys where "runInv (ts_runtime singleRun) ys" by (auto simp: oneMutator_def)
  then obtain t' where t': "collectPending plainMemory singleRun = Some t'" by (rule collectPending_collect)
  then have "vmThreadRound plainMemory singleRun = Some t'"
    using singleRun_collecting by (simp add: vmThreadRound_def collecting_def)
  then show ?thesis using that collectPending_counts [OF t'] by simp
qed

theorem single_mutator_collection_is_sound_witness:
  "ts_mutator singleRun 0 = Waiting (ts_gcCycleEpoch singleRun) \<and> rs_rootValues (ts_pendingRootSummary singleRun) = ts_roots singleRun 0"
proof -
  obtain t' where t': "vmThreadRound plainMemory singleRun = Some t'"
    "ts_completedGCCycleCount t' \<noteq> ts_completedGCCycleCount singleRun" by (rule singleRun_round)
  from single_mutator_collection_is_sound [OF singleRun_reach objectRuntime_inv objectRuntime_quiet t'] show ?thesis by blast
qed

text \<open>C16. With one mutator no request is lost: when the mutator waits at a safepoint, the VM thread
  is able to run and releases it in at most two rounds, whatever else is true of the state.\<close>

theorem single_mutator_is_released:
  assumes "threadReach {0} (initialThreads rt) t" "runInv rt xs" "\<not> gcRequested (rt_gc rt)"
    and "ts_mutator t 0 = Waiting (ts_gcCycleEpoch t)"
  shows "\<exists>t1. vmThreadRound rd t = Some t1 \<and> (ts_gcCycleEpoch t1 \<noteq> ts_gcCycleEpoch t \<or>
    (\<exists>t2. vmThreadRound rd t1 = Some t2 \<and> ts_gcCycleEpoch t2 \<noteq> ts_gcCycleEpoch t))"
proof -
  have o: "oneMutator t" by (rule oneMutator_reach [OF assms(1-3)])
  have s: "ts_gcPending t" "ts_activeMutatorCount t = 1" "ts_parkedMutatorCount t = 1"
    using o assms(4) by (simp_all add: oneMutator_def isActive_def)
  obtain ys where ys: "runInv (ts_runtime t) ys" using o by (auto simp: oneMutator_def)
  define u where "u = t\<lparr>ts_vm := WaitParked\<rparr>"
  have yu: "runInv (ts_runtime u) ys" using ys by (simp add: u_def)
  obtain t2 where t2: "collectPending rd u = Some t2" "ts_gcCycleEpoch t2 = ts_gcCycleEpoch u + 1"
    by (rule collectPending_collect [OF yu, of rd]) blast
  have last: "vmThreadRound rd u = Some t2" using t2(1) s by (simp add: vmThreadRound_def u_def)
  have ep: "ts_gcCycleEpoch t2 \<noteq> ts_gcCycleEpoch t" using t2(2) by (simp add: u_def)
  show ?thesis
  proof (cases "ts_vm t")
    case WaitPending
    then have "vmThreadRound rd t = Some u" using s by (simp add: vmThreadRound_def u_def)
    with last ep show ?thesis by blast
  next
    case WaitParked
    then have "u = t" by (simp add: u_def)
    with last ep show ?thesis by blast
  qed
qed

theorem single_mutator_is_released_witness:
  "\<exists>t1. vmThreadRound plainMemory singleRun = Some t1"
proof -
  have "ts_mutator singleRun 0 = Waiting (ts_gcCycleEpoch singleRun)" by (simp add: singleRun_def)
  from single_mutator_is_released [OF singleRun_reach objectRuntime_inv objectRuntime_quiet this, of plainMemory]
  show ?thesis by blast
qed

text \<open>The VM thread's first wait returns at once, and its loop then spins without ever
  releasing the mutex, in a state with a pending collection and no active mutator.  With requests
  made by one mutator only, this state cannot be reached.\<close>

theorem vm_thread_does_not_spin:
  assumes "threadReach {0} (initialThreads rt) t" "runInv rt xs" "\<not> gcRequested (rt_gc rt)" "ts_gcPending t"
  shows "ts_activeMutatorCount t \<noteq> 0"
proof -
  have "oneMutator t" by (rule oneMutator_reach [OF assms(1-3)])
  with assms(4) show ?thesis by (cases "ts_mutator t 0") (auto simp: oneMutator_def isActive_def)
qed

theorem vm_thread_does_not_spin_witness: "ts_activeMutatorCount singleRun \<noteq> 0"
  by (rule vm_thread_does_not_spin [OF singleRun_reach objectRuntime_inv objectRuntime_quiet])
     (simp add: singleRun_def)

text \<open>A collection requested while no mutator is active (by the host, through the public
  \<open>requestGC\<close>) makes the VM thread spin: each of its rounds ends where it began, so it never waits
  and never releases the mutex that \<open>markMutatorStarted\<close> needs.\<close>

theorem vm_thread_spins_on_early_request:
  "vmThreadRound rd (notifyGCRequested (initialThreads rt)) = Some (notifyGCRequested (initialThreads rt))"
  by (simp add: notifyGCRequested_def initialThreads_def vmThreadRound_def)

section \<open>Several mutators\<close>

text \<open>C14. With any number of mutators, in a run of fewer than 2 ^ 64 steps: whenever a round of the VM thread completes a collection, every active mutator is
  waiting in its safepoint and its roots are among those the collection is made with, provided that no mutator is still
  leaving an earlier wait.\<close>

theorem many_mutators_collection_has_all_roots:
  assumes "(threadStep M ^^ n) (initialThreads rt) t" "finite M" "n < 18446744073709551616"
    and "vmThreadRound rd t = Some t'" "ts_completedGCCycleCount t' \<noteq> ts_completedGCCycleCount t"
    and fresh: "\<And>m e. m \<in> M \<Longrightarrow> ts_mutator t m = Waiting e \<Longrightarrow> e = ts_gcCycleEpoch t"
    and m: "m \<in> M" "isActive (ts_mutator t m)"
  shows "ts_mutator t m = Waiting (ts_gcCycleEpoch t) \<and> set (ts_roots t m) \<subseteq> set (rs_rootValues (ts_pendingRootSummary t))"
proof -
  have many: "manyMutators M n t" by (rule many_reach [OF assms(1-3)])
  have "finite (activeSet M t)" using assms(2) by (simp add: activeSet_def)
  moreover have "card (activeSet M t) \<le> card (waitingSet M t)"
    using many round_collects(1) [OF assms(4,5)] by (simp add: manyMutators_def collecting_def)
  ultimately have "waitingSet M t = activeSet M t" by (rule card_seteq [OF _ waiting_active])
  then obtain e where e: "ts_mutator t m = Waiting e" using m by (auto simp: activeSet_def waitingSet_def)
  with fresh [OF m(1) e] many m(1) show ?thesis by (auto simp: manyMutators_def)
qed

lemma singleRun_steps: "\<exists>n < 100. (threadStep {0} ^^ n) (initialThreads objectRuntime) singleRun"
proof -
  let ?t1 = "setMutator 0 Running (markMutatorStarted (initialThreads objectRuntime))"
  let ?a = "afterCall 0 ((ts_runtime ?t1)\<lparr>rt_gc := requestGC (rt_gc (ts_runtime ?t1))\<rparr>) ?t1"
  let ?t2 = "requestedBy 0 ?t1"
  let ?s = "rootsOf 0 ?t2"
  have quiet: "\<not> gcRequested (rt_gc (ts_runtime ?t1))"
    by (simp add: setMutator_def markMutatorStarted_def initialThreads_def objectRuntime_quiet)
  have s1: "threadStep {0} (initialThreads objectRuntime) ?t1" by (rule m_start) (simp_all add: initialThreads_def)
  have s2: "threadStep {0} ?t1 ?a" by (rule m_request) (simp_all add: setMutator_def)
  have s3: "threadStep {0} ?a ?t2" unfolding requestedBy_def
    by (rule m_notify) (use quiet in \<open>simp_all add: afterCall_def setMutator_def requestGC_def Let_def\<close>)
  have "threadStep {0} ?t2 (setMutator 0 (Scanned ?s) (?t2\<lparr>ts_runtime := (ts_runtime ?t2)\<lparr>rt_gc := rt_gc (ts_runtime ?t2)\<rparr>\<rparr>))"
    by (rule m_poll [of _ _ _ ?s]) (simp_all add: rootsOf_def handlePendingRuntimeGCSafepoint_def isGCRequested_def
          rememberCurrentRuntimeSafepointOrFatal_def)
  then have s4: "threadStep {0} ?t2 (setMutator 0 (Scanned ?s) ?t2)" by simp
  have s5: "threadStep {0} (setMutator 0 (Scanned ?s) ?t2) (parkedBy 0 ?t2)" unfolding parkedBy_def
    by (rule m_park [of _ _ _ ?s]) (simp_all add: setMutator_def parkCurrentMutator_def)
  have s6: "threadStep {0} (parkedBy 0 ?t2) singleRun"
    by (rule v_round) (simp add: vmThreadRound_def singleRun_def setMutator_def markMutatorStarted_def initialThreads_def)
  have "(threadStep {0} ^^ 0) (initialThreads objectRuntime) (initialThreads objectRuntime)" by simp
  from relpowp_Suc_I [OF this s1] have "(threadStep {0} ^^ Suc 0) (initialThreads objectRuntime) ?t1" .
  from relpowp_Suc_I [OF this s2] have "(threadStep {0} ^^ Suc (Suc 0)) (initialThreads objectRuntime) ?a" .
  from relpowp_Suc_I [OF relpowp_Suc_I [OF this s3] s4]
  have "(threadStep {0} ^^ Suc (Suc (Suc (Suc 0)))) (initialThreads objectRuntime) (setMutator 0 (Scanned ?s) ?t2)" .
  from relpowp_Suc_I [OF relpowp_Suc_I [OF this s5] s6]
  have "(threadStep {0} ^^ Suc (Suc (Suc (Suc (Suc (Suc 0)))))) (initialThreads objectRuntime) singleRun" .
  then show ?thesis by (intro exI [of _ "Suc (Suc (Suc (Suc (Suc (Suc 0)))))"]) simp
qed

theorem many_mutators_collection_has_all_roots_witness:
  "set (ts_roots singleRun 0) \<subseteq> set (rs_rootValues (ts_pendingRootSummary singleRun))"
proof -
  obtain n where n: "n < 100" "(threadStep {0} ^^ n) (initialThreads objectRuntime) singleRun"
    using singleRun_steps by blast
  obtain t' where t': "vmThreadRound plainMemory singleRun = Some t'"
    "ts_completedGCCycleCount t' \<noteq> ts_completedGCCycleCount singleRun" by (rule singleRun_round)
  have "ts_mutator singleRun 0 = Waiting (ts_gcCycleEpoch singleRun) \<and>
      set (ts_roots singleRun 0) \<subseteq> set (rs_rootValues (ts_pendingRootSummary singleRun))"
    by (rule many_mutators_collection_has_all_roots [OF n(2) _ _ t'])
       (use n(1) in \<open>auto simp: singleRun_def isActive_def\<close>)
  then show ?thesis by blast
qed

text \<open>The state in which the VM thread starts a first collection, with both mutators waiting, and the one in which it starts a
  second collection while mutator 1 still waits for the first.\<close>

definition firstCycle :: "threads \<Rightarrow> bool" where
  "firstCycle t \<longleftrightarrow> ts_mutator t 0 = Waiting 0 \<and> ts_mutator t 1 = Waiting 0 \<and> ts_gcCycleEpoch t = 0 \<and> ts_roots t 0 = [] \<and>
     ts_roots t 1 = [1048656] \<and> ts_activeMutatorCount t = 2 \<and> ts_parkedMutatorCount t = 2 \<and> collecting t \<and>
     rs_rootValues (ts_pendingRootSummary t) = [1048656] \<and> runInv (ts_runtime t) [1048576]"

definition secondCycle :: "threads \<Rightarrow> bool" where
  "secondCycle t \<longleftrightarrow> isActive (ts_mutator t 1) \<and> ts_roots t 1 = [1048656] \<and> collecting t \<and>
     rs_rootValues (ts_pendingRootSummary t) = [] \<and> runInv (ts_runtime t) [1048576]"

lemma owner_of_object: "runInv rt [1048576] \<Longrightarrow> findOwningAllocation (rt_heap rt) 1048656 = Some 1048576"
  using findOwning_payload_start [of True "rt_heap rt" "[1048576]" 1048576]
  by (simp add: soundRuntime_def payloadAddress_def sizeofAllocationHeader_def)

lemma reach_firstCycle: "\<exists>t. threadReach {0, 1} (initialThreads objectRuntime) t \<and> firstCycle t"
proof -
  note One_nat_def [simp del]
  let ?M = "{0, 1 :: nat}"
  define t1 where "t1 = setMutator 0 Running (markMutatorStarted (initialThreads objectRuntime))"
  define t2 where "t2 = setMutator 1 Running (markMutatorStarted t1)"
  define t3 where "t3 = t2\<lparr>ts_roots := (ts_roots t2)(1 := [1048656])\<rparr>"
  define t4 where "t4 = requestedBy 0 t3"
  define t5 where "t5 = parkedBy 1 (parkedBy 0 t4)"
  define t6 where "t6 = t5\<lparr>ts_vm := WaitParked\<rparr>"
  have base: "ts_mutator t3 0 = Running" "ts_mutator t3 1 = Running" "ts_runtime t3 = objectRuntime"
    "ts_roots t3 0 = []" "ts_roots t3 1 = [1048656]" "ts_activeMutatorCount t3 = 2" "ts_parkedMutatorCount t3 = 0"
    "ts_vm t3 = WaitPending" "ts_gcCycleEpoch t3 = 0" "rs_rootValues (ts_pendingRootSummary t3) = []"
    by (simp_all add: t3_def t2_def t1_def setMutator_def markMutatorStarted_def initialThreads_def emptySummary_def)
  have s1: "threadStep ?M (initialThreads objectRuntime) t1" unfolding t1_def
    by (rule m_start) (simp_all add: initialThreads_def)
  have s2: "threadStep ?M t1 t2" unfolding t2_def
    by (rule m_start) (simp_all add: t1_def setMutator_def markMutatorStarted_def initialThreads_def)
  have s3: "threadStep ?M t2 t3" unfolding t3_def
    by (rule m_mutate) (simp_all add: t2_def t1_def setMutator_def markMutatorStarted_def initialThreads_def)
  have s4: "threadReach ?M t3 t4" unfolding t4_def
    by (rule reach_requested) (simp_all add: base objectRuntime_quiet)
  have s5: "threadReach ?M t4 (parkedBy 0 t4)" by (rule reach_parked) (simp_all add: t4_def base)
  have s6: "threadReach ?M (parkedBy 0 t4) t5" unfolding t5_def
    by (rule reach_parked) (simp_all add: t4_def base)
  have s7: "threadStep ?M t5 t6" by (rule v_round) (simp add: vmThreadRound_def t6_def t5_def t4_def base)
  note reach6 = reach_trans [OF reach_step [OF s1] reach_trans [OF reach_step [OF s2] reach_trans [OF
    reach_step [OF s3] reach_trans [OF s4 reach_trans [OF s5 reach_trans [OF s6 reach_step [OF s7]]]]]]]
  have "firstCycle t6"
    by (simp add: firstCycle_def collecting_def t6_def t5_def t4_def base objectRuntime_inv)
  with reach6 show ?thesis by blast
qed

lemma firstCycle_collects:
  assumes "firstCycle t"
  obtains t' where "threadStep {0, 1} t t'" "runInv (ts_runtime t') [1048576]" "\<not> gcRequested (rt_gc (ts_runtime t'))"
    "ts_pendingRootSummary t' = emptySummary" "ts_gcCycleEpoch t' = 1" "ts_vm t' = WaitPending" "ts_mutator t' = ts_mutator t"
    "ts_roots t' = ts_roots t" "ts_activeMutatorCount t' = 2" "ts_parkedMutatorCount t' = 2"
proof -
  have s: "collecting t" "rs_rootValues (ts_pendingRootSummary t) = [1048656]" "runInv (ts_runtime t) [1048576]"
    "ts_gcCycleEpoch t = 0" "ts_activeMutatorCount t = 2" "ts_parkedMutatorCount t = 2"
    using assms by (simp_all add: firstCycle_def)
  obtain t' where t': "collectPending plainMemory t = Some t'"
    "runInv (ts_runtime t') (filter (heapReach plainMemory (rt_heap (ts_runtime t)) (rs_rootValues (ts_pendingRootSummary t))) [1048576])"
    "\<not> gcRequested (rt_gc (ts_runtime t'))" "ts_pendingRootSummary t' = emptySummary"
    "ts_gcCycleEpoch t' = ts_gcCycleEpoch t + 1" "ts_vm t' = WaitPending" "ts_mutator t' = ts_mutator t"
    "ts_roots t' = ts_roots t" "ts_activeMutatorCount t' = ts_activeMutatorCount t"
    "ts_parkedMutatorCount t' = ts_parkedMutatorCount t"
    by (rule collectPending_collect [OF s(3), of plainMemory])
  have "heapReach plainMemory (rt_heap (ts_runtime t)) [1048656] 1048576"
    unfolding heapReach_def by (rule reach.intros(1) [of 1048656]) (simp_all add: owner_of_object [OF s(3)])
  then have "runInv (ts_runtime t') [1048576]" using t'(2) by (simp add: s(2))
  moreover have "threadStep {0, 1} t t'"
    by (rule v_round [of plainMemory]) (use s(1) t'(1) in \<open>simp add: vmThreadRound_def collecting_def\<close>)
  ultimately show ?thesis using that t'(3-10) s(4-6) by simp
qed

lemma reach_secondCycle:
  assumes "firstCycle t"
  shows "\<exists>t'. threadReach {0, 1} t t' \<and> secondCycle t'"
proof -
  note One_nat_def [simp del]
  let ?M = "{0, 1 :: nat}"
  have six: "ts_mutator t 0 = Waiting 0" "ts_mutator t 1 = Waiting 0" "ts_roots t 0 = []" "ts_roots t 1 = [1048656]"
    using assms by (simp_all add: firstCycle_def)
  obtain t7 where t7: "threadStep ?M t t7" "runInv (ts_runtime t7) [1048576]" "\<not> gcRequested (rt_gc (ts_runtime t7))"
    "ts_pendingRootSummary t7 = emptySummary" "ts_gcCycleEpoch t7 = 1" "ts_vm t7 = WaitPending" "ts_mutator t7 = ts_mutator t"
    "ts_roots t7 = ts_roots t" "ts_activeMutatorCount t7 = 2" "ts_parkedMutatorCount t7 = 2"
    using assms by (rule firstCycle_collects)
  define t8 where "t8 = setMutator 0 Running (unparkCurrentMutator t7)"
  define t9 where "t9 = parkedBy 0 (requestedBy 0 t8)"
  define t' where "t' = t9\<lparr>ts_vm := WaitParked\<rparr>"
  have eight: "ts_mutator t8 0 = Running" "ts_mutator t8 1 = Waiting 0" "ts_runtime t8 = ts_runtime t7" "ts_gcCycleEpoch t8 = 1"
    "ts_roots t8 0 = []" "ts_roots t8 1 = [1048656]" "ts_activeMutatorCount t8 = 2" "ts_parkedMutatorCount t8 = 1"
    "ts_vm t8 = WaitPending" "rs_rootValues (ts_pendingRootSummary t8) = []"
    by (simp_all add: t8_def setMutator_def unparkCurrentMutator_def t7 six emptySummary_def)
  have s9: "threadStep ?M t7 t8" unfolding t8_def by (rule m_resume [of _ _ _ 0]) (simp_all add: t7 six)
  have s10: "threadReach ?M t8 (requestedBy 0 t8)" by (rule reach_requested) (simp_all add: eight t7(3))
  have s11: "threadReach ?M (requestedBy 0 t8) t9" unfolding t9_def by (rule reach_parked) simp_all
  have s12: "threadStep ?M t9 t'" by (rule v_round) (simp add: vmThreadRound_def t'_def t9_def eight)
  note reach = reach_trans [OF reach_step [OF t7(1)] reach_trans [OF reach_step [OF s9]
    reach_trans [OF s10 reach_trans [OF s11 reach_step [OF s12]]]]]
  moreover have "secondCycle t'"
    by (simp add: secondCycle_def collecting_def isActive_def t'_def t9_def eight t7(2))
  ultimately show ?thesis by blast
qed

lemma secondCycle_loses:
  assumes "secondCycle t"
  shows "\<exists>t'. vmThreadRound plainMemory t = Some t' \<and> isActive (ts_mutator t' 1) \<and> ts_roots t' 1 = [1048656] \<and>
    findOwningAllocation (rt_heap (ts_runtime t')) 1048656 = None"
proof -
  have s: "isActive (ts_mutator t 1)" "ts_roots t 1 = [1048656]" "collecting t" "rs_rootValues (ts_pendingRootSummary t) = []"
    "runInv (ts_runtime t) [1048576]" using assms unfolding secondCycle_def by blast+
  obtain t' where t': "collectPending plainMemory t = Some t'"
    "runInv (ts_runtime t') (filter (heapReach plainMemory (rt_heap (ts_runtime t)) (rs_rootValues (ts_pendingRootSummary t))) [1048576])"
    "ts_mutator t' = ts_mutator t" "ts_roots t' = ts_roots t"
    by (rule collectPending_collect [OF s(5), of plainMemory])
  have noReach: "\<not> heapReach plainMemory (rt_heap (ts_runtime t)) [] h" for h
  proof
    assume "heapReach plainMemory (rt_heap (ts_runtime t)) [] h"
    then show False unfolding heapReach_def by (induction rule: reach.induct) simp_all
  qed
  have gone: "heapInv (rt_heap (ts_runtime t')) []" using t'(2) by (simp add: s(4) noReach soundRuntime_def)
  have "findOwningAllocation (rt_heap (ts_runtime t')) 1048656 = None"
  proof (rule ccontr)
    assume "findOwningAllocation (rt_heap (ts_runtime t')) 1048656 \<noteq> None"
    then obtain h where "findOwningAllocation (rt_heap (ts_runtime t')) 1048656 = Some h" by blast
    then show False using findOwning_iff [OF gone] by simp
  qed
  moreover have "vmThreadRound plainMemory t = Some t'" using t'(1) s(3) by (simp add: vmThreadRound_def collecting_def)
  ultimately show ?thesis using s(1,2) t'(3,4) by simp
qed

text \<open>C15. Without that condition the guarantee fails with two mutators: a mutator that was released
  but has not yet left its wait is still counted in \<open>parkedMutatorCount_\<close>, so that the next
  collection starts as soon as the other mutator parks, without the roots of the first, and an
  object that the first mutator holds in a root is reclaimed.\<close>

theorem two_mutators_lose_an_object:
  "\<exists>t t'. threadReach {0, 1} (initialThreads objectRuntime) t \<and> collecting t \<and> vmThreadRound plainMemory t = Some t' \<and>
     isActive (ts_mutator t' 1) \<and> ts_roots t' 1 = [1048656] \<and>
     findOwningAllocation (rt_heap (ts_runtime t)) 1048656 = Some 1048576 \<and>
     findOwningAllocation (rt_heap (ts_runtime t')) 1048656 = None"
proof -
  obtain t1 where t1: "threadReach {0, 1} (initialThreads objectRuntime) t1" "firstCycle t1" using reach_firstCycle by blast
  obtain t where t: "threadReach {0, 1} t1 t" "secondCycle t" using reach_secondCycle [OF t1(2)] by blast
  have "collecting t" "runInv (ts_runtime t) [1048576]" using t(2) unfolding secondCycle_def by blast+
  then show ?thesis using reach_trans [OF t1(1) t(1)] secondCycle_loses [OF t(2)] owner_of_object by blast
qed

end
