(* ===== verification/Stackmap_Registry.thy ===== *)
theory Stackmap_Registry
  imports Root_Scan
begin

text \<open>
  Registration of the stackmaps of a loaded object: \<open>GCStackMapRegistry::registerObject\<close> and the
  registry's other operations, \<open>src/src/mvm/gc.cc\<close>.

  Object files are read through LLVM's accessors; what these return is the data of the records
  below, where a fallible accessor is a sum.  \<open>StackMapParser\<close> is the parameter \<open>parse\<close> of
  \<open>registerObject\<close>, \<open>getSectionLoadAddress\<close> the parameter \<open>loadAddress\<close>, and \<open>llvm::sort\<close> the
  parameter \<open>sorted_by\<close>, because its result is not determined when two keys are equal.
\<close>

section \<open>Object files\<close>

record section_ref =
  sec_index :: "32 word"
  sec_address :: u64

record object_symbol =
  sym_isFunction :: "gc_error + bool"
  sym_name :: "gc_error + string"
  sym_section :: "gc_error + section_ref option"
  sym_address :: "gc_error + u64"

record relocation_ref =
  rel_offset :: u64
  rel_symbol :: "object_symbol option"

record object_section = section_ref +
  sec_name :: "gc_error + string"
  sec_contents :: "gc_error + 8 word list"
  sec_relocations :: "relocation_ref list"

record object_file =
  obj_sections :: "object_section list"
  obj_symbols :: "object_symbol list"

text \<open>What the parser reads from a section: function descriptors (address, record count), constants
  and records.\<close>

record stackmap_record =
  smr_id :: u64
  smr_instructionOffset :: "32 word"
  smr_locations :: "stackmap_location list"

record stackmap =
  sm_functions :: "(u64 \<times> u64) list"
  sm_constants :: "u64 list"
  sm_records :: "stackmap_record list"

record FunctionSymbolAddress =
  fs_objectAddress :: u64
  fs_loadedAddress :: u64
  fs_name :: string

section \<open>Function symbols\<close>

definition isStackMapSection :: "string \<Rightarrow> bool" where
  "isStackMapSection name \<longleftrightarrow> name = ''.llvm_stackmaps'' \<or> name = ''llvm_stackmaps''"

definition hasSection :: "object_file \<Rightarrow> 32 word \<Rightarrow> bool" where
  "hasSection obj i \<longleftrightarrow> i \<in> set (map sec_index (obj_sections obj))"

text \<open>One iteration of the loop over the symbols: an error, nothing, or a function symbol.\<close>

definition functionSymbolOf ::
  "object_file \<Rightarrow> (32 word \<Rightarrow> u64) \<Rightarrow> object_symbol \<Rightarrow> gc_error + FunctionSymbolAddress option" where
  "functionSymbolOf obj loadAddress symbol =
     bindE (sym_isFunction symbol) (\<lambda>isFunction.
     if \<not> isFunction then Inr None
     else bindE (sym_name symbol) (\<lambda>symbolName.
     bindE (sym_section symbol) (\<lambda>symbolSection.
     case symbolSection of
       None \<Rightarrow> Inr None
     | Some sec \<Rightarrow>
         bindE (sym_address symbol) (\<lambda>symbolAddress.
         if \<not> hasSection obj (sec_index sec) then Inr None
         else Inr (Some \<lparr>fs_objectAddress = symbolAddress,
                fs_loadedAddress = loadAddress (sec_index sec) + symbolAddress - sec_address sec,
                fs_name = symbolName\<rparr>)))))"

fun collectFunctionSymbols ::
  "object_file \<Rightarrow> (32 word \<Rightarrow> u64) \<Rightarrow> object_symbol list \<Rightarrow> gc_error + FunctionSymbolAddress list" where
  "collectFunctionSymbols obj loadAddress [] = Inr []"
| "collectFunctionSymbols obj loadAddress (symbol # rest) =
     bindE (functionSymbolOf obj loadAddress symbol) (\<lambda>s.
     bindE (collectFunctionSymbols obj loadAddress rest) (\<lambda>symbols.
     Inr (case s of None \<Rightarrow> symbols | Some f \<Rightarrow> f # symbols)))"

text \<open>The \<open>StringMap\<close>: the last symbol of a name stays.\<close>

definition symbolsByName :: "FunctionSymbolAddress list \<Rightarrow> string \<rightharpoonup> FunctionSymbolAddress" where
  "symbolsByName symbols = fold (\<lambda>s m. m(fs_name s \<mapsto> s)) symbols Map.empty"

section \<open>Relocations\<close>

text \<open>The relocations of the first section of the original object with this name.\<close>

fun originalRelocations :: "object_section list \<Rightarrow> string \<Rightarrow> gc_error + relocation_ref list" where
  "originalRelocations [] name = Inr []"
| "originalRelocations (sec # rest) name =
     bindE (sec_name sec) (\<lambda>originalName.
     if originalName \<noteq> name then originalRelocations rest name else Inr (sec_relocations sec))"

text \<open>The relocations to use and whether they are the original object's.\<close>

definition chooseRelocations :: "object_file \<Rightarrow> object_section \<Rightarrow> string \<Rightarrow> gc_error + (relocation_ref list \<times> bool)" where
  "chooseRelocations obj sec name =
     bindE (originalRelocations (obj_sections obj) name) (\<lambda>relocations.
     if relocations \<noteq> [] then Inr (relocations, True) else Inr (sec_relocations sec, False))"

definition kStackMapHeaderSize :: u64 where
  "kStackMapHeaderSize = 16"

definition kStackMapFunctionRecordSize :: u64 where
  "kStackMapFunctionRecordSize = 24"

text \<open>The index of the function descriptor that a relocation at this offset patches.\<close>

definition relocatedFunctionIndex :: "u64 \<Rightarrow> nat \<Rightarrow> nat option" where
  "relocatedFunctionIndex relocationOffset numFunctions =
     (if relocationOffset < kStackMapHeaderSize then None
      else if (relocationOffset - kStackMapHeaderSize) mod kStackMapFunctionRecordSize \<noteq> 0 then None
      else let functionIndex = unat ((relocationOffset - kStackMapHeaderSize) div kStackMapFunctionRecordSize)
           in if functionIndex \<ge> numFunctions then None else Some functionIndex)"

text \<open>The address a relocation's symbol is loaded at.  When the relocations are the original
  object's, the code compares the symbol's section with the end iterator of the debug object, so a
  symbol without section passes the test and the end iterator is dereferenced.\<close>

definition relocationTarget ::
  "object_file \<Rightarrow> (32 word \<Rightarrow> u64) \<Rightarrow> (string \<rightharpoonup> FunctionSymbolAddress) \<Rightarrow> bool \<Rightarrow> object_symbol \<Rightarrow> gc_error + u64" where
  "relocationTarget obj loadAddress byName usingOriginal symbol =
     bindE (sym_address symbol) (\<lambda>symbolAddress.
     bindE (sym_name symbol) (\<lambda>symbolName.
     case byName symbolName of
       Some original \<Rightarrow> Inr (fs_loadedAddress original)
     | None \<Rightarrow>
         bindE (sym_section symbol) (\<lambda>symbolSection.
         case symbolSection of
           None \<Rightarrow> Inl (if usingOriginal then DereferencedSectionEnd else RelocationSymbolWithoutSection)
         | Some sec \<Rightarrow>
             if \<not> hasSection obj (sec_index sec) then Inl (RelocationSectionUnknown (sec_index sec))
             else Inr (loadAddress (sec_index sec) + symbolAddress - sec_address sec))))"

fun resolveRelocations ::
  "object_file \<Rightarrow> (32 word \<Rightarrow> u64) \<Rightarrow> (string \<rightharpoonup> FunctionSymbolAddress) \<Rightarrow> bool \<Rightarrow> relocation_ref list \<Rightarrow>
   u64 list \<Rightarrow> gc_error + u64 list" where
  "resolveRelocations obj loadAddress byName usingOriginal [] addresses = Inr addresses"
| "resolveRelocations obj loadAddress byName usingOriginal (relocation # rest) addresses =
     (case relocatedFunctionIndex (rel_offset relocation) (length addresses) of
        None \<Rightarrow> resolveRelocations obj loadAddress byName usingOriginal rest addresses
      | Some functionIndex \<Rightarrow>
          (case rel_symbol relocation of
             None \<Rightarrow> Inl RelocationWithoutSymbol
           | Some symbol \<Rightarrow>
               bindE (relocationTarget obj loadAddress byName usingOriginal symbol) (\<lambda>target.
               resolveRelocations obj loadAddress byName usingOriginal rest (addresses[functionIndex := target]))))"

section \<open>Functions and their records\<close>

text \<open>\<open>llvm::upper_bound\<close> on a list sorted by \<open>key\<close>: what comes before the first larger key, and
  what starts there.\<close>

definition findFunctionEndAddress :: "FunctionSymbolAddress list \<Rightarrow> u64 \<Rightarrow> u64" where
  "findFunctionEndAddress byLoadedAddress functionAddress =
     (case dropWhile (\<lambda>s. fs_loadedAddress s \<le> functionAddress) byLoadedAddress of
        [] \<Rightarrow> - 1
      | s # _ \<Rightarrow> fs_loadedAddress s)"

definition addressFromSymbols :: "FunctionSymbolAddress list \<Rightarrow> u64 \<Rightarrow> u64" where
  "addressFromSymbols functionSymbols address =
     (case rev (takeWhile (\<lambda>s. fs_objectAddress s \<le> address) functionSymbols) of
        [] \<Rightarrow> address
      | s # _ \<Rightarrow> fs_loadedAddress s + (address - fs_objectAddress s))"

text \<open>The address of a function: the relocated one, else the one of the name that the module's
  metadata gives at this index, else computed from the symbols.\<close>

definition resolveFunctionAddress ::
  "u64 list \<Rightarrow> string list \<Rightarrow> (string \<rightharpoonup> FunctionSymbolAddress) \<Rightarrow> FunctionSymbolAddress list \<Rightarrow> nat \<Rightarrow> u64 \<Rightarrow> u64" where
  "resolveFunctionAddress relocated functionOrder byName functionSymbols functionIndex address =
     (if functionIndex < length relocated \<and> relocated ! functionIndex \<noteq> 0 then relocated ! functionIndex
      else case (if functionIndex < length functionOrder then byName (functionOrder ! functionIndex) else None) of
             Some s \<Rightarrow> fs_loadedAddress s
           | None \<Rightarrow> addressFromSymbols functionSymbols address)"

text \<open>The records of one function; the result is also what remains of the section's records.\<close>

fun takeRecords ::
  "u64 list \<Rightarrow> u64 \<Rightarrow> u64 \<Rightarrow> nat \<Rightarrow> stackmap_record list \<Rightarrow> gc_error + (SafepointRecord list \<times> stackmap_record list)" where
  "takeRecords constants functionAddress functionEnd 0 records = Inr ([], records)"
| "takeRecords constants functionAddress functionEnd (Suc n) [] = Inl TooFewRecords"
| "takeRecords constants functionAddress functionEnd (Suc n) (r # records) =
     bindE (parseRootPairs (smr_locations r) constants) (\<lambda>pairs.
     bindE (takeRecords constants functionAddress functionEnd n records) (\<lambda>(safepoints, remaining).
     Inr (\<lparr>sr_id = smr_id r, sr_functionAddress = functionAddress, sr_functionEndAddress = functionEnd,
           sr_instructionAddress = functionAddress + ucast (smr_instructionOffset r), sr_rootPairs = pairs\<rparr> # safepoints,
          remaining)))"

fun loadFunctions ::
  "(nat \<Rightarrow> u64 \<Rightarrow> u64) \<Rightarrow> (u64 \<Rightarrow> u64) \<Rightarrow> u64 list \<Rightarrow> nat \<Rightarrow> (u64 \<times> u64) list \<Rightarrow> stackmap_record list \<Rightarrow>
   gc_error + SafepointRecord list" where
  "loadFunctions resolve functionEnd constants functionIndex [] records =
     (if records \<noteq> [] then Inl UnconsumedRecords else Inr [])"
| "loadFunctions resolve functionEnd constants functionIndex ((address, recordCount) # rest) records =
     (let functionAddress = resolve functionIndex address in
      bindE (takeRecords constants functionAddress (functionEnd functionAddress) (unat recordCount) records)
        (\<lambda>(safepoints, remaining).
      bindE (loadFunctions resolve functionEnd constants (Suc functionIndex) rest remaining) (\<lambda>more.
      Inr (safepoints @ more))))"

section \<open>The registry\<close>

record GCStackMapRegistry =
  reg_managedFunctionOrder :: "string list"
  reg_safepoints :: "SafepointRecord list"
  reg_pendingError :: "gc_error option"

definition emptyRegistry :: GCStackMapRegistry where
  "emptyRegistry = \<lparr>reg_managedFunctionOrder = [], reg_safepoints = [], reg_pendingError = None\<rparr>"

text \<open>One iteration of the loop over the sections of the debug object.\<close>

definition loadStackMapSection ::
  "(8 word list \<Rightarrow> gc_error + stackmap) \<Rightarrow> ((FunctionSymbolAddress \<Rightarrow> u64) \<Rightarrow> FunctionSymbolAddress list \<Rightarrow> FunctionSymbolAddress list) \<Rightarrow>
   object_file \<Rightarrow> (32 word \<Rightarrow> u64) \<Rightarrow> string list \<Rightarrow> FunctionSymbolAddress list \<Rightarrow> object_section \<Rightarrow> gc_error + SafepointRecord list" where
  "loadStackMapSection parse sorted_by obj loadAddress functionOrder symbols sec =
     bindE (sec_name sec) (\<lambda>name.
     if \<not> isStackMapSection name then Inr []
     else bindE (sec_contents sec) (\<lambda>contents.
     if contents = [] then Inr []
     else bindE (chooseRelocations obj sec name) (\<lambda>(relocations, usingOriginal).
     bindE (parse contents) (\<lambda>sm.
     let byName = symbolsByName symbols;
         functionSymbols = sorted_by fs_objectAddress symbols in
     bindE (resolveRelocations obj loadAddress byName usingOriginal relocations
              (replicate (length (sm_functions sm)) 0)) (\<lambda>relocated.
     let byLoadedAddress = sorted_by fs_loadedAddress functionSymbols
     in loadFunctions (resolveFunctionAddress relocated functionOrder byName functionSymbols)
          (findFunctionEndAddress byLoadedAddress) (sm_constants sm) 0 (sm_functions sm) (sm_records sm))))))"

fun loadSections ::
  "(object_section \<Rightarrow> gc_error + SafepointRecord list) \<Rightarrow> object_section list \<Rightarrow> gc_error + SafepointRecord list" where
  "loadSections load [] = Inr []"
| "loadSections load (sec # rest) =
     bindE (load sec) (\<lambda>safepoints. bindE (loadSections load rest) (\<lambda>more. Inr (safepoints @ more)))"

definition registerObject ::
  "(8 word list \<Rightarrow> gc_error + stackmap) \<Rightarrow> ((FunctionSymbolAddress \<Rightarrow> u64) \<Rightarrow> FunctionSymbolAddress list \<Rightarrow> FunctionSymbolAddress list) \<Rightarrow>
   object_file \<Rightarrow> object_file \<Rightarrow> (32 word \<Rightarrow> u64) \<Rightarrow> GCStackMapRegistry \<Rightarrow> gc_error option \<times> GCStackMapRegistry" where
  "registerObject parse sorted_by obj debugObj loadAddress reg =
     (case bindE (collectFunctionSymbols obj loadAddress (obj_symbols obj)) (\<lambda>symbols.
             loadSections (loadStackMapSection parse sorted_by obj loadAddress (reg_managedFunctionOrder reg) symbols)
               (obj_sections debugObj)) of
        Inl e \<Rightarrow> (Some e, reg)
      | Inr safepoints \<Rightarrow> (None, reg\<lparr>reg_safepoints := reg_safepoints reg @ safepoints\<rparr>))"

definition recordRegistrationError :: "gc_error \<Rightarrow> GCStackMapRegistry \<Rightarrow> GCStackMapRegistry" where
  "recordRegistrationError e reg = (if reg_pendingError reg \<noteq> None then reg else reg\<lparr>reg_pendingError := Some e\<rparr>)"

definition takeRegistrationError :: "GCStackMapRegistry \<Rightarrow> gc_error option \<times> GCStackMapRegistry" where
  "takeRegistrationError reg = (reg_pendingError reg, reg\<lparr>reg_pendingError := None\<rparr>)"

text \<open>The operands of the module's named metadata: \<open>None\<close> for an operand the loop skips.\<close>

definition recordManagedFunctionOrder :: "string option list option \<Rightarrow> GCStackMapRegistry \<Rightarrow> GCStackMapRegistry" where
  "recordManagedFunctionOrder metadata reg =
     reg\<lparr>reg_managedFunctionOrder := (case metadata of None \<Rightarrow> [] | Some operands \<Rightarrow> List.map_filter id operands)\<rparr>"

text \<open>The object-loaded callback of the JIT (\<open>jit.cc\<close>): an error is kept for the next lookup.\<close>

definition onObjectLoaded ::
  "(8 word list \<Rightarrow> gc_error + stackmap) \<Rightarrow> ((FunctionSymbolAddress \<Rightarrow> u64) \<Rightarrow> FunctionSymbolAddress list \<Rightarrow> FunctionSymbolAddress list) \<Rightarrow>
   object_file \<Rightarrow> object_file \<Rightarrow> (32 word \<Rightarrow> u64) \<Rightarrow> GCStackMapRegistry \<Rightarrow> GCStackMapRegistry" where
  "onObjectLoaded parse sorted_by obj debugObj loadAddress reg =
     (case registerObject parse sorted_by obj debugObj loadAddress reg of
        (Some e, reg) \<Rightarrow> recordRegistrationError e reg
      | (None, reg) \<Rightarrow> reg)"

end
