(* ===== verification/Root_Facts.thy ===== *)
theory Root_Facts
  imports Stackmap_Registry
begin

text \<open>
  Facts on root scanning: what one location, one record and one frame contribute, which record the
  lookups choose, the chain of managed frames above a frame, and what registration makes of the
  function descriptors and records of a stackmap.
\<close>

section \<open>Locations\<close>

definition resolvable :: "GCRootLocation \<Rightarrow> bool" where
  "resolvable l \<longleftrightarrow> rl_kind l = KConstant \<or> rl_size l = 8 \<and> rl_dwarfRegister l \<in> {6, 7}"

definition registerValue :: "GCRootLocation \<Rightarrow> addr \<Rightarrow> addr \<Rightarrow> addr" where
  "registerValue l sp bp = (if rl_dwarfRegister l = 7 then sp else bp)"

definition rootValue :: "memory \<Rightarrow> addr \<Rightarrow> addr \<Rightarrow> GCRootLocation \<Rightarrow> addr" where
  "rootValue rd sp bp l =
     (case rl_kind l of
        KConstant \<Rightarrow> rl_constant l
      | KRegister \<Rightarrow> registerValue l sp bp
      | KDirect \<Rightarrow> registerValue l sp bp + scast (rl_offset l)
      | KIndirect \<Rightarrow> rd_word rd (registerValue l sp bp + scast (rl_offset l)))"

lemma resolveTrackedRegisterValue_ok:
  "rl_dwarfRegister l \<in> {6, 7} \<Longrightarrow>
   resolveTrackedRegisterValue (rl_dwarfRegister l) sp bp = Inr (registerValue l sp bp)"
  by (auto simp: resolveTrackedRegisterValue_def registerValue_def kX86_64RSPDwarfRegister_def kX86_64RBPDwarfRegister_def)

lemma resolveTrackedRegisterValue_Inl:
  "r \<notin> {6, 7} \<Longrightarrow> resolveTrackedRegisterValue r sp bp = Inl (UnsupportedRegister r)"
  by (auto simp: resolveTrackedRegisterValue_def kX86_64RSPDwarfRegister_def kX86_64RBPDwarfRegister_def)

lemma resolveRootValue_ok: "resolvable l \<Longrightarrow> resolveRootValue rd l sp bp = Inr (rootValue rd sp bp l)"
  by (cases "rl_kind l")
    (auto simp: resolveRootValue_def resolvable_def rootValue_def resolveTrackedRegisterValue_ok simp del: insert_iff)

lemma resolveRootValue_Inl: "\<not> resolvable l \<Longrightarrow> \<exists>e. resolveRootValue rd l sp bp = Inl e"
  by (cases "rl_kind l")
    (auto simp: resolveRootValue_def resolvable_def resolveTrackedRegisterValue_Inl)

lemma resolveRootValue_cases:
  "resolveRootValue rd l sp bp = Inr v \<longleftrightarrow> resolvable l \<and> v = rootValue rd sp bp l"
  using resolveRootValue_ok resolveRootValue_Inl by (metis Inl_Inr_False sum.inject(2))

section \<open>Frames\<close>

text \<open>A frame as the scan sees it: its record, stack pointer and frame pointer.\<close>

type_synonym frame = "SafepointRecord \<times> addr \<times> addr"

definition locationsOf :: "SafepointRecord \<Rightarrow> GCRootLocation list" where
  "locationsOf r = concat (map (\<lambda>p. [rp_base p, rp_derived p]) (sr_rootPairs r))"

fun frameRoots :: "memory \<Rightarrow> frame \<Rightarrow> addr list" where
  "frameRoots rd (r, sp, bp) = filter (\<lambda>v. v \<noteq> 0) (map (rootValue rd sp bp) (locationsOf r))"

definition resolvableFrame :: "frame \<Rightarrow> bool" where
  "resolvableFrame f \<longleftrightarrow> (\<forall>l \<in> set (locationsOf (fst f)). resolvable l)"

text \<open>What scanning a list of frames adds to a summary.\<close>

definition addFrame :: "memory \<Rightarrow> frame \<Rightarrow> GCRootScanSummary \<Rightarrow> GCRootScanSummary" where
  "addFrame rd f s = s\<lparr>
     rs_safepointAddress := (if rs_safepointAddress s = 0 then sr_instructionAddress (fst f) else rs_safepointAddress s),
     rs_rootPairCount := rs_rootPairCount s + of_nat (length (sr_rootPairs (fst f))),
     rs_rootLocationCount := rs_rootLocationCount s + of_nat (length (sr_rootPairs (fst f))) * 2,
     rs_nonNullRootCount := rs_nonNullRootCount s + of_nat (length (frameRoots rd f)),
     rs_rootValues := rs_rootValues s @ frameRoots rd f\<rparr>"

definition addRoots :: "addr list \<Rightarrow> GCRootScanSummary \<Rightarrow> GCRootScanSummary" where
  "addRoots vs s = s\<lparr>rs_nonNullRootCount := rs_nonNullRootCount s + of_nat (length vs),
     rs_rootValues := rs_rootValues s @ vs\<rparr>"

lemma recordRoot_addRoots: "recordRoot v s = addRoots (filter (\<lambda>v. v \<noteq> 0) [v]) s"
  by (simp add: recordRoot_def addRoots_def)

lemma addRoots_addRoots: "addRoots us (addRoots vs s) = addRoots (vs @ us) s"
  by (simp add: addRoots_def)

lemma scanPairs_ok:
  "\<forall>l \<in> set (concat (map (\<lambda>p. [rp_base p, rp_derived p]) pairs)). resolvable l \<Longrightarrow>
   scanPairs rd pairs sp bp s =
     Inr (addRoots (filter (\<lambda>v. v \<noteq> 0)
       (map (rootValue rd sp bp) (concat (map (\<lambda>p. [rp_base p, rp_derived p]) pairs)))) s)"
proof (induction pairs arbitrary: s)
  case Nil then show ?case by (simp add: addRoots_def)
next
  case (Cons p ps)
  show ?case
    using Cons.prems by (simp add: resolveRootValue_ok Cons.IH recordRoot_addRoots addRoots_addRoots)
qed

lemma scanPairs_Inl:
  "l \<in> set (concat (map (\<lambda>p. [rp_base p, rp_derived p]) pairs)) \<Longrightarrow> \<not> resolvable l \<Longrightarrow>
   \<exists>e. scanPairs rd pairs sp bp s = Inl e"
proof (induction pairs arbitrary: s)
  case (Cons p ps)
  show ?case
  proof (cases "resolvable (rp_base p) \<and> resolvable (rp_derived p)")
    case True
    then have "l \<in> set (concat (map (\<lambda>p. [rp_base p, rp_derived p]) ps))" using Cons.prems by auto
    from Cons.IH [OF this Cons.prems(2)] True show ?thesis by (simp add: resolveRootValue_ok)
  next
    case False
    then consider "\<not> resolvable (rp_base p)" | "resolvable (rp_base p)" "\<not> resolvable (rp_derived p)" by blast
    then show ?thesis
    proof cases
      case 1 from resolveRootValue_Inl [OF this, of rd sp bp] show ?thesis by auto
    next
      case 2 from resolveRootValue_Inl [OF 2(2), of rd sp bp] 2(1) show ?thesis by (auto simp: resolveRootValue_ok)
    qed
  qed
qed simp

lemma scanSingleManagedFrame_ok:
  "resolvableFrame (r, sp, bp) \<Longrightarrow> scanSingleManagedFrame rd r sp bp s = Inr (addFrame rd (r, sp, bp) s)"
  by (simp add: scanSingleManagedFrame_def resolvableFrame_def locationsOf_def scanPairs_ok addRoots_def addFrame_def)

lemma scanSingleManagedFrame_Inl:
  "\<not> resolvableFrame (r, sp, bp) \<Longrightarrow> \<exists>e. scanSingleManagedFrame rd r sp bp s = Inl e"
  using scanPairs_Inl by (fastforce simp: scanSingleManagedFrame_def resolvableFrame_def locationsOf_def Let_def)

section \<open>The record of a return address\<close>

definition before :: "addr \<Rightarrow> SafepointRecord \<Rightarrow> bool" where
  "before a r \<longleftrightarrow> sr_instructionAddress r \<le> a"

definition distance :: "addr \<Rightarrow> SafepointRecord \<Rightarrow> u64" where
  "distance a r = a - sr_instructionAddress r"

lemma nearestRecord_best:
  "nearestRecord rs a best = res \<Longrightarrow> (\<And>b d. best = Some (b, d) \<Longrightarrow> before a b \<and> d = distance a b) \<Longrightarrow>
   (case res of
      None \<Rightarrow> best = None \<and> (\<forall>r \<in> set rs. \<not> before a r)
    | Some (b, d) \<Rightarrow> (b \<in> set rs \<or> best = Some (b, d)) \<and> before a b \<and> d = distance a b \<and>
        (\<forall>r \<in> set rs. before a r \<longrightarrow> d \<le> distance a r) \<and> (\<forall>b' d'. best = Some (b', d') \<longrightarrow> d \<le> d'))"
proof (induction rs arbitrary: best)
  case Nil then show ?case by (cases best) auto
next
  case (Cons r rs)
  show ?case
  proof (cases "before a r")
    case False
    then have "nearestRecord rs a best = res" using Cons.prems(1) by (simp add: before_def not_le)
    from Cons.IH [OF this Cons.prems(2)] False show ?thesis by (auto split: option.splits prod.splits)
  next
    case True
    define nb where "nb = (case best of None \<Rightarrow> Some (r, distance a r)
      | Some (b, d) \<Rightarrow> if distance a r < d then Some (r, distance a r) else best)"
    have "\<not> a < sr_instructionAddress r" using True by (simp add: before_def not_less)
    then have run: "nearestRecord rs a nb = res"
      using Cons.prems(1) unfolding nb_def distance_def
      by (cases best) (auto simp: Let_def split: prod.splits if_splits)
    have inv: "before a b \<and> d = distance a b" if nb: "nb = Some (b, d)" for b d
    proof (cases "best = Some (b, d)")
      case True then show ?thesis using Cons.prems(2) by blast
    next
      case False
      then have "b = r \<and> d = distance a r" using nb by (auto simp: nb_def split: option.splits if_splits)
      then show ?thesis using True by simp
    qed
    have some: "nb \<noteq> None" by (auto simp: nb_def split: option.splits)
    have "res \<noteq> None" using Cons.IH [OF run inv] some by (auto split: option.splits)
    then obtain b d where res: "res = Some (b, d)" by auto
    have ih: "(b \<in> set rs \<or> nb = Some (b, d)) \<and> before a b \<and> d = distance a b \<and>
        (\<forall>r \<in> set rs. before a r \<longrightarrow> d \<le> distance a r) \<and> (\<forall>b' d'. nb = Some (b', d') \<longrightarrow> d \<le> d')"
      using Cons.IH [OF run inv] res by auto
    have "d \<le> distance a r \<and> (\<forall>b' d'. best = Some (b', d') \<longrightarrow> d \<le> d')"
      using ih by (auto simp: nb_def split: option.splits if_splits)
    then show ?thesis using ih res by (auto simp: nb_def split: option.splits if_splits)
  qed
qed

lemma forReturnAddress_Some:
  assumes "findSafepointRecordForReturnAddress rs a = Some b"
  shows "b \<in> set rs" "before a b" "distance a b \<le> 4096" "\<forall>r \<in> set rs. before a r \<longrightarrow> distance a b \<le> distance a r"
proof -
  obtain d where n: "nearestRecord rs a None = Some (b, d)" and d: "d \<le> 4096"
    using assms by (auto simp: findSafepointRecordForReturnAddress_def kMaxReturnAddressDistance_def split: option.splits if_splits)
  from nearestRecord_best [OF n] d show "b \<in> set rs" "before a b" "distance a b \<le> 4096"
    "\<forall>r \<in> set rs. before a r \<longrightarrow> distance a b \<le> distance a r" by auto
qed

lemma forReturnAddress_None:
  assumes "findSafepointRecordForReturnAddress rs a = None" "r \<in> set rs" "before a r"
  shows "4096 < distance a r"
proof (cases "nearestRecord rs a None")
  case None from nearestRecord_best [OF this] assms show ?thesis by simp
next
  case (Some p)
  obtain b d where p: "p = (b, d)" by (cases p)
  have "4096 < d"
    using assms(1) Some p by (simp add: findSafepointRecordForReturnAddress_def kMaxReturnAddressDistance_def not_le split: if_splits)
  then show ?thesis using nearestRecord_best [OF Some] p assms(2,3) by auto
qed

lemma findSafepointRecord_Some: "findSafepointRecord rs a = Some r \<Longrightarrow> r \<in> set rs \<and> sr_instructionAddress r = a"
  by (auto simp: findSafepointRecord_def find_Some_iff)

lemma findCallerRecord_Some:
  assumes "findCallerRecord rs a = Some b"
  shows "b \<in> set rs" "before a b" "distance a b \<le> 4096" "\<forall>r \<in> set rs. before a r \<longrightarrow> distance a b \<le> distance a r"
proof -
  have "b \<in> set rs \<and> before a b \<and> distance a b \<le> 4096 \<and> (\<forall>r \<in> set rs. before a r \<longrightarrow> distance a b \<le> distance a r)"
  proof (cases "findSafepointRecord rs a")
    case None
    then have "findSafepointRecordForReturnAddress rs a = Some b" using assms by (simp add: findCallerRecord_def)
    from forReturnAddress_Some [OF this] show ?thesis by blast
  next
    case (Some r)
    then have "r = b" using assms by (simp add: findCallerRecord_def)
    then show ?thesis using findSafepointRecord_Some [OF Some] by (auto simp: before_def distance_def)
  qed
  then show "b \<in> set rs" "before a b" "distance a b \<le> 4096" "\<forall>r \<in> set rs. before a r \<longrightarrow> distance a b \<le> distance a r"
    by blast+
qed

lemma findCallerRecord_None:
  assumes "findCallerRecord rs a = None" "r \<in> set rs" "before a r"
  shows "4096 < distance a r"
proof -
  have "findSafepointRecordForReturnAddress rs a = None"
    using assms(1) by (simp add: findCallerRecord_def split: option.splits)
  from forReturnAddress_None [OF this assms(2,3)] show ?thesis .
qed

section \<open>The chain of managed frames\<close>

text \<open>The frames above the one whose saved frame pointer is at \<open>fp\<close>, up to the first return address
  that belongs to no record.\<close>

inductive frameChain :: "memory \<Rightarrow> SafepointRecord list \<Rightarrow> addr \<Rightarrow> frame list \<Rightarrow> bool" for rd rs where
  bottom: "fp = 0 \<or> rd_word rd (fp + 8) = 0 \<or> findCallerRecord rs (rd_word rd (fp + 8)) = None \<Longrightarrow> frameChain rd rs fp []"
| frame: "fp \<noteq> 0 \<Longrightarrow> rd_word rd (fp + 8) \<noteq> 0 \<Longrightarrow> findCallerRecord rs (rd_word rd (fp + 8)) = Some r \<Longrightarrow>
    frameChain rd rs (rd_word rd fp) frames \<Longrightarrow>
    frameChain rd rs fp ((r, fp + 16, rd_word rd fp) # frames)"

lemma walkFrames_ok:
  "frameChain rd rs fp frames \<Longrightarrow> \<forall>f \<in> set (take n frames). resolvableFrame f \<Longrightarrow>
   walkFrames rd rs n fp s = Inr (fold (addFrame rd) (take n frames) s)"
proof (induction fp frames arbitrary: n s rule: frameChain.induct)
  case (bottom fp)
  then show ?case by (cases n) (auto simp: Let_def)
next
  case (frame fp r frames)
  show ?case
  proof (cases n)
    case (Suc m)
    then have r: "resolvableFrame (r, fp + 16, rd_word rd fp)" and rest: "\<forall>f \<in> set (take m frames). resolvableFrame f"
      using frame.prems by simp_all
    show ?thesis
      using frame.hyps frame.IH [OF rest] scanSingleManagedFrame_ok [OF r] Suc by (simp add: Let_def)
  qed simp
qed

lemma walkFrames_Inl:
  "frameChain rd rs fp frames \<Longrightarrow> f \<in> set (take n frames) \<Longrightarrow> \<not> resolvableFrame f \<Longrightarrow>
   \<exists>e. walkFrames rd rs n fp s = Inl e"
proof (induction fp frames arbitrary: n s rule: frameChain.induct)
  case (frame fp r frames)
  show ?case
  proof (cases n)
    case (Suc m)
    show ?thesis
    proof (cases "resolvableFrame (r, fp + 16, rd_word rd fp)")
      case True
      then have "f \<in> set (take m frames)" using frame.prems Suc by auto
      from frame.IH [OF this frame.prems(2)] scanSingleManagedFrame_ok [OF True] frame.hyps Suc show ?thesis
        by (simp add: Let_def)
    next
      case False
      obtain e where "scanSingleManagedFrame rd r (fp + 16) (rd_word rd fp) s = Inl e"
        using scanSingleManagedFrame_Inl [OF False] by blast
      then show ?thesis using frame.hyps Suc by (simp add: Let_def)
    qed
  qed (use frame.prems in simp)
qed simp

lemma addFrames_rootValues:
  "rs_rootValues (fold (addFrame rd) frames s) = rs_rootValues s @ concat (map (frameRoots rd) frames)"
  by (induction frames arbitrary: s) (simp_all add: addFrame_def)

lemma addFrames_counts:
  "rs_nonNullRootCount (fold (addFrame rd) frames s) =
     rs_nonNullRootCount s + of_nat (length (concat (map (frameRoots rd) frames)))"
  "rs_rootPairCount (fold (addFrame rd) frames s) =
     rs_rootPairCount s + of_nat (sum_list (map (\<lambda>f. length (sr_rootPairs (fst f))) frames))"
  "rs_rootLocationCount (fold (addFrame rd) frames s) =
     rs_rootLocationCount s + of_nat (2 * sum_list (map (\<lambda>f. length (sr_rootPairs (fst f))) frames))"
  by (induction frames arbitrary: s) (simp_all add: addFrame_def algebra_simps)

lemma addFrames_safepoint:
  "rs_safepointAddress s \<noteq> 0 \<Longrightarrow> rs_safepointAddress (fold (addFrame rd) frames s) = rs_safepointAddress s"
  by (induction frames arbitrary: s) (simp_all add: addFrame_def)

lemma scanFrom_ok:
  assumes "frameChain rd rs bp frames" "\<forall>f \<in> set ((r, sp, bp) # take 256 frames). resolvableFrame f"
  shows "scanFrom rd rs r sp bp = Inr (fold (addFrame rd) ((r, sp, bp) # take 256 frames) emptySummary)"
proof -
  have "resolvableFrame (r, sp, bp)" and rest: "\<forall>f \<in> set (take kMaxManagedFrameDepth frames). resolvableFrame f"
    using assms(2) by (simp_all add: kMaxManagedFrameDepth_def)
  from scanSingleManagedFrame_ok [OF this(1)] show ?thesis
    using walkFrames_ok [OF assms(1) rest] by (simp add: scanFrom_def kMaxManagedFrameDepth_def)
qed

lemma scanFrom_Inl:
  assumes "frameChain rd rs bp frames" "f \<in> set ((r, sp, bp) # take 256 frames)" "\<not> resolvableFrame f"
  shows "\<exists>e. scanFrom rd rs r sp bp = Inl e"
proof (cases "resolvableFrame (r, sp, bp)")
  case True
  then have "f \<in> set (take kMaxManagedFrameDepth frames)" using assms(2,3) by (auto simp: kMaxManagedFrameDepth_def)
  from walkFrames_Inl [OF assms(1) this assms(3)] scanSingleManagedFrame_ok [OF True] show ?thesis
    by (simp add: scanFrom_def)
next
  case False
  then obtain e where "scanSingleManagedFrame rd r sp bp emptySummary = Inl e"
    using scanSingleManagedFrame_Inl by blast
  then show ?thesis by (simp add: scanFrom_def)
qed

section \<open>Registration\<close>

text \<open>The function address each record of a section belongs to, in the order of the records.\<close>

fun recordOwners :: "(nat \<Rightarrow> u64 \<Rightarrow> u64) \<Rightarrow> nat \<Rightarrow> (u64 \<times> u64) list \<Rightarrow> u64 list" where
  "recordOwners resolve i [] = []"
| "recordOwners resolve i ((address, recordCount) # rest) =
     replicate (unat recordCount) (resolve i address) @ recordOwners resolve (Suc i) rest"

definition parsable :: "u64 list \<Rightarrow> stackmap_record \<Rightarrow> bool" where
  "parsable constants r \<longleftrightarrow> (\<exists>pairs. parseRootPairs (smr_locations r) constants = Inr pairs)"

definition safepointOf :: "(u64 \<Rightarrow> u64) \<Rightarrow> u64 list \<Rightarrow> u64 \<Rightarrow> stackmap_record \<Rightarrow> SafepointRecord" where
  "safepointOf functionEnd constants functionAddress r =
     \<lparr>sr_id = smr_id r, sr_functionAddress = functionAddress, sr_functionEndAddress = functionEnd functionAddress,
      sr_instructionAddress = functionAddress + ucast (smr_instructionOffset r),
      sr_rootPairs = (case parseRootPairs (smr_locations r) constants of Inr pairs \<Rightarrow> pairs | Inl _ \<Rightarrow> [])\<rparr>"

lemma takeRecords_Inr:
  "takeRecords constants fa (functionEnd fa) n records = Inr (safepoints, remaining) \<longleftrightarrow>
   n \<le> length records \<and> (\<forall>r \<in> set (take n records). parsable constants r) \<and>
   safepoints = map (safepointOf functionEnd constants fa) (take n records) \<and> remaining = drop n records"
proof (induction n arbitrary: records safepoints)
  case 0 then show ?case by auto
next
  case (Suc n)
  show ?case
  proof (cases records)
    case (Cons r rest)
    show ?thesis
    proof (cases "parseRootPairs (smr_locations r) constants")
      case (Inr pairs)
      have "safepointOf functionEnd constants fa r = \<lparr>sr_id = smr_id r, sr_functionAddress = fa,
          sr_functionEndAddress = functionEnd fa, sr_instructionAddress = fa + ucast (smr_instructionOffset r), sr_rootPairs = pairs\<rparr>"
        by (simp add: safepointOf_def Inr)
      then show ?thesis
        using Inr Cons by (auto simp: bindE_eq_Inr Suc.IH parsable_def)
    qed (use Cons in \<open>simp add: parsable_def\<close>)
  qed simp
qed

lemma loadFunctions_Inr:
  "loadFunctions resolve functionEnd constants i fns records = Inr safepoints \<longleftrightarrow>
   length records = length (recordOwners resolve i fns) \<and> (\<forall>r \<in> set records. parsable constants r) \<and>
   safepoints = map2 (safepointOf functionEnd constants) (recordOwners resolve i fns) records"
proof (induction fns arbitrary: i records safepoints)
  case Nil then show ?case by auto
next
  case (Cons f fns)
  obtain a c where f: "f = (a, c)" by (cases f)
  let ?n = "unat c" and ?fa = "resolve i a"
  have zip1: "map2 (safepointOf functionEnd constants) (replicate ?n ?fa) (take ?n records) =
      map (safepointOf functionEnd constants ?fa) (take ?n records)" if "?n \<le> length records"
    using that by (auto simp: zip_replicate1 comp_def)
  have split: "map2 (safepointOf functionEnd constants) (recordOwners resolve i (f # fns)) records =
      map (safepointOf functionEnd constants ?fa) (take ?n records) @
      map2 (safepointOf functionEnd constants) (recordOwners resolve (Suc i) fns) (drop ?n records)"
    if "?n \<le> length records"
    using that zip1 by (simp add: f zip_append1)
  have all: "(\<forall>r \<in> set records. parsable constants r) \<longleftrightarrow>
      (\<forall>r \<in> set (take ?n records). parsable constants r) \<and> (\<forall>r \<in> set (drop ?n records). parsable constants r)"
    by (metis Un_iff append_take_drop_id set_append)
  have "loadFunctions resolve functionEnd constants i (f # fns) records = Inr safepoints \<longleftrightarrow>
      (\<exists>more. ?n \<le> length records \<and> (\<forall>r \<in> set (take ?n records). parsable constants r) \<and>
        loadFunctions resolve functionEnd constants (Suc i) fns (drop ?n records) = Inr more \<and>
        safepoints = map (safepointOf functionEnd constants ?fa) (take ?n records) @ more)"
    by (auto simp: f Let_def bindE_eq_Inr takeRecords_Inr)
  also have "\<dots> \<longleftrightarrow> length records = length (recordOwners resolve i (f # fns)) \<and>
      (\<forall>r \<in> set records. parsable constants r) \<and>
      safepoints = map2 (safepointOf functionEnd constants) (recordOwners resolve i (f # fns)) records"
    using split by (auto simp: Cons.IH all f)
  finally show ?case .
qed

end
