(* ===== verification/Root_Properties.thy ===== *)
theory Root_Properties
  imports Root_Facts Heap_Examples
begin

text \<open>
  The properties of precise root scanning and of the stackmap registry.
\<close>

section \<open>Scanning the stack\<close>

text \<open>C7. A scan at a statepoint with a record returns exactly the non-null root values of the
  frame of the statepoint and of the first 256 managed frames above it, with exact counts, when every
  location of their records can be resolved, and an error otherwise.\<close>

theorem stack_scan_exact:
  assumes "frame \<noteq> 0" "statepointID \<noteq> 0" "List.find (\<lambda>r. sr_id r = statepointID) rs = Some rec"
    and "frameChain rd rs (rd_word rd frame) frames"
  defines "scanned \<equiv> (rec, frame + 16, rd_word rd frame) # take 256 frames"
  shows "(case scanCurrentRuntimeSafepointFromFrame rd True (Some rs) frame statepointID of
      Inr s \<Rightarrow> (\<forall>f \<in> set scanned. resolvableFrame f) \<and> rs_rootValues s = concat (map (frameRoots rd) scanned) \<and>
        rs_nonNullRootCount s = of_nat (length (rs_rootValues s)) \<and>
        rs_rootLocationCount s = of_nat (2 * sum_list (map (\<lambda>f. length (sr_rootPairs (fst f))) scanned))
    | Inl e \<Rightarrow> \<exists>f \<in> set scanned. \<not> resolvableFrame f)"
proof -
  have run: "scanCurrentRuntimeSafepointFromFrame rd True (Some rs) frame statepointID = scanFrom rd rs rec (frame + 16) (rd_word rd frame)"
    using assms(1-3) by (simp add: scanCurrentRuntimeSafepointFromFrame_def scanCurrentSafepointByID_def)
  show ?thesis
  proof (cases "\<forall>f \<in> set scanned. resolvableFrame f")
    case True
    then have "scanFrom rd rs rec (frame + 16) (rd_word rd frame) = Inr (fold (addFrame rd) scanned emptySummary)"
      using scanFrom_ok [OF assms(4), of rec "frame + 16"] unfolding scanned_def by blast
    then show ?thesis using True
      by (simp add: run addFrames_rootValues addFrames_counts emptySummary_def del: of_nat_mult of_nat_add)
  next
    case False
    then obtain f where f: "f \<in> set scanned" "\<not> resolvableFrame f" by blast
    obtain e where "scanFrom rd rs rec (frame + 16) (rd_word rd frame) = Inl e"
      using scanFrom_Inl [OF assms(4) f [unfolded scanned_def]] by blast
    then show ?thesis using f by (auto simp: run)
  qed
qed

definition directRoot :: GCRootLocation where
  "directRoot = \<lparr>rl_kind = KDirect, rl_dwarfRegister = 7, rl_offset = 0, rl_size = 8, rl_constant = 0\<rparr>"

definition exampleRecord :: SafepointRecord where
  "exampleRecord = \<lparr>sr_id = 7, sr_functionAddress = 4096, sr_functionEndAddress = 4112, sr_instructionAddress = 4100,
     sr_rootPairs = [\<lparr>rp_base = directRoot, rp_derived = directRoot\<rparr>]\<rparr>"

text \<open>A stack with one managed frame at 16 above the frame of the statepoint.\<close>

definition shallowStack :: memory where
  "shallowStack = plainMemory\<lparr>rd_word := (\<lambda>a. if a = 100000 then 16 else if a = 24 then 4100 else 0)\<rparr>"

lemma shallow_chain: "frameChain shallowStack [exampleRecord] 16 [(exampleRecord, 32, 0)]"
proof -
  have "frameChain shallowStack [exampleRecord] 0 []" by (rule bottom) simp
  moreover have "rd_word shallowStack 16 = 0" "rd_word shallowStack 24 = 4100" by (simp_all add: shallowStack_def)
  moreover have "findCallerRecord [exampleRecord] 4100 = Some exampleRecord"
    by (simp add: findCallerRecord_def findSafepointRecord_def exampleRecord_def)
  ultimately show ?thesis using frame [of 16 shallowStack "[exampleRecord]" exampleRecord "[]"] by simp
qed

lemma example_resolvable: "resolvableFrame (exampleRecord, x, y)"
  by (simp add: resolvableFrame_def exampleRecord_def locationsOf_def directRoot_def resolvable_def)

lemma frameRoots_example: "frameRoots rd (exampleRecord, sp, bp) = filter (\<lambda>v. v \<noteq> 0) [sp, sp]"
  by (simp add: locationsOf_def exampleRecord_def directRoot_def rootValue_def registerValue_def)

theorem stack_scan_exact_witness:
  "\<exists>s. scanCurrentRuntimeSafepointFromFrame shallowStack True (Some [exampleRecord]) 100000 7 = Inr s \<and>
     rs_rootValues s = [100016, 100016, 32, 32]"
proof -
  have word: "rd_word shallowStack 100000 = 16" by (simp add: shallowStack_def)
  have found: "List.find (\<lambda>r. sr_id r = 7) [exampleRecord] = Some exampleRecord" by (simp add: exampleRecord_def)
  have chain: "frameChain shallowStack [exampleRecord] (rd_word shallowStack 100000) [(exampleRecord, 32, 0)]"
    using shallow_chain by (simp add: word)
  show ?thesis
    using stack_scan_exact [OF _ _ found chain] example_resolvable
    by (auto simp: word frameRoots_example simp del: frameRoots.simps split: sum.splits)
qed

text \<open>A stack of 300 managed frames at the multiples of 16 below a runtime frame at 100000.\<close>

definition deepStack :: memory where
  "deepStack = plainMemory\<lparr>rd_word := (\<lambda>a. if a = 100000 then 16 else if a mod 16 = 8 then 4100
     else if a < 4800 then a + 16 else 0)\<rparr>"

definition deepFrame :: "nat \<Rightarrow> frame" where
  "deepFrame k = (exampleRecord, of_nat (16 * k) + 16, rd_word deepStack (of_nat (16 * k)))"

lemma deep_words:
  assumes "0 < k" "k \<le> 300"
  shows "rd_word deepStack (of_nat (16 * k) + 8) = 4100"
    "rd_word deepStack (of_nat (16 * k)) = (if k < 300 then of_nat (16 * Suc k) else 0)"
    "of_nat (16 * k) \<noteq> (0 :: addr)"
proof -
  have u: "unat (of_nat (16 * k) :: addr) = 16 * k" using assms by (intro unat_of_nat_u64) linarith
  have u8: "unat (of_nat (16 * k) + 8 :: addr) = 16 * k + 8"
    using unat_plus_u64 [of "of_nat (16 * k)" 8] u assms by simp
  have m8: "(of_nat (16 * k) + 8 :: addr) mod 16 = 8" using u8 by (simp add: u64_eq_iff unat_mod)
  have m0: "(of_nat (16 * k) :: addr) mod 16 = 0" using u by (simp add: u64_eq_iff unat_mod del: of_nat_mult)
  have ne: "(of_nat (16 * k) :: addr) \<noteq> 100000" "(of_nat (16 * k) + 8 :: addr) \<noteq> 100000"
    using u u8 assms by (auto simp: u64_eq_iff simp del: of_nat_mult)
  have lt: "(of_nat (16 * k) :: addr) < 4800 \<longleftrightarrow> k < 300" using u by (simp add: word_less_nat_alt del: of_nat_mult)
  show "rd_word deepStack (of_nat (16 * k) + 8) = 4100" using m8 ne by (simp add: deepStack_def del: of_nat_mult)
  show "rd_word deepStack (of_nat (16 * k)) = (if k < 300 then of_nat (16 * Suc k) else 0)"
    using m0 ne lt by (simp add: deepStack_def)
  show "of_nat (16 * k) \<noteq> (0 :: addr)" using u assms by (auto simp: u64_eq_iff simp del: of_nat_mult)
qed

lemma deep_find: "findCallerRecord [exampleRecord] 4100 = Some exampleRecord"
  by (simp add: findCallerRecord_def findSafepointRecord_def exampleRecord_def)

lemma deep_chain:
  "n < 300 \<Longrightarrow> frameChain deepStack [exampleRecord] (of_nat (16 * (300 - n))) (map deepFrame [300 - n ..< 301])"
proof (induction n)
  case 0
  have "frameChain deepStack [exampleRecord] 0 []" by (rule bottom) simp
  then have "frameChain deepStack [exampleRecord] (of_nat (16 * 300)) [deepFrame 300]"
    unfolding deepFrame_def using deep_words [of 300] deep_find by (intro frame) simp_all
  then show ?case by (simp add: upt_rec [of 300])
next
  case (Suc n)
  let ?k = "300 - Suc n"
  have k: "0 < ?k" "?k < 300" "300 - n = Suc ?k" using Suc.prems by linarith+
  have "rd_word deepStack (of_nat (16 * ?k)) = of_nat (16 * Suc ?k)" using deep_words(2) [of ?k] k by simp
  then have "frameChain deepStack [exampleRecord] (of_nat (16 * ?k)) (deepFrame ?k # map deepFrame [Suc ?k ..< 301])"
    unfolding deepFrame_def [of ?k] using deep_words(1,3) [of ?k] k deep_find Suc.IH Suc.prems
    by (intro frame) (simp_all del: of_nat_mult of_nat_Suc)
  moreover have "[?k ..< 301] = ?k # [Suc ?k ..< 301]" using k by (intro upt_conv_Cons) linarith
  ultimately show ?case by (simp only: list.map)
qed

lemma deep_scan:
  "\<exists>s. scanCurrentRuntimeSafepointFromFrame deepStack True (Some [exampleRecord]) 100000 7 = Inr s \<and>
     rs_rootValues s = concat (map (frameRoots deepStack) ((exampleRecord, 100016, 16) # map deepFrame [1 ..< 257]))"
proof -
  have chain: "frameChain deepStack [exampleRecord] 16 (map deepFrame [1 ..< 301])" using deep_chain [of 299] by simp
  have sixteen: "rd_word deepStack 100000 = 16" by (simp add: deepStack_def)
  have take: "take 256 (map deepFrame [1 ..< 301]) = map deepFrame [1 ..< 257]" by (simp add: take_map)
  have "\<forall>f \<in> set ((exampleRecord, 100016, 16) # take 256 (map deepFrame [1 ..< 301])). resolvableFrame f"
    unfolding take by (auto simp: example_resolvable deepFrame_def simp del: upt_Suc)
  from scanFrom_ok [OF chain this] have "scanFrom deepStack [exampleRecord] exampleRecord 100016 16 =
      Inr (fold (addFrame deepStack) ((exampleRecord, 100016, 16) # map deepFrame [1 ..< 257]) emptySummary)"
    unfolding take .
  moreover have "scanCurrentRuntimeSafepointFromFrame deepStack True (Some [exampleRecord]) 100000 7 =
      scanFrom deepStack [exampleRecord] exampleRecord 100016 16"
    by (simp add: scanCurrentRuntimeSafepointFromFrame_def scanCurrentSafepointByID_def sixteen)
      (simp add: exampleRecord_def)
  moreover have "rs_rootValues (fold (addFrame deepStack) fs emptySummary) = concat (map (frameRoots deepStack) fs)" for fs
    unfolding addFrames_rootValues by (simp add: emptySummary_def)
  ultimately show ?thesis by (intro exI conjI) (rule trans, assumption, assumption, simp only:)
qed

text \<open>C9. The walk stops after 256 caller frames without an error: on a stack of 300 managed
  frames, each with a root, the scan succeeds and the roots of the frames beyond the limit are missing
  from its result.\<close>

theorem deep_frames_lose_roots:
  "\<exists>s. frameChain deepStack [exampleRecord] 16 (map deepFrame [1 ..< 301]) \<and>
     scanCurrentRuntimeSafepointFromFrame deepStack True (Some [exampleRecord]) 100000 7 = Inr s \<and>
     (\<Union>k \<in> {257 .. 300}. set (frameRoots deepStack (deepFrame k))) \<inter> set (rs_rootValues s) = {} \<and>
     4816 \<in> set (frameRoots deepStack (deepFrame 300))"
proof -
  obtain s where s: "scanCurrentRuntimeSafepointFromFrame deepStack True (Some [exampleRecord]) 100000 7 = Inr s"
    and vals: "rs_rootValues s = concat (map (frameRoots deepStack) ((exampleRecord, 100016, 16) # map deepFrame [1 ..< 257]))"
    using deep_scan by blast
  have root: "set (frameRoots deepStack (deepFrame k)) = {of_nat (16 * Suc k)}" if "k \<le> 300" for k
  proof -
    have "unat (of_nat (16 * Suc k) :: addr) = 16 * Suc k" using that by (intro unat_of_nat_u64) simp
    then have "(of_nat (16 * Suc k) :: addr) \<noteq> 0" by (auto simp: u64_eq_iff simp del: of_nat_mult of_nat_Suc)
    moreover have "of_nat (16 * k) + 16 = (of_nat (16 * Suc k) :: addr)" by simp
    ultimately show ?thesis unfolding deepFrame_def frameRoots_example by (metis (mono_tags) filter.simps insert_absorb2 list.set)
  qed
  have "set (rs_rootValues s) = insert 100016 (\<Union>k \<in> {1 ..< 257}. set (frameRoots deepStack (deepFrame k)))"
    unfolding vals by (simp add: frameRoots_example del: upt_Suc frameRoots.simps)
  also have "\<dots> = insert 100016 (of_nat ` (\<lambda>k. 16 * Suc k) ` {1 ..< 257})"
    using root by (auto simp del: of_nat_mult of_nat_Suc mult_Suc_right frameRoots.simps)
  finally have all: "set (rs_rootValues s) = insert 100016 (of_nat ` (\<lambda>k. 16 * Suc k) ` {1 ..< 257})" .
  have sep: "(of_nat (16 * Suc k) :: addr) \<notin> insert 100016 (of_nat ` (\<lambda>k. 16 * Suc k) ` {1 ..< 257})"
    if k: "257 \<le> k" "k \<le> 300" for k
  proof -
    have ne: "of_nat (16 * Suc k) \<noteq> (of_nat n :: addr)" if "n < 100017" "n \<noteq> 16 * Suc k" for n
    proof
      assume "of_nat (16 * Suc k) = (of_nat n :: addr)"
      moreover have "unat (of_nat (16 * Suc k) :: addr) = 16 * Suc k" using k by (intro unat_of_nat_u64) simp
      moreover have "unat (of_nat n :: addr) = n" using that(1) by (intro unat_of_nat_u64) simp
      ultimately have "16 * Suc k = n" by presburger
      then show False using that(2) by simp
    qed
    have "of_nat (16 * Suc k) \<noteq> (of_nat (16 * Suc j) :: addr)" if "j < 257" for j
      by (rule ne) (use k that in simp_all)
    moreover have "of_nat (16 * Suc k) \<noteq> (of_nat 100016 :: addr)" by (rule ne) (use k in \<open>simp, presburger\<close>)
    ultimately show ?thesis unfolding image_image insert_iff image_iff of_nat_numeral by (meson atLeastLessThan_iff)
  qed
  have "4816 \<in> set (frameRoots deepStack (deepFrame 300))" using root [of 300] by simp
  moreover have "set (frameRoots deepStack (deepFrame k)) \<inter> set (rs_rootValues s) = {}" if "k \<in> {257 .. 300}" for k
    using root [of k] sep [of k] that unfolding all by (auto simp del: of_nat_mult of_nat_Suc frameRoots.simps)
  moreover have "frameChain deepStack [exampleRecord] 16 (map deepFrame [1 ..< 301])" using deep_chain [of 299] by simp
  ultimately show ?thesis using s by blast
qed

section \<open>Records and return addresses\<close>

text \<open>The record used for a caller's return address is the nearest one at or below it, at most
  4096 bytes away, and none is used only when there is none in that range.\<close>

theorem caller_record_is_nearest:
  "(case findCallerRecord rs a of
      Some b \<Rightarrow> b \<in> set rs \<and> sr_instructionAddress b \<le> a \<and> a - sr_instructionAddress b \<le> 4096 \<and>
        (\<forall>r \<in> set rs. sr_instructionAddress r \<le> a \<longrightarrow> a - sr_instructionAddress b \<le> a - sr_instructionAddress r)
    | None \<Rightarrow> \<forall>r \<in> set rs. sr_instructionAddress r \<le> a \<longrightarrow> 4096 < a - sr_instructionAddress r)"
proof (cases "findCallerRecord rs a")
  case None
  then show ?thesis using findCallerRecord_None [OF None] by (simp add: before_def distance_def)
next
  case (Some b)
  then show ?thesis using findCallerRecord_Some [OF Some] by (simp add: before_def distance_def)
qed

theorem caller_record_is_nearest_witness:
  "(case findCallerRecord [exampleRecord] 5000 of Some b \<Rightarrow> sr_instructionAddress b \<le> 5000 | None \<Rightarrow> False)"
proof -
  have "\<not> 4096 < (5000 - 4100 :: u64)" "(4100 :: u64) \<le> 5000" by simp_all
  then show ?thesis
    using caller_record_is_nearest [of "[exampleRecord]" 5000] by (auto simp: exampleRecord_def split: option.splits)
qed

text \<open>C11. The end address of a function is recorded but no lookup consults it: a return address
  outside the function of the record, here 2384 bytes past its end, is taken for a frame of that
  function and its stack words become roots.\<close>

theorem record_of_another_function_is_used:
  "sr_functionEndAddress exampleRecord = 4112 \<and> findCallerRecord [exampleRecord] 6496 = Some exampleRecord \<and>
   (\<exists>s. walkFrames (plainMemory\<lparr>rd_word := (\<lambda>a. if a = 24 then 6496 else 0)\<rparr>) [exampleRecord] 256 16 emptySummary = Inr s \<and>
      rs_rootValues s = [32, 32])"
proof -
  let ?rd = "plainMemory\<lparr>rd_word := (\<lambda>a. if a = 24 then 6496 else 0)\<rparr>"
  have found: "findCallerRecord [exampleRecord] 6496 = Some exampleRecord"
    by (simp add: findCallerRecord_def findSafepointRecord_def findSafepointRecordForReturnAddress_def
        exampleRecord_def kMaxReturnAddressDistance_def)
  have "frameChain ?rd [exampleRecord] 0 []" by (rule bottom) simp
  then have chain: "frameChain ?rd [exampleRecord] 16 [(exampleRecord, 32, 0)]"
    using frame [of 16 ?rd "[exampleRecord]" exampleRecord "[]"] found by simp
  have "\<forall>f \<in> set (take 256 [(exampleRecord, 32, 0)]). resolvableFrame f" by (simp add: example_resolvable)
  from walkFrames_ok [OF chain this, of emptySummary]
  have "walkFrames ?rd [exampleRecord] 256 16 emptySummary = Inr (addFrame ?rd (exampleRecord, 32, 0) emptySummary)" by simp
  moreover have "rs_rootValues (addFrame ?rd (exampleRecord, 32, 0) emptySummary) = [32, 32]"
    by (simp add: addFrame_def frameRoots_example emptySummary_def del: frameRoots.simps)
  moreover have "sr_functionEndAddress exampleRecord = 4112" by (simp add: exampleRecord_def)
  ultimately show ?thesis using found by blast
qed

section \<open>Decoding of root pairs\<close>

text \<open>What a location of a stackmap record stands for, field by field; a small constant is read without sign, a large one from
  the pool of constants.\<close>

definition locationMeans :: "u64 list \<Rightarrow> stackmap_location \<Rightarrow> GCRootLocation \<Rightarrow> bool" where
  "locationMeans pool loc l \<longleftrightarrow> rl_size l = ucast (loc_sizeInBytes loc) \<and>
     (rl_kind l = KRegister \<and> loc_kind loc = LRegister \<or> rl_kind l = KDirect \<and> loc_kind loc = LDirect \<or>
        rl_kind l = KIndirect \<and> loc_kind loc = LIndirect \<or> rl_kind l = KConstant \<and> isConstantKind (loc_kind loc)) \<and>
     rl_dwarfRegister l = (if rl_kind l = KConstant then 0 else loc_dwarfRegNum loc) \<and>
     rl_offset l = (if rl_kind l = KDirect \<or> rl_kind l = KIndirect then loc_offset loc else 0) \<and>
     (if loc_kind loc = LConstantIndex
      then unat (loc_constantIndex loc) < length pool \<and> rl_constant l = pool ! unat (loc_constantIndex loc)
      else rl_constant l = (if loc_kind loc = LConstant then ucast (loc_smallConstant loc) else 0))"

lemma parseRootLocation_means: "parseRootLocation loc pool = Inr l \<longleftrightarrow> locationMeans pool loc l"
  by (cases l; cases "loc_kind loc")
    (auto simp: parseRootLocation_def readStackMapConstant_def locationMeans_def isConstantKind_def Let_def)

lemma parsePairs_means:
  "even (length locs) \<Longrightarrow> parsePairs locs pool = Inr pairs \<longleftrightarrow> length locs = 2 * length pairs \<and>
     (\<forall>k < length pairs. locationMeans pool (locs ! (2 * k)) (rp_base (pairs ! k)) \<and>
        locationMeans pool (locs ! (2 * k + 1)) (rp_derived (pairs ! k)))"
proof (induction locs pool arbitrary: pairs rule: parsePairs.induct)
  case (1 b d rest pool)
  show ?case
  proof (cases pairs)
    case Nil
    then show ?thesis by (simp add: bindE_eq_Inr)
  next
    case (Cons p ps)
    obtain x y where p: "p = \<lparr>rp_base = x, rp_derived = y\<rparr>" by (cases p)
    have rest: "parsePairs rest pool = Inr ps \<longleftrightarrow> length rest = 2 * length ps \<and>
        (\<forall>k < length ps. locationMeans pool (rest ! (2 * k)) (rp_base (ps ! k)) \<and>
          locationMeans pool (rest ! (2 * k + 1)) (rp_derived (ps ! k)))"
      if "locationMeans pool b x" "locationMeans pool d y"
      using 1 that by (simp add: parseRootLocation_means [symmetric])
    have "parsePairs (b # d # rest) pool = Inr pairs \<longleftrightarrow>
        locationMeans pool b x \<and> locationMeans pool d y \<and> parsePairs rest pool = Inr ps"
      by (auto simp: Cons p bindE_eq_Inr parseRootLocation_means)
    then show ?thesis using rest by (auto simp: Cons p All_less_Suc2 simp del: parsePairs.simps)
  qed
qed auto

text \<open>C10. The locations of a statepoint are decoded exactly: they yield pairs of roots just when there are three constants
  followed by twice as many locations as pairs, and the k-th pair is what the locations 3 + 2k (its base) and 4 + 2k (its
  derived pointer) of the record stand for.\<close>

theorem root_pairs_exact:
  "parseRootPairs locs pool = Inr pairs \<longleftrightarrow> length locs = 3 + 2 * length pairs \<and>
     (\<forall>i < 3. isConstantKind (loc_kind (locs ! i))) \<and>
     (\<forall>k < length pairs. locationMeans pool (locs ! (3 + 2 * k)) (rp_base (pairs ! k)) \<and>
        locationMeans pool (locs ! (4 + 2 * k)) (rp_derived (pairs ! k)))"
proof -
  have three: "(\<forall>i < 3. isConstantKind (loc_kind (locs ! i))) \<longleftrightarrow> checkPrefix locs [0 ..< 3] = None"
    by (auto simp: numeral_3_eq_3 upt_rec less_Suc_eq)
  show ?thesis
  proof (cases "length locs < 3 \<or> odd (length locs - 3)")
    case True
    then have "length locs \<noteq> 3 + 2 * length pairs" by auto
    moreover have "parseRootPairs locs pool \<noteq> Inr pairs"
      using True by (auto simp: parseRootPairs_def kStatepointPrefixLocationCount_def Let_def odd_iff_mod_2_eq_one split: option.splits)
    ultimately show ?thesis by simp
  next
    case False
    then have l: "3 \<le> length locs" "even (length (drop 3 locs))" unfolding length_drop by (blast intro: leI)+
    then have "parseRootPairs locs pool = Inr pairs \<longleftrightarrow> checkPrefix locs [0 ..< 3] = None \<and> parsePairs (drop 3 locs) pool = Inr pairs"
      by (auto simp: parseRootPairs_def kStatepointPrefixLocationCount_def Let_def even_iff_mod_2_eq_zero split: option.splits)
    also have "\<dots> \<longleftrightarrow> checkPrefix locs [0 ..< 3] = None \<and> length locs = 3 + 2 * length pairs \<and>
        (\<forall>k < length pairs. locationMeans pool (locs ! (3 + 2 * k)) (rp_base (pairs ! k)) \<and>
          locationMeans pool (locs ! (4 + 2 * k)) (rp_derived (pairs ! k)))"
      using l by (auto simp: parsePairs_means nth_drop add.assoc numeral_eq_Suc)
    finally show ?thesis using three by blast
  qed
qed

theorem root_pairs_exact_witness:
  "\<exists>k d. parseRootPairs [k, k, k, d, d] [] = Inr [\<lparr>rp_base = directRoot, rp_derived = directRoot\<rparr>]"
proof -
  define k where "k = \<lparr>loc_kind = LConstant, loc_sizeInBytes = 8, loc_dwarfRegNum = 0, loc_offset = 0,
     loc_smallConstant = 0, loc_constantIndex = 0\<rparr>"
  define d where "d = \<lparr>loc_kind = LDirect, loc_sizeInBytes = 8, loc_dwarfRegNum = rl_dwarfRegister directRoot,
     loc_offset = rl_offset directRoot, loc_smallConstant = 0, loc_constantIndex = 0\<rparr>"
  have "locationMeans [] d directRoot" by (simp add: locationMeans_def d_def directRoot_def)
  then have "parseRootPairs [k, k, k, d, d] [] = Inr [\<lparr>rp_base = directRoot, rp_derived = directRoot\<rparr>]"
    by (subst root_pairs_exact) (simp add: numeral_3_eq_3 less_Suc_eq k_def isConstantKind_def)
  then show ?thesis by blast
qed

section \<open>Registration\<close>

text \<open>The safepoints of one section, as a specification: none for a section that is no stackmap or is empty; else the records of
  the stackmap in order, each at the resolved address of its function plus its offset and with its parsed roots.  There are none
  to be had when the section or the relocations cannot be read, when the stackmap cannot be parsed, when the record counts of
  the functions do not add up to the number of records, or when the roots of a record cannot be parsed.\<close>

definition stackmapPoints where
  "stackmapPoints sorted_by symbols functionOrder relocated sm points \<longleftrightarrow>
     (let byObject = sorted_by fs_objectAddress symbols;
          owners = recordOwners (resolveFunctionAddress relocated functionOrder (symbolsByName symbols) byObject) 0 (sm_functions sm)
      in length (sm_records sm) = length owners \<and> (\<forall>r \<in> set (sm_records sm). parsable (sm_constants sm) r) \<and>
         points = map2 (safepointOf (findFunctionEndAddress (sorted_by fs_loadedAddress byObject)) (sm_constants sm)) owners (sm_records sm))"

definition sectionPoints where
  "sectionPoints parse sorted_by obj loadAddress functionOrder symbols sec points \<longleftrightarrow>
     (\<exists>name. sec_name sec = Inr name \<and>
       (if \<not> isStackMapSection name \<or> sec_contents sec = Inr [] then points = []
        else \<exists>contents relocations usingOriginal sm relocated.
          sec_contents sec = Inr contents \<and> chooseRelocations obj sec name = Inr (relocations, usingOriginal) \<and>
          parse contents = Inr sm \<and>
          resolveRelocations obj loadAddress (symbolsByName symbols) usingOriginal relocations
            (replicate (length (sm_functions sm)) 0) = Inr relocated \<and>
          stackmapPoints sorted_by symbols functionOrder relocated sm points))"

lemma loadStackMapSection_points:
  "loadStackMapSection parse sorted_by obj loadAddress functionOrder symbols sec = Inr points \<longleftrightarrow>
     sectionPoints parse sorted_by obj loadAddress functionOrder symbols sec points"
proof -
  have "loadStackMapSection parse sorted_by obj loadAddress functionOrder symbols sec = Inr points \<longleftrightarrow>
      (\<exists>name. sec_name sec = Inr name \<and> (if \<not> isStackMapSection name then points = []
        else \<exists>contents. sec_contents sec = Inr contents \<and> (if contents = [] then points = []
          else \<exists>relocations usingOriginal sm relocated. chooseRelocations obj sec name = Inr (relocations, usingOriginal) \<and>
            parse contents = Inr sm \<and>
            resolveRelocations obj loadAddress (symbolsByName symbols) usingOriginal relocations
              (replicate (length (sm_functions sm)) 0) = Inr relocated \<and>
            stackmapPoints sorted_by symbols functionOrder relocated sm points)))"
    unfolding loadStackMapSection_def stackmapPoints_def Let_def
    by (cases "sec_name sec") (auto simp: bindE_eq_Inr loadFunctions_Inr)
  also have "\<dots> \<longleftrightarrow> sectionPoints parse sorted_by obj loadAddress functionOrder symbols sec points"
    unfolding sectionPoints_def by (cases "sec_contents sec") auto
  finally show ?thesis .
qed

lemma loadSections_points:
  "loadSections load secs = Inr points \<longleftrightarrow> (\<exists>pss. list_all2 (\<lambda>sec ps. load sec = Inr ps) secs pss \<and> points = concat pss)"
proof (induction secs arbitrary: points)
  case (Cons sec secs)
  then show ?case by (fastforce simp: bindE_eq_Inr list_all2_Cons1)
qed auto

text \<open>C8. Registering an object adds the safepoints of its stackmap sections to the registry, one record for each record of the
  stackmaps, in order.  It succeeds exactly when the function symbols can be read and every section has its safepoints (its
  name, contents, relocations and header can be read, the record counts of its functions add up to the number of its records
  and every record can be parsed); otherwise it reports an error and leaves the registry unchanged.\<close>

theorem registration_exact:
  "(registerObject parse sorted_by obj debugObj loadAddress reg = (None, reg') \<longleftrightarrow>
     (\<exists>symbols pss. collectFunctionSymbols obj loadAddress (obj_symbols obj) = Inr symbols \<and>
        list_all2 (sectionPoints parse sorted_by obj loadAddress (reg_managedFunctionOrder reg) symbols) (obj_sections debugObj) pss \<and>
        reg' = reg\<lparr>reg_safepoints := reg_safepoints reg @ concat pss\<rparr>)) \<and>
   (fst (registerObject parse sorted_by obj debugObj loadAddress reg) \<noteq> None \<longrightarrow>
      snd (registerObject parse sorted_by obj debugObj loadAddress reg) = reg)"
proof -
  let ?load = "\<lambda>symbols. loadSections (loadStackMapSection parse sorted_by obj loadAddress (reg_managedFunctionOrder reg) symbols)
    (obj_sections debugObj)"
  let ?run = "bindE (collectFunctionSymbols obj loadAddress (obj_symbols obj)) ?load"
  have "registerObject parse sorted_by obj debugObj loadAddress reg = (None, reg') \<longleftrightarrow>
      (\<exists>points. ?run = Inr points \<and> reg' = reg\<lparr>reg_safepoints := reg_safepoints reg @ points\<rparr>)"
    unfolding registerObject_def by (cases ?run) auto
  moreover have "(\<exists>points. ?run = Inr points \<and> reg' = reg\<lparr>reg_safepoints := reg_safepoints reg @ points\<rparr>) \<longleftrightarrow>
      (\<exists>symbols pss. collectFunctionSymbols obj loadAddress (obj_symbols obj) = Inr symbols \<and>
        list_all2 (sectionPoints parse sorted_by obj loadAddress (reg_managedFunctionOrder reg) symbols) (obj_sections debugObj) pss \<and>
        reg' = reg\<lparr>reg_safepoints := reg_safepoints reg @ concat pss\<rparr>)"
    unfolding bindE_eq_Inr loadSections_points loadStackMapSection_points by blast
  moreover have "fst (registerObject parse sorted_by obj debugObj loadAddress reg) \<noteq> None \<longrightarrow>
      snd (registerObject parse sorted_by obj debugObj loadAddress reg) = reg"
    unfolding registerObject_def by (simp split: sum.split)
  ultimately show ?thesis by blast
qed

text \<open>An object with one function symbol, at offset 16 of a section loaded at 4096, and a stackmap
  of one record.\<close>

definition exampleSymbol :: object_symbol where
  "exampleSymbol = \<lparr>sym_isFunction = Inr True, sym_name = Inr ''main'', sym_section = Inr (Some \<lparr>sec_index = 1, sec_address = 0\<rparr>),
     sym_address = Inr 16\<rparr>"

definition exampleSection :: object_section where
  "exampleSection = \<lparr>sec_index = 2, sec_address = 0, sec_name = Inr ''.llvm_stackmaps'', sec_contents = Inr [3],
     sec_relocations = [\<lparr>rel_offset = 16, rel_symbol = Some exampleSymbol\<rparr>]\<rparr>"

definition exampleObject :: object_file where
  "exampleObject = \<lparr>obj_sections = [\<lparr>sec_index = 1, sec_address = 0, sec_name = Inr ''.text'', sec_contents = Inr [],
     sec_relocations = []\<rparr>, exampleSection], obj_symbols = [exampleSymbol]\<rparr>"

definition constantLocation :: stackmap_location where
  "constantLocation = \<lparr>loc_kind = LConstant, loc_sizeInBytes = 8, loc_dwarfRegNum = 0, loc_offset = 0,
     loc_smallConstant = 0, loc_constantIndex = 0\<rparr>"

definition exampleStackmap :: stackmap where
  "exampleStackmap = \<lparr>sm_functions = [(0, 1)], sm_constants = [],
     sm_records = [\<lparr>smr_id = 7, smr_instructionOffset = 4, smr_locations = replicate 3 constantLocation\<rparr>]\<rparr>"

lemma example_points:
  "sectionPoints (\<lambda>_. Inr exampleStackmap) sort_key exampleObject (\<lambda>_. 4096) []
     [\<lparr>fs_objectAddress = 16, fs_loadedAddress = 4112, fs_name = ''main''\<rparr>] exampleSection
     [\<lparr>sr_id = 7, sr_functionAddress = 4112, sr_functionEndAddress = - 1, sr_instructionAddress = 4116, sr_rootPairs = []\<rparr>]"
proof -
  let ?sym = "\<lparr>fs_objectAddress = 16, fs_loadedAddress = 4112, fs_name = ''main''\<rparr>"
  have name: "sec_name exampleSection = Inr ''.llvm_stackmaps''" "isStackMapSection ''.llvm_stackmaps''"
      "sec_contents exampleSection = Inr [3]" "[3 :: 8 word] \<noteq> []"
    by (simp_all add: exampleSection_def isStackMapSection_def)
  have relocs: "chooseRelocations exampleObject exampleSection ''.llvm_stackmaps'' =
      Inr (sec_relocations exampleSection, True)"
    by (simp add: chooseRelocations_def exampleObject_def exampleSection_def)
  have resolved: "resolveRelocations exampleObject (\<lambda>_. 4096) (symbolsByName [?sym]) True (sec_relocations exampleSection)
      (replicate (length (sm_functions exampleStackmap)) 0) = Inr [4112]"
    by (simp add: exampleSection_def exampleStackmap_def relocatedFunctionIndex_def kStackMapHeaderSize_def
        kStackMapFunctionRecordSize_def relocationTarget_def exampleSymbol_def symbolsByName_def)
  have parse: "parseRootPairs (replicate 3 constantLocation) [] = Inr []"
    by (simp add: parseRootPairs_def kStatepointPrefixLocationCount_def constantLocation_def isConstantKind_def
        numeral_3_eq_3 upt_rec)
  have "stackmapPoints sort_key [?sym] [] [4112] exampleStackmap
     [\<lparr>sr_id = 7, sr_functionAddress = 4112, sr_functionEndAddress = - 1, sr_instructionAddress = 4116, sr_rootPairs = []\<rparr>]"
    by (simp add: stackmapPoints_def exampleStackmap_def parsable_def parse safepointOf_def resolveFunctionAddress_def
        findFunctionEndAddress_def Let_def)
  then show ?thesis using name relocs resolved
    by (simp add: sectionPoints_def) (rule exI [where x = True], auto)
qed

theorem registration_exact_witness:
  "registerObject (\<lambda>_. Inr exampleStackmap) sort_key exampleObject exampleObject (\<lambda>_. 4096) emptyRegistry =
     (None, emptyRegistry\<lparr>reg_safepoints :=
       [\<lparr>sr_id = 7, sr_functionAddress = 4112, sr_functionEndAddress = - 1, sr_instructionAddress = 4116, sr_rootPairs = []\<rparr>]\<rparr>)"
proof -
  let ?sym = "\<lparr>fs_objectAddress = 16, fs_loadedAddress = 4112, fs_name = ''main''\<rparr>"
  have symbols: "collectFunctionSymbols exampleObject (\<lambda>_. 4096) (obj_symbols exampleObject) = Inr [?sym]"
    by (simp add: exampleObject_def exampleSymbol_def functionSymbolOf_def hasSection_def)
  have code: "sectionPoints (\<lambda>_. Inr exampleStackmap) sort_key exampleObject (\<lambda>_. 4096) [] [?sym]
      (hd (obj_sections exampleObject)) []"
    by (simp add: sectionPoints_def exampleObject_def isStackMapSection_def)
  have "list_all2 (sectionPoints (\<lambda>_. Inr exampleStackmap) sort_key exampleObject (\<lambda>_. 4096) (reg_managedFunctionOrder emptyRegistry) [?sym])
      (obj_sections exampleObject) [[], [\<lparr>sr_id = 7, sr_functionAddress = 4112, sr_functionEndAddress = - 1,
        sr_instructionAddress = 4116, sr_rootPairs = []\<rparr>]]"
    using code example_points by (simp add: exampleObject_def emptyRegistry_def)
  with symbols show ?thesis
    by (intro registration_exact [THEN conjunct1, THEN iffD2] exI conjI) (assumption, assumption, simp add: emptyRegistry_def)
qed

lemma functionEnd_next:
  "sorted (map fs_loadedAddress byLoaded) \<Longrightarrow>
     (findFunctionEndAddress byLoaded fa = - 1 \<and> (\<forall>s \<in> set byLoaded. fs_loadedAddress s \<le> fa)) \<or>
     (\<exists>s \<in> set byLoaded. findFunctionEndAddress byLoaded fa = fs_loadedAddress s \<and> fa < fs_loadedAddress s \<and>
        (\<forall>t \<in> set byLoaded. fa < fs_loadedAddress t \<longrightarrow> fs_loadedAddress s \<le> fs_loadedAddress t))"
proof (induction byLoaded)
  case Nil then show ?case by (simp add: findFunctionEndAddress_def)
next
  case (Cons s rest)
  show ?case
  proof (cases "fs_loadedAddress s \<le> fa")
    case True
    then have "findFunctionEndAddress (s # rest) fa = findFunctionEndAddress rest fa"
      by (simp add: findFunctionEndAddress_def)
    then show ?thesis using Cons.IH Cons.prems True by (auto simp: not_le)
  next
    case False
    then show ?thesis using Cons.prems by (auto simp: findFunctionEndAddress_def not_le)
  qed
qed

lemma addressFromSymbols_last:
  "sorted (map fs_objectAddress byObject) \<Longrightarrow>
     (addressFromSymbols byObject a = a \<and> (\<forall>s \<in> set byObject. a < fs_objectAddress s)) \<or>
     (\<exists>s \<in> set byObject. addressFromSymbols byObject a = fs_loadedAddress s + (a - fs_objectAddress s) \<and>
        fs_objectAddress s \<le> a \<and> (\<forall>t \<in> set byObject. fs_objectAddress t \<le> a \<longrightarrow> fs_objectAddress t \<le> fs_objectAddress s))"
proof (induction byObject)
  case Nil then show ?case by (simp add: addressFromSymbols_def)
next
  case (Cons s rest)
  show ?case
  proof (cases "fs_objectAddress s \<le> a")
    case True
    show ?thesis
    proof (cases "takeWhile (\<lambda>s. fs_objectAddress s \<le> a) rest")
      case Nil
      then have "\<forall>t \<in> set rest. a < fs_objectAddress t"
        using Cons.prems by (cases rest) (auto simp: not_le split: if_splits)
      then show ?thesis using True Nil by (auto simp: addressFromSymbols_def not_le)
    next
      case (Cons x xs)
      obtain y ys where y: "rev (x # xs) = y # ys" by (metis list.exhaust list.simps(3) rev_is_Nil_conv)
      then have "addressFromSymbols (s # rest) a = addressFromSymbols rest a"
        using True Cons by (simp add: addressFromSymbols_def)
      moreover have "x \<in> set rest" "fs_objectAddress x \<le> a"
        using Cons by (metis list.set_intros(1) set_takeWhileD)+
      ultimately show ?thesis using Cons.IH Cons.prems by force
    qed
  next
    case False
    then show ?thesis using Cons.prems by (auto simp: addressFromSymbols_def not_le)
  qed
qed

text \<open>When the function symbols are sorted, the end recorded for a function is the load address
  of the next function symbol, or the largest address when there is none, and an address that no
  relocation and no metadata resolves is taken relative to the last symbol at or below it.\<close>

theorem function_addresses_from_symbols:
  assumes "sorted (map fs_loadedAddress byLoaded)" "sorted (map fs_objectAddress byObject)"
  shows "((findFunctionEndAddress byLoaded fa = - 1 \<and> (\<forall>s \<in> set byLoaded. fs_loadedAddress s \<le> fa)) \<or>
     (\<exists>s \<in> set byLoaded. findFunctionEndAddress byLoaded fa = fs_loadedAddress s \<and> fa < fs_loadedAddress s \<and>
        (\<forall>t \<in> set byLoaded. fa < fs_loadedAddress t \<longrightarrow> fs_loadedAddress s \<le> fs_loadedAddress t))) \<and>
    ((addressFromSymbols byObject a = a \<and> (\<forall>s \<in> set byObject. a < fs_objectAddress s)) \<or>
     (\<exists>s \<in> set byObject. addressFromSymbols byObject a = fs_loadedAddress s + (a - fs_objectAddress s) \<and>
        fs_objectAddress s \<le> a \<and> (\<forall>t \<in> set byObject. fs_objectAddress t \<le> a \<longrightarrow> fs_objectAddress t \<le> fs_objectAddress s)))"
  using functionEnd_next [OF assms(1)] addressFromSymbols_last [OF assms(2)] by blast

theorem function_addresses_from_symbols_witness:
  "\<exists>s. fs_loadedAddress s = 4112 \<and> findFunctionEndAddress [s] 4096 = 4112 \<and> addressFromSymbols [s] 20 = 4116"
proof -
  define s where "s = \<lparr>fs_objectAddress = 16, fs_loadedAddress = 4112, fs_name = ''f''\<rparr>"
  show ?thesis
    using function_addresses_from_symbols [of "[s]" "[s]" 4096 20] by (intro exI [of _ s]) (simp add: s_def)
qed

end
