(* ===== verification/Command_Line.thy ===== *)
theory Command_Line
  imports Prelude
begin

text \<open>
  The command line: \<open>src/src/mvm/cli.cc\<close>.  The C library's \<open>isspace\<close>, \<open>isdigit\<close>, \<open>strtol\<close> and
  \<open>strtoull\<close> are modelled in the C locale: leading white space and a sign are skipped, the value is
  clamped to the range of the result type (the code does not look at \<open>errno\<close>), and what follows
  the digits is returned; without digits the value is 0 and nothing is consumed.
\<close>

section \<open>Numbers\<close>

definition isSpaceChar :: "char \<Rightarrow> bool" where
  "isSpaceChar c \<longleftrightarrow> (of_char c :: nat) = 32 \<or> 9 \<le> (of_char c :: nat) \<and> (of_char c :: nat) \<le> 13"

definition isDigitChar :: "char \<Rightarrow> bool" where
  "isDigitChar c \<longleftrightarrow> 48 \<le> (of_char c :: nat) \<and> (of_char c :: nat) \<le> 57"

definition decimalValue :: "string \<Rightarrow> nat" where
  "decimalValue ds = foldl (\<lambda>n c. 10 * n + (of_char c - 48)) 0 ds"

definition clamp :: "int \<Rightarrow> int" where
  "clamp n = max (- (2 ^ 63)) (min (2 ^ 63 - 1) n)"

definition strtol :: "string \<Rightarrow> int \<times> string" where
  "strtol s =
     (let body = dropWhile isSpaceChar s;
          negative = (body \<noteq> [] \<and> hd body = CHR ''-'');
          digits = (if body \<noteq> [] \<and> (hd body = CHR ''-'' \<or> hd body = CHR ''+'') then tl body else body)
      in if takeWhile isDigitChar digits = [] then (0, s)
         else (clamp ((if negative then -1 else 1) * int (decimalValue (takeWhile isDigitChar digits))),
               dropWhile isDigitChar digits))"

text \<open>\<open>strtoull\<close> is only called on a string of digits.\<close>

definition strtoull_digits :: "string \<Rightarrow> u64" where
  "strtoull_digits ds = of_nat (min (decimalValue ds) 18446744073709551615)"

section \<open>Options\<close>

record Options =
  opt_showHelp :: bool
  opt_dumpIR :: bool
  opt_optLevel :: int
  opt_heapSizeBytes :: u64
  opt_inputPath :: string
  opt_entrySymbol :: string
  opt_programArgs :: "string list"

definition defaultOptions :: Options where
  "defaultOptions = \<lparr>opt_showHelp = False, opt_dumpIR = False, opt_optLevel = 2, opt_heapSizeBytes = 8 * 1024 * 1024,
     opt_inputPath = [], opt_entrySymbol = [], opt_programArgs = []\<rparr>"

datatype cli_error =
    InvalidOptLevel string
  | UnsupportedO0
  | InvalidHeapSize string
  | InvalidHeapSuffix string
  | HeapSizeTooLarge string
  | MissingEntrySymbol
  | MissingValue string
  | UnknownOption string
  | MultipleInputs
  | MissingInput

definition parseOptLevel :: "string \<Rightarrow> cli_error + int" where
  "parseOptLevel value =
     (case strtol value of (parsed, end) \<Rightarrow>
        if end \<noteq> [] \<or> parsed < 0 \<or> parsed > 3 then Inl (InvalidOptLevel value)
        else if parsed = 0 then Inl UnsupportedO0
        else Inr parsed)"

definition suffixMultiplier :: "string \<Rightarrow> u64 option" where
  "suffixMultiplier suffix =
     (if suffix = [] then Some 1
      else if suffix = ''K'' \<or> suffix = ''k'' then Some 1024
      else if suffix = ''M'' \<or> suffix = ''m'' then Some (1024 * 1024)
      else if suffix = ''G'' \<or> suffix = ''g'' then Some (1024 * 1024 * 1024)
      else None)"

definition parseHeapSize :: "string \<Rightarrow> cli_error + u64" where
  "parseHeapSize value =
     (if value = [] then Inl (InvalidHeapSize value)
      else let digits = takeWhile isDigitChar value in
        if digits = [] then Inl (InvalidHeapSize value)
        else let parsed = strtoull_digits digits in
          if parsed = 0 then Inl (InvalidHeapSize value)
          else case suffixMultiplier (dropWhile isDigitChar value) of
              None \<Rightarrow> Inl (InvalidHeapSuffix value)
            | Some multiplier \<Rightarrow>
                if parsed > (- 1) div multiplier then Inl (HeapSizeTooLarge value)
                else Inr (parsed * multiplier))"

text \<open>The loop over the arguments.  Once \<open>--\<close> is seen all others are program arguments.\<close>

fun parseArgs :: "string list \<Rightarrow> Options \<Rightarrow> cli_error + Options" where
  "parseArgs [] options = (if opt_inputPath options = [] then Inl MissingInput else Inr options)"
| "parseArgs (arg # rest) options =
     (if arg = ''--'' then parseArgs [] (options\<lparr>opt_programArgs := opt_programArgs options @ rest\<rparr>)
      else if arg = ''-h'' \<or> arg = ''--help'' then Inr (options\<lparr>opt_showHelp := True\<rparr>)
      else if arg = ''--dump-ir'' then parseArgs rest (options\<lparr>opt_dumpIR := True\<rparr>)
      else if arg = ''--entry'' then
        (case rest of [] \<Rightarrow> Inl MissingEntrySymbol | v # rest \<Rightarrow> parseArgs rest (options\<lparr>opt_entrySymbol := v\<rparr>))
      else if arg = ''--heap-size'' \<or> arg = ''-Xm'' then
        (case rest of
           [] \<Rightarrow> Inl (MissingValue arg)
         | v # rest \<Rightarrow> bindE (parseHeapSize v) (\<lambda>n. parseArgs rest (options\<lparr>opt_heapSizeBytes := n\<rparr>)))
      else if arg = ''-O'' then
        (case rest of
           [] \<Rightarrow> Inl (MissingValue arg)
         | v # rest \<Rightarrow> bindE (parseOptLevel v) (\<lambda>n. parseArgs rest (options\<lparr>opt_optLevel := n\<rparr>)))
      else if length arg = 3 \<and> take 2 arg = ''-O'' then
        bindE (parseOptLevel (drop 2 arg)) (\<lambda>n. parseArgs rest (options\<lparr>opt_optLevel := n\<rparr>))
      else if take 3 arg = ''-Xm'' \<and> length arg > 3 then
        bindE (parseHeapSize (drop 3 arg)) (\<lambda>n. parseArgs rest (options\<lparr>opt_heapSizeBytes := n\<rparr>))
      else if arg \<noteq> [] \<and> hd arg = CHR ''-'' then Inl (UnknownOption arg)
      else if opt_inputPath options \<noteq> [] then Inl MultipleInputs
      else parseArgs rest (options\<lparr>opt_inputPath := arg\<rparr>))"

definition parseCommandLine :: "string list \<Rightarrow> cli_error + Options" where
  "parseCommandLine argv = parseArgs (tl argv) defaultOptions"

section \<open>Decimal numbers\<close>

definition digitChar :: "nat \<Rightarrow> char" where
  "digitChar d = char_of (48 + d)"

fun showNat :: "nat \<Rightarrow> string" where
  "showNat n = (if n < 10 then [digitChar n] else showNat (n div 10) @ [digitChar (n mod 10)])"

declare showNat.simps [simp del]

lemma of_char_digitChar: "d < 10 \<Longrightarrow> (of_char (digitChar d) :: nat) = 48 + d"
  by (simp add: digitChar_def)

lemma digitChar_digit: "d < 10 \<Longrightarrow> isDigitChar (digitChar d)"
  by (simp add: isDigitChar_def of_char_digitChar)

lemma decimalValue_snoc: "decimalValue (ds @ [c]) = 10 * decimalValue ds + (of_char c - 48)"
  by (simp add: decimalValue_def)

lemma showNat_small: "n < 10 \<Longrightarrow> showNat n = [digitChar n]"
  by (subst showNat.simps) (rule if_P)

lemma showNat_large: "\<not> n < 10 \<Longrightarrow> showNat n = showNat (n div 10) @ [digitChar (n mod 10)]"
  by (subst showNat.simps) (rule if_not_P)

lemma decimalValue_large:
  assumes "\<not> n < 10"
  shows "decimalValue (showNat n) = 10 * decimalValue (showNat (n div 10)) + n mod 10"
proof -
  have "n mod 10 < 10" by simp
  from of_char_digitChar [OF this] show ?thesis
    by (simp only: showNat_large [OF assms] decimalValue_snoc diff_add_inverse)
qed

lemma decimalValue_showNat: "decimalValue (showNat n) = n"
proof (induction n rule: less_induct)
  case (less n)
  show ?case
  proof (cases "n < 10")
    case True
    then show ?thesis by (simp add: showNat_small decimalValue_def of_char_digitChar)
  next
    case False
    then have "decimalValue (showNat (n div 10)) = n div 10" by (intro less) simp
    then show ?thesis by (simp only: decimalValue_large [OF False] mult_div_mod_eq)
  qed
qed

lemma showNat_digits: "\<forall>c \<in> set (showNat n). isDigitChar c"
proof (induction n rule: less_induct)
  case (less n)
  show ?case
  proof (cases "n < 10")
    case True
    then show ?thesis using digitChar_digit [OF True] by (simp only: showNat_small list.set) blast
  next
    case False
    have "n mod 10 < 10" by simp
    from digitChar_digit [OF this] have "isDigitChar (digitChar (n mod 10))" .
    moreover have "\<forall>c \<in> set (showNat (n div 10)). isDigitChar c" by (rule less) (use False in simp)
    ultimately show ?thesis by (simp only: showNat_large [OF False] set_append list.set) blast
  qed
qed

lemma showNat_nonempty: "showNat n \<noteq> []"
proof (cases "n < 10")
  case True then show ?thesis by (simp only: showNat_small list.distinct not_False_eq_True)
next
  case False then show ?thesis by (simp only: showNat_large [OF False] append_is_Nil_conv list.distinct simp_thms)
qed

lemma takeWhile_showNat [simp]: "takeWhile isDigitChar (showNat n) = showNat n"
  using showNat_digits by (simp only: takeWhile_eq_all_conv)

lemma dropWhile_showNat [simp]: "dropWhile isDigitChar (showNat n) = []"
  using showNat_digits by (simp only: dropWhile_eq_Nil_conv)

lemma parseHeapSize_showNat:
  assumes "0 < n" "n < 18446744073709551616"
  shows "parseHeapSize (showNat n) = Inr (of_nat n)"
proof -
  have "min n 18446744073709551615 = n" using assms by simp
  moreover have "(of_nat n :: u64) \<noteq> 0"
    using assms unat_of_nat_u64 [of n] by (metis less_numeral_extra(3) unat_0)
  moreover have "\<not> (of_nat n :: u64) > (- 1) div 1" by (simp add: not_less)
  ultimately show ?thesis
    by (simp add: parseHeapSize_def strtoull_digits_def decimalValue_showNat showNat_nonempty suffixMultiplier_def Let_def)
qed

lemma digit_plain: "isDigitChar c \<Longrightarrow> \<not> isSpaceChar c \<and> c \<noteq> CHR ''-'' \<and> c \<noteq> CHR ''+''"
  by (auto simp: isDigitChar_def isSpaceChar_def)

lemma strtol_showNat:
  assumes "n < 4"
  shows "strtol (showNat n) = (int n, [])"
proof -
  have hd: "isDigitChar (hd (showNat n))" using showNat_digits showNat_nonempty by (metis hd_in_set)
  then have "dropWhile isSpaceChar (showNat n) = showNat n"
    using digit_plain [OF hd] showNat_nonempty by (cases "showNat n") simp_all
  then show ?thesis
    using digit_plain [OF hd] showNat_nonempty assms
    by (simp add: strtol_def Let_def decimalValue_showNat clamp_def)
qed

lemma parseOptLevel_showNat: "0 < n \<Longrightarrow> n < 4 \<Longrightarrow> parseOptLevel (showNat n) = Inr (int n)"
  by (simp add: parseOptLevel_def strtol_showNat)

lemma parseOptLevel_range: "parseOptLevel v = Inr n \<Longrightarrow> n \<in> {1, 2, 3}"
  by (auto simp: parseOptLevel_def split: if_splits prod.splits)

lemma suffixMultiplier_cases: "suffixMultiplier s = Some m \<Longrightarrow> m \<in> {1, 1024, 1024 * 1024, 1024 * 1024 * 1024}"
  by (auto simp: suffixMultiplier_def split: if_splits)

lemma heap_product:
  assumes "m \<noteq> 0" "\<not> p > (- 1 :: u64) div m"
  shows "unat (p * m) = unat p * unat m"
proof -
  have "unat p \<le> 18446744073709551615 div unat m"
    using assms(2) by (simp add: not_less word_le_nat_alt unat_div unsigned_minus_1_eq_mask mask_eq_exp_minus_1)
  moreover have "0 < unat m" using assms(1) by (simp add: unat_gt_0)
  ultimately have "unat p * unat m \<le> 18446744073709551615" by (simp add: less_eq_div_iff_mult_less_eq)
  then show ?thesis by (intro unat_mult_u64) simp
qed

lemma parseHeapSize_Inr:
  assumes "parseHeapSize v = Inr n"
  obtains m where "suffixMultiplier (dropWhile isDigitChar v) = Some m" "m \<in> {1, 1024, 1024 * 1024, 1024 * 1024 * 1024}"
    "strtoull_digits (takeWhile isDigitChar v) \<noteq> 0"
    "unat n = unat (strtoull_digits (takeWhile isDigitChar v)) * unat m"
proof -
  let ?p = "strtoull_digits (takeWhile isDigitChar v)"
  obtain m where m: "suffixMultiplier (dropWhile isDigitChar v) = Some m" "?p \<noteq> 0" "\<not> ?p > (- 1) div m" "n = ?p * m"
    using assms by (auto simp: parseHeapSize_def Let_def split: if_splits option.splits)
  have c: "m \<in> {1, 1024, 1024 * 1024, 1024 * 1024 * 1024}" by (rule suffixMultiplier_cases [OF m(1)])
  then have "m \<noteq> 0" by auto
  from that [OF m(1) c m(2)] heap_product [OF this m(3)] m(4) show ?thesis by simp
qed

lemma parseHeapSize_nonzero: "parseHeapSize v = Inr n \<Longrightarrow> n \<noteq> 0"
proof (erule parseHeapSize_Inr)
  fix m :: u64
  assume "m \<in> {1, 1024, 1024 * 1024, 1024 * 1024 * 1024}" and p: "strtoull_digits (takeWhile isDigitChar v) \<noteq> 0"
    and n: "unat n = unat (strtoull_digits (takeWhile isDigitChar v)) * unat m"
  then have "unat m \<noteq> 0" by auto
  moreover have "unat (strtoull_digits (takeWhile isDigitChar v)) \<noteq> 0" using p by (simp add: unat_eq_0)
  ultimately have "unat n \<noteq> 0" unfolding n by (rule no_zero_divisors [rotated])
  then show "n \<noteq> 0" by auto
qed

section \<open>The loop over the arguments\<close>

definition wfOptions :: "Options \<Rightarrow> bool" where
  "wfOptions opts \<longleftrightarrow> opt_optLevel opts \<in> {1, 2, 3} \<and> opt_heapSizeBytes opts \<noteq> 0"

text \<open>What one argument does: it ends the parsing, or the loop goes on with what is left and new
  options that are well formed if the old ones are.\<close>

lemma parseArgs_step:
  assumes "parseArgs (arg # rest) options = Inr result"
  shows "result = options\<lparr>opt_showHelp := True\<rparr> \<or>
    (\<exists>rest' options'. parseArgs rest' options' = Inr result \<and> length rest' \<le> length rest \<and>
       (wfOptions options \<longrightarrow> wfOptions options'))"
proof -
  have goOn: "parseArgs rest' options' = Inr result \<Longrightarrow> length rest' \<le> length rest \<Longrightarrow>
      (wfOptions options \<Longrightarrow> wfOptions options') \<Longrightarrow> ?thesis" for rest' options' by blast
  have level: "bindE (parseOptLevel v) (\<lambda>n. parseArgs rest' (options\<lparr>opt_optLevel := n\<rparr>)) = Inr result \<Longrightarrow>
      length rest' \<le> length rest \<Longrightarrow> ?thesis" for v rest'
    using parseOptLevel_range by (fastforce simp: bindE_eq_Inr wfOptions_def intro: goOn)
  have size: "bindE (parseHeapSize v) (\<lambda>n. parseArgs rest' (options\<lparr>opt_heapSizeBytes := n\<rparr>)) = Inr result \<Longrightarrow>
      length rest' \<le> length rest \<Longrightarrow> ?thesis" for v rest'
    using parseHeapSize_nonzero by (fastforce simp: bindE_eq_Inr wfOptions_def intro: goOn)
  have plain: "parseArgs rest' options' = Inr result \<Longrightarrow> length rest' \<le> length rest \<Longrightarrow>
      opt_optLevel options' = opt_optLevel options \<Longrightarrow> opt_heapSizeBytes options' = opt_heapSizeBytes options \<Longrightarrow> ?thesis"
    for rest' options' by (rule goOn [of rest' options']) (simp_all add: wfOptions_def)
  have withValue: "(case rest of [] \<Rightarrow> Inl e | v # r \<Rightarrow> k v r) = Inr result \<Longrightarrow>
      (\<And>v r. k v r = Inr result \<Longrightarrow> length r \<le> length rest \<Longrightarrow> ?thesis) \<Longrightarrow> ?thesis" for e k
    by (cases rest) (auto intro: le_SucI)
  have noError: "Inl e = Inr result \<Longrightarrow> ?thesis" for e by (simp only: sum.distinct)
  show ?thesis
    using assms unfolding parseArgs.simps(2) [of arg rest options]
    by (simp only: split: if_split_asm)
      (erule plain noError withValue level size | (simp; fail) | (simp only: sum.inject, blast))+
qed

lemma parseArgs_wf:
  "parseArgs args options = Inr result \<Longrightarrow> wfOptions options \<Longrightarrow>
   wfOptions result \<and> (opt_showHelp result \<or> opt_inputPath result \<noteq> [])"
proof (induction "length args" arbitrary: args options rule: less_induct)
  case less
  show ?case
  proof (cases args)
    case Nil
    then show ?thesis using less.prems by (simp split: if_splits)
  next
    case (Cons arg rest)
    from parseArgs_step [OF less.prems(1) [unfolded Cons]] show ?thesis
    proof (elim disjE exE conjE)
      assume "result = options\<lparr>opt_showHelp := True\<rparr>"
      then show ?thesis using less.prems(2) by (simp add: wfOptions_def)
    next
      fix rest' options'
      assume "parseArgs rest' options' = Inr result" "length rest' \<le> length rest" "wfOptions options \<longrightarrow> wfOptions options'"
      then show ?thesis using less.hyps [of rest' options'] less.prems(2) Cons by simp
    qed
  qed
qed

end
