(* ===== verification/Command_Line_Properties.thy ===== *)
theory Command_Line_Properties
  imports Command_Line
begin

text \<open>
  The properties of the command line parser: what it accepts, what it returns and that it reads back
  every set of options.
\<close>

section \<open>The heap size\<close>

text \<open>A heap size whose digits denote a number below \<open>2^64\<close> is accepted exactly when it is not
  zero, the suffix is none or one of K, M and G, and the product fits in 64 bits; then the result is the
  exact product, and otherwise the error says which of the three failed.\<close>

theorem heap_size_exact:
  assumes "decimalValue (takeWhile isDigitChar v) < 18446744073709551616"
  shows "parseHeapSize v =
    (let n = decimalValue (takeWhile isDigitChar v) in
     if takeWhile isDigitChar v = [] \<or> n = 0 then Inl (InvalidHeapSize v)
     else case suffixMultiplier (dropWhile isDigitChar v) of
         None \<Rightarrow> Inl (InvalidHeapSuffix v)
       | Some m \<Rightarrow> if n * unat m < 18446744073709551616 then Inr (of_nat (n * unat m)) else Inl (HeapSizeTooLarge v))"
proof -
  let ?n = "decimalValue (takeWhile isDigitChar v)"
  have p: "strtoull_digits (takeWhile isDigitChar v) = of_nat ?n" using assms by (simp add: strtoull_digits_def min_absorb1)
  have u: "unat (of_nat ?n :: u64) = ?n" by (rule unat_of_nat_u64 [OF assms])
  then have z: "(of_nat ?n :: u64) = 0 \<longleftrightarrow> ?n = 0" by (metis unat_eq_zero)
  have fits: "((of_nat ?n :: u64) > (- 1) div m) = (\<not> ?n * unat m < 18446744073709551616) \<and>
      (of_nat ?n * m :: u64) = of_nat (?n * unat m)" if "m \<noteq> 0" for m :: u64
  proof -
    have "(of_nat ?n :: u64) > (- 1) div m \<longleftrightarrow> 18446744073709551615 div unat m < ?n"
      by (simp add: word_less_nat_alt unat_div u unsigned_minus_1_eq_mask mask_eq_exp_minus_1)
    also have "\<dots> \<longleftrightarrow> \<not> ?n \<le> 18446744073709551615 div unat m" by (rule not_le [symmetric])
    also have "\<dots> \<longleftrightarrow> \<not> ?n * unat m \<le> 18446744073709551615"
      using that by (simp add: less_eq_div_iff_mult_less_eq unat_gt_0)
    finally show ?thesis by (auto simp: less_Suc_eq_le)
  qed
  have "m \<noteq> 0" if "suffixMultiplier s = Some m" for s m using suffixMultiplier_cases [OF that] by auto
  then show ?thesis
    using fits by (cases "v = []") (auto simp: parseHeapSize_def Let_def p z split: option.splits)
qed

theorem heap_size_exact_witness:
  "parseHeapSize ''8M'' = Inr 8388608 \<and> parseHeapSize ''0'' = Inl (InvalidHeapSize ''0'')"
proof -
  have d: "takeWhile isDigitChar ''8M'' = ''8''" "dropWhile isDigitChar ''8M'' = ''M''" "decimalValue ''8'' = 8"
      "takeWhile isDigitChar ''0'' = ''0''" "decimalValue ''0'' = 0"
    by (simp_all add: isDigitChar_def decimalValue_def)
  show ?thesis
    using heap_size_exact [of "''8M''"] heap_size_exact [of "''0''"] unfolding d
    by (simp add: suffixMultiplier_def Let_def)
qed

lemma parseArgs_Xm:
  "v \<noteq> [] \<Longrightarrow> parseArgs ((''-Xm'' @ v) # rest) options =
     bindE (parseHeapSize v) (\<lambda>n. parseArgs rest (options\<lparr>opt_heapSizeBytes := n\<rparr>))"
  by simp

lemma strtoull_clamped: "18446744073709551615 \<le> decimalValue ds \<Longrightarrow> strtoull_digits ds = 18446744073709551615"
  by (simp add: strtoull_digits_def min_absorb2)

lemma parseHeapSize_clamped:
  assumes "18446744073709551615 \<le> n"
  shows "parseHeapSize (showNat n) = Inr 18446744073709551615"
proof -
  have "strtoull_digits (showNat n) = 18446744073709551615"
    by (rule strtoull_clamped) (simp only: decimalValue_showNat assms)
  moreover have "\<not> (18446744073709551615 :: u64) > (- 1) div 1" by simp
  ultimately show ?thesis
    by (simp only: parseHeapSize_def takeWhile_showNat dropWhile_showNat showNat_nonempty Let_def suffixMultiplier_def) simp
qed

text \<open>A number of \<open>2^64 - 1\<close> or more is not reported as too large when it has no suffix:
  \<open>strtoull\<close> clamps it, its \<open>errno\<close> is not checked, and the heap limit becomes \<open>2^64 - 1\<close>.\<close>

theorem oversized_heap_is_accepted:
  assumes "18446744073709551615 \<le> n"
  shows "parseCommandLine [program, ''-Xm'' @ showNat n, ''a.bc''] =
    Inr (defaultOptions\<lparr>opt_heapSizeBytes := 18446744073709551615, opt_inputPath := ''a.bc''\<rparr>)"
  unfolding parseCommandLine_def list.sel parseArgs_Xm [OF showNat_nonempty] parseHeapSize_clamped [OF assms] bindE_simps
  by (simp add: defaultOptions_def)

theorem oversized_heap_is_accepted_witness:
  "parseCommandLine [''mvm'', ''-Xm'' @ showNat (18446744073709551616 * 4096), ''a.bc''] =
    Inr (defaultOptions\<lparr>opt_heapSizeBytes := 18446744073709551615, opt_inputPath := ''a.bc''\<rparr>)"
  by (rule oversized_heap_is_accepted) simp

section \<open>The whole command line\<close>

text \<open>Whatever the arguments, options that are returned have an optimization level of 1, 2 or 3, a
  heap limit that is not zero and, unless help was asked for, an input file.\<close>

theorem command_line_result_well_formed:
  assumes "parseCommandLine argv = Inr options"
  shows "opt_optLevel options \<in> {1, 2, 3} \<and> opt_heapSizeBytes options \<noteq> 0 \<and>
    (opt_showHelp options \<or> opt_inputPath options \<noteq> [])"
proof -
  have "wfOptions defaultOptions" by (simp add: wfOptions_def defaultOptions_def)
  from parseArgs_wf [OF assms [unfolded parseCommandLine_def] this] show ?thesis by (simp add: wfOptions_def)
qed

theorem command_line_result_well_formed_witness:
  "\<exists>options. parseCommandLine [''mvm'', ''a.bc''] = Inr options \<and> opt_optLevel options \<in> {1, 2, 3}"
proof -
  have "parseCommandLine [''mvm'', ''a.bc''] = Inr (defaultOptions\<lparr>opt_inputPath := ''a.bc''\<rparr>)"
    by (simp add: parseCommandLine_def defaultOptions_def)
  from command_line_result_well_formed [OF this] this show ?thesis by blast
qed

definition renderOptions :: "Options \<Rightarrow> string list" where
  "renderOptions opts =
     (if opt_dumpIR opts then [''--dump-ir''] else []) @
     (if opt_entrySymbol opts \<noteq> [] then [''--entry'', opt_entrySymbol opts] else []) @
     [''--heap-size'', showNat (unat (opt_heapSizeBytes opts)), ''-O'', showNat (nat (opt_optLevel opts)),
      opt_inputPath opts, ''--''] @ opt_programArgs opts"

lemma parseArgs_input:
  "path \<noteq> [] \<Longrightarrow> hd path \<noteq> CHR ''-'' \<Longrightarrow> opt_inputPath options = [] \<Longrightarrow>
   parseArgs (path # rest) options = parseArgs rest (options\<lparr>opt_inputPath := path\<rparr>)"
  by (cases path) auto

lemma parseArgs_level: "0 < n \<Longrightarrow> n < 4 \<Longrightarrow>
   parseArgs (''-O'' # showNat n # rest) options = parseArgs rest (options\<lparr>opt_optLevel := int n\<rparr>)"
  by (simp add: parseOptLevel_showNat)

lemma parseArgs_heap: "0 < n \<Longrightarrow> n < 18446744073709551616 \<Longrightarrow>
   parseArgs (''--heap-size'' # showNat n # rest) options = parseArgs rest (options\<lparr>opt_heapSizeBytes := of_nat n\<rparr>)"
  by (simp add: parseHeapSize_showNat)

lemma parseArgs_flags:
  "parseArgs ((if opt_dumpIR opts then [''--dump-ir''] else []) @
     (if opt_entrySymbol opts \<noteq> [] then [''--entry'', opt_entrySymbol opts] else []) @ rest) defaultOptions =
   parseArgs rest (defaultOptions\<lparr>opt_dumpIR := opt_dumpIR opts, opt_entrySymbol := opt_entrySymbol opts\<rparr>)"
  by (simp add: defaultOptions_def)

text \<open>C29. The options that an argument list denotes are the ones it was written for, for every level,
  heap limit, entry symbol, input file that does not start with a dash, and program arguments.\<close>

theorem command_line_roundtrip:
  assumes "opt_optLevel opts \<in> {1, 2, 3}" "opt_heapSizeBytes opts \<noteq> 0" "\<not> opt_showHelp opts"
    and "opt_inputPath opts \<noteq> []" "hd (opt_inputPath opts) \<noteq> CHR ''-''"
  shows "parseCommandLine (program # renderOptions opts) = Inr opts"
proof -
  let ?n = "unat (opt_heapSizeBytes opts)"
  have n: "0 < ?n" "?n < 18446744073709551616" using assms(2) by (simp_all add: unat_gt_0)
  have l: "0 < nat (opt_optLevel opts)" "nat (opt_optLevel opts) < 4" "int (nat (opt_optLevel opts)) = opt_optLevel opts"
    using assms(1) by auto
  have "parseCommandLine (program # renderOptions opts) =
      Inr (defaultOptions\<lparr>opt_dumpIR := opt_dumpIR opts, opt_entrySymbol := opt_entrySymbol opts,
        opt_heapSizeBytes := of_nat ?n, opt_optLevel := int (nat (opt_optLevel opts)),
        opt_inputPath := opt_inputPath opts, opt_programArgs := opt_programArgs opts\<rparr>)"
    unfolding parseCommandLine_def renderOptions_def list.sel append_Cons append_Nil parseArgs_flags
      parseArgs_heap [OF n] parseArgs_level [OF l(1,2)]
    using assms(4,5) by (subst parseArgs_input) (simp_all add: defaultOptions_def)
  then show ?thesis using assms(1,3) by (cases opts) (auto simp: defaultOptions_def)
qed

theorem command_line_roundtrip_witness:
  "parseCommandLine (''mvm'' # renderOptions (defaultOptions\<lparr>opt_inputPath := ''a.bc'', opt_programArgs := [''-h'']\<rparr>)) =
     Inr (defaultOptions\<lparr>opt_inputPath := ''a.bc'', opt_programArgs := [''-h'']\<rparr>)"
  by (rule command_line_roundtrip) (simp_all add: defaultOptions_def)

end
