(* ===== verification/LLVM_IR.thy ===== *)
theory LLVM_IR
  imports Prelude
begin

text \<open>
  The part of LLVM IR that the passes read: modules, functions, instructions, operands.  A value is
  named by where it is: an instruction by its function and its number there, an argument by its
  function and position, a function by its number in the module.  \<open>stripPointerCasts\<close> of LLVM is the
  parameter \<open>strip\<close> of the definitions that use it.
\<close>

section \<open>Values and instructions\<close>

datatype val =
    VInst nat nat
  | VArg nat nat
  | VFunc nat
  | VGlobalVariable string bool
  | VOtherGlobal string
  | VNull
  | VInt nat nat
  | VOther nat bool
  | VUndef

text \<open>\<open>VGlobalVariable\<close> carries whether its value type is a pointer, \<open>VInt\<close> the width and the
  unsigned value of an integer constant, \<open>VOther\<close> whether it is a pointer.  \<open>VUndef\<close> is the undef
  constant that a pass makes, of the type that the pass gives it; an undef constant of the module that
  is read is a \<open>VOther\<close>.\<close>

datatype operation =
    OAlloca bool
  | OGep val bool
  | OPhi "val list"
  | OSelect val val
  | OFreeze val
  | OLoad val
  | OStore val val
  | OCall val "val list"
  | ORet "val option"
  | OOther

text \<open>\<open>OAlloca\<close>: whether the allocated type is a pointer; \<open>OGep\<close>: the base and whether the result
  element type is a pointer; \<open>OStore\<close>: value and address; \<open>OCall\<close>: callee operand and arguments.\<close>

record instruction =
  in_id :: nat
  in_isPointer :: bool
  in_op :: operation

record ir_function =
  fn_id :: nat
  fn_name :: string
  fn_isDeclaration :: bool
  fn_hasAddressTaken :: bool
  fn_isVarArg :: bool
  fn_params :: "bool list"
  fn_returnsPointer :: bool
  fn_blocks :: "instruction list list"

type_synonym ir_module = "ir_function list"

definition instructionsOf :: "ir_function \<Rightarrow> instruction list" where
  "instructionsOf f = concat (fn_blocks f)"

definition selfOf :: "ir_function \<Rightarrow> instruction \<Rightarrow> val" where
  "selfOf f i = VInst (fn_id f) (in_id i)"

definition functionAt :: "ir_module \<Rightarrow> nat \<Rightarrow> ir_function option" where
  "functionAt m g = List.find (\<lambda>f. fn_id f = g) m"

definition instructionAt :: "ir_module \<Rightarrow> nat \<Rightarrow> nat \<Rightarrow> instruction option" where
  "instructionAt m g k =
     (case functionAt m g of
        None \<Rightarrow> None
      | Some f \<Rightarrow> List.find (\<lambda>i. in_id i = k) (instructionsOf f))"

fun isPointerValue :: "ir_module \<Rightarrow> val \<Rightarrow> bool" where
  "isPointerValue m (VInst g k) = (case instructionAt m g k of Some i \<Rightarrow> in_isPointer i | None \<Rightarrow> False)"
| "isPointerValue m (VArg g n) =
     (case functionAt m g of Some f \<Rightarrow> n < length (fn_params f) \<and> fn_params f ! n | None \<Rightarrow> False)"
| "isPointerValue m (VFunc g) = True"
| "isPointerValue m (VGlobalVariable s b) = True"
| "isPointerValue m (VOtherGlobal s) = True"
| "isPointerValue m VNull = True"
| "isPointerValue m (VInt w n) = False"
| "isPointerValue m (VOther n b) = b"
| "isPointerValue m VUndef = False"

text \<open>What the passes take for granted of a module that LLVM's verifier accepted: names are unique.\<close>

definition wellNumbered :: "ir_module \<Rightarrow> bool" where
  "wellNumbered m \<longleftrightarrow> distinct (map fn_id m) \<and> (\<forall>f \<in> set m. distinct (map in_id (instructionsOf f)))"

lemma find_distinct:
  assumes "distinct (map key xs)" "x \<in> set xs"
  shows "List.find (\<lambda>y. key y = key x) xs = Some x"
  using assms by (induction xs) (auto simp: image_iff)

lemma functionAt_member: "wellNumbered m \<Longrightarrow> f \<in> set m \<Longrightarrow> functionAt m (fn_id f) = Some f"
  by (simp add: functionAt_def wellNumbered_def find_distinct)

lemma functionAt_Some: "functionAt m g = Some f \<Longrightarrow> f \<in> set m \<and> fn_id f = g"
  by (auto simp: functionAt_def find_Some_iff)

lemma instructionAt_member:
  "wellNumbered m \<Longrightarrow> f \<in> set m \<Longrightarrow> i \<in> set (instructionsOf f) \<Longrightarrow> instructionAt m (fn_id f) (in_id i) = Some i"
  by (simp add: instructionAt_def functionAt_member find_distinct wellNumbered_def)

lemma isPointerValue_self:
  "wellNumbered m \<Longrightarrow> f \<in> set m \<Longrightarrow> i \<in> set (instructionsOf f) \<Longrightarrow> isPointerValue m (selfOf f i) = in_isPointer i"
  by (simp add: selfOf_def instructionAt_member)

section \<open>Adding a function\<close>

text \<open>The number of a function that a pass adds to the module.\<close>

definition freshFunction :: "ir_module \<Rightarrow> nat" where
  "freshFunction m = Suc (fold max (map fn_id m) 0)"

lemma freshFunction_above: "g \<in> fn_id ` set m \<Longrightarrow> g < freshFunction m"
proof -
  have "x \<le> fold max ns (a :: nat)" if "x \<in> set ns \<or> x \<le> a" for x ns a
    using that by (induction ns arbitrary: a) (auto simp: le_max_iff_disj)
  then show "g \<in> fn_id ` set m \<Longrightarrow> g < freshFunction m" by (auto simp: freshFunction_def less_Suc_eq_le)
qed

lemma freshFunction_new: "freshFunction m \<notin> fn_id ` set m"
  using freshFunction_above by blast

lemma functionAt_append: "functionAt m g = Some f \<Longrightarrow> functionAt (m @ m') g = Some f"
  unfolding functionAt_def by (induction m) auto

lemma functionAt_new:
  assumes "fn_id d \<notin> fn_id ` set m"
  shows "functionAt (m @ [d]) (fn_id d) = Some d"
  using assms unfolding functionAt_def by (induction m) auto

end
