(* ===== verification/Iteration.thy ===== *)
theory Iteration
  imports Prelude
begin

text \<open>
  Loops of the form \<open>do { changed = step(); } while (changed);\<close>, which the analyses over a module
  use, and the contract that makes them end in a fixed point: every step keeps what is known,
  reports a change exactly when it added a fact, and the facts are finitely many.
\<close>

partial_function (option) doWhileChanged :: "('s \<Rightarrow> bool \<times> 's) \<Rightarrow> 's \<Rightarrow> 's option" where
  "doWhileChanged step s = (case step s of (changed, s') \<Rightarrow> if changed then doWhileChanged step s' else Some s')"

declare doWhileChanged.simps [code]

lemma doWhileChanged_stop: "step s = (False, s') \<Longrightarrow> doWhileChanged step s = Some s'"
  by (subst doWhileChanged.simps) simp

lemma doWhileChanged_go: "step s = (True, s') \<Longrightarrow> doWhileChanged step s = doWhileChanged step s'"
  by (subst doWhileChanged.simps) simp

locale inflationary =
  fixes step :: "'s \<Rightarrow> bool \<times> 's" and facts :: "'s \<Rightarrow> 'f set" and ok :: "'s \<Rightarrow> bool" and universe :: "'f set"
  assumes finite_universe: "finite universe"
    and facts_bounded: "ok s \<Longrightarrow> facts s \<subseteq> universe"
    and step_ok: "ok s \<Longrightarrow> ok (snd (step s))"
    and step_grows: "ok s \<Longrightarrow> facts s \<subseteq> facts (snd (step s))"
    and step_changed: "ok s \<Longrightarrow> fst (step s) \<Longrightarrow> facts (snd (step s)) \<noteq> facts s"
    and step_stable: "ok s \<Longrightarrow> \<not> fst (step s) \<Longrightarrow> snd (step s) = s"
begin

lemma step_measure:
  assumes "ok s" "fst (step s)"
  shows "card (universe - facts (snd (step s))) < card (universe - facts s)"
proof (rule psubset_card_mono)
  show "finite (universe - facts s)" using finite_universe by simp
  show "universe - facts (snd (step s)) \<subset> universe - facts s"
    using step_grows [OF assms(1)] step_changed [OF assms] facts_bounded [OF step_ok [OF assms(1)]] by blast
qed

theorem terminates:
  "ok s \<Longrightarrow> \<exists>s'. doWhileChanged step s = Some s' \<and> ok s' \<and> step s' = (False, s') \<and> facts s \<subseteq> facts s'"
proof (induction "card (universe - facts s)" arbitrary: s rule: less_induct)
  case less
  show ?case
  proof (cases "fst (step s)")
    case False
    then have "step s = (False, s)" using step_stable [OF less.prems] by (metis prod.collapse)
    then show ?thesis using doWhileChanged_stop [of step s s] less.prems by blast
  next
    case True
    then have s: "step s = (True, snd (step s))" by (metis prod.collapse)
    obtain s' where "doWhileChanged step (snd (step s)) = Some s'" "ok s'" "step s' = (False, s')" "facts (snd (step s)) \<subseteq> facts s'"
      using less.hyps [OF step_measure [OF less.prems True] step_ok [OF less.prems]] by blast
    then show ?thesis using doWhileChanged_go [of step s "snd (step s)"] s step_grows [OF less.prems] by auto
  qed
qed

text \<open>What every step keeps holds at the end.\<close>

lemma invariant_at_end:
  assumes "doWhileChanged step s = Some s'" "ok s" "P s" and keep: "\<And>t. ok t \<Longrightarrow> P t \<Longrightarrow> P (snd (step t))"
  shows "P s'"
  using assms(1-3)
proof (induction "card (universe - facts s)" arbitrary: s rule: less_induct)
  case less
  show ?case
  proof (cases "fst (step s)")
    case False
    then have "step s = (False, s)" using step_stable [OF less.prems(2)] by (metis prod.collapse)
    then show ?thesis using doWhileChanged_stop [of step s s] less.prems by simp
  next
    case True
    then have s: "step s = (True, snd (step s))" by (metis prod.collapse)
    show ?thesis
      using less.hyps [OF step_measure [OF less.prems(2) True] _ step_ok [OF less.prems(2)] keep [OF less.prems(2,3)]]
        less.prems(1) doWhileChanged_go [of step s "snd (step s)"] s by simp
  qed
qed

end

end
