(* ===== verification/Managed_State.thy ===== *)
theory Managed_State
  imports LLVM_IR Command_Line Iteration
begin

text \<open>
  The managed state analysis: \<open>src/src/mvm/managed_state.cc\<close>.  It computes for every pointer which of
  null, raw, managed object and managed array it may be, by visiting all instructions until nothing
  changes.  Each update returns whether it changed the state, as in the code; \<open>thenAlso\<close> is
  \<open>changed |= ...\<close>.  \<open>None\<close> as the result of \<open>runAnalysis\<close> is a loop that does not end.
\<close>

section \<open>Pointer states\<close>

type_synonym PointerState = "8 word"

definition kStateNull :: PointerState where "kStateNull = 1"
definition kStateRaw :: PointerState where "kStateRaw = 2"
definition kStateManagedObject :: PointerState where "kStateManagedObject = 4"
definition kStateManagedArray :: PointerState where "kStateManagedArray = 8"

datatype ManagedPointerKind = PUnknown | PRaw | PObject | PArray

definition stateEmpty :: "PointerState \<Rightarrow> bool" where "stateEmpty s \<longleftrightarrow> s = 0"
definition hasNull :: "PointerState \<Rightarrow> bool" where "hasNull s \<longleftrightarrow> s AND kStateNull \<noteq> 0"
definition hasRaw :: "PointerState \<Rightarrow> bool" where "hasRaw s \<longleftrightarrow> s AND kStateRaw \<noteq> 0"
definition hasManagedObject :: "PointerState \<Rightarrow> bool" where "hasManagedObject s \<longleftrightarrow> s AND kStateManagedObject \<noteq> 0"
definition hasManagedArray :: "PointerState \<Rightarrow> bool" where "hasManagedArray s \<longleftrightarrow> s AND kStateManagedArray \<noteq> 0"

definition hasManaged :: "PointerState \<Rightarrow> bool" where
  "hasManaged s \<longleftrightarrow> s AND (kStateManagedObject OR kStateManagedArray) \<noteq> 0"

definition mergeState :: "PointerState \<Rightarrow> PointerState \<Rightarrow> bool \<times> PointerState" where
  "mergeState s other = (s \<noteq> s OR other, s OR other)"

definition dispatchKind :: "PointerState \<Rightarrow> ManagedPointerKind" where
  "dispatchKind s =
     (let concreteBits = s AND (kStateRaw OR kStateManagedObject OR kStateManagedArray) in
      if concreteBits = kStateRaw then PRaw
      else if concreteBits = kStateManagedObject then PObject
      else if concreteBits = kStateManagedArray then PArray
      else PUnknown)"

definition isConcreteManagedKind :: "ManagedPointerKind \<Rightarrow> bool" where
  "isConcreteManagedKind k \<longleftrightarrow> k = PObject \<or> k = PArray"

section \<open>The state of the analysis\<close>

record FunctionState =
  fst_params :: "PointerState list"
  fst_returnState :: PointerState

record analysis =
  an_valueStates :: "val \<rightharpoonup> PointerState"
  an_locationStates :: "val \<rightharpoonup> PointerState"
  an_slotStates :: "val \<rightharpoonup> PointerState"
  an_functionStates :: "nat \<rightharpoonup> FunctionState"

definition initialAnalysis :: "ir_module \<Rightarrow> analysis" where
  "initialAnalysis m = \<lparr>an_valueStates = Map.empty, an_locationStates = Map.empty, an_slotStates = Map.empty,
     an_functionStates = (\<lambda>g. map_option (\<lambda>f. \<lparr>fst_params = replicate (length (fn_params f)) 0, fst_returnState = 0\<rparr>) (functionAt m g))\<rparr>"

definition stateIn :: "(val \<rightharpoonup> PointerState) \<Rightarrow> val \<Rightarrow> PointerState" where
  "stateIn t v = (case t v of None \<Rightarrow> 0 | Some s \<Rightarrow> s)"

fun getValueState :: "ir_module \<Rightarrow> analysis \<Rightarrow> val \<Rightarrow> PointerState" where
  "getValueState m a v =
     (if \<not> isPointerValue m v then 0
      else case v of
          VNull \<Rightarrow> kStateNull
        | VArg g n \<Rightarrow>
            (case an_functionStates a g of
               None \<Rightarrow> 0
             | Some fs \<Rightarrow> if n \<ge> length (fst_params fs) then 0 else fst_params fs ! n)
        | VFunc _ \<Rightarrow> kStateRaw
        | VGlobalVariable _ _ \<Rightarrow> kStateRaw
        | VOtherGlobal _ \<Rightarrow> kStateRaw
        | _ \<Rightarrow> stateIn (an_valueStates a) v)"

declare getValueState.simps [simp del]

text \<open>The slot a pointer operand is: an alloca of a pointer or a global variable holding one.\<close>

definition getTrackedSlot :: "(val \<Rightarrow> val) \<Rightarrow> ir_module \<Rightarrow> val \<Rightarrow> val option" where
  "getTrackedSlot strip m pointerOperand =
     (let slot = strip pointerOperand in
      case slot of
        VInst g k \<Rightarrow>
          (case instructionAt m g k of
             Some i \<Rightarrow> (case in_op i of OAlloca allocatesPointer \<Rightarrow> if allocatesPointer then Some slot else None | _ \<Rightarrow> None)
           | None \<Rightarrow> None)
      | VGlobalVariable _ holdsPointer \<Rightarrow> if holdsPointer then Some slot else None
      | _ \<Rightarrow> None)"

definition getSlotState :: "analysis \<Rightarrow> val \<Rightarrow> PointerState" where
  "getSlotState a slot = stateIn (an_slotStates a) slot"

definition getLocationState :: "(val \<Rightarrow> val) \<Rightarrow> ir_module \<Rightarrow> analysis \<Rightarrow> val \<Rightarrow> PointerState" where
  "getLocationState strip m a v =
     (if \<not> isPointerValue m v then 0
      else case getTrackedSlot strip m v of
          Some slot \<Rightarrow> getSlotState a slot
        | None \<Rightarrow>
            (case an_locationStates a v of
               Some s \<Rightarrow> s
             | None \<Rightarrow> let valueState = getValueState m a v in if hasManaged valueState then valueState else 0))"

section \<open>Updates\<close>

type_synonym update = "analysis \<Rightarrow> bool \<times> analysis"

definition noChange :: update where
  "noChange a = (False, a)"

definition thenAlso :: "update \<Rightarrow> update \<Rightarrow> update" where
  "thenAlso f g a = (let (c, a') = f a; (d, a'') = g a' in (c \<or> d, a''))"

definition mergeInto :: "(val \<rightharpoonup> PointerState) \<Rightarrow> val \<Rightarrow> PointerState \<Rightarrow> bool \<times> (val \<rightharpoonup> PointerState)" where
  "mergeInto t v s = (let (c, s') = mergeState (stateIn t v) s in (c, t(v \<mapsto> s')))"

definition updateValueState :: "ir_module \<Rightarrow> val \<Rightarrow> PointerState \<Rightarrow> update" where
  "updateValueState m v s a =
     (if \<not> isPointerValue m v \<or> stateEmpty s then (False, a)
      else let (c, t) = mergeInto (an_valueStates a) v s in (c, a\<lparr>an_valueStates := t\<rparr>))"

definition updateLocationState :: "ir_module \<Rightarrow> val \<Rightarrow> PointerState \<Rightarrow> update" where
  "updateLocationState m v s a =
     (if \<not> isPointerValue m v \<or> stateEmpty s then (False, a)
      else let (c, t) = mergeInto (an_locationStates a) v s in (c, a\<lparr>an_locationStates := t\<rparr>))"

definition updateSlotState :: "val \<Rightarrow> PointerState \<Rightarrow> update" where
  "updateSlotState slot s a =
     (if stateEmpty s then (False, a)
      else let (c, t) = mergeInto (an_slotStates a) slot s in (c, a\<lparr>an_slotStates := t\<rparr>))"

definition functionStateOf :: "analysis \<Rightarrow> nat \<Rightarrow> FunctionState" where
  "functionStateOf a g =
     (case an_functionStates a g of Some fs \<Rightarrow> fs | None \<Rightarrow> \<lparr>fst_params = [], fst_returnState = 0\<rparr>)"

definition updateParamState :: "nat \<Rightarrow> nat \<Rightarrow> PointerState \<Rightarrow> update" where
  "updateParamState g n s a =
     (if stateEmpty s then (False, a)
      else let fs = functionStateOf a g;
               (c, s') = mergeState (fst_params fs ! n) s
           in (c, a\<lparr>an_functionStates := (an_functionStates a)(g \<mapsto> fs\<lparr>fst_params := (fst_params fs)[n := s']\<rparr>)\<rparr>))"

definition updateReturnState :: "nat \<Rightarrow> PointerState \<Rightarrow> update" where
  "updateReturnState g s a =
     (if stateEmpty s then (False, a)
      else let fs = functionStateOf a g;
               (c, s') = mergeState (fst_returnState fs) s
           in (c, a\<lparr>an_functionStates := (an_functionStates a)(g \<mapsto> fs\<lparr>fst_returnState := s'\<rparr>)\<rparr>))"

definition updatePointerSourceState :: "ir_module \<Rightarrow> val \<Rightarrow> PointerState \<Rightarrow> update" where
  "updatePointerSourceState m v s a =
     (if \<not> isPointerValue m v \<or> stateEmpty s then (False, a)
      else case v of VArg g n \<Rightarrow> updateParamState g n s a | _ \<Rightarrow> updateValueState m v s a)"

section \<open>Instructions\<close>

definition getDirectCallee :: "(val \<Rightarrow> val) \<Rightarrow> val \<Rightarrow> nat option" where
  "getDirectCallee strip callee = (case strip callee of VFunc g \<Rightarrow> Some g | _ \<Rightarrow> None)"

definition getCallResultState :: "analysis \<Rightarrow> ir_function \<Rightarrow> PointerState" where
  "getCallResultState a callee =
     (if \<not> fn_returnsPointer callee then 0
      else if fn_name callee = ''__mvm_malloc'' \<or> fn_name callee = ''__mvm_malloc_typed'' then kStateManagedObject
      else if fn_name callee = ''__mvm_array_malloc'' \<or> fn_name callee = ''__mvm_array_malloc_typed'' then kStateManagedArray
      else if fn_isDeclaration callee then kStateRaw
      else fst_returnState (functionStateOf a (fn_id callee)))"

text \<open>The loop over arguments and parameters; the number is the position.\<close>

fun passArguments :: "ir_module \<Rightarrow> ir_function \<Rightarrow> nat \<Rightarrow> val list \<Rightarrow> update" where
  "passArguments m callee n [] = noChange"
| "passArguments m callee n (arg # args) =
     (if n \<ge> length (fn_params callee) then noChange
      else thenAlso
        (\<lambda>a. if isPointerValue m arg then updateParamState (fn_id callee) n (getValueState m a arg) a else (False, a))
        (passArguments m callee (Suc n) args))"

definition visitCall :: "(val \<Rightarrow> val) \<Rightarrow> ir_module \<Rightarrow> val \<Rightarrow> bool \<Rightarrow> val \<Rightarrow> val list \<Rightarrow> update" where
  "visitCall strip m self isPointer callee args =
     (case getDirectCallee strip callee of
        Some g \<Rightarrow>
          (case functionAt m g of
             None \<Rightarrow> noChange
           | Some f \<Rightarrow>
               thenAlso
                 (\<lambda>a. if isPointer then updateValueState m self (getCallResultState a f) a else (False, a))
                 (if \<not> fn_isDeclaration f then passArguments m f 0 args else noChange))
      | None \<Rightarrow> if isPointer then updateValueState m self kStateRaw else noChange)"

definition mergeAll :: "(val \<Rightarrow> PointerState) \<Rightarrow> val list \<Rightarrow> PointerState" where
  "mergeAll state vs = fold (\<lambda>v s. s OR state v) vs 0"

definition getAggregateFieldState :: "ir_module \<Rightarrow> analysis \<Rightarrow> val \<Rightarrow> PointerState" where
  "getAggregateFieldState m a base =
     (let baseState = getValueState m a base in
      if \<not> isConcreteManagedKind (dispatchKind baseState) then 0 else baseState)"

text \<open>\<open>getAggregateFieldState\<close> is called with the instruction itself.  A GEP whose indices are all
  zero is a pointer cast to \<open>stripPointerCasts\<close>, so the base that is looked at is that of the GEP
  the strip ends at, and there is none when it ends at another value.\<close>

definition fieldState :: "(val \<Rightarrow> val) \<Rightarrow> ir_module \<Rightarrow> analysis \<Rightarrow> val \<Rightarrow> PointerState" where
  "fieldState strip m a gep =
     (case strip gep of
        VInst g k \<Rightarrow>
          (case instructionAt m g k of
             Some i \<Rightarrow> (case in_op i of OGep base _ \<Rightarrow> getAggregateFieldState m a base | _ \<Rightarrow> 0)
           | None \<Rightarrow> 0)
      | _ \<Rightarrow> 0)"

fun visitOperation :: "(val \<Rightarrow> val) \<Rightarrow> ir_module \<Rightarrow> nat \<Rightarrow> val \<Rightarrow> bool \<Rightarrow> operation \<Rightarrow> update" where
  "visitOperation strip m g self isPointer (OAlloca _) a =
     (if isPointer then updateValueState m self kStateRaw a else (False, a))"
| "visitOperation strip m g self isPointer (OGep base resultIsPointer) a =
     thenAlso (\<lambda>a. updateValueState m self (getValueState m a base) a)
       (\<lambda>a. if resultIsPointer then updateLocationState m self (fieldState strip m a self) a else (False, a)) a"
| "visitOperation strip m g self isPointer (OPhi incoming) a =
     thenAlso (\<lambda>a. updateValueState m self (mergeAll (getValueState m a) incoming) a)
       (\<lambda>a. updateLocationState m self (mergeAll (getLocationState strip m a) incoming) a) a"
| "visitOperation strip m g self isPointer (OSelect t f) a =
     thenAlso (\<lambda>a. updateValueState m self (getValueState m a t OR getValueState m a f) a)
       (\<lambda>a. updateLocationState m self (getLocationState strip m a t OR getLocationState strip m a f) a) a"
| "visitOperation strip m g self isPointer (OFreeze v) a =
     thenAlso (\<lambda>a. updateValueState m self (getValueState m a v) a)
       (\<lambda>a. updateLocationState m self (getLocationState strip m a v) a) a"
| "visitOperation strip m g self isPointer (OLoad p) a =
     (if \<not> isPointer then (False, a) else updateValueState m self (getLocationState strip m a p) a)"
| "visitOperation strip m g self isPointer (OStore v p) a =
     (if \<not> isPointerValue m v then (False, a)
      else let valueState = getValueState m a v in
        thenAlso (\<lambda>a. case getTrackedSlot strip m p of Some slot \<Rightarrow> updateSlotState slot valueState a | None \<Rightarrow> (False, a))
          (thenAlso (updateLocationState m p valueState)
            (\<lambda>a. let locationState = getLocationState strip m a p in
               if hasManaged locationState then updatePointerSourceState m v locationState a else (False, a))) a)"
| "visitOperation strip m g self isPointer (OCall callee args) a = visitCall strip m self isPointer callee args a"
| "visitOperation strip m g self isPointer (ORet v) a =
     (case v of
        Some w \<Rightarrow> if isPointerValue m w then updateReturnState g (getValueState m a w) a else (False, a)
      | None \<Rightarrow> (False, a))"
| "visitOperation strip m g self isPointer OOther a = (False, a)"

definition visitInstruction :: "(val \<Rightarrow> val) \<Rightarrow> ir_module \<Rightarrow> ir_function \<Rightarrow> instruction \<Rightarrow> update" where
  "visitInstruction strip m f i = visitOperation strip m (fn_id f) (selfOf f i) (in_isPointer i) (in_op i)"

definition sequenceAll :: "update list \<Rightarrow> update" where
  "sequenceAll us = foldr thenAlso us noChange"

definition visitParams :: "ir_function \<Rightarrow> update" where
  "visitParams f = sequenceAll (map (\<lambda>n a.
     if fn_params f ! n \<and> (fn_isDeclaration f \<or> fn_hasAddressTaken f) then updateParamState (fn_id f) n kStateRaw a
     else (False, a)) [0 ..< length (fn_params f)])"

definition visitFunction :: "(val \<Rightarrow> val) \<Rightarrow> ir_module \<Rightarrow> ir_function \<Rightarrow> update" where
  "visitFunction strip m f =
     thenAlso (visitParams f) (sequenceAll (map (visitInstruction strip m f) (instructionsOf f)))"

definition visitModule :: "(val \<Rightarrow> val) \<Rightarrow> ir_module \<Rightarrow> update" where
  "visitModule strip m = sequenceAll (map (visitFunction strip m) m)"

definition runAnalysis :: "(val \<Rightarrow> val) \<Rightarrow> ir_module \<Rightarrow> analysis \<Rightarrow> analysis option" where
  "runAnalysis strip m = doWhileChanged (visitModule strip m)"

definition analyse :: "(val \<Rightarrow> val) \<Rightarrow> ir_module \<Rightarrow> analysis option" where
  "analyse strip m = runAnalysis strip m (initialAnalysis m)"

section \<open>Metadata\<close>

definition joinBar :: "string list \<Rightarrow> string" where
  "joinBar parts = (case parts of [] \<Rightarrow> [] | p # ps \<Rightarrow> p @ concat (map (\<lambda>q. CHR ''|'' # q) ps))"

definition renderState :: "PointerState \<Rightarrow> string" where
  "renderState s =
     (if stateEmpty s then ''unknown''
      else joinBar ((if hasRaw s then [''raw''] else []) @ (if hasManagedObject s then [''object''] else []) @
        (if hasManagedArray s then [''array''] else []) @ (if hasNull s then [''null''] else [])))"

text \<open>The metadata \<open>mvm.managed.kind\<close> and \<open>mvm.managed.slot\<close> that an instruction ends up with.\<close>

definition instructionMetadata :: "ir_module \<Rightarrow> analysis \<Rightarrow> ir_function \<Rightarrow> instruction \<Rightarrow> string option \<times> string option" where
  "instructionMetadata m a f i =
     (if \<not> in_isPointer i then (None, None)
      else let state = getValueState m a (selfOf f i) in
        (if \<not> stateEmpty state then Some (renderState state) else None,
         case in_op i of
           OAlloca _ \<Rightarrow>
             (case an_slotStates a (selfOf f i) of
                Some s \<Rightarrow> if \<not> stateEmpty s then Some (renderState s) else None
              | None \<Rightarrow> None)
         | _ \<Rightarrow> None))"

definition attachFunctionMetadata :: "analysis \<Rightarrow> ir_function \<Rightarrow> string list option" where
  "attachFunctionMetadata a f =
     (case an_functionStates a (fn_id f) of
        None \<Rightarrow> None
      | Some fs \<Rightarrow>
          let operands =
            (if fn_returnsPointer f then [''ret='' @ renderState (fst_returnState fs)] else []) @
            map (\<lambda>n. ''arg'' @ showNat n @ ''='' @ renderState (fst_params fs ! n))
              (filter (\<lambda>n. fn_params f ! n) [0 ..< length (fn_params f)])
          in if operands = [] then None else Some operands)"

definition attachMetadata ::
  "ir_module \<Rightarrow> analysis \<Rightarrow> (string list option \<times> (string option \<times> string option) list) list" where
  "attachMetadata m a =
     map (\<lambda>f. (attachFunctionMetadata a f, map (instructionMetadata m a f) (instructionsOf f))) m"

definition annotateManagedState ::
  "(val \<Rightarrow> val) \<Rightarrow> ir_module \<Rightarrow> (string list option \<times> (string option \<times> string option) list) list option" where
  "annotateManagedState strip m = map_option (attachMetadata m) (analyse strip m)"

end
