(* ===== verification/Managed_State_Facts.thy ===== *)
theory Managed_State_Facts
  imports Managed_State
begin

text \<open>
  The managed state analysis ends in a fixed point: its state is a finite set of facts, one for each
  bit of each cell, and every visit only adds facts of the cells the module mentions.
\<close>

section \<open>Facts\<close>

datatype cell = CValue val | CLocation val | CSlot val | CParam nat nat | CReturn nat

fun stateAt :: "analysis \<Rightarrow> cell \<Rightarrow> PointerState" where
  "stateAt a (CValue v) = stateIn (an_valueStates a) v"
| "stateAt a (CLocation v) = stateIn (an_locationStates a) v"
| "stateAt a (CSlot v) = stateIn (an_slotStates a) v"
| "stateAt a (CParam g n) =
     (let ps = fst_params (functionStateOf a g) in if n < length ps then ps ! n else 0)"
| "stateAt a (CReturn g) = fst_returnState (functionStateOf a g)"

definition factsOf :: "analysis \<Rightarrow> (cell \<times> nat) set" where
  "factsOf a = {(c, i). bit (stateAt a c) i}"

text \<open>Every function of the module has its entry, with a state for each parameter.\<close>

definition shaped :: "ir_module \<Rightarrow> analysis \<Rightarrow> bool" where
  "shaped m a \<longleftrightarrow> (\<forall>g f. functionAt m g = Some f \<longrightarrow>
     (\<exists>fs. an_functionStates a g = Some fs \<and> length (fst_params fs) = length (fn_params f)))"

definition good :: "ir_module \<Rightarrow> cell set \<Rightarrow> update \<Rightarrow> bool" where
  "good m U u \<longleftrightarrow> (\<forall>a. shaped m a \<longrightarrow>
     shaped m (snd (u a)) \<and> factsOf a \<subseteq> factsOf (snd (u a)) \<and> factsOf (snd (u a)) \<subseteq> factsOf a \<union> U \<times> UNIV \<and>
     (fst (u a) \<longrightarrow> factsOf (snd (u a)) \<noteq> factsOf a) \<and> (\<not> fst (u a) \<longrightarrow> snd (u a) = a))"

lemma good_noChange: "good m U noChange"
  by (simp add: good_def noChange_def)

lemma good_False: "good m U (\<lambda>a. (False, a))"
  by (simp add: good_def)

lemma good_if: "good m U u \<Longrightarrow> good m U w \<Longrightarrow> good m U (\<lambda>a. if P a then u a else w a)"
  by (simp add: good_def)

lemma good_thenAlso:
  assumes "good m U u" "good m U w"
  shows "good m U (thenAlso u w)"
  unfolding good_def
proof (intro allI impI)
  fix a assume a: "shaped m a"
  obtain c a' where u: "u a = (c, a')" by (cases "u a")
  obtain d a'' where w: "w a' = (d, a'')" by (cases "w a'")
  have 1: "shaped m a'" "factsOf a \<subseteq> factsOf a'" "factsOf a' \<subseteq> factsOf a \<union> U \<times> UNIV" "c \<Longrightarrow> factsOf a' \<noteq> factsOf a" "\<not> c \<Longrightarrow> a' = a"
    using assms(1) a u by (auto simp: good_def dest!: spec [of _ a])
  have 2: "shaped m a''" "factsOf a' \<subseteq> factsOf a''" "factsOf a'' \<subseteq> factsOf a' \<union> U \<times> UNIV" "d \<Longrightarrow> factsOf a'' \<noteq> factsOf a'" "\<not> d \<Longrightarrow> a'' = a'"
    using assms(2) 1(1) w by (auto simp: good_def dest!: spec [of _ a'])
  have r: "thenAlso u w a = (c \<or> d, a'')" by (simp add: thenAlso_def u w)
  have "factsOf a'' \<subseteq> factsOf a \<union> U \<times> UNIV" using 1(3) 2(3) by blast
  moreover have "c \<or> d \<Longrightarrow> factsOf a'' \<noteq> factsOf a" using 1(2,4) 2(2,4) by blast
  ultimately show "shaped m (snd (thenAlso u w a)) \<and> factsOf a \<subseteq> factsOf (snd (thenAlso u w a)) \<and>
     factsOf (snd (thenAlso u w a)) \<subseteq> factsOf a \<union> U \<times> UNIV \<and>
     (fst (thenAlso u w a) \<longrightarrow> factsOf (snd (thenAlso u w a)) \<noteq> factsOf a) \<and>
     (\<not> fst (thenAlso u w a) \<longrightarrow> snd (thenAlso u w a) = a)"
    unfolding r using 1 2 by auto
qed

lemma good_sequenceAll: "(\<And>u. u \<in> set us \<Longrightarrow> good m U u) \<Longrightarrow> good m U (sequenceAll us)"
  by (induction us) (simp_all add: sequenceAll_def good_noChange good_thenAlso)

section \<open>The updates\<close>

text \<open>An update that does nothing or merges a state into one cell.\<close>

definition mergesCell :: "ir_module \<Rightarrow> analysis \<Rightarrow> cell \<Rightarrow> PointerState \<Rightarrow> bool \<times> analysis \<Rightarrow> bool" where
  "mergesCell m a c s r \<longleftrightarrow>
     fst r = (stateAt a c \<noteq> stateAt a c OR s) \<and> shaped m (snd r) \<and> (\<forall>d. d \<noteq> c \<longrightarrow> stateAt (snd r) d = stateAt a d) \<and>
     stateAt (snd r) c = stateAt a c OR s \<and> (\<not> fst r \<longrightarrow> snd r = a)"

lemma good_cell:
  assumes "c \<in> U" and u: "\<And>a. shaped m a \<Longrightarrow> u a = (False, a) \<or> mergesCell m a c s (u a)"
  shows "good m U u"
  unfolding good_def
proof (intro allI impI)
  fix a assume a: "shaped m a"
  obtain ch a' where r: "u a = (ch, a')" by (cases "u a")
  have "shaped m a' \<and> factsOf a \<subseteq> factsOf a' \<and> factsOf a' \<subseteq> factsOf a \<union> U \<times> UNIV \<and>
     (ch \<longrightarrow> factsOf a' \<noteq> factsOf a) \<and> (\<not> ch \<longrightarrow> a' = a)"
  proof (cases "u a = (False, a)")
    case True then show ?thesis using a r by simp
  next
    case False
    then have m: "ch = (stateAt a c \<noteq> stateAt a c OR s)" "shaped m a'" "\<And>d. d \<noteq> c \<Longrightarrow> stateAt a' d = stateAt a d"
      "stateAt a' c = stateAt a c OR s" "\<not> ch \<Longrightarrow> a' = a"
      using u [OF a] r by (auto simp: mergesCell_def)
    have "bit (stateAt a d) i \<Longrightarrow> bit (stateAt a' d) i" for d i
      using m(3,4) by (cases "d = c") (simp_all add: bit_or_iff)
    then have "factsOf a \<subseteq> factsOf a'" by (auto simp: factsOf_def)
    moreover have "bit (stateAt a' d) i \<Longrightarrow> bit (stateAt a d) i \<or> d \<in> U" for d i
      using m(3) assms(1) by (cases "d = c") simp_all
    then have "factsOf a' \<subseteq> factsOf a \<union> U \<times> UNIV" by (auto simp: factsOf_def)
    moreover have "factsOf a' \<noteq> factsOf a" if ch
    proof -
      have "stateAt a c \<noteq> stateAt a' c" using m(1,4) that by simp
      then obtain i where "bit (stateAt a c) i \<noteq> bit (stateAt a' c) i" unfolding bit_eq_iff by blast
      then show ?thesis by (auto simp: factsOf_def)
    qed
    ultimately show ?thesis using m(2,5) by blast
  qed
  then show "shaped m (snd (u a)) \<and> factsOf a \<subseteq> factsOf (snd (u a)) \<and> factsOf (snd (u a)) \<subseteq> factsOf a \<union> U \<times> UNIV \<and>
     (fst (u a) \<longrightarrow> factsOf (snd (u a)) \<noteq> factsOf a) \<and> (\<not> fst (u a) \<longrightarrow> snd (u a) = a)"
    by (simp add: r)
qed

lemma mergeInto_unchanged:
  assumes "mergeInto t v s = (False, t')" "s \<noteq> 0"
  shows "t' = t"
proof -
  have eq: "stateIn t v = stateIn t v OR s" "t' = t(v \<mapsto> stateIn t v OR s)"
    using assms(1) by (auto simp: mergeInto_def mergeState_def)
  have "t v \<noteq> None"
  proof
    assume "t v = None"
    then have "stateIn t v = 0" by (simp add: stateIn_def)
    then show False using eq(1) assms(2) by simp
  qed
  then have "t v = Some (stateIn t v)" by (auto simp: stateIn_def)
  then show ?thesis using eq by (metis fun_upd_triv)
qed

lemma mergeInto_run: "mergeInto t v s = (stateIn t v \<noteq> stateIn t v OR s, t(v \<mapsto> stateIn t v OR s))"
  by (simp add: mergeInto_def mergeState_def)

lemma stateIn_upd: "stateIn (t(v \<mapsto> s)) w = (if w = v then s else stateIn t w)"
  by (simp add: stateIn_def)

lemma updateValueState_merges:
  assumes "shaped m a"
  shows "updateValueState m v s a = (False, a) \<or> mergesCell m a (CValue v) s (updateValueState m v s a)"
proof (cases "\<not> isPointerValue m v \<or> stateEmpty s")
  case False
  let ?t = "(an_valueStates a)(v \<mapsto> stateIn (an_valueStates a) v OR s)" let ?a = "a\<lparr>an_valueStates := ?t\<rparr>"
  have r: "updateValueState m v s a = (stateAt a (CValue v) \<noteq> stateAt a (CValue v) OR s, ?a)"
    using False by (simp add: updateValueState_def mergeInto_run)
  have "stateAt ?a d = stateAt a d" if "d \<noteq> CValue v" for d
    using that by (cases d) (auto simp: stateIn_upd functionStateOf_def)
  moreover have "stateAt ?a (CValue v) = stateAt a (CValue v) OR s" by (simp add: stateIn_upd)
  moreover have "?a = a" if "stateAt a (CValue v) = stateAt a (CValue v) OR s"
    using that False mergeInto_unchanged [of "an_valueStates a" v s ?t] by (simp add: mergeInto_run stateEmpty_def)
  moreover have "shaped m ?a" using assms by (simp add: shaped_def)
  ultimately show ?thesis unfolding r mergesCell_def by simp
qed (simp add: updateValueState_def)

lemma updateLocationState_merges:
  assumes "shaped m a"
  shows "updateLocationState m v s a = (False, a) \<or> mergesCell m a (CLocation v) s (updateLocationState m v s a)"
proof (cases "\<not> isPointerValue m v \<or> stateEmpty s")
  case False
  let ?t = "(an_locationStates a)(v \<mapsto> stateIn (an_locationStates a) v OR s)" let ?a = "a\<lparr>an_locationStates := ?t\<rparr>"
  have r: "updateLocationState m v s a = (stateAt a (CLocation v) \<noteq> stateAt a (CLocation v) OR s, ?a)"
    using False by (simp add: updateLocationState_def mergeInto_run)
  have "stateAt ?a d = stateAt a d" if "d \<noteq> CLocation v" for d
    using that by (cases d) (auto simp: stateIn_upd functionStateOf_def)
  moreover have "stateAt ?a (CLocation v) = stateAt a (CLocation v) OR s" by (simp add: stateIn_upd)
  moreover have "?a = a" if "stateAt a (CLocation v) = stateAt a (CLocation v) OR s"
    using that False mergeInto_unchanged [of "an_locationStates a" v s ?t] by (simp add: mergeInto_run stateEmpty_def)
  moreover have "shaped m ?a" using assms by (simp add: shaped_def)
  ultimately show ?thesis unfolding r mergesCell_def by simp
qed (simp add: updateLocationState_def)

lemma updateSlotState_merges:
  assumes "shaped m a"
  shows "updateSlotState v s a = (False, a) \<or> mergesCell m a (CSlot v) s (updateSlotState v s a)"
proof (cases "stateEmpty s")
  case False
  let ?t = "(an_slotStates a)(v \<mapsto> stateIn (an_slotStates a) v OR s)" let ?a = "a\<lparr>an_slotStates := ?t\<rparr>"
  have r: "updateSlotState v s a = (stateAt a (CSlot v) \<noteq> stateAt a (CSlot v) OR s, ?a)"
    using False by (simp add: updateSlotState_def mergeInto_run)
  have "stateAt ?a d = stateAt a d" if "d \<noteq> CSlot v" for d
    using that by (cases d) (auto simp: stateIn_upd functionStateOf_def)
  moreover have "stateAt ?a (CSlot v) = stateAt a (CSlot v) OR s" by (simp add: stateIn_upd)
  moreover have "?a = a" if "stateAt a (CSlot v) = stateAt a (CSlot v) OR s"
    using that False mergeInto_unchanged [of "an_slotStates a" v s ?t] by (simp add: mergeInto_run stateEmpty_def)
  moreover have "shaped m ?a" using assms by (simp add: shaped_def)
  ultimately show ?thesis unfolding r mergesCell_def by simp
qed (simp add: updateSlotState_def)

lemma shaped_function:
  assumes "shaped m a" "functionAt m g = Some f"
  shows "an_functionStates a g = Some (functionStateOf a g) \<and> length (fst_params (functionStateOf a g)) = length (fn_params f)"
proof -
  obtain fs where "an_functionStates a g = Some fs" "length (fst_params fs) = length (fn_params f)"
    using assms unfolding shaped_def by blast
  then show ?thesis by (simp add: functionStateOf_def)
qed

lemma functionStateOf_upd: "functionStateOf (a\<lparr>an_functionStates := (an_functionStates a)(g \<mapsto> fs)\<rparr>) h =
    (if h = g then fs else functionStateOf a h)"
  by (simp add: functionStateOf_def)

lemma shaped_upd:
  assumes "shaped m a" "length (fst_params fs) = length (fst_params (functionStateOf a g))"
  shows "shaped m (a\<lparr>an_functionStates := (an_functionStates a)(g \<mapsto> fs)\<rparr>)"
  unfolding shaped_def
proof (intro allI impI)
  fix h f assume h: "functionAt m h = Some f"
  show "\<exists>fs'. an_functionStates (a\<lparr>an_functionStates := (an_functionStates a)(g \<mapsto> fs)\<rparr>) h = Some fs' \<and>
      length (fst_params fs') = length (fn_params f)"
    using shaped_function [OF assms(1) h] assms(2) by (cases "h = g") simp_all
qed

lemma functionState_triv: "an_functionStates a g = Some fs \<Longrightarrow> a\<lparr>an_functionStates := (an_functionStates a)(g \<mapsto> fs)\<rparr> = a"
  by (simp add: fun_upd_idem)

lemma updateParamState_merges:
  assumes "shaped m a" "functionAt m g = Some f" "n < length (fn_params f)"
  shows "updateParamState g n s a = (False, a) \<or> mergesCell m a (CParam g n) s (updateParamState g n s a)"
proof (cases "stateEmpty s")
  case False
  let ?fs = "functionStateOf a g"
  let ?gs = "?fs\<lparr>fst_params := (fst_params ?fs)[n := fst_params ?fs ! n OR s]\<rparr>"
  let ?a = "a\<lparr>an_functionStates := (an_functionStates a)(g \<mapsto> ?gs)\<rparr>"
  have fs: "an_functionStates a g = Some ?fs" and n: "n < length (fst_params ?fs)"
    using shaped_function [OF assms(1,2)] assms(3) by simp_all
  have c: "stateAt a (CParam g n) = fst_params ?fs ! n" using n by (simp add: Let_def)
  have r: "updateParamState g n s a = (stateAt a (CParam g n) \<noteq> stateAt a (CParam g n) OR s, ?a)"
    unfolding c using False by (simp add: updateParamState_def mergeState_def Let_def)
  have "stateAt ?a d = stateAt a d" if "d \<noteq> CParam g n" for d
    using that by (cases d) (auto simp: functionStateOf_upd Let_def)
  moreover have "stateAt ?a (CParam g n) = stateAt a (CParam g n) OR s" using n by (simp add: functionStateOf_upd Let_def)
  moreover have "?a = a" if "stateAt a (CParam g n) = stateAt a (CParam g n) OR s"
  proof -
    have "(fst_params ?fs)[n := fst_params ?fs ! n OR s] = fst_params ?fs" using that unfolding c by (metis list_update_id)
    then have "?gs = ?fs" by simp
    then show ?thesis using functionState_triv [OF fs] by simp
  qed
  moreover have "shaped m ?a" by (rule shaped_upd [OF assms(1)]) simp
  ultimately show ?thesis unfolding r mergesCell_def by simp
qed (simp add: updateParamState_def)

lemma updateReturnState_merges:
  assumes "shaped m a" "functionAt m g = Some f"
  shows "updateReturnState g s a = (False, a) \<or> mergesCell m a (CReturn g) s (updateReturnState g s a)"
proof (cases "stateEmpty s")
  case False
  let ?fs = "functionStateOf a g"
  let ?gs = "?fs\<lparr>fst_returnState := fst_returnState ?fs OR s\<rparr>"
  let ?a = "a\<lparr>an_functionStates := (an_functionStates a)(g \<mapsto> ?gs)\<rparr>"
  have fs: "an_functionStates a g = Some ?fs" using shaped_function [OF assms] by simp
  have r: "updateReturnState g s a = (stateAt a (CReturn g) \<noteq> stateAt a (CReturn g) OR s, ?a)"
    using False by (simp add: updateReturnState_def mergeState_def Let_def)
  have "stateAt ?a d = stateAt a d" if "d \<noteq> CReturn g" for d
    using that by (cases d) (auto simp: functionStateOf_upd Let_def)
  moreover have "stateAt ?a (CReturn g) = stateAt a (CReturn g) OR s" by (simp add: functionStateOf_upd)
  moreover have "?a = a" if "stateAt a (CReturn g) = stateAt a (CReturn g) OR s"
  proof -
    have "?gs = ?fs" using that by simp
    then show ?thesis using functionState_triv [OF fs] by simp
  qed
  moreover have "shaped m ?a" by (rule shaped_upd [OF assms(1)]) simp
  ultimately show ?thesis unfolding r mergesCell_def by simp
qed (simp add: updateReturnState_def)

lemmas update_good =
  good_cell [OF _ updateValueState_merges] good_cell [OF _ updateLocationState_merges] good_cell [OF _ updateSlotState_merges]

lemma good_updateParamState:
  "functionAt m g = Some f \<Longrightarrow> n < length (fn_params f) \<Longrightarrow> CParam g n \<in> U \<Longrightarrow> good m U (updateParamState g n s)"
  by (rule good_cell [OF _ updateParamState_merges])

lemma good_updateReturnState: "functionAt m g = Some f \<Longrightarrow> CReturn g \<in> U \<Longrightarrow> good m U (updateReturnState g s)"
  by (rule good_cell [OF _ updateReturnState_merges])

text \<open>Updates whose state is computed from the state of the analysis.\<close>

lemma good_value_of: "CValue v \<in> U \<Longrightarrow> good m U (\<lambda>a. updateValueState m v (s a) a)"
  using update_good(1) by (simp add: good_def)

lemma good_location_of: "CLocation v \<in> U \<Longrightarrow> good m U (\<lambda>a. updateLocationState m v (s a) a)"
  using update_good(2) by (simp add: good_def)

lemma good_param_of:
  "functionAt m g = Some f \<Longrightarrow> n < length (fn_params f) \<Longrightarrow> CParam g n \<in> U \<Longrightarrow> good m U (\<lambda>a. updateParamState g n (s a) a)"
  using good_updateParamState by (simp add: good_def)

lemma good_return_of: "functionAt m g = Some f \<Longrightarrow> CReturn g \<in> U \<Longrightarrow> good m U (\<lambda>a. updateReturnState g (s a) a)"
  using good_updateReturnState by (simp add: good_def)

end
