(* ===== verification/Managed_Fixpoint.thy ===== *)
theory Managed_Fixpoint
  imports Managed_State_Facts
begin

text \<open>
  The cells a module mentions, the proof that every visit of the analysis stays within them, and the
  fixed point that \<open>run\<close> therefore reaches.
\<close>

section \<open>The cells of a module\<close>

fun operandsOf :: "operation \<Rightarrow> val set" where
  "operandsOf (OAlloca b) = {}"
| "operandsOf (OGep v b) = {v}"
| "operandsOf (OPhi vs) = set vs"
| "operandsOf (OSelect v w) = {v, w}"
| "operandsOf (OFreeze v) = {v}"
| "operandsOf (OLoad v) = {v}"
| "operandsOf (OStore v w) = {v, w}"
| "operandsOf (OCall v vs) = insert v (set vs)"
| "operandsOf (ORet v) = (case v of Some w \<Rightarrow> {w} | None \<Rightarrow> {})"
| "operandsOf OOther = {}"

lemma finite_operandsOf: "finite (operandsOf p)"
  by (cases p) (auto split: option.split)

definition valuesOf :: "(val \<Rightarrow> val) \<Rightarrow> ir_module \<Rightarrow> val set" where
  "valuesOf strip m = (\<Union>f \<in> set m. \<Union>i \<in> set (instructionsOf f).
     insert (selfOf f i) (operandsOf (in_op i) \<union> strip ` operandsOf (in_op i)))"

definition cellsOf :: "(val \<Rightarrow> val) \<Rightarrow> ir_module \<Rightarrow> cell set" where
  "cellsOf strip m = CValue ` valuesOf strip m \<union> CLocation ` valuesOf strip m \<union> CSlot ` valuesOf strip m \<union>
     (\<Union>f \<in> set m. CParam (fn_id f) ` {..< length (fn_params f)}) \<union> CReturn ` fn_id ` set m"

lemma finite_cellsOf: "finite (cellsOf strip m)"
  unfolding cellsOf_def valuesOf_def by (intro finite_UnI finite_imageI finite_UN_I finite_insert [THEN iffD2] finite_operandsOf) auto

lemma cells_of_value:
  assumes "v \<in> valuesOf strip m"
  shows "CValue v \<in> cellsOf strip m" "CLocation v \<in> cellsOf strip m" "CSlot v \<in> cellsOf strip m"
  using assms by (auto simp: cellsOf_def)

lemma param_cell: "functionAt m g = Some f \<Longrightarrow> n < length (fn_params f) \<Longrightarrow> CParam g n \<in> cellsOf strip m"
  using functionAt_Some [of m g f] by (auto simp: cellsOf_def)

lemma return_cell: "functionAt m g = Some f \<Longrightarrow> CReturn g \<in> cellsOf strip m"
  using functionAt_Some [of m g f] by (auto simp: cellsOf_def)

lemma tracked_strip: "getTrackedSlot strip m p = Some s \<Longrightarrow> s = strip p"
  by (auto simp: getTrackedSlot_def Let_def split: val.splits option.splits operation.splits if_splits)

section \<open>Visits are good\<close>

lemma pointerSource_arg:
  "isPointerValue m (VArg g n) \<Longrightarrow> updatePointerSourceState m (VArg g n) s = updateParamState g n s"
  by (rule ext) (auto simp: updatePointerSourceState_def updateParamState_def)

lemma pointerSource_value:
  "\<not> (isPointerValue m v \<and> (\<exists>g n. v = VArg g n)) \<Longrightarrow> updatePointerSourceState m v s = updateValueState m v s"
  by (rule ext) (auto simp: updatePointerSourceState_def updateValueState_def split: val.split)

lemma pointer_param:
  assumes "isPointerValue m (VArg g n)"
  obtains f where "functionAt m g = Some f" "n < length (fn_params f)"
  using assms by (auto split: option.splits)

lemma good_updatePointerSourceState:
  assumes "v \<in> valuesOf strip m"
  shows "good m (cellsOf strip m) (updatePointerSourceState m v s)"
proof (cases "isPointerValue m v \<and> (\<exists>g n. v = VArg g n)")
  case True
  then obtain g n where v: "v = VArg g n" and p: "isPointerValue m (VArg g n)" by blast
  obtain f where f: "functionAt m g = Some f" "n < length (fn_params f)" by (rule pointer_param [OF p])
  show ?thesis unfolding v pointerSource_arg [OF p] by (rule good_updateParamState [OF f param_cell [OF f]])
next
  case False
  show ?thesis unfolding pointerSource_value [OF False] by (rule update_good(1)) (rule cells_of_value [OF assms])
qed

lemma good_passArguments:
  assumes "functionAt m (fn_id f) = Some f"
  shows "good m (cellsOf strip m) (passArguments m f n args)"
proof (induction args arbitrary: n)
  case Nil
  show ?case unfolding passArguments.simps by (rule good_noChange)
next
  case (Cons arg args)
  show ?case
  proof (cases "n \<ge> length (fn_params f)")
    case True
    show ?thesis unfolding passArguments.simps if_P [OF True] by (rule good_noChange)
  next
    case False
    then have n: "n < length (fn_params f)" by simp
    show ?thesis
      unfolding passArguments.simps if_not_P [OF False]
      by (intro good_thenAlso good_if good_False good_param_of [OF assms n param_cell [OF assms n]] Cons.IH)
  qed
qed

lemma good_visitCall:
  assumes "self \<in> valuesOf strip m"
  shows "good m (cellsOf strip m) (visitCall strip m self isPointer callee args)"
proof (cases "getDirectCallee strip callee")
  case None
  have "good m (cellsOf strip m) (updateValueState m self kStateRaw)"
    by (rule update_good(1)) (rule cells_of_value [OF assms])
  then show ?thesis using None by (cases isPointer) (simp_all add: visitCall_def good_noChange)
next
  case (Some g)
  show ?thesis
  proof (cases "functionAt m g")
    case None then show ?thesis using Some by (simp add: visitCall_def good_noChange)
  next
    case at: (Some f)
    then have f: "functionAt m (fn_id f) = Some f" using functionAt_Some [OF at] by simp
    have "good m (cellsOf strip m) (if \<not> fn_isDeclaration f then passArguments m f 0 args else noChange)"
      using good_passArguments [OF f] good_noChange by (cases "fn_isDeclaration f") simp_all
    moreover have "good m (cellsOf strip m) (\<lambda>a. if isPointer then updateValueState m self (getCallResultState a f) a else (False, a))"
      by (intro good_if good_False good_value_of cells_of_value [OF assms])
    ultimately show ?thesis
      unfolding visitCall_def Some at option.case by (rule good_thenAlso [rotated])
  qed
qed

lemma good_store:
  assumes v: "v \<in> valuesOf strip m" and q: "q \<in> valuesOf strip m" "strip q \<in> valuesOf strip m"
  shows "good m (cellsOf strip m) (thenAlso
        (\<lambda>a. case getTrackedSlot strip m q of Some t \<Rightarrow> updateSlotState t s a | None \<Rightarrow> (False, a))
        (thenAlso (updateLocationState m q s) (\<lambda>a. let l = getLocationState strip m a q in
          if hasManaged l then updatePointerSourceState m v l a else (False, a))))"
proof (intro good_thenAlso)
  show "good m (cellsOf strip m) (\<lambda>a. case getTrackedSlot strip m q of Some t \<Rightarrow> updateSlotState t s a | None \<Rightarrow> (False, a))"
  proof (cases "getTrackedSlot strip m q")
    case (Some t)
    have "good m (cellsOf strip m) (updateSlotState t s)"
      unfolding tracked_strip [OF Some] by (rule update_good(3)) (rule cells_of_value [OF q(2)])
    then show ?thesis unfolding Some option.case by (simp only: good_def)
  qed (simp add: good_False)
  show "good m (cellsOf strip m) (updateLocationState m q s)" by (rule update_good(2)) (rule cells_of_value [OF q(1)])
  show "good m (cellsOf strip m) (\<lambda>a. let l = getLocationState strip m a q in
      if hasManaged l then updatePointerSourceState m v l a else (False, a))"
    using good_updatePointerSourceState [OF v] unfolding good_def by (simp add: Let_def)
qed

lemma good_visitOperation:
  assumes self: "self \<in> valuesOf strip m" and ops: "operandsOf p \<subseteq> valuesOf strip m" "strip ` operandsOf p \<subseteq> valuesOf strip m"
    and f: "functionAt m g = Some f"
  shows "good m (cellsOf strip m) (\<lambda>a. visitOperation strip m g self isPointer p a)"
proof -
  note steps = good_thenAlso good_if good_False good_value_of good_location_of cells_of_value [OF self]
    good_return_of [OF f return_cell [OF f]]
  show ?thesis
  proof (cases p)
    case (OStore v q)
    have "v \<in> valuesOf strip m" "q \<in> valuesOf strip m" "strip q \<in> valuesOf strip m" using ops OStore by auto
    from good_store [OF this] show ?thesis unfolding OStore visitOperation.simps Let_def by (simp add: good_def)
  next
    case (ORet v)
    show ?thesis
    proof (cases v)
      case None then show ?thesis unfolding ORet None by (simp add: good_False)
    next
      case (Some w)
      show ?thesis unfolding ORet Some visitOperation.simps option.case by (intro steps)
    qed
  next
    case (OCall c args)
    show ?thesis unfolding OCall visitOperation.simps by (rule good_visitCall [OF self])
  next
    case (OAlloca b)
    have "good m (cellsOf strip m) (\<lambda>a. if isPointer then updateValueState m self kStateRaw a else (False, a))"
      by (intro good_if good_False update_good(1) cells_of_value [OF self])
    then show ?thesis unfolding OAlloca visitOperation.simps .
  qed (simp_all only: visitOperation.simps, (intro steps)+)
qed

lemma good_visitInstruction:
  assumes "wellNumbered m" "f \<in> set m" "i \<in> set (instructionsOf f)"
  shows "good m (cellsOf strip m) (visitInstruction strip m f i)"
  unfolding visitInstruction_def
  by (rule good_visitOperation [OF _ _ _ functionAt_member [OF assms(1,2)]])
    (use assms(2,3) in \<open>auto simp: valuesOf_def\<close>)

lemma good_visitParams:
  assumes "wellNumbered m" "f \<in> set m"
  shows "good m (cellsOf strip m) (visitParams f)"
  unfolding visitParams_def
proof (rule good_sequenceAll)
  fix u assume "u \<in> set (map (\<lambda>n a. if fn_params f ! n \<and> (fn_isDeclaration f \<or> fn_hasAddressTaken f)
    then updateParamState (fn_id f) n kStateRaw a else (False, a)) [0 ..< length (fn_params f)])"
  then obtain n where n: "n < length (fn_params f)" and u: "u = (\<lambda>a. if fn_params f ! n \<and> (fn_isDeclaration f \<or> fn_hasAddressTaken f)
    then updateParamState (fn_id f) n kStateRaw a else (False, a))" by auto
  have f: "functionAt m (fn_id f) = Some f" by (rule functionAt_member [OF assms])
  show "good m (cellsOf strip m) u"
    unfolding u by (intro good_if good_False good_updateParamState [OF f n param_cell [OF f n]])
qed

lemma good_visitFunction:
  assumes "wellNumbered m" "f \<in> set m"
  shows "good m (cellsOf strip m) (visitFunction strip m f)"
  unfolding visitFunction_def
  by (intro good_thenAlso good_visitParams [OF assms] good_sequenceAll) (auto intro: good_visitInstruction [OF assms])

lemma good_visitModule: "wellNumbered m \<Longrightarrow> good m (cellsOf strip m) (visitModule strip m)"
  unfolding visitModule_def by (rule good_sequenceAll) (auto intro: good_visitFunction)

section \<open>The fixed point\<close>

definition okAnalysis :: "(val \<Rightarrow> val) \<Rightarrow> ir_module \<Rightarrow> analysis \<Rightarrow> bool" where
  "okAnalysis strip m a \<longleftrightarrow> wellNumbered m \<and> shaped m a \<and> factsOf a \<subseteq> cellsOf strip m \<times> {..< 8}"

lemma facts_range: "factsOf a \<subseteq> X \<times> UNIV \<Longrightarrow> factsOf a \<subseteq> X \<times> {..< 8}"
  using bit_imp_le_length [where 'a = 8] by (fastforce simp: factsOf_def)

interpretation analysisRun: inflationary "visitModule strip m" factsOf "okAnalysis strip m" "cellsOf strip m \<times> {..< 8}" for strip m
proof (unfold_locales, goal_cases)
  case 1 show ?case by (simp add: finite_cellsOf)
next
  case (2 a) then show ?case by (simp add: okAnalysis_def)
next
  case (3 a)
  then have ok: "wellNumbered m" "shaped m a" "factsOf a \<subseteq> cellsOf strip m \<times> {..< 8}" by (simp_all add: okAnalysis_def)
  have "shaped m (snd (visitModule strip m a))" "factsOf (snd (visitModule strip m a)) \<subseteq> factsOf a \<union> cellsOf strip m \<times> UNIV"
    using good_visitModule [OF ok(1)] ok(2) by (simp_all add: good_def)
  moreover from this(2) ok(3) have "factsOf (snd (visitModule strip m a)) \<subseteq> cellsOf strip m \<times> UNIV" by blast
  ultimately show ?case using ok(1) facts_range by (auto simp: okAnalysis_def)
qed (use good_visitModule in \<open>auto simp: okAnalysis_def good_def\<close>)

lemma initialAnalysis_facts: "factsOf (initialAnalysis m) = {}"
proof -
  have "stateAt (initialAnalysis m) c = 0" for c
    by (cases c) (auto simp: initialAnalysis_def stateIn_def functionStateOf_def split: option.splits)
  then show ?thesis by (simp add: factsOf_def)
qed

lemma initialAnalysis_ok: "wellNumbered m \<Longrightarrow> okAnalysis strip m (initialAnalysis m)"
  using initialAnalysis_facts by (auto simp: okAnalysis_def shaped_def initialAnalysis_def)

lemma analyse_ends:
  assumes "wellNumbered m"
  obtains a where "analyse strip m = Some a" "okAnalysis strip m a" "visitModule strip m a = (False, a)"
  using analysisRun.terminates [OF initialAnalysis_ok [OF assms], of strip]
  unfolding analyse_def runAnalysis_def by blast

lemma thenAlso_stable:
  assumes "good m U f" "shaped m a" "thenAlso f g a = (False, b)"
  shows "f a = (False, a) \<and> g a = (False, b)"
proof -
  obtain c a' where f: "f a = (c, a')" by (cases "f a")
  then have "\<not> c" using assms(3) by (auto simp: thenAlso_def split: prod.splits)
  then have "a' = a" using assms(1,2) f by (auto simp: good_def dest!: spec [of _ a])
  then show ?thesis using f \<open>\<not> c\<close> assms(3) by (auto simp: thenAlso_def split: prod.splits)
qed

lemma sequenceAll_stable:
  "(\<And>u. u \<in> set us \<Longrightarrow> good m U u) \<Longrightarrow> shaped m a \<Longrightarrow> sequenceAll us a = (False, b) \<Longrightarrow> u \<in> set us \<Longrightarrow> u a = (False, a)"
proof (induction us)
  case (Cons w us)
  have "thenAlso w (sequenceAll us) a = (False, b)" using Cons.prems(3) by (simp add: sequenceAll_def)
  from thenAlso_stable [OF Cons.prems(1) Cons.prems(2) this] have "w a = (False, a)" "sequenceAll us a = (False, b)" by simp_all
  then show ?case using Cons by auto
qed simp

lemma stable_function:
  assumes "wellNumbered m" "shaped m a" "visitModule strip m a = (False, a)" "f \<in> set m"
  shows "visitFunction strip m f a = (False, a)"
  by (rule sequenceAll_stable [OF _ assms(2) assms(3) [unfolded visitModule_def]])
    (use assms(1,4) good_visitFunction in auto)

lemma stable_instruction:
  assumes "wellNumbered m" "shaped m a" "visitModule strip m a = (False, a)" "f \<in> set m" "i \<in> set (instructionsOf f)"
  shows "visitInstruction strip m f i a = (False, a)"
proof -
  have "sequenceAll (map (visitInstruction strip m f) (instructionsOf f)) a = (False, a)"
    using thenAlso_stable [OF good_visitParams [OF assms(1,4)] assms(2)] stable_function [OF assms(1-4)]
    unfolding visitFunction_def by blast
  from sequenceAll_stable [OF _ assms(2) this] show ?thesis
    using good_visitInstruction [OF assms(1,4)] assms(5) by fastforce
qed

lemma stable_params:
  assumes "wellNumbered m" "shaped m a" "visitModule strip m a = (False, a)" "f \<in> set m"
    and "n < length (fn_params f)" "fn_params f ! n" "fn_isDeclaration f \<or> fn_hasAddressTaken f"
  shows "updateParamState (fn_id f) n kStateRaw a = (False, a)"
proof -
  have "visitParams f a = (False, a)"
    using thenAlso_stable [OF good_visitParams [OF assms(1,4)] assms(2)] stable_function [OF assms(1-4)]
    unfolding visitFunction_def by blast
  moreover have "good m (cellsOf strip m) u" if "u \<in> set (map (\<lambda>n a. if fn_params f ! n \<and> (fn_isDeclaration f \<or> fn_hasAddressTaken f)
    then updateParamState (fn_id f) n kStateRaw a else (False, a)) [0 ..< length (fn_params f)])" for u
    using that functionAt_member [OF assms(1,4)]
    by (auto intro!: good_if good_False good_updateParamState param_cell)
  ultimately show ?thesis
    using sequenceAll_stable [OF _ assms(2), of _ "cellsOf strip m" a
        "\<lambda>a. if fn_params f ! n \<and> (fn_isDeclaration f \<or> fn_hasAddressTaken f) then updateParamState (fn_id f) n kStateRaw a else (False, a)"]
      assms(5-7) unfolding visitParams_def by fastforce
qed

end
