(* ===== verification/Managed_Flow.thy ===== *)
theory Managed_Flow
  imports Managed_Fixpoint
begin

text \<open>
  What a pointer may be, as a specification that does not mention the algorithm: the null constant,
  globals, allocation calls and unknown calls are sources, and a pointer flows through phis, selects,
  freezes, address computations, arguments, returns, the slots that loads and stores share, and
  through memory: what is stored through a pointer may be loaded through the same pointer, and through
  the phis, selects and freezes made of it.  Memory that is stored and loaded through two address
  computations of their own is not in the specification: there the code does not follow the values
  (\<open>getAggregateFieldState\<close> gives what is loaded from a field the kind of the aggregate).
\<close>

definition kNullBit :: nat where "kNullBit = 0"
definition kRawBit :: nat where "kRawBit = 1"
definition kObjectBit :: nat where "kObjectBit = 2"
definition kArrayBit :: nat where "kArrayBit = 3"

definition inModule :: "ir_module \<Rightarrow> ir_function \<Rightarrow> instruction \<Rightarrow> bool" where
  "inModule m f i \<longleftrightarrow> f \<in> set m \<and> i \<in> set (instructionsOf f) \<and> in_isPointer i"

definition calls :: "(val \<Rightarrow> val) \<Rightarrow> ir_module \<Rightarrow> val \<Rightarrow> ir_function \<Rightarrow> bool" where
  "calls strip m callee h \<longleftrightarrow> (\<exists>g. getDirectCallee strip callee = Some g \<and> functionAt m g = Some h)"

definition objectAllocator :: "ir_function \<Rightarrow> bool" where
  "objectAllocator h \<longleftrightarrow> fn_returnsPointer h \<and> fn_name h \<in> {''__mvm_malloc'', ''__mvm_malloc_typed''}"

definition arrayAllocator :: "ir_function \<Rightarrow> bool" where
  "arrayAllocator h \<longleftrightarrow> fn_returnsPointer h \<and> fn_name h \<in> {''__mvm_array_malloc'', ''__mvm_array_malloc_typed''}"

inductive mayBe :: "(val \<Rightarrow> val) \<Rightarrow> ir_module \<Rightarrow> val \<Rightarrow> nat \<Rightarrow> bool"
  and slotMayHold :: "(val \<Rightarrow> val) \<Rightarrow> ir_module \<Rightarrow> val \<Rightarrow> nat \<Rightarrow> bool"
  and locationMayHold :: "(val \<Rightarrow> val) \<Rightarrow> ir_module \<Rightarrow> val \<Rightarrow> nat \<Rightarrow> bool"
  and mayReturn :: "(val \<Rightarrow> val) \<Rightarrow> ir_module \<Rightarrow> nat \<Rightarrow> nat \<Rightarrow> bool"
  for strip m where
  null: "mayBe strip m VNull kNullBit"
| function_pointer: "mayBe strip m (VFunc g) kRawBit"
| global_variable: "mayBe strip m (VGlobalVariable s b) kRawBit"
| other_global: "mayBe strip m (VOtherGlobal s) kRawBit"
| alloca: "inModule m f i \<Longrightarrow> in_op i = OAlloca t \<Longrightarrow> mayBe strip m (selfOf f i) kRawBit"
| gep: "inModule m f i \<Longrightarrow> in_op i = OGep v t \<Longrightarrow> mayBe strip m v b \<Longrightarrow> mayBe strip m (selfOf f i) b"
| phi: "inModule m f i \<Longrightarrow> in_op i = OPhi vs \<Longrightarrow> v \<in> set vs \<Longrightarrow> mayBe strip m v b \<Longrightarrow> mayBe strip m (selfOf f i) b"
| select: "inModule m f i \<Longrightarrow> in_op i = OSelect v w \<Longrightarrow> mayBe strip m v b \<or> mayBe strip m w b \<Longrightarrow> mayBe strip m (selfOf f i) b"
| freeze: "inModule m f i \<Longrightarrow> in_op i = OFreeze v \<Longrightarrow> mayBe strip m v b \<Longrightarrow> mayBe strip m (selfOf f i) b"
| load: "inModule m f i \<Longrightarrow> in_op i = OLoad p \<Longrightarrow> isPointerValue m p \<Longrightarrow> getTrackedSlot strip m p = Some s \<Longrightarrow>
    slotMayHold strip m s b \<Longrightarrow> mayBe strip m (selfOf f i) b"
| load_location: "inModule m f i \<Longrightarrow> in_op i = OLoad p \<Longrightarrow> locationMayHold strip m p b \<Longrightarrow> mayBe strip m (selfOf f i) b"
| object_allocation: "inModule m f i \<Longrightarrow> in_op i = OCall c args \<Longrightarrow> calls strip m c h \<Longrightarrow> objectAllocator h \<Longrightarrow>
    mayBe strip m (selfOf f i) kObjectBit"
| array_allocation: "inModule m f i \<Longrightarrow> in_op i = OCall c args \<Longrightarrow> calls strip m c h \<Longrightarrow> arrayAllocator h \<Longrightarrow>
    mayBe strip m (selfOf f i) kArrayBit"
| external_call: "inModule m f i \<Longrightarrow> in_op i = OCall c args \<Longrightarrow> calls strip m c h \<Longrightarrow> fn_returnsPointer h \<Longrightarrow>
    \<not> objectAllocator h \<Longrightarrow> \<not> arrayAllocator h \<Longrightarrow> fn_isDeclaration h \<Longrightarrow> mayBe strip m (selfOf f i) kRawBit"
| indirect_call: "inModule m f i \<Longrightarrow> in_op i = OCall c args \<Longrightarrow> getDirectCallee strip c = None \<Longrightarrow>
    mayBe strip m (selfOf f i) kRawBit"
| defined_call: "inModule m f i \<Longrightarrow> in_op i = OCall c args \<Longrightarrow> calls strip m c h \<Longrightarrow> fn_returnsPointer h \<Longrightarrow>
    \<not> objectAllocator h \<Longrightarrow> \<not> arrayAllocator h \<Longrightarrow> \<not> fn_isDeclaration h \<Longrightarrow> mayReturn strip m (fn_id h) b \<Longrightarrow>
    mayBe strip m (selfOf f i) b"
| external_argument: "f \<in> set m \<Longrightarrow> n < length (fn_params f) \<Longrightarrow> fn_params f ! n \<Longrightarrow>
    fn_isDeclaration f \<or> fn_hasAddressTaken f \<Longrightarrow> mayBe strip m (VArg (fn_id f) n) kRawBit"
| argument: "f \<in> set m \<Longrightarrow> i \<in> set (instructionsOf f) \<Longrightarrow> in_op i = OCall c args \<Longrightarrow> calls strip m c h \<Longrightarrow>
    \<not> fn_isDeclaration h \<Longrightarrow> n < length args \<Longrightarrow> n < length (fn_params h) \<Longrightarrow> fn_params h ! n \<Longrightarrow>
    isPointerValue m (args ! n) \<Longrightarrow> mayBe strip m (args ! n) b \<Longrightarrow> mayBe strip m (VArg (fn_id h) n) b"
| stored: "f \<in> set m \<Longrightarrow> i \<in> set (instructionsOf f) \<Longrightarrow> in_op i = OStore v p \<Longrightarrow> isPointerValue m v \<Longrightarrow>
    getTrackedSlot strip m p = Some s \<Longrightarrow> mayBe strip m v b \<Longrightarrow> slotMayHold strip m s b"
| slot_location: "isPointerValue m p \<Longrightarrow> getTrackedSlot strip m p = Some s \<Longrightarrow> slotMayHold strip m s b \<Longrightarrow>
    locationMayHold strip m p b"
| stored_location: "f \<in> set m \<Longrightarrow> i \<in> set (instructionsOf f) \<Longrightarrow> in_op i = OStore v p \<Longrightarrow> isPointerValue m v \<Longrightarrow>
    isPointerValue m p \<Longrightarrow> getTrackedSlot strip m p = None \<Longrightarrow> mayBe strip m v b \<Longrightarrow> locationMayHold strip m p b"
| phi_location: "inModule m f i \<Longrightarrow> in_op i = OPhi vs \<Longrightarrow> getTrackedSlot strip m (selfOf f i) = None \<Longrightarrow> v \<in> set vs \<Longrightarrow>
    locationMayHold strip m v b \<Longrightarrow> locationMayHold strip m (selfOf f i) b"
| select_location: "inModule m f i \<Longrightarrow> in_op i = OSelect v w \<Longrightarrow> getTrackedSlot strip m (selfOf f i) = None \<Longrightarrow>
    locationMayHold strip m v b \<or> locationMayHold strip m w b \<Longrightarrow> locationMayHold strip m (selfOf f i) b"
| freeze_location: "inModule m f i \<Longrightarrow> in_op i = OFreeze v \<Longrightarrow> getTrackedSlot strip m (selfOf f i) = None \<Longrightarrow>
    locationMayHold strip m v b \<Longrightarrow> locationMayHold strip m (selfOf f i) b"
| returned: "f \<in> set m \<Longrightarrow> i \<in> set (instructionsOf f) \<Longrightarrow> in_op i = ORet (Some v) \<Longrightarrow> isPointerValue m v \<Longrightarrow>
    mayBe strip m v b \<Longrightarrow> mayReturn strip m (fn_id f) b"

section \<open>What a stable update says\<close>

lemma stable_merge: "mergesCell m a c s (False, a) \<Longrightarrow> bit s i \<Longrightarrow> bit (stateAt a c) i"
  by (metis bit_or_iff fst_conv mergesCell_def)

lemma stable_value:
  assumes "shaped m a" "updateValueState m v s a = (False, a)" "isPointerValue m v" "bit s i"
  shows "bit (stateAt a (CValue v)) i"
proof -
  have "s \<noteq> 0" using assms(4) by auto
  then show ?thesis using assms(2-4) by (auto simp: updateValueState_def mergeInto_run stateEmpty_def bit_or_iff) (metis bit_or_iff)
qed

lemma stable_slot:
  assumes "updateSlotState v s a = (False, a)" "bit s i"
  shows "bit (stateAt a (CSlot v)) i"
proof -
  have "s \<noteq> 0" using assms(2) by auto
  then show ?thesis using assms by (auto simp: updateSlotState_def mergeInto_run stateEmpty_def) (metis bit_or_iff)
qed

lemma stable_location:
  assumes "updateLocationState m v s a = (False, a)" "isPointerValue m v" "getTrackedSlot strip m v = None" "bit s i"
  shows "bit (getLocationState strip m a v) i"
proof -
  let ?t = "(an_locationStates a)(v \<mapsto> stateIn (an_locationStates a) v OR s)"
  have "s \<noteq> 0" using assms(4) by auto
  then have "a\<lparr>an_locationStates := ?t\<rparr> = a"
    using assms(1,2) by (simp add: updateLocationState_def mergeInto_run stateEmpty_def del: fun_upd_apply) metis
  then have "an_locationStates a = ?t" by (metis analysis.select_convs(2) analysis.surjective analysis.update_convs(2))
  then have "an_locationStates a v = Some (stateIn (an_locationStates a) v OR s)" by (metis fun_upd_same)
  then show ?thesis using assms(2-4) by (simp add: getLocationState_def bit_or_iff)
qed

lemma stable_param:
  assumes "shaped m a" "functionAt m g = Some f" "n < length (fn_params f)" "updateParamState g n s a = (False, a)" "bit s i"
  shows "bit (stateAt a (CParam g n)) i"
proof -
  have "s \<noteq> 0" using assms(5) by auto
  then have "fst_params (functionStateOf a g) ! n = fst_params (functionStateOf a g) ! n OR s"
    using assms(4) by (auto simp: updateParamState_def mergeState_def stateEmpty_def Let_def)
  then have "bit (fst_params (functionStateOf a g) ! n) i" using assms(5) by (metis bit_or_iff)
  then show ?thesis using shaped_function [OF assms(1,2)] assms(3) by (simp add: Let_def)
qed

lemma stable_return:
  assumes "updateReturnState g s a = (False, a)" "bit s i"
  shows "bit (stateAt a (CReturn g)) i"
proof -
  have "s \<noteq> 0" using assms(2) by auto
  then show ?thesis using assms by (auto simp: updateReturnState_def mergeState_def stateEmpty_def Let_def) (metis bit_or_iff)
qed

section \<open>Reading states\<close>

lemma getValueState_param:
  assumes "shaped m a" "functionAt m g = Some f" "n < length (fn_params f)" "fn_params f ! n"
  shows "getValueState m a (VArg g n) = stateAt a (CParam g n)"
  using shaped_function [OF assms(1,2)] assms by (simp add: getValueState.simps Let_def)

lemma getValueState_inst: "isPointerValue m (VInst g k) \<Longrightarrow> getValueState m a (VInst g k) = stateAt a (CValue (VInst g k))"
  by (subst getValueState.simps) simp

lemma bit_mergeAll: "bit (mergeAll state vs) i \<longleftrightarrow> (\<exists>v \<in> set vs. bit (state v) i)"
proof -
  have "bit (fold (\<lambda>v s. s OR state v) vs s) i \<longleftrightarrow> bit s i \<or> (\<exists>v \<in> set vs. bit (state v) i)" for s
    by (induction vs arbitrary: s) (auto simp: bit_or_iff)
  then show ?thesis by (simp add: mergeAll_def)
qed

lemma state_bits:
  "bit kStateNull i \<longleftrightarrow> i = kNullBit" "bit kStateRaw i \<longleftrightarrow> i = kRawBit"
  "bit kStateManagedObject i \<longleftrightarrow> i = kObjectBit" "bit kStateManagedArray i \<longleftrightarrow> i = kArrayBit"
proof -
  have p: "kStateNull = push_bit 0 1" "kStateRaw = push_bit 1 1" "kStateManagedObject = push_bit 2 1" "kStateManagedArray = push_bit 3 1"
    by (simp_all add: kStateNull_def kStateRaw_def kStateManagedObject_def kStateManagedArray_def push_bit_eq_mult)
  have one: "bit (push_bit n (1 :: 8 word)) i \<longleftrightarrow> i = n" if "n < 8" for n
    using that by (auto simp: push_bit_eq_mult bit_exp_iff possible_bit_word)
  show "bit kStateNull i \<longleftrightarrow> i = kNullBit" "bit kStateRaw i \<longleftrightarrow> i = kRawBit"
    "bit kStateManagedObject i \<longleftrightarrow> i = kObjectBit" "bit kStateManagedArray i \<longleftrightarrow> i = kArrayBit"
    unfolding p kNullBit_def kRawBit_def kObjectBit_def kArrayBit_def by (rule one, simp)+
qed

section \<open>The analysis covers every flow\<close>

text \<open>A state that no visit changes.\<close>

definition stable :: "(val \<Rightarrow> val) \<Rightarrow> ir_module \<Rightarrow> analysis \<Rightarrow> bool" where
  "stable strip m a \<longleftrightarrow> wellNumbered m \<and> shaped m a \<and> visitModule strip m a = (False, a)"

lemma stable_visit:
  "stable strip m a \<Longrightarrow> f \<in> set m \<Longrightarrow> i \<in> set (instructionsOf f) \<Longrightarrow>
   visitOperation strip m (fn_id f) (selfOf f i) (in_isPointer i) (in_op i) a = (False, a)"
  using stable_instruction unfolding stable_def visitInstruction_def by blast

lemma self_state:
  assumes "stable strip m a" "inModule m f i"
  shows "isPointerValue m (selfOf f i)" "getValueState m a (selfOf f i) = stateAt a (CValue (selfOf f i))"
proof -
  show p: "isPointerValue m (selfOf f i)"
    using assms isPointerValue_self [of m f i] by (simp add: stable_def inModule_def)
  then show "getValueState m a (selfOf f i) = stateAt a (CValue (selfOf f i))"
    unfolding selfOf_def by (rule getValueState_inst)
qed

lemma self_gets:
  assumes "stable strip m a" "inModule m f i" "updateValueState m (selfOf f i) s a = (False, a)" "bit s b"
  shows "bit (getValueState m a (selfOf f i)) b"
  using stable_value [OF _ assms(3) self_state(1) [OF assms(1,2)] assms(4)] self_state(2) [OF assms(1,2)] assms(1)
  by (simp add: stable_def)

text \<open>The first part of a stable sequence of two updates is stable.\<close>

lemma first_stable:
  assumes "good m U u" "shaped m a" "thenAlso u w a = (False, a)"
  shows "u a = (False, a)" "w a = (False, a)"
  using thenAlso_stable [OF assms] by blast+

lemma value_good: "good m UNIV (\<lambda>a. updateValueState m v (s a) a)"
  by (rule good_value_of) simp

lemma passArguments_stable:
  assumes "shaped m a" "functionAt m (fn_id h) = Some h"
  shows "passArguments m h k args a = (False, a) \<Longrightarrow> n < length args \<Longrightarrow> k + n < length (fn_params h) \<Longrightarrow>
    isPointerValue m (args ! n) \<Longrightarrow> updateParamState (fn_id h) (k + n) (getValueState m a (args ! n)) a = (False, a)"
proof (induction args arbitrary: k n)
  case (Cons arg args)
  let ?u = "\<lambda>a. if isPointerValue m arg then updateParamState (fn_id h) k (getValueState m a arg) a else (False, a)"
  have k: "k < length (fn_params h)" using Cons.prems(3) by simp
  then have "thenAlso ?u (passArguments m h (Suc k) args) a = (False, a)" using Cons.prems(1) by (simp add: not_le)
  moreover have "good m UNIV ?u" by (intro good_if good_False good_param_of [OF assms(2) k] UNIV_I)
  ultimately have "?u a = (False, a)" "passArguments m h (Suc k) args a = (False, a)"
    using first_stable [OF _ assms(1)] by blast+
  then show ?case
    using Cons.prems Cons.IH [of "Suc k" "n - 1"] by (cases n) (simp_all split: if_splits)
qed simp

lemma call_stable:
  assumes "stable strip m a" "f \<in> set m" "i \<in> set (instructionsOf f)" "in_op i = OCall c args" "calls strip m c h"
  shows "in_isPointer i \<Longrightarrow> updateValueState m (selfOf f i) (getCallResultState a h) a = (False, a)"
    "\<not> fn_isDeclaration h \<Longrightarrow> passArguments m h 0 args a = (False, a)"
proof -
  obtain g where g: "getDirectCallee strip c = Some g" "functionAt m g = Some h" using assms(5) by (auto simp: calls_def)
  let ?u = "\<lambda>a. if in_isPointer i then updateValueState m (selfOf f i) (getCallResultState a h) a else (False, a)"
  have "thenAlso ?u (if \<not> fn_isDeclaration h then passArguments m h 0 args else noChange) a = (False, a)"
    using stable_visit [OF assms(1-3)] unfolding assms(4) visitOperation.simps visitCall_def g option.case .
  moreover have "good m UNIV ?u" by (intro good_if good_False value_good)
  moreover have "shaped m a" using assms(1) by (simp add: stable_def)
  ultimately have "?u a = (False, a)" "(if \<not> fn_isDeclaration h then passArguments m h 0 args else noChange) a = (False, a)"
    using first_stable by blast+
  then show "in_isPointer i \<Longrightarrow> updateValueState m (selfOf f i) (getCallResultState a h) a = (False, a)"
    "\<not> fn_isDeclaration h \<Longrightarrow> passArguments m h 0 args a = (False, a)" by simp_all
qed

lemma store_stable:
  assumes "stable strip m a" "f \<in> set m" "i \<in> set (instructionsOf f)" "in_op i = OStore v p" "isPointerValue m v"
    and "getTrackedSlot strip m p = Some s"
  shows "updateSlotState s (getValueState m a v) a = (False, a)"
proof -
  let ?w = "thenAlso (updateLocationState m p (getValueState m a v))
    (\<lambda>a. let locationState = getLocationState strip m a p in
       if hasManaged locationState then updatePointerSourceState m v locationState a else (False, a))"
  have "thenAlso (updateSlotState s (getValueState m a v)) ?w a = (False, a)"
    using stable_visit [OF assms(1-3)] assms(5,6)
    unfolding assms(4) visitOperation.simps Let_def thenAlso_def by simp
  moreover have "good m UNIV (updateSlotState s (getValueState m a v))" by (rule update_good(3)) simp
  moreover have "shaped m a" using assms(1) by (simp add: stable_def)
  ultimately show ?thesis using first_stable(1) by blast
qed

lemma store_location:
  assumes "stable strip m a" "f \<in> set m" "i \<in> set (instructionsOf f)" "in_op i = OStore v p" "isPointerValue m v"
    and "getTrackedSlot strip m p = None"
  shows "updateLocationState m p (getValueState m a v) a = (False, a)"
proof -
  let ?w = "\<lambda>a. let locationState = getLocationState strip m a p in
       if hasManaged locationState then updatePointerSourceState m v locationState a else (False, a)"
  have "thenAlso (updateLocationState m p (getValueState m a v)) ?w a = (False, a)"
    using stable_visit [OF assms(1-3)] assms(5,6)
    unfolding assms(4) visitOperation.simps Let_def thenAlso_def by simp
  moreover have "good m UNIV (updateLocationState m p (getValueState m a v))" by (rule update_good(2)) simp
  moreover have "shaped m a" using assms(1) by (simp add: stable_def)
  ultimately show ?thesis using first_stable(1) by blast
qed

lemma second_location:
  assumes "stable strip m a" "inModule m f i" "getTrackedSlot strip m (selfOf f i) = None" "bit (t a) b"
    and "visitOperation strip m (fn_id f) (selfOf f i) (in_isPointer i) (in_op i) a =
      thenAlso (\<lambda>a. updateValueState m (selfOf f i) (s a) a) (\<lambda>a. updateLocationState m (selfOf f i) (t a) a) a"
  shows "bit (getLocationState strip m a (selfOf f i)) b"
proof -
  have "thenAlso (\<lambda>a. updateValueState m (selfOf f i) (s a) a) (\<lambda>a. updateLocationState m (selfOf f i) (t a) a) a = (False, a)"
    using stable_visit [OF assms(1)] assms(2) unfolding assms(5) [symmetric] inModule_def by blast
  then have "updateLocationState m (selfOf f i) (t a) a = (False, a)"
    using first_stable(2) [OF value_good] assms(1) unfolding stable_def by blast
  then show ?thesis by (rule stable_location [OF _ self_state(1) [OF assms(1,2)] assms(3,4)])
qed

lemma two_values_stable:
  assumes "stable strip m a" "f \<in> set m" "i \<in> set (instructionsOf f)"
    and "visitOperation strip m (fn_id f) (selfOf f i) (in_isPointer i) (in_op i) a =
      thenAlso (\<lambda>a. updateValueState m (selfOf f i) (s a) a) w a"
  shows "updateValueState m (selfOf f i) (s a) a = (False, a)"
proof -
  have "thenAlso (\<lambda>a. updateValueState m (selfOf f i) (s a) a) w a = (False, a)"
    using stable_visit [OF assms(1-3)] assms(4) by simp
  then show ?thesis using first_stable(1) [OF value_good] assms(1) unfolding stable_def by blast
qed

lemma isPointerValue_arg:
  "functionAt m g = Some f \<Longrightarrow> n < length (fn_params f) \<Longrightarrow> fn_params f ! n \<Longrightarrow> isPointerValue m (VArg g n)"
  by simp

lemma calls_function: "calls strip m c h \<Longrightarrow> functionAt m (fn_id h) = Some h"
  using functionAt_Some by (fastforce simp: calls_def)

lemma call_value:
  assumes "stable strip m a" "inModule m f i" "in_op i = OCall c args" "calls strip m c h" "bit (getCallResultState a h) b"
  shows "isPointerValue m (selfOf f i) \<and> bit (getValueState m a (selfOf f i)) b"
proof -
  have "updateValueState m (selfOf f i) (getCallResultState a h) a = (False, a)"
    using call_stable(1) [OF assms(1) _ _ assms(3,4)] assms(2) by (simp add: inModule_def)
  then show ?thesis using self_gets [OF assms(1,2) _ assms(5)] self_state(1) [OF assms(1,2)] by blast
qed

lemma updated_value:
  assumes "stable strip m a" "inModule m f i" "bit (s a) b"
    and "visitOperation strip m (fn_id f) (selfOf f i) (in_isPointer i) (in_op i) a =
      thenAlso (\<lambda>a. updateValueState m (selfOf f i) (s a) a) w a"
  shows "isPointerValue m (selfOf f i) \<and> bit (getValueState m a (selfOf f i)) b"
proof -
  have "updateValueState m (selfOf f i) (s a) a = (False, a)"
    using two_values_stable [OF assms(1) _ _ assms(4)] assms(2) by (simp add: inModule_def)
  then show ?thesis using self_gets [OF assms(1,2) _ assms(3)] self_state(1) [OF assms(1,2)] by blast
qed

lemma stable_covers:
  assumes stable: "stable strip m a"
  shows "mayBe strip m v b \<Longrightarrow> isPointerValue m v \<and> bit (getValueState m a v) b"
    and "slotMayHold strip m s b \<Longrightarrow> bit (stateAt a (CSlot s)) b"
    and "locationMayHold strip m p b \<Longrightarrow> bit (getLocationState strip m a p) b"
    and "mayReturn strip m g b \<Longrightarrow> bit (stateAt a (CReturn g)) b"
proof (induct rule: mayBe_slotMayHold_locationMayHold_mayReturn.inducts)
  case null show ?case by (simp add: getValueState.simps state_bits)
next
  case (function_pointer g) show ?case by (simp add: getValueState.simps state_bits)
next
  case (global_variable s b) show ?case by (simp add: getValueState.simps state_bits)
next
  case (other_global s) show ?case by (simp add: getValueState.simps state_bits)
next
  case (alloca f i t)
  then have "updateValueState m (selfOf f i) kStateRaw a = (False, a)"
    using stable_visit [OF stable, of f i] by (simp add: inModule_def)
  then show ?case using self_gets [OF stable alloca(1)] self_state(1) [OF stable alloca(1)] by (simp add: state_bits)
next
  case (gep f i v t b)
  show ?case by (rule updated_value [OF stable gep(1), where s = "\<lambda>a. getValueState m a v"]) (use gep in simp_all)
next
  case (phi f i vs v b)
  show ?case
    by (rule updated_value [OF stable phi(1), where s = "\<lambda>a. mergeAll (getValueState m a) vs"])
      (use phi in \<open>auto simp: bit_mergeAll\<close>)
next
  case (select f i v w b)
  show ?case
    by (rule updated_value [OF stable select(1), where s = "\<lambda>a. getValueState m a v OR getValueState m a w"])
      (use select in \<open>auto simp: bit_or_iff\<close>)
next
  case (freeze f i v b)
  show ?case by (rule updated_value [OF stable freeze(1), where s = "\<lambda>a. getValueState m a v"]) (use freeze in simp_all)
next
  case (load f i p s b)
  have "updateValueState m (selfOf f i) (getLocationState strip m a p) a = (False, a)"
    using stable_visit [OF stable, of f i] load(1,2) by (simp add: inModule_def)
  moreover have "bit (getLocationState strip m a p) b"
    using load by (simp add: getLocationState_def getSlotState_def)
  ultimately show ?case using self_gets [OF stable load(1)] self_state(1) [OF stable load(1)] by blast
next
  case (load_location f i p b)
  have "updateValueState m (selfOf f i) (getLocationState strip m a p) a = (False, a)"
    using stable_visit [OF stable, of f i] load_location(1,2) by (simp add: inModule_def)
  then show ?case
    using self_gets [OF stable load_location(1)] self_state(1) [OF stable load_location(1)] load_location(4) by blast
next
  case (object_allocation f i c args h)
  show ?case by (rule call_value [OF stable object_allocation(1-3)])
    (use object_allocation(4) in \<open>auto simp: objectAllocator_def getCallResultState_def state_bits\<close>)
next
  case (array_allocation f i c args h)
  show ?case by (rule call_value [OF stable array_allocation(1-3)])
    (use array_allocation(4) in \<open>auto simp: arrayAllocator_def getCallResultState_def state_bits\<close>)
next
  case (external_call f i c args h)
  show ?case by (rule call_value [OF stable external_call(1-3)])
    (use external_call(4-) in \<open>auto simp: objectAllocator_def arrayAllocator_def getCallResultState_def state_bits\<close>)
next
  case (indirect_call f i c args)
  then have "updateValueState m (selfOf f i) kStateRaw a = (False, a)"
    using stable_visit [OF stable, of f i] by (simp add: inModule_def visitCall_def)
  then show ?case using self_gets [OF stable indirect_call(1)] self_state(1) [OF stable indirect_call(1)] by (simp add: state_bits)
next
  case (defined_call f i c args h b)
  show ?case by (rule call_value [OF stable defined_call(1-3)])
    (use defined_call(4-) in \<open>auto simp: objectAllocator_def arrayAllocator_def getCallResultState_def\<close>)
next
  case (external_argument f n)
  have s: "wellNumbered m" "shaped m a" "visitModule strip m a = (False, a)" using stable by (simp_all add: stable_def)
  have f: "functionAt m (fn_id f) = Some f" by (rule functionAt_member [OF s(1) external_argument(1)])
  show ?case
    using stable_param [OF s(2) f external_argument(2) stable_params [OF s external_argument]]
      isPointerValue_arg [OF f external_argument(2,3)] getValueState_param [OF s(2) f external_argument(2,3)]
    by (simp add: state_bits)
next
  case (argument f i c args h n b)
  have s: "shaped m a" using stable by (simp add: stable_def)
  have h: "functionAt m (fn_id h) = Some h" by (rule calls_function [OF argument(4)])
  have "passArguments m h 0 args a = (False, a)" by (rule call_stable(2) [OF stable argument(1-5)])
  then have "updateParamState (fn_id h) n (getValueState m a (args ! n)) a = (False, a)"
    using passArguments_stable [OF s h, of 0 args n] argument(6-9) by simp
  then show ?case
    using stable_param [OF s h argument(7)] argument(11) isPointerValue_arg [OF h argument(7,8)]
      getValueState_param [OF s h argument(7,8)] by simp
next
  case (stored f i v p s b)
  show ?case by (rule stable_slot [OF store_stable [OF stable stored(1-5)]]) (use stored(7) in blast)
next
  case (slot_location p s b)
  then show ?case by (simp add: getLocationState_def getSlotState_def)
next
  case (stored_location f i v p b)
  show ?case
    by (rule stable_location [OF store_location [OF stable stored_location(1-4,6)]])
      (use stored_location(5,6,8) in simp_all)
next
  case (phi_location f i vs v b)
  show ?case
    by (rule second_location [OF stable phi_location(1), where t = "\<lambda>a. mergeAll (getLocationState strip m a) vs"])
      (use phi_location in \<open>auto simp: bit_mergeAll\<close>)
next
  case (select_location f i v w b)
  show ?case
    by (rule second_location [OF stable select_location(1),
          where t = "\<lambda>a. getLocationState strip m a v OR getLocationState strip m a w"])
      (use select_location in \<open>auto simp: bit_or_iff\<close>)
next
  case (freeze_location f i v b)
  show ?case
    by (rule second_location [OF stable freeze_location(1), where t = "\<lambda>a. getLocationState strip m a v"])
      (use freeze_location in simp_all)
next
  case (returned f i v b)
  have "updateReturnState (fn_id f) (getValueState m a v) a = (False, a)"
    using stable_visit [OF stable returned(1,2)] returned(3,4) by simp
  then show ?case using stable_return returned(6) by blast
qed

end
