(* ===== verification/Managed_State_Properties.thy ===== *)
theory Managed_State_Properties
  imports Managed_Flow
begin

text \<open>
  The properties of the managed state analysis.
\<close>

text \<open>C18. The analysis of every module returns: its loop ends, and in a state that no visit of any
  instruction changes.\<close>

theorem analysis_reaches_fixpoint:
  assumes "wellNumbered m"
  shows "\<exists>a. analyse strip m = Some a \<and>
    list_all (\<lambda>f. list_all (\<lambda>i. visitInstruction strip m f i a = (False, a)) (instructionsOf f)) m"
proof -
  obtain a where a: "analyse strip m = Some a" "okAnalysis strip m a" "visitModule strip m a = (False, a)"
    by (rule analyse_ends [OF assms])
  have "visitInstruction strip m f i a = (False, a)" if "f \<in> set m" "i \<in> set (instructionsOf f)" for f i
    using stable_instruction [OF assms _ a(3) that] a(2) by (simp add: okAnalysis_def)
  then show ?thesis using a(1) by (auto simp: list_all_iff)
qed

text \<open>A module that allocates an object, keeps it in a stack slot and returns it.\<close>

definition exampleMalloc :: ir_function where
  "exampleMalloc = \<lparr>fn_id = 0, fn_name = ''__mvm_malloc'', fn_isDeclaration = True, fn_hasAddressTaken = False,
     fn_isVarArg = False, fn_params = [], fn_returnsPointer = True, fn_blocks = []\<rparr>"

definition exampleMain :: ir_function where
  "exampleMain = \<lparr>fn_id = 1, fn_name = ''main'', fn_isDeclaration = False, fn_hasAddressTaken = False,
     fn_isVarArg = False, fn_params = [], fn_returnsPointer = True, fn_blocks =
       [[\<lparr>in_id = 0, in_isPointer = True, in_op = OAlloca True\<rparr>,
         \<lparr>in_id = 1, in_isPointer = True, in_op = OCall (VFunc 0) []\<rparr>,
         \<lparr>in_id = 2, in_isPointer = False, in_op = OStore (VInst 1 1) (VInst 1 0)\<rparr>,
         \<lparr>in_id = 3, in_isPointer = True, in_op = OLoad (VInst 1 0)\<rparr>,
         \<lparr>in_id = 4, in_isPointer = False, in_op = ORet (Some (VInst 1 3))\<rparr>]]\<rparr>"

definition exampleModule :: ir_module where
  "exampleModule = [exampleMalloc, exampleMain]"

lemma exampleModule_numbered: "wellNumbered exampleModule"
  by (simp add: wellNumbered_def exampleModule_def exampleMalloc_def exampleMain_def instructionsOf_def)

theorem analysis_reaches_fixpoint_witness: "\<exists>a. analyse id exampleModule = Some a"
  using analysis_reaches_fixpoint [OF exampleModule_numbered, of id] by blast




text \<open>The text of a state determines it: two of the sixteen states are never written the same way.\<close>

theorem rendered_states_differ:
  assumes "s < 16" "t < 16" "renderState s = renderState t"
  shows "s = t"
proof -
  have d: "distinct (map renderState (map of_nat [0 ..< 16]))" by code_simp
  have of: "of_nat (unat x) = x" "unat x < 16" if "x < 16" for x :: PointerState
    using that by (simp_all add: word_less_nat_alt)
  have nth: "map renderState (map of_nat [0 ..< 16]) ! unat x = renderState x" if "x < 16" for x
    using of [OF that] by (simp del: upt_Suc)
  have "unat s = unat t"
    using d nth [OF assms(1)] nth [OF assms(2)] assms(3) of(2) [OF assms(1)] of(2) [OF assms(2)]
    by (simp del: upt_Suc add: nth_eq_iff_index_eq [symmetric])
  then show ?thesis by (simp add: word_unat_eq_iff)
qed

theorem rendered_states_differ_witness: "renderState 4 \<noteq> renderState 8"
  using rendered_states_differ [of 4 8] by auto

end
