(* ===== verification/GC_Leaf.thy ===== *)
theory GC_Leaf
  imports LLVM_IR Iteration
begin

text \<open>
  Which functions can do without safepoints: the leaf inference of \<open>src/src/mvm/gc.cc\<close>.  The
  attributes the passes set on functions are kept beside the module, in an \<open>attribute_store\<close>.  Whether
  LLVM's loop analysis finds a loop in a function is the parameter \<open>hasLoops\<close>.
\<close>

section \<open>Attributes and calls\<close>

record attribute_store =
  as_gcLeaf :: "nat set"
  as_gc :: "nat \<rightharpoonup> string"
  as_framePointerAll :: "nat set"
  as_noInline :: "nat set"

definition isIntrinsic :: "ir_function \<Rightarrow> bool" where
  "isIntrinsic f \<longleftrightarrow> take 5 (fn_name f) = ''llvm.''"

definition kManagedGCStrategy :: string where
  "kManagedGCStrategy = ''statepoint-example''"

definition kRuntimeSafepointPollSymbol :: string where
  "kRuntimeSafepointPollSymbol = ''__mvm_gc_safepoint_poll''"

definition isExplicitRuntimeSafepointFunctionName :: "string \<Rightarrow> bool" where
  "isExplicitRuntimeSafepointFunctionName name \<longleftrightarrow>
     name = kRuntimeSafepointPollSymbol \<or> name = ''__mvm_request_gc''"

definition isKnownRuntimeGCLeafFunctionName :: "string \<Rightarrow> bool" where
  "isKnownRuntimeGCLeafFunctionName name \<longleftrightarrow>
     name = ''__mvm_malloc'' \<or> name = ''__mvm_malloc_typed'' \<or>
     name = ''__mvm_array_malloc'' \<or> name = ''__mvm_array_malloc_typed'' \<or>
     name = ''__mvm_array_length''"

definition isRuntimeAllocationFunctionName :: "string \<Rightarrow> bool" where
  "isRuntimeAllocationFunctionName name \<longleftrightarrow>
     name = ''__mvm_malloc'' \<or> name = ''__mvm_malloc_typed'' \<or>
     name = ''__mvm_array_malloc'' \<or> name = ''__mvm_array_malloc_typed''"

text \<open>\<open>CallBase::getCalledFunction\<close>: the callee of a direct call, which has the type of the call in the
  modules the front end produces; nothing for an indirect call or inline assembly.\<close>

definition getCalledFunction :: "ir_module \<Rightarrow> val \<Rightarrow> ir_function option" where
  "getCalledFunction m callee = (case callee of VFunc g \<Rightarrow> functionAt m g | _ \<Rightarrow> None)"

definition isRuntimeAllocationCall :: "ir_module \<Rightarrow> instruction \<Rightarrow> bool" where
  "isRuntimeAllocationCall m i =
     (case in_op i of
        OCall callee args \<Rightarrow>
          (case getCalledFunction m callee of
             Some f \<Rightarrow> isRuntimeAllocationFunctionName (fn_name f)
           | None \<Rightarrow> False)
      | _ \<Rightarrow> False)"

definition functionHasLoop :: "(ir_function \<Rightarrow> bool) \<Rightarrow> ir_function \<Rightarrow> bool" where
  "functionHasLoop hasLoops f \<longleftrightarrow> fn_blocks f \<noteq> [] \<and> hasLoops f"

text \<open>\<open>leafFunctions\<close> is the set the inference keeps beside the attributes.\<close>

definition callCanRemainLeaf :: "ir_module \<Rightarrow> nat set \<Rightarrow> nat set \<Rightarrow> val \<Rightarrow> bool" where
  "callCanRemainLeaf m leafAttribute leafFunctions callee =
     (case getCalledFunction m callee of
        None \<Rightarrow> False
      | Some f \<Rightarrow>
          if isIntrinsic f then True
          else if isExplicitRuntimeSafepointFunctionName (fn_name f) then False
          else fn_id f \<in> leafAttribute \<or> fn_id f \<in> leafFunctions)"

section \<open>The inference\<close>

definition markKnownRuntimeGCLeafFunctions :: "ir_module \<Rightarrow> attribute_store \<Rightarrow> attribute_store" where
  "markKnownRuntimeGCLeafFunctions m at = fold (\<lambda>f at.
     if isKnownRuntimeGCLeafFunctionName (fn_name f) then at\<lparr>as_gcLeaf := insert (fn_id f) (as_gcLeaf at)\<rparr> else at) m at"

record leaf_state =
  ls_attributes :: attribute_store
  ls_leafFunctions :: "nat set"

definition canRemainLeaf :: "ir_module \<Rightarrow> leaf_state \<Rightarrow> ir_function \<Rightarrow> bool" where
  "canRemainLeaf m s f = list_all (\<lambda>i.
     (case in_op i of
        OCall callee args \<Rightarrow>
          if isRuntimeAllocationCall m i then False
          else callCanRemainLeaf m (as_gcLeaf (ls_attributes s)) (ls_leafFunctions s) callee
      | _ \<Rightarrow> True)) (instructionsOf f)"

text \<open>One round over the functions, with the flag \<open>changed\<close>.\<close>

fun leafRound :: "(ir_function \<Rightarrow> bool) \<Rightarrow> ir_module \<Rightarrow> ir_function list \<Rightarrow> bool \<Rightarrow> leaf_state \<Rightarrow> bool \<times> leaf_state" where
  "leafRound hasLoops m [] changed s = (changed, s)"
| "leafRound hasLoops m (f # rest) changed s =
     (if fn_isDeclaration f \<or> isIntrinsic f \<or> fn_id f \<in> as_gcLeaf (ls_attributes s) then leafRound hasLoops m rest changed s
      else if functionHasLoop hasLoops f then leafRound hasLoops m rest changed s
      else if \<not> canRemainLeaf m s f then leafRound hasLoops m rest changed s
      else leafRound hasLoops m rest True
        (s\<lparr>ls_attributes := (ls_attributes s)\<lparr>as_gcLeaf := insert (fn_id f) (as_gcLeaf (ls_attributes s))\<rparr>,
           ls_leafFunctions := insert (fn_id f) (ls_leafFunctions s)\<rparr>))"

definition leafStart :: "ir_module \<Rightarrow> attribute_store \<Rightarrow> leaf_state" where
  "leafStart m at =
     (let at = markKnownRuntimeGCLeafFunctions m at
      in \<lparr>ls_attributes = at, ls_leafFunctions = {g \<in> set (map fn_id m). g \<in> as_gcLeaf at}\<rparr>)"

definition inferManagedGCLeafFunctions ::
  "(ir_function \<Rightarrow> bool) \<Rightarrow> ir_module \<Rightarrow> attribute_store \<Rightarrow> attribute_store option" where
  "inferManagedGCLeafFunctions hasLoops m at =
     map_option ls_attributes (doWhileChanged (leafRound hasLoops m m False) (leafStart m at))"

section \<open>What the inference promises\<close>

text \<open>A function needs no safepoint when it has no loop and calls only intrinsics, functions that were
  declared leaves, and functions that need none: so its calls end, without a collection, whatever path
  they take.\<close>

inductive needsNoSafepoint :: "(ir_function \<Rightarrow> bool) \<Rightarrow> ir_module \<Rightarrow> nat set \<Rightarrow> nat \<Rightarrow> bool"
  for hasLoops m declared where
  declared: "g \<in> declared \<Longrightarrow> needsNoSafepoint hasLoops m declared g"
| body: "f \<in> set m \<Longrightarrow> \<not> fn_isDeclaration f \<Longrightarrow> \<not> isIntrinsic f \<Longrightarrow> \<not> functionHasLoop hasLoops f \<Longrightarrow>
    (\<And>i callee args. i \<in> set (instructionsOf f) \<Longrightarrow> in_op i = OCall callee args \<Longrightarrow>
      \<not> isRuntimeAllocationCall m i \<and>
      (\<exists>h. getCalledFunction m callee = Some h \<and>
         (isIntrinsic h \<or> \<not> isExplicitRuntimeSafepointFunctionName (fn_name h) \<and> needsNoSafepoint hasLoops m declared (fn_id h)))) \<Longrightarrow>
    needsNoSafepoint hasLoops m declared (fn_id f)"

inductive_cases needsNoSafepointE: "needsNoSafepoint hasLoops m declared g"

section \<open>The rounds as an inflationary step\<close>

definition leafOk :: "ir_module \<Rightarrow> nat set \<Rightarrow> leaf_state \<Rightarrow> bool" where
  "leafOk m declared s \<longleftrightarrow> as_gcLeaf (ls_attributes s) \<subseteq> fn_id ` set m \<union> declared \<and> declared \<subseteq> as_gcLeaf (ls_attributes s) \<and>
     ls_leafFunctions s = as_gcLeaf (ls_attributes s) \<inter> fn_id ` set m"

lemma callCanRemainLeaf_iff:
  "callCanRemainLeaf m leafAttribute leafFunctions callee \<longleftrightarrow>
     (\<exists>h. getCalledFunction m callee = Some h \<and>
        (isIntrinsic h \<or> \<not> isExplicitRuntimeSafepointFunctionName (fn_name h) \<and> (fn_id h \<in> leafAttribute \<or> fn_id h \<in> leafFunctions)))"
  by (auto simp: callCanRemainLeaf_def split: option.split)

lemma canRemainLeaf_iff:
  "canRemainLeaf m s f \<longleftrightarrow> (\<forall>i \<in> set (instructionsOf f). \<forall>callee args. in_op i = OCall callee args \<longrightarrow>
      \<not> isRuntimeAllocationCall m i \<and>
      (\<exists>h. getCalledFunction m callee = Some h \<and>
         (isIntrinsic h \<or> \<not> isExplicitRuntimeSafepointFunctionName (fn_name h) \<and>
           (fn_id h \<in> as_gcLeaf (ls_attributes s) \<or> fn_id h \<in> ls_leafFunctions s))))"
proof -
  have "(case p of OCall callee args \<Rightarrow> if a then False else P callee | _ \<Rightarrow> True) \<longleftrightarrow>
      (\<forall>callee args. p = OCall callee args \<longrightarrow> \<not> a \<and> P callee)" for p a P
    by (cases p) auto
  then show ?thesis by (simp add: canRemainLeaf_def list_all_iff callCanRemainLeaf_iff)
qed

lemma leafRound_facts:
  assumes "set fs \<subseteq> set m" "leafOk m declared s"
  shows "leafOk m declared (snd (leafRound hasLoops m fs changed s)) \<and>
    as_gcLeaf (ls_attributes s) \<subseteq> as_gcLeaf (ls_attributes (snd (leafRound hasLoops m fs changed s))) \<and>
    (fst (leafRound hasLoops m fs changed s) \<longleftrightarrow> changed \<or>
       as_gcLeaf (ls_attributes (snd (leafRound hasLoops m fs changed s))) \<noteq> as_gcLeaf (ls_attributes s)) \<and>
    (fst (leafRound hasLoops m fs changed s) \<or> snd (leafRound hasLoops m fs changed s) = s)"
  using assms
proof (induction fs arbitrary: changed s)
  case Nil then show ?case by simp
next
  case (Cons f fs)
  let ?s = "s\<lparr>ls_attributes := (ls_attributes s)\<lparr>as_gcLeaf := insert (fn_id f) (as_gcLeaf (ls_attributes s))\<rparr>,
           ls_leafFunctions := insert (fn_id f) (ls_leafFunctions s)\<rparr>"
  have fs: "set fs \<subseteq> set m" "f \<in> set m" using Cons.prems(1) by auto
  have ok: "leafOk m declared ?s" using Cons.prems(2) fs(2) by (auto simp: leafOk_def)
  show ?case
    using Cons.IH [OF fs(1) Cons.prems(2), of changed] Cons.IH [OF fs(1) ok, of True] by (auto split: if_splits)
qed

lemma leafRound_other_attributes:
  "(ls_attributes (snd (leafRound hasLoops m fs changed s)))\<lparr>as_gcLeaf := A\<rparr> = (ls_attributes s)\<lparr>as_gcLeaf := A\<rparr>"
  by (induction fs arbitrary: changed s) simp_all

interpretation leafRun: inflationary "leafRound hasLoops m m False" "\<lambda>s. as_gcLeaf (ls_attributes s) - declared" "leafOk m declared" "fn_id ` set m" for hasLoops m declared
proof (unfold_locales, goal_cases)
  case 1 show ?case by simp
next
  case (2 s) then show ?case by (auto simp: leafOk_def)
next
  case (3 s) then show ?case using leafRound_facts [of m m declared s] by simp
next
  case (4 s) then show ?case using leafRound_facts [of m m declared s hasLoops False] by blast
next
  case (5 s)
  have sub: "declared \<subseteq> as_gcLeaf (ls_attributes s)" using 5 by (simp add: leafOk_def)
  have "as_gcLeaf (ls_attributes (snd (leafRound hasLoops m m False s))) \<noteq> as_gcLeaf (ls_attributes s)"
    "as_gcLeaf (ls_attributes s) \<subseteq> as_gcLeaf (ls_attributes (snd (leafRound hasLoops m m False s)))"
    using leafRound_facts [of m m declared s hasLoops False] 5 by simp_all
  then show ?case using sub by blast
next
  case (6 s) then show ?case using leafRound_facts [of m m declared s hasLoops False] by blast
qed

lemma leafRound_stable:
  assumes "fst (leafRound hasLoops m fs changed s) = False"
  shows "list_all (\<lambda>f. fn_isDeclaration f \<or> isIntrinsic f \<or> fn_id f \<in> as_gcLeaf (ls_attributes s) \<or>
    functionHasLoop hasLoops f \<or> \<not> canRemainLeaf m s f) fs"
proof -
  have changed: "fst (leafRound hasLoops m fs True s)" for fs s by (induction fs arbitrary: s) simp_all
  show ?thesis using assms by (induction fs arbitrary: changed s) (auto simp: changed split: if_splits)
qed

lemma leafRound_sound:
  assumes "set fs \<subseteq> set m" "as_gcLeaf (ls_attributes s) \<subseteq> Collect (needsNoSafepoint hasLoops m declared)"
    and "ls_leafFunctions s \<subseteq> as_gcLeaf (ls_attributes s)"
  shows "as_gcLeaf (ls_attributes (snd (leafRound hasLoops m fs changed s))) \<subseteq> Collect (needsNoSafepoint hasLoops m declared)"
  using assms
proof (induction fs arbitrary: changed s)
  case Nil then show ?case by simp
next
  case (Cons f fs)
  let ?s = "s\<lparr>ls_attributes := (ls_attributes s)\<lparr>as_gcLeaf := insert (fn_id f) (as_gcLeaf (ls_attributes s))\<rparr>,
           ls_leafFunctions := insert (fn_id f) (ls_leafFunctions s)\<rparr>"
  have fs: "set fs \<subseteq> set m" "f \<in> set m" using Cons.prems(1) by auto
  show ?case
  proof (cases "fn_isDeclaration f \<or> isIntrinsic f \<or> fn_id f \<in> as_gcLeaf (ls_attributes s) \<or> functionHasLoop hasLoops f \<or> \<not> canRemainLeaf m s f")
    case True
    then show ?thesis using Cons.IH [OF fs(1) Cons.prems(2,3)] by auto
  next
    case False
    then have "needsNoSafepoint hasLoops m declared (fn_id f)"
      using Cons.prems(2,3) fs(2) unfolding canRemainLeaf_iff by (intro needsNoSafepoint.body) blast+
    then have "as_gcLeaf (ls_attributes ?s) \<subseteq> Collect (needsNoSafepoint hasLoops m declared)" "ls_leafFunctions ?s \<subseteq> as_gcLeaf (ls_attributes ?s)"
      using Cons.prems(2,3) by auto
    from Cons.IH [OF fs(1) this] show ?thesis using False by simp
  qed
qed

lemma known_leaves:
  "as_gcLeaf (markKnownRuntimeGCLeafFunctions m at) =
     as_gcLeaf at \<union> {fn_id f | f. f \<in> set m \<and> isKnownRuntimeGCLeafFunctionName (fn_name f)}"
  unfolding markKnownRuntimeGCLeafFunctions_def by (induction m arbitrary: at) auto

lemma known_leaves_other: "(markKnownRuntimeGCLeafFunctions m at)\<lparr>as_gcLeaf := A\<rparr> = at\<lparr>as_gcLeaf := A\<rparr>"
  unfolding markKnownRuntimeGCLeafFunctions_def by (induction m arbitrary: at) simp_all

text \<open>Functions that were leaves before: by attribute, or by being a known runtime function.\<close>

definition declaredLeaves :: "ir_module \<Rightarrow> attribute_store \<Rightarrow> nat set" where
  "declaredLeaves m at = as_gcLeaf at \<union> {fn_id f | f. f \<in> set m \<and> isKnownRuntimeGCLeafFunctionName (fn_name f)}"

lemma leafStart_ok: "leafOk m (declaredLeaves m at) (leafStart m at)"
  by (auto simp: leafOk_def leafStart_def Let_def known_leaves declaredLeaves_def)

lemma infer_exact:
  obtains at' where "inferManagedGCLeafFunctions hasLoops m at = Some at'"
    "as_gcLeaf at' = Collect (needsNoSafepoint hasLoops m (declaredLeaves m at))" "at'\<lparr>as_gcLeaf := A\<rparr> = at\<lparr>as_gcLeaf := A\<rparr>"
proof -
  let ?D = "declaredLeaves m at" and ?round = "leafRound hasLoops m m False"
  obtain s where s: "doWhileChanged ?round (leafStart m at) = Some s" "leafOk m ?D s" "?round s = (False, s)"
    using leafRun.terminates [OF leafStart_ok] by blast
  have "as_gcLeaf (ls_attributes s) \<subseteq> Collect (needsNoSafepoint hasLoops m ?D)"
  proof (rule leafRun.invariant_at_end [OF s(1) leafStart_ok, where P = "\<lambda>s. as_gcLeaf (ls_attributes s) \<subseteq> Collect (needsNoSafepoint hasLoops m ?D)"], goal_cases)
    case 1 then show ?case by (auto simp: leafStart_def Let_def known_leaves declaredLeaves_def intro: needsNoSafepoint.declared)
  next
    case (2 t) then show ?case by (intro leafRound_sound) (auto simp: leafOk_def)
  qed
  moreover have "g \<in> as_gcLeaf (ls_attributes s)" if "needsNoSafepoint hasLoops m ?D g" for g
    using that
  proof induction
    case (declared g) then show ?case using s(2) by (auto simp: leafOk_def)
  next
    case (body f)
    have "canRemainLeaf m s f" using body.IH unfolding canRemainLeaf_iff by blast
    moreover have "fn_isDeclaration f \<or> isIntrinsic f \<or> fn_id f \<in> as_gcLeaf (ls_attributes s) \<or> functionHasLoop hasLoops f \<or> \<not> canRemainLeaf m s f"
      using leafRound_stable [of hasLoops m m False s] s(3) body.hyps(1) by (auto simp: list_all_iff)
    ultimately show ?case using body.hyps by blast
  qed
  ultimately have eq: "as_gcLeaf (ls_attributes s) = Collect (needsNoSafepoint hasLoops m ?D)" by blast
  have "(ls_attributes s)\<lparr>as_gcLeaf := A\<rparr> = at\<lparr>as_gcLeaf := A\<rparr>"
  proof (rule leafRun.invariant_at_end [OF s(1) leafStart_ok, where P = "\<lambda>s. (ls_attributes s)\<lparr>as_gcLeaf := A\<rparr> = at\<lparr>as_gcLeaf := A\<rparr>"], goal_cases)
    case 1 show ?case by (simp add: leafStart_def Let_def known_leaves_other)
  next
    case (2 t) then show ?case by (simp add: leafRound_other_attributes)
  qed
  with eq that [of "ls_attributes s"] s(1) show thesis by (simp add: inferManagedGCLeafFunctions_def)
qed

end
