(* ===== verification/GC_Polls.thy ===== *)
theory GC_Polls
  imports GC_Leaf "HOL-Library.Multiset"
begin

text \<open>
  The preparation of a module and the insertion of safepoint polls: \<open>prepareManagedGCModule\<close> and
  \<open>insertManagedSafepointPolls\<close> of \<open>src/src/mvm/gc.cc\<close>.  The loop forest that LLVM's \<open>LoopInfo\<close> finds in
  the function of a number is the parameter \<open>loopsOf\<close> (the calls inserted do not change it), a latch
  named by its block's number, and the order in which the
  pointer set of latches is enumerated is the parameter \<open>pointerOrder\<close>.
\<close>

section \<open>Modules with their attributes and metadata\<close>

record ModuleGCMetadata =
  mm_strategy :: string
  mm_managedFunctionCount :: "32 word"
  mm_statepointCount :: "32 word"
  mm_relocateCount :: "32 word"
  mm_safepointPollCount :: "32 word"

record FunctionGCMetadata =
  fm_function :: nat
  fm_statepointCount :: "32 word"
  fm_relocateCount :: "32 word"
  fm_maxLiveRoots :: "32 word"

record gc_module =
  gm_functions :: ir_module
  gm_attributes :: attribute_store
  gm_moduleMetadata :: "ModuleGCMetadata list option"
  gm_functionMetadata :: "FunctionGCMetadata list option"

definition shouldAttachManagedGC :: "attribute_store \<Rightarrow> ir_function \<Rightarrow> bool" where
  "shouldAttachManagedGC at f =
     (if fn_isDeclaration f \<or> isIntrinsic f then False else fn_id f \<notin> as_gcLeaf at)"

definition isManagedGCFunction :: "attribute_store \<Rightarrow> ir_function \<Rightarrow> bool" where
  "isManagedGCFunction at f \<longleftrightarrow> \<not> fn_isDeclaration f \<and> as_gc at (fn_id f) = Some kManagedGCStrategy"

definition clearGCMetadata :: "gc_module \<Rightarrow> gc_module" where
  "clearGCMetadata M = M\<lparr>gm_moduleMetadata := None, gm_functionMetadata := None\<rparr>"

text \<open>\<open>Module::getOrInsertFunction\<close>: the function of that name, or a new declaration at the end.\<close>

definition getOrInsertPoll :: "ir_module \<Rightarrow> nat \<times> ir_module" where
  "getOrInsertPoll m =
     (case List.find (\<lambda>f. fn_name f = kRuntimeSafepointPollSymbol) m of
        Some f \<Rightarrow> (fn_id f, m)
      | None \<Rightarrow> (freshFunction m, m @ [\<lparr>fn_id = freshFunction m, fn_name = kRuntimeSafepointPollSymbol,
          fn_isDeclaration = True, fn_hasAddressTaken = False, fn_isVarArg = False, fn_params = [False],
          fn_returnsPointer = False, fn_blocks = []\<rparr>]))"

text \<open>The loop that attaches the strategy, with the flag \<open>hasManagedFunctions\<close>.\<close>

fun attachManagedGC :: "ir_module \<Rightarrow> bool \<Rightarrow> attribute_store \<Rightarrow> bool \<times> attribute_store" where
  "attachManagedGC [] hasManaged at = (hasManaged, at)"
| "attachManagedGC (f # rest) hasManaged at =
     (if \<not> shouldAttachManagedGC at f then attachManagedGC rest hasManaged at
      else attachManagedGC rest True
        (at\<lparr>as_gc := (as_gc at)(fn_id f \<mapsto> kManagedGCStrategy),
            as_framePointerAll := insert (fn_id f) (as_framePointerAll at)\<rparr>))"

definition prepareManagedGCModule :: "(ir_function \<Rightarrow> bool) \<Rightarrow> gc_module \<Rightarrow> gc_module option" where
  "prepareManagedGCModule hasLoops M =
     (case inferManagedGCLeafFunctions hasLoops (gm_functions M) (gm_attributes M) of
        None \<Rightarrow> None
      | Some at \<Rightarrow>
          (let (hasManaged, at) = attachManagedGC (gm_functions M) False at;
               M = clearGCMetadata (M\<lparr>gm_attributes := at\<rparr>)
           in if \<not> hasManaged then Some M
              else let (poll, m) = getOrInsertPoll (gm_functions M)
                   in Some (M\<lparr>gm_functions := m, gm_attributes := at\<lparr>as_noInline := insert poll (as_noInline at),
                        as_framePointerAll := insert poll (as_framePointerAll at)\<rparr>\<rparr>)))"

section \<open>Instructions and their neighbours\<close>

definition isDirectSafepointPollCall :: "ir_module \<Rightarrow> instruction \<Rightarrow> bool" where
  "isDirectSafepointPollCall m i =
     (case in_op i of
        OCall callee args \<Rightarrow>
          (case getCalledFunction m callee of
             Some f \<Rightarrow> fn_name f = kRuntimeSafepointPollSymbol
           | None \<Rightarrow> False)
      | _ \<Rightarrow> False)"

text \<open>\<open>getNextNode\<close> stays within the block.\<close>

fun nextInBlock :: "nat \<Rightarrow> instruction list \<Rightarrow> instruction option" where
  "nextInBlock c (x # y # rest) = (if in_id x = c then Some y else nextInBlock c (y # rest))"
| "nextInBlock c _ = None"

fun getNextNode :: "nat \<Rightarrow> instruction list list \<Rightarrow> instruction option" where
  "getNextNode c [] = None"
| "getNextNode c (b # bs) = (if c \<in> in_id ` set b then nextInBlock c b else getNextNode c bs)"

fun insertBefore :: "nat \<Rightarrow> instruction \<Rightarrow> instruction list \<Rightarrow> instruction list" where
  "insertBefore n p [] = []"
| "insertBefore n p (x # rest) = (if in_id x = n then p # x # rest else x # insertBefore n p rest)"

definition freshInstruction :: "ir_function \<Rightarrow> nat" where
  "freshInstruction f = Suc (fold max (map in_id (instructionsOf f)) 0)"

definition insertManagedSafepointPoll :: "nat \<Rightarrow> ir_function \<Rightarrow> nat \<Rightarrow> u64 \<Rightarrow> ir_function" where
  "insertManagedSafepointPoll before f poll statepointID =
     f\<lparr>fn_blocks := map (insertBefore before \<lparr>in_id = freshInstruction f, in_isPointer = False,
         in_op = OCall (VFunc poll) [VInt 64 (unat statepointID)]\<rparr>) (fn_blocks f)\<rparr>"

section \<open>Loops\<close>

datatype loop = Loop (loopLatches: "nat list") (subLoops: "loop list")

text \<open>The worklist is a vector whose last element is taken; here it is the head.\<close>

function collectLatches :: "loop list \<Rightarrow> nat set \<Rightarrow> nat set" where
  "collectLatches [] latchBlocks = latchBlocks"
| "collectLatches (l # worklist) latchBlocks =
     collectLatches (rev (subLoops l) @ worklist) (latchBlocks \<union> set (loopLatches l))"
  by pat_completeness auto
termination
proof (relation "measure (\<lambda>(ls, _). sum_list (map size ls))", simp, goal_cases)
  case (1 l worklist latchBlocks)
  have "sum_list (map size (subLoops l)) < size l" by (cases l) (simp add: size_list_conv_sum_list)
  then show ?case by (simp add: rev_map [symmetric])
qed

section \<open>The insertion of polls\<close>

definition kFirstMVMStatepointID :: u64 where
  "kFirstMVMStatepointID = 1"

definition pollAfterAllocation :: "ir_module \<Rightarrow> nat \<Rightarrow> nat \<Rightarrow> ir_function \<times> u64 \<Rightarrow> ir_function \<times> u64" where
  "pollAfterAllocation m poll call =
     (\<lambda>(f, nextStatepointID).
        case getNextNode call (fn_blocks f) of
          None \<Rightarrow> (f, nextStatepointID)
        | Some n \<Rightarrow> if isDirectSafepointPollCall m n then (f, nextStatepointID)
                     else (insertManagedSafepointPoll (in_id n) f poll nextStatepointID, nextStatepointID + 1))"

definition getTerminator :: "instruction list \<Rightarrow> instruction option" where
  "getTerminator b = (if b = [] then None else Some (last b))"

definition pollBeforeLatch :: "nat \<Rightarrow> nat \<Rightarrow> ir_function \<times> u64 \<Rightarrow> ir_function \<times> u64" where
  "pollBeforeLatch poll latch =
     (\<lambda>(f, nextStatepointID).
        if latch \<ge> length (fn_blocks f) then (f, nextStatepointID)
        else case getTerminator (fn_blocks f ! latch) of
          None \<Rightarrow> (f, nextStatepointID)
        | Some t \<Rightarrow> (insertManagedSafepointPoll (in_id t) f poll nextStatepointID, nextStatepointID + 1))"

definition insertFunctionPolls ::
  "(nat \<Rightarrow> loop list) \<Rightarrow> (nat set \<Rightarrow> nat list) \<Rightarrow> ir_module \<Rightarrow> nat \<Rightarrow> ir_function \<times> u64 \<Rightarrow> ir_function \<times> u64" where
  "insertFunctionPolls loopsOf pointerOrder m poll =
     (\<lambda>(f, nextStatepointID).
        let allocationCalls = map in_id (filter (isRuntimeAllocationCall m) (instructionsOf f));
            (f, nextStatepointID) = fold (pollAfterAllocation m poll) allocationCalls (f, nextStatepointID);
            latchBlocks = collectLatches (rev (loopsOf (fn_id f))) {}
        in fold (pollBeforeLatch poll) (pointerOrder latchBlocks) (f, nextStatepointID))"

fun insertModulePolls ::
  "(nat \<Rightarrow> loop list) \<Rightarrow> (nat set \<Rightarrow> nat list) \<Rightarrow> ir_module \<Rightarrow> attribute_store \<Rightarrow> nat \<Rightarrow> ir_function list \<Rightarrow> u64 \<Rightarrow> ir_function list" where
  "insertModulePolls loopsOf pointerOrder m at poll [] nextStatepointID = []"
| "insertModulePolls loopsOf pointerOrder m at poll (f # rest) nextStatepointID =
     (if \<not> isManagedGCFunction at f \<or> fn_blocks f = [] then f # insertModulePolls loopsOf pointerOrder m at poll rest nextStatepointID
      else let (f, nextStatepointID) = insertFunctionPolls loopsOf pointerOrder m poll (f, nextStatepointID)
           in f # insertModulePolls loopsOf pointerOrder m at poll rest nextStatepointID)"

definition insertManagedSafepointPolls ::
  "(nat \<Rightarrow> loop list) \<Rightarrow> (nat set \<Rightarrow> nat list) \<Rightarrow> gc_module \<Rightarrow> gc_module" where
  "insertManagedSafepointPolls loopsOf pointerOrder M =
     (let (poll, m) = getOrInsertPoll (gm_functions M)
      in M\<lparr>gm_functions := insertModulePolls loopsOf pointerOrder m (gm_attributes M) poll m kFirstMVMStatepointID\<rparr>)"

end
