(* ===== verification/GC_Poll_Facts.thy ===== *)
theory GC_Poll_Facts
  imports GC_Polls
begin

text \<open>
  What the insertion of polls does to a block, a function and a module: only polls are added, their
  identifiers are consecutive, and every allocation call and every latch gets its poll.
\<close>

section \<open>Insertion into a block\<close>

lemma insertBefore_absent [simp]: "n \<notin> in_id ` set b \<Longrightarrow> insertBefore n p b = b"
  by (induction b) auto

lemma insertBefore_split:
  assumes "n \<in> in_id ` set b"
  obtains pre x suf where "b = pre @ x # suf" "in_id x = n" "insertBefore n p b = pre @ p # x # suf"
  using assms
proof (induction b arbitrary: thesis)
  case (Cons y b)
  show ?case
  proof (cases "in_id y = n")
    case True then show ?thesis using Cons.prems(1) [of "[]" y b] by simp
  next
    case False
    then obtain pre x suf where "b = pre @ x # suf" "in_id x = n" "insertBefore n p b = pre @ p # x # suf"
      using Cons.IH Cons.prems(2) by auto
    then show ?thesis using Cons.prems(1) [of "y # pre" x suf] False by simp
  qed
qed simp

lemma filter_insertBefore: "\<not> P p \<Longrightarrow> filter P (insertBefore n p b) = filter P b"
  by (induction b) auto

lemma mset_insertBefore: "n \<in> in_id ` set b \<Longrightarrow> mset (insertBefore n p b) = add_mset p (mset b)"
  by (induction b) auto

lemma mset_insert_blocks:
  assumes "distinct (map in_id (concat bs))" "n \<in> in_id ` set (concat bs)"
  shows "mset (concat (map (insertBefore n p) bs)) = add_mset p (mset (concat bs))"
  using assms
proof (induction bs)
  case (Cons b bs)
  have d: "distinct (map in_id (concat bs))" "in_id ` set b \<inter> in_id ` set (concat bs) = {}"
    using Cons.prems(1) by auto
  show ?case
  proof (cases "n \<in> in_id ` set b")
    case True
    then have "n \<notin> in_id ` set (concat bs)" using d(2) by blast
    then have "map (insertBefore n p) bs = bs" by (intro map_idI insertBefore_absent) auto
    then show ?thesis using True by (simp add: mset_insertBefore)
  next
    case False
    then have "n \<in> in_id ` set (concat bs)" using Cons.prems(2) by auto
    then show ?thesis using Cons.IH [OF d(1)] False by simp
  qed
qed simp

section \<open>Followed by a poll, ended by a poll\<close>

fun followed :: "(instruction \<Rightarrow> bool) \<Rightarrow> (instruction \<Rightarrow> bool) \<Rightarrow> instruction list \<Rightarrow> bool" where
  "followed A P (x # y # rest) = ((\<not> A x \<or> P y) \<and> followed A P (y # rest))"
| "followed A P _ = True"

lemma followed_none: "(\<And>x. x \<in> set b \<Longrightarrow> \<not> A x) \<Longrightarrow> followed A P b"
  by (induction A P b rule: followed.induct) auto

lemma followed_absent: "c \<notin> in_id ` set b \<Longrightarrow> followed (\<lambda>x. in_id x = c) P b"
  by (rule followed_none) auto

lemma followed_mono: "followed B P b \<Longrightarrow> (\<And>x. x \<in> set b \<Longrightarrow> A x \<Longrightarrow> B x) \<Longrightarrow> followed A P b"
  by (induction A P b rule: followed.induct) auto

lemma followed_or: "followed A P b \<Longrightarrow> followed B P b \<Longrightarrow> followed (\<lambda>x. A x \<or> B x) P b"
  by (induction A P b rule: followed.induct) auto

lemma followed_insertBefore: "followed A P b \<Longrightarrow> P p \<Longrightarrow> \<not> A p \<Longrightarrow> followed A P (insertBefore n p b)"
  by (induction A P b rule: followed.induct) auto

definition endsWithPoll :: "(instruction \<Rightarrow> bool) \<Rightarrow> instruction list \<Rightarrow> bool" where
  "endsWithPoll P b \<longleftrightarrow> b = [] \<or> 2 \<le> length b \<and> P (b ! (length b - 2))"

lemma endsWithPoll_snoc: "endsWithPoll P (pre @ [x, y]) = P x"
  by (simp add: endsWithPoll_def nth_append)

lemma endsWithPoll_append: "2 \<le> length suf \<Longrightarrow> endsWithPoll P (pre @ suf) = endsWithPoll P suf"
  by (auto simp: endsWithPoll_def nth_append)

lemma endsWithPoll_insertBefore:
  assumes "endsWithPoll P b" "P p"
  shows "endsWithPoll P (insertBefore n p b)"
proof (cases "n \<in> in_id ` set b")
  case True
  obtain pre x suf where b: "b = pre @ x # suf" "in_id x = n" "insertBefore n p b = pre @ p # x # suf"
    by (rule insertBefore_split [OF True])
  show ?thesis
  proof (cases suf)
    case Nil then show ?thesis using b(3) assms(2) endsWithPoll_snoc [of P pre p x] by simp
  next
    case (Cons y ys)
    then have "endsWithPoll P (x # suf)" using assms(1) b(1) endsWithPoll_append [of "x # suf" P pre] by simp
    then show ?thesis using b(3) Cons endsWithPoll_append [of "x # suf" P "pre @ [p]"] by simp
  qed
qed (simp add: assms)

lemma endsWithPoll_terminator:
  assumes "b \<noteq> []" "distinct (map in_id b)" "P p"
  shows "endsWithPoll P (insertBefore (in_id (last b)) p b)"
proof -
  have "in_id (last b) \<in> in_id ` set b" using assms(1) by simp
  then obtain pre x suf where b: "b = pre @ x # suf" "in_id x = in_id (last b)" "insertBefore (in_id (last b)) p b = pre @ p # x # suf"
    by (rule insertBefore_split)
  have "suf = []"
  proof (rule ccontr)
    assume "suf \<noteq> []"
    then have "in_id x \<in> in_id ` set suf" using b by simp
    then show False using assms(2) b(1) by simp
  qed
  then show ?thesis using b(3) assms(3) endsWithPoll_snoc [of P pre p x] by simp
qed

section \<open>The next node\<close>

abbreviation call :: "nat \<Rightarrow> instruction \<Rightarrow> bool" where "call c \<equiv> \<lambda>x. in_id x = c"

lemma nextInBlock_None: "nextInBlock c b = None \<Longrightarrow> followed (call c) P b"
  by (induction c b rule: nextInBlock.induct) (auto split: if_splits)

lemma nextInBlock_member: "nextInBlock c b = Some n \<Longrightarrow> n \<in> set b \<and> c \<in> in_id ` set b"
  by (induction c b rule: nextInBlock.induct) (auto split: if_splits)

lemma nextInBlock_poll:
  "distinct (map in_id b) \<Longrightarrow> nextInBlock c b = Some n \<Longrightarrow> P n \<Longrightarrow> followed (call c) P b"
proof (induction c b rule: nextInBlock.induct)
  case (1 c x y rest)
  show ?case
  proof (cases "in_id x = c")
    case True
    then have "followed (call c) P (y # rest)" using 1(2) by (intro followed_absent) auto
    then show ?thesis using 1(3,4) True by simp
  qed (use 1 in simp)
qed simp_all

lemma nextInBlock_insert:
  "distinct (map in_id b) \<Longrightarrow> nextInBlock c b = Some n \<Longrightarrow> P p \<Longrightarrow> in_id p \<noteq> c \<Longrightarrow>
    followed (call c) P (insertBefore (in_id n) p b)"
proof (induction c b rule: nextInBlock.induct)
  case (1 c x y rest)
  show ?case
  proof (cases "in_id x = c")
    case True
    then have n: "n = y" "in_id y \<noteq> c" using 1(2,3) by auto
    have "followed (call c) P (y # rest)" using True 1(2) by (intro followed_absent) auto
    then show ?thesis using 1(2,4,5) n True by auto
  next
    case False
    then have n: "nextInBlock c (y # rest) = Some n" using 1(3) by simp
    have "in_id n \<in> in_id ` set (y # rest)" using nextInBlock_member [OF n] by blast
    moreover have "in_id x \<notin> in_id ` set (y # rest)" using 1(2) by simp
    ultimately have "in_id n \<noteq> in_id x" by metis
    moreover have "followed (call c) P (insertBefore (in_id n) p (y # rest))" using 1(1) [OF False _ n 1(4,5)] 1(2) by simp
    ultimately show ?thesis using False by (auto split: if_splits)
  qed
qed simp_all

lemma getNextNode_None: "getNextNode c bs = None \<Longrightarrow> distinct (map in_id (concat bs)) \<Longrightarrow> list_all (followed (call c) P) bs"
proof (induction bs)
  case (Cons b bs)
  show ?case
  proof (cases "c \<in> in_id ` set b")
    case True
    then have "c \<notin> in_id ` set b'" if "b' \<in> set bs" for b' using Cons.prems(2) that by auto
    then show ?thesis using True Cons.prems(1) nextInBlock_None [of c b P] by (simp add: list_all_iff followed_absent)
  next
    case False
    then show ?thesis using Cons followed_absent [of c b P] by simp
  qed
qed simp

lemma getNextNode_split:
  assumes "getNextNode c bs = Some n"
  obtains pre b suf where "bs = pre @ b # suf" "nextInBlock c b = Some n"
  using assms
proof (induction bs arbitrary: thesis)
  case (Cons b bs)
  show ?case
  proof (cases "c \<in> in_id ` set b")
    case True then show ?thesis using Cons.prems(1) [of "[]" b bs] Cons.prems(2) by simp
  next
    case False
    then have "getNextNode c bs = Some n" using Cons.prems(2) by simp
    then obtain pre b' suf where "bs = pre @ b' # suf" "nextInBlock c b' = Some n" by (rule Cons.IH [rotated])
    then show ?thesis using Cons.prems(1) [of "b # pre" b' suf] by simp
  qed
qed simp

lemma getNextNode_member: "getNextNode c bs = Some n \<Longrightarrow> in_id n \<in> in_id ` set (concat bs)"
  by (erule getNextNode_split) (auto dest: nextInBlock_member)

lemma distinct_blocks:
  "distinct (map f (concat (pre @ b # suf))) \<Longrightarrow> b' \<in> set pre \<union> set suf \<Longrightarrow> f ` set b \<inter> f ` set b' = {}"
  by (simp add: image_Union image_image) blast

lemma getNextNode_others:
  assumes "distinct (map in_id (concat (pre @ b # suf)))" "nextInBlock c b = Some n" "b' \<in> set pre \<union> set suf"
  shows "c \<notin> in_id ` set b'" "in_id n \<notin> in_id ` set b'"
  using distinct_blocks [OF assms(1,3)] nextInBlock_member [OF assms(2)] by blast+

lemma getNextNode_poll:
  assumes "getNextNode c bs = Some n" "distinct (map in_id (concat bs))" "P n"
  shows "list_all (followed (call c) P) bs"
proof -
  obtain pre b suf where b: "bs = pre @ b # suf" "nextInBlock c b = Some n" by (rule getNextNode_split [OF assms(1)])
  have "c \<notin> in_id ` set b'" if "b' \<in> set pre \<union> set suf" for b'
    using getNextNode_others(1) [OF _ b(2) that] assms(2) b(1) by simp
  moreover have "followed (call c) P b" using nextInBlock_poll [of b c n P] b assms(2,3) by simp
  ultimately show ?thesis using b(1) by (auto simp: list_all_iff followed_absent)
qed

lemma getNextNode_insert:
  assumes "getNextNode c bs = Some n" "distinct (map in_id (concat bs))" "P p" "in_id p \<noteq> c"
  shows "list_all (followed (call c) P) (map (insertBefore (in_id n) p) bs)"
proof -
  obtain pre b suf where b: "bs = pre @ b # suf" "nextInBlock c b = Some n" by (rule getNextNode_split [OF assms(1)])
  have "c \<notin> in_id ` set b' \<and> in_id n \<notin> in_id ` set b'" if "b' \<in> set pre \<union> set suf" for b'
    using getNextNode_others [OF _ b(2) that] assms(2) b(1) by simp
  moreover have "followed (call c) P (insertBefore (in_id n) p b)" using nextInBlock_insert [of b c n P p] b assms(2-4) by simp
  ultimately show ?thesis using b(1) by (auto simp: list_all_iff followed_absent)
qed

section \<open>What an insertion keeps\<close>

abbreviation idsOf :: "ir_function \<Rightarrow> nat set" where
  "idsOf f \<equiv> in_id ` set (instructionsOf f)"

definition newInstructions :: "ir_function \<Rightarrow> ir_function \<Rightarrow> instruction list" where
  "newInstructions f0 f = filter (\<lambda>i. in_id i \<notin> idsOf f0) (instructionsOf f)"

text \<open>The identifier a poll call passes.\<close>

definition statepointIDOf :: "instruction \<Rightarrow> u64" where
  "statepointIDOf i = (case in_op i of OCall callee (VInt w n # _) \<Rightarrow> of_nat n | _ \<Rightarrow> 0)"

definition sameButBlocks :: "ir_function \<Rightarrow> ir_function \<Rightarrow> bool" where
  "sameButBlocks f0 f \<longleftrightarrow> f\<lparr>fn_blocks := fn_blocks f0\<rparr> = f0"

text \<open>\<open>f\<close> is \<open>f0\<close> with polls that carry the identifiers \<open>s\<close>, ..., \<open>s + k - 1\<close>.\<close>

definition polledFrom :: "ir_module \<Rightarrow> nat \<Rightarrow> nat \<Rightarrow> ir_function \<Rightarrow> ir_function \<Rightarrow> bool" where
  "polledFrom m s k f0 f \<longleftrightarrow> sameButBlocks f0 f \<and> distinct (map in_id (instructionsOf f)) \<and>
     map (filter (\<lambda>i. in_id i \<in> idsOf f0)) (fn_blocks f) = fn_blocks f0 \<and>
     mset (map statepointIDOf (newInstructions f0 f)) = mset (map of_nat [s ..< s + k]) \<and>
     list_all (isDirectSafepointPollCall m) (newInstructions f0 f)"

lemma freshInstruction_new: "freshInstruction f \<notin> idsOf f"
proof -
  have "x \<le> fold max ns (a :: nat)" if "x \<in> set ns \<or> x \<le> a" for x ns a
    using that by (induction ns arbitrary: a) (auto simp: le_max_iff_disj)
  then have "x \<in> idsOf f \<Longrightarrow> x \<le> fold max (map in_id (instructionsOf f)) 0" for x by auto
  then show ?thesis unfolding freshInstruction_def by (metis Suc_n_not_le_n)
qed

lemma polledFrom_ids: "polledFrom m s k f0 f \<Longrightarrow> idsOf f0 \<subseteq> idsOf f"
proof
  fix x assume p: "polledFrom m s k f0 f" and "x \<in> idsOf f0"
  then have "x \<in> in_id ` set (concat (map (filter (\<lambda>i. in_id i \<in> idsOf f0)) (fn_blocks f)))"
    by (simp add: polledFrom_def instructionsOf_def)
  then show "x \<in> idsOf f" by (auto simp: instructionsOf_def)
qed

lemma polledFrom_start:
  assumes "distinct (map in_id (instructionsOf f))"
  shows "polledFrom m s 0 f f"
proof -
  have "newInstructions f f = []" by (auto simp: newInstructions_def filter_empty_conv)
  moreover have "map (filter (\<lambda>i. in_id i \<in> idsOf f)) (fn_blocks f) = fn_blocks f"
    by (intro map_idI filter_True) (auto simp: instructionsOf_def)
  ultimately show ?thesis using assms by (simp add: polledFrom_def sameButBlocks_def)
qed

lemma statepointID_pollCall: "statepointIDOf \<lparr>in_id = a, in_isPointer = b, in_op = OCall v [VInt 64 (unat (x :: u64))]\<rparr> = x"
  by (simp add: statepointIDOf_def)

lemma polledFrom_insert:
  assumes "polledFrom m s k f0 f" "n \<in> idsOf f" "getCalledFunction m (VFunc poll) = Some pf" "fn_name pf = kRuntimeSafepointPollSymbol"
  shows "polledFrom m s (Suc k) f0 (insertManagedSafepointPoll n f poll (of_nat (s + k)))"
proof -
  let ?p = "\<lparr>in_id = freshInstruction f, in_isPointer = False, in_op = OCall (VFunc poll) [VInt 64 (unat (of_nat (s + k) :: u64))]\<rparr>"
  let ?f = "insertManagedSafepointPoll n f poll (of_nat (s + k))"
  have b: "fn_blocks ?f = map (insertBefore n ?p) (fn_blocks f)" by (simp add: insertManagedSafepointPoll_def)
  have d: "distinct (map in_id (concat (fn_blocks f)))" using assms(1) by (simp add: polledFrom_def instructionsOf_def)
  have ms: "mset (instructionsOf ?f) = mset (?p # instructionsOf f)"
    unfolding instructionsOf_def b using mset_insert_blocks [OF d, of n ?p] assms(2) by (simp add: instructionsOf_def)
  have fresh: "freshInstruction f \<notin> idsOf f0" using freshInstruction_new [of f] polledFrom_ids [OF assms(1)] by (rule contra_subsetD [rotated])
  have "mset (map in_id (instructionsOf ?f)) = mset (map in_id (?p # instructionsOf f))" using ms by (simp only: mset_map)
  from mset_eq_imp_distinct_iff [OF this] have "distinct (map in_id (instructionsOf ?f))"
    using assms(1) freshInstruction_new [of f] by (simp add: polledFrom_def)
  moreover have new: "mset (newInstructions f0 ?f) = mset (?p # newInstructions f0 f)"
    unfolding newInstructions_def mset_filter ms using fresh by simp
  moreover have "mset (map statepointIDOf (newInstructions f0 ?f)) = mset (map statepointIDOf (?p # newInstructions f0 f))"
    using new by (simp only: mset_map)
  moreover have "set (newInstructions f0 ?f) = set (?p # newInstructions f0 f)" by (rule mset_eq_setD [OF new])
  moreover have "isDirectSafepointPollCall m ?p" using assms(3,4) by (simp add: isDirectSafepointPollCall_def)
  moreover have "map (filter (\<lambda>i. in_id i \<in> idsOf f0)) (fn_blocks ?f) = fn_blocks f0"
    using assms(1) fresh unfolding b by (simp add: filter_insertBefore o_def polledFrom_def)
  moreover have "sameButBlocks f0 ?f"
    using assms(1) by (simp add: polledFrom_def sameButBlocks_def insertManagedSafepointPoll_def)
  ultimately show ?thesis
    using assms(1) unfolding polledFrom_def by (simp add: statepointID_pollCall list_all_iff)
qed

section \<open>A function\<close>

text \<open>What the calls and latches processed so far have got.\<close>

definition allocationsPolled :: "ir_module \<Rightarrow> nat set \<Rightarrow> ir_function \<Rightarrow> bool" where
  "allocationsPolled m C f \<longleftrightarrow> list_all (followed (\<lambda>i. in_id i \<in> C) (isDirectSafepointPollCall m)) (fn_blocks f)"

definition latchesPolled :: "ir_module \<Rightarrow> nat set \<Rightarrow> ir_function \<Rightarrow> bool" where
  "latchesPolled m L f \<longleftrightarrow> (\<forall>k \<in> L. k < length (fn_blocks f) \<longrightarrow> endsWithPoll (isDirectSafepointPollCall m) (fn_blocks f ! k))"

lemma pollCall_is_poll:
  "getCalledFunction m (VFunc poll) = Some pf \<Longrightarrow> fn_name pf = kRuntimeSafepointPollSymbol \<Longrightarrow>
    isDirectSafepointPollCall m \<lparr>in_id = a, in_isPointer = b, in_op = OCall (VFunc poll) args\<rparr>"
  by (simp add: isDirectSafepointPollCall_def)

lemma polls_kept:
  assumes "polledFrom m s k f0 f" "getCalledFunction m (VFunc poll) = Some pf" "fn_name pf = kRuntimeSafepointPollSymbol" "C \<subseteq> idsOf f0"
  shows "allocationsPolled m C f \<Longrightarrow> allocationsPolled m C (insertManagedSafepointPoll n f poll x)" (is "_ \<Longrightarrow> ?A")
    and "latchesPolled m L f \<Longrightarrow> latchesPolled m L (insertManagedSafepointPoll n f poll x)" (is "_ \<Longrightarrow> ?L")
proof -
  let ?p = "\<lparr>in_id = freshInstruction f, in_isPointer = False, in_op = OCall (VFunc poll) [VInt 64 (unat x)]\<rparr>"
  have poll: "isDirectSafepointPollCall m ?p" by (rule pollCall_is_poll [OF assms(2,3)])
  have b: "fn_blocks (insertManagedSafepointPoll n f poll x) = map (insertBefore n ?p) (fn_blocks f)"
    by (simp add: insertManagedSafepointPoll_def)
  have fresh: "freshInstruction f \<notin> C" using freshInstruction_new [of f] polledFrom_ids [OF assms(1)] assms(4) by (meson subsetD)
  then have followed: "followed (\<lambda>i. in_id i \<in> C) (isDirectSafepointPollCall m) (insertBefore n ?p b)"
    if "followed (\<lambda>i. in_id i \<in> C) (isDirectSafepointPollCall m) b" for b
    using followed_insertBefore [OF that poll] by simp
  show "allocationsPolled m C f \<Longrightarrow> ?A" unfolding allocationsPolled_def b list_all_iff using followed by simp
  show "latchesPolled m L f \<Longrightarrow> ?L" unfolding latchesPolled_def b using endsWithPoll_insertBefore [where P = "isDirectSafepointPollCall m", OF _ poll] by simp
qed

lemma pollAfterAllocation_facts:
  assumes "polledFrom m s k f0 f" "getCalledFunction m (VFunc poll) = Some pf" "fn_name pf = kRuntimeSafepointPollSymbol"
    and "insert c C \<subseteq> idsOf f0" "allocationsPolled m C f"
  obtains k' f' where "pollAfterAllocation m poll c (f, of_nat (s + k)) = (f', of_nat (s + k'))" "polledFrom m s k' f0 f'"
    "allocationsPolled m (insert c C) f'"
proof -
  have d: "distinct (map in_id (concat (fn_blocks f)))" using assms(1) by (simp add: polledFrom_def instructionsOf_def)
  have join: "allocationsPolled m (insert c C) g"
    if "list_all (followed (call c) (isDirectSafepointPollCall m)) (fn_blocks g)" "allocationsPolled m C g" for g
    using that followed_or [of "call c" "isDirectSafepointPollCall m" _ "\<lambda>i. in_id i \<in> C"]
    by (auto simp: allocationsPolled_def list_all_iff)
  show thesis
  proof (cases "getNextNode c (fn_blocks f)")
    case None
    then show thesis using that [of f k] assms(1,5) join [OF getNextNode_None [OF None d]] by (simp add: pollAfterAllocation_def)
  next
    case (Some n)
    show thesis
    proof (cases "isDirectSafepointPollCall m n")
      case True
      then show thesis using that [of f k] assms(1,5) Some join [OF getNextNode_poll [OF Some d]] by (simp add: pollAfterAllocation_def)
    next
      case False
      let ?f = "insertManagedSafepointPoll (in_id n) f poll (of_nat (s + k))"
      have n: "in_id n \<in> idsOf f" using getNextNode_member [OF Some] by (simp add: instructionsOf_def)
      have "freshInstruction f \<noteq> c" using freshInstruction_new [of f] polledFrom_ids [OF assms(1)] assms(4) by blast
      then have "list_all (followed (call c) (isDirectSafepointPollCall m)) (fn_blocks ?f)"
        using getNextNode_insert [where P = "isDirectSafepointPollCall m", OF Some d pollCall_is_poll [OF assms(2,3)]] by (simp add: insertManagedSafepointPoll_def)
      moreover have "allocationsPolled m C ?f" using polls_kept(1) [OF assms(1-3) _ assms(5)] assms(4) by blast
      ultimately have "allocationsPolled m (insert c C) ?f" by (rule join)
      moreover have "pollAfterAllocation m poll c (f, of_nat (s + k)) = (?f, of_nat (s + Suc k))"
        using Some False by (simp add: pollAfterAllocation_def algebra_simps)
      ultimately show thesis using that polledFrom_insert [OF assms(1) n assms(2,3)] by blast
    qed
  qed
qed

lemma pollAllocations_facts:
  assumes "polledFrom m s k f0 f" "getCalledFunction m (VFunc poll) = Some pf" "fn_name pf = kRuntimeSafepointPollSymbol"
    and "C \<union> set cs \<subseteq> idsOf f0" "allocationsPolled m C f"
  obtains k' f' where "fold (pollAfterAllocation m poll) cs (f, of_nat (s + k)) = (f', of_nat (s + k'))" "polledFrom m s k' f0 f'"
    "allocationsPolled m (C \<union> set cs) f'"
  using assms(1,4,5)
proof (induction cs arbitrary: C f k thesis)
  case Nil then show ?case by simp
next
  case (Cons c cs)
  have c: "insert c C \<subseteq> idsOf f0" "insert c C \<union> set cs \<subseteq> idsOf f0" using Cons.prems(3) by auto
  obtain k1 f1 where 1: "pollAfterAllocation m poll c (f, of_nat (s + k)) = (f1, of_nat (s + k1))" "polledFrom m s k1 f0 f1"
    "allocationsPolled m (insert c C) f1"
    by (rule pollAfterAllocation_facts [OF Cons.prems(2) assms(2,3) c(1) Cons.prems(4)])
  obtain k2 f2 where "fold (pollAfterAllocation m poll) cs (f1, of_nat (s + k1)) = (f2, of_nat (s + k2))" "polledFrom m s k2 f0 f2"
    "allocationsPolled m (insert c C \<union> set cs) f2"
    by (rule Cons.IH [OF _ 1(2) c(2) 1(3)])
  then show ?case using Cons.prems(1) 1(1) by simp
qed

lemma polledFrom_blocks:
  assumes "polledFrom m s k f0 f"
  shows "length (fn_blocks f) = length (fn_blocks f0)"
proof -
  have "length (map (filter (\<lambda>i. in_id i \<in> idsOf f0)) (fn_blocks f)) = length (fn_blocks f0)"
    using assms by (simp only: polledFrom_def)
  then show ?thesis by simp
qed

lemma pollBeforeLatch_facts:
  assumes "polledFrom m s k f0 f" "getCalledFunction m (VFunc poll) = Some pf" "fn_name pf = kRuntimeSafepointPollSymbol"
    and "C \<subseteq> idsOf f0" "allocationsPolled m C f" "latchesPolled m L f"
  obtains k' f' where "pollBeforeLatch poll l (f, of_nat (s + k)) = (f', of_nat (s + k'))" "polledFrom m s k' f0 f'"
    "allocationsPolled m C f'" "latchesPolled m (insert l L) f'"
proof -
  let ?b = "fn_blocks f ! l"
  show thesis
  proof (cases "l < length (fn_blocks f) \<and> ?b \<noteq> []")
    case False
    then have "latchesPolled m (insert l L) f" using assms(6) by (auto simp: latchesPolled_def endsWithPoll_def)
    moreover have "pollBeforeLatch poll l (f, of_nat (s + k)) = (f, of_nat (s + k))"
      using False by (auto simp: pollBeforeLatch_def getTerminator_def)
    ultimately show thesis using that assms(1,5) by blast
  next
    case True
    let ?t = "in_id (last ?b)" and ?f = "insertManagedSafepointPoll (in_id (last ?b)) f poll (of_nat (s + k))"
    have b: "?b \<in> set (fn_blocks f)" using True by simp
    then have t: "?t \<in> idsOf f" using True by (auto simp: instructionsOf_def intro!: imageI bexI [of _ ?b])
    have "distinct (map in_id (concat (fn_blocks f)))" using assms(1) by (simp add: polledFrom_def instructionsOf_def)
    then have d: "distinct (map in_id ?b)" using b by (auto simp: map_concat distinct_concat_iff)
    have "fn_blocks ?f ! l = insertBefore ?t \<lparr>in_id = freshInstruction f, in_isPointer = False,
       in_op = OCall (VFunc poll) [VInt 64 (unat (of_nat (s + k) :: u64))]\<rparr> ?b"
      using True by (simp add: insertManagedSafepointPoll_def)
    then have "endsWithPoll (isDirectSafepointPollCall m) (fn_blocks ?f ! l)"
      using True endsWithPoll_terminator [where P = "isDirectSafepointPollCall m", OF _ d pollCall_is_poll [OF assms(2,3)]] by simp
    moreover have "latchesPolled m L ?f" using polls_kept(2) [OF assms(1-4,6)] .
    ultimately have "latchesPolled m (insert l L) ?f" by (auto simp: latchesPolled_def)
    moreover have "allocationsPolled m C ?f" using polls_kept(1) [OF assms(1-5)] .
    moreover have "pollBeforeLatch poll l (f, of_nat (s + k)) = (?f, of_nat (s + Suc k))"
      using True by (simp add: pollBeforeLatch_def getTerminator_def algebra_simps)
    ultimately show thesis using that polledFrom_insert [OF assms(1) t assms(2,3)] by blast
  qed
qed

lemma pollLatches_facts:
  assumes "polledFrom m s k f0 f" "getCalledFunction m (VFunc poll) = Some pf" "fn_name pf = kRuntimeSafepointPollSymbol"
    and "C \<subseteq> idsOf f0" "allocationsPolled m C f" "latchesPolled m L f"
  obtains k' f' where "fold (pollBeforeLatch poll) ls (f, of_nat (s + k)) = (f', of_nat (s + k'))" "polledFrom m s k' f0 f'"
    "allocationsPolled m C f'" "latchesPolled m (L \<union> set ls) f'"
  using assms(1,5,6)
proof (induction ls arbitrary: L f k thesis)
  case Nil then show ?case by simp
next
  case (Cons l ls)
  obtain k1 f1 where 1: "pollBeforeLatch poll l (f, of_nat (s + k)) = (f1, of_nat (s + k1))" "polledFrom m s k1 f0 f1"
    "allocationsPolled m C f1" "latchesPolled m (insert l L) f1"
    by (rule pollBeforeLatch_facts [OF Cons.prems(2) assms(2-4) Cons.prems(3,4)])
  obtain k2 f2 where "fold (pollBeforeLatch poll) ls (f1, of_nat (s + k1)) = (f2, of_nat (s + k2))" "polledFrom m s k2 f0 f2"
    "allocationsPolled m C f2" "latchesPolled m (insert l L \<union> set ls) f2"
    by (rule Cons.IH [OF _ 1(2-4)])
  then show ?case using Cons.prems(1) 1(1) by simp
qed

section \<open>Latches\<close>

primrec latchesOf :: "loop \<Rightarrow> nat set" where
  "latchesOf (Loop ls subs) = set ls \<union> \<Union> (set (map latchesOf subs))"

lemma collectLatches_eq: "collectLatches ls S = S \<union> \<Union> (latchesOf ` set ls)"
proof (induction ls S rule: collectLatches.induct)
  case (2 l ls S)
  obtain xs subs where l: "l = Loop xs subs" by (cases l)
  show ?case using 2 unfolding l by auto
qed simp

definition functionLatches :: "(nat \<Rightarrow> loop list) \<Rightarrow> ir_function \<Rightarrow> nat set" where
  "functionLatches loopsOf f = \<Union> (latchesOf ` set (loopsOf (fn_id f)))"

lemma finite_latchesOf: "finite (latchesOf l)"
  by (induction l) auto

lemma finite_functionLatches: "finite (functionLatches loopsOf f)"
  by (simp add: functionLatches_def finite_latchesOf)

section \<open>The functions of a module\<close>

definition allocationCalls :: "ir_module \<Rightarrow> ir_function \<Rightarrow> nat set" where
  "allocationCalls m f = in_id ` {i \<in> set (instructionsOf f). isRuntimeAllocationCall m i}"

lemma insertFunctionPolls_facts:
  assumes "distinct (map in_id (instructionsOf f))" "getCalledFunction m (VFunc poll) = Some pf" "fn_name pf = kRuntimeSafepointPollSymbol"
    and "\<And>S. finite S \<Longrightarrow> set (pointerOrder S) = S"
  obtains k f' where "insertFunctionPolls loopsOf pointerOrder m poll (f, of_nat s) = (f', of_nat (s + k))" "polledFrom m s k f f'"
    "allocationsPolled m (allocationCalls m f) f'" "latchesPolled m (functionLatches loopsOf f) f'"
proof -
  let ?cs = "map in_id (filter (isRuntimeAllocationCall m) (instructionsOf f))"
  let ?ls = "pointerOrder (functionLatches loopsOf f)"
  have C: "set ?cs = allocationCalls m f" "allocationCalls m f \<subseteq> idsOf f" by (auto simp: allocationCalls_def)
  have "{} \<union> set ?cs \<subseteq> idsOf f" "allocationsPolled m {} f"
    using C by (auto simp: allocationsPolled_def list_all_iff intro!: followed_none)
  then obtain k1 f1 where 1: "fold (pollAfterAllocation m poll) ?cs (f, of_nat (s + 0)) = (f1, of_nat (s + k1))" "polledFrom m s k1 f f1"
    "allocationsPolled m ({} \<union> set ?cs) f1"
    by (rule pollAllocations_facts [OF polledFrom_start [OF assms(1)] assms(2,3)])
  have C1: "allocationsPolled m (allocationCalls m f) f1" using 1(3) C(1) by simp
  have "latchesPolled m {} f1" by (simp add: latchesPolled_def)
  then obtain k2 f2 where 2: "fold (pollBeforeLatch poll) ?ls (f1, of_nat (s + k1)) = (f2, of_nat (s + k2))" "polledFrom m s k2 f f2"
    "allocationsPolled m (allocationCalls m f) f2" "latchesPolled m ({} \<union> set ?ls) f2"
    by (rule pollLatches_facts [OF 1(2) assms(2,3) C(2) C1])
  have "f1\<lparr>fn_blocks := fn_blocks f\<rparr> = f" using 1(2) by (simp add: polledFrom_def sameButBlocks_def)
  then have "fn_id f1 = fn_id f" by (metis ir_function.select_convs(1) ir_function.surjective ir_function.update_convs(8))
  then have "collectLatches (rev (loopsOf (fn_id f1))) {} = functionLatches loopsOf f"
    by (simp add: collectLatches_eq functionLatches_def)
  then have "insertFunctionPolls loopsOf pointerOrder m poll (f, of_nat s) = (f2, of_nat (s + k2))"
    using 1(1) 2(1) by (simp add: insertFunctionPolls_def)
  then show thesis using that 2(2-4) assms(4) [OF finite_functionLatches, of loopsOf f] by simp
qed

text \<open>What one function becomes.\<close>

definition functionPolled :: "(nat \<Rightarrow> loop list) \<Rightarrow> ir_module \<Rightarrow> attribute_store \<Rightarrow> ir_function \<Rightarrow> ir_function \<Rightarrow> bool" where
  "functionPolled loopsOf m at f f' \<longleftrightarrow>
     (if isManagedGCFunction at f
      then sameButBlocks f f' \<and> map (filter (\<lambda>i. in_id i \<in> idsOf f)) (fn_blocks f') = fn_blocks f \<and>
        distinct (map in_id (instructionsOf f')) \<and> list_all (isDirectSafepointPollCall m) (newInstructions f f') \<and>
        allocationsPolled m (allocationCalls m f) f' \<and> latchesPolled m (functionLatches loopsOf f) f'
      else f' = f)"

definition modulePollIDs :: "ir_module \<Rightarrow> ir_module \<Rightarrow> u64 list" where
  "modulePollIDs m m' = concat (map (\<lambda>(f, f'). map statepointIDOf (newInstructions f f')) (zip m m'))"

lemma no_new: "newInstructions f f = []"
  by (auto simp: newInstructions_def filter_empty_conv)

lemma upt_join: "[s ..< s + k] @ [s + k ..< s + k + n] = [s ..< s + (k + n)]"
  using upt_add_eq_append [of s "s + k" n] by (simp add: add.assoc)

lemma insertModulePolls_facts:
  assumes "list_all (\<lambda>f. distinct (map in_id (instructionsOf f))) fs" "getCalledFunction m (VFunc poll) = Some pf" "fn_name pf = kRuntimeSafepointPollSymbol"
    and "\<And>S. finite S \<Longrightarrow> set (pointerOrder S) = S"
  shows "list_all2 (functionPolled loopsOf m at) fs (insertModulePolls loopsOf pointerOrder m at poll fs (of_nat s)) \<and>
    (\<exists>k. mset (modulePollIDs fs (insertModulePolls loopsOf pointerOrder m at poll fs (of_nat s))) = mset (map of_nat [s ..< s + k]))"
  using assms(1)
proof (induction fs arbitrary: s)
  case Nil show ?case by (auto simp: modulePollIDs_def intro: exI [of _ 0])
next
  case (Cons f fs)
  have d: "distinct (map in_id (instructionsOf f))" "list_all (\<lambda>f. distinct (map in_id (instructionsOf f))) fs" using Cons.prems by auto
  show ?case
  proof (cases "\<not> isManagedGCFunction at f \<or> fn_blocks f = []")
    case True
    then have "functionPolled loopsOf m at f f"
      by (auto simp: functionPolled_def sameButBlocks_def instructionsOf_def no_new allocationsPolled_def latchesPolled_def)
    then show ?thesis using True Cons.IH [OF d(2), of s] by (auto simp: modulePollIDs_def no_new)
  next
    case False
    obtain k f' where f': "insertFunctionPolls loopsOf pointerOrder m poll (f, of_nat s) = (f', of_nat (s + k))" "polledFrom m s k f f'"
      "allocationsPolled m (allocationCalls m f) f'" "latchesPolled m (functionLatches loopsOf f) f'"
      by (rule insertFunctionPolls_facts [OF d(1) assms(2-4)])
    let ?r = "insertModulePolls loopsOf pointerOrder m at poll fs (of_nat (s + k))"
    have r: "insertModulePolls loopsOf pointerOrder m at poll (f # fs) (of_nat s) = f' # ?r" using False f'(1) by simp
    obtain n where n: "mset (modulePollIDs fs ?r) = mset (map of_nat [s + k ..< s + k + n])" using Cons.IH [OF d(2)] by blast
    have "functionPolled loopsOf m at f f'" using f'(2-4) False by (simp add: functionPolled_def polledFrom_def)
    moreover have "mset (modulePollIDs (f # fs) (f' # ?r)) = mset (map of_nat [s ..< s + (k + n)])"
      using f'(2) n unfolding upt_join [symmetric] by (simp add: modulePollIDs_def polledFrom_def)
    ultimately show ?thesis using Cons.IH [OF d(2), of "s + k"] r by auto
  qed
qed

section \<open>The declaration of the poll\<close>

lemma find_snoc: "List.find P m = None \<Longrightarrow> P d \<Longrightarrow> List.find P (m @ [d]) = Some d"
  by (induction m) (auto split: if_splits)

lemma getOrInsertPoll_facts:
  assumes "getOrInsertPoll m = (poll, m')" "wellNumbered m"
  obtains pf new where "m' = m @ new" "getCalledFunction m' (VFunc poll) = Some pf" "fn_name pf = kRuntimeSafepointPollSymbol"
    "wellNumbered m'" "getOrInsertPoll m' = (poll, m')" "fn_isDeclaration pf \<or> pf \<in> set m"
proof (cases "List.find (\<lambda>f. fn_name f = kRuntimeSafepointPollSymbol) m")
  case (Some f)
  then have f: "f \<in> set m" "fn_name f = kRuntimeSafepointPollSymbol" by (auto simp: find_Some_iff)
  have "m' = m" "poll = fn_id f" using assms(1) Some by (simp_all add: getOrInsertPoll_def)
  then show thesis using that [of "[]" f] f functionAt_member [OF assms(2) f(1)] assms by (simp add: getCalledFunction_def)
next
  case None
  let ?d = "\<lparr>fn_id = freshFunction m, fn_name = kRuntimeSafepointPollSymbol,
          fn_isDeclaration = True, fn_hasAddressTaken = False, fn_isVarArg = False, fn_params = [False],
          fn_returnsPointer = False, fn_blocks = []\<rparr>"
  have m': "m' = m @ [?d]" "poll = fn_id ?d" using assms(1) None by (auto simp: getOrInsertPoll_def)
  have "functionAt m' poll = Some ?d" unfolding m' by (rule functionAt_new) (simp add: freshFunction_new)
  moreover have "wellNumbered m'" using assms(2) freshFunction_new [of m] unfolding m' by (auto simp: wellNumbered_def instructionsOf_def)
  moreover have "List.find (\<lambda>f. fn_name f = kRuntimeSafepointPollSymbol) m' = Some ?d"
    unfolding m' by (rule find_snoc [OF None]) simp
  ultimately show thesis using that [of "[?d]" ?d] m' by (simp add: getCalledFunction_def getOrInsertPoll_def)
qed

lemma insertManagedSafepointPolls_facts:
  fixes loopsOf :: "nat \<Rightarrow> loop list" and pointerOrder :: "nat set \<Rightarrow> nat list"
  assumes "wellNumbered (gm_functions M)" "\<And>S. finite S \<Longrightarrow> set (pointerOrder S) = S" "getOrInsertPoll (gm_functions M) = (poll, m)"
  defines "m' \<equiv> gm_functions (insertManagedSafepointPolls loopsOf pointerOrder M)"
  shows "list_all2 (functionPolled loopsOf m (gm_attributes M)) m m'"
    and "mset (modulePollIDs m m') = mset (map of_nat [1 ..< Suc (length (modulePollIDs m m'))])"
proof -
  obtain pf new where p: "m = gm_functions M @ new" "getCalledFunction m (VFunc poll) = Some pf" "fn_name pf = kRuntimeSafepointPollSymbol"
    "wellNumbered m" by (rule getOrInsertPoll_facts [OF assms(3,1)])
  have m': "m' = insertModulePolls loopsOf pointerOrder m (gm_attributes M) poll m (of_nat 1)"
    unfolding m'_def by (simp add: insertManagedSafepointPolls_def assms(3) kFirstMVMStatepointID_def)
  have "list_all (\<lambda>f. distinct (map in_id (instructionsOf f))) m" using p(4) by (simp add: wellNumbered_def list_all_iff)
  note facts = insertModulePolls_facts [OF this p(2,3) assms(2), of loopsOf "gm_attributes M" 1, folded m']
  show "list_all2 (functionPolled loopsOf m (gm_attributes M)) m m'" using facts by blast
  obtain k where k: "mset (modulePollIDs m m') = mset (map of_nat [1 ..< 1 + k])" using facts by blast
  then have "length (modulePollIDs m m') = k" by (metis add_diff_cancel_left' length_map length_upt size_mset)
  then show "mset (modulePollIDs m m') = mset (map of_nat [1 ..< Suc (length (modulePollIDs m m'))])" using k by simp
qed

end
