(* ===== verification/GC_Pass_Properties.thy ===== *)
theory GC_Pass_Properties
  imports GC_Poll_Facts
begin

text \<open>
  Properties of the passes that place safepoints: which functions are exempt, and what every other
  function gets.
\<close>

section \<open>A module with a loop that allocates\<close>

definition allocFunction :: ir_function where
  "allocFunction = \<lparr>fn_id = 0, fn_name = ''__mvm_malloc_typed'', fn_isDeclaration = True, fn_hasAddressTaken = False,
     fn_isVarArg = False, fn_params = [True], fn_returnsPointer = True, fn_blocks = []\<rparr>"

definition mainFunction :: ir_function where
  "mainFunction = \<lparr>fn_id = 1, fn_name = ''main'', fn_isDeclaration = False, fn_hasAddressTaken = False,
     fn_isVarArg = False, fn_params = [], fn_returnsPointer = False,
     fn_blocks = [[\<lparr>in_id = 0, in_isPointer = True, in_op = OCall (VFunc 0) [VGlobalVariable ''t'' False]\<rparr>,
                   \<lparr>in_id = 1, in_isPointer = True, in_op = OCall (VFunc 0) [VGlobalVariable ''t'' False]\<rparr>,
                   \<lparr>in_id = 2, in_isPointer = False, in_op = OOther\<rparr>],
                  [\<lparr>in_id = 3, in_isPointer = False, in_op = OCall (VFunc 2) []\<rparr>, \<lparr>in_id = 4, in_isPointer = False, in_op = OOther\<rparr>],
                  [\<lparr>in_id = 5, in_isPointer = False, in_op = ORet None\<rparr>]]\<rparr>"

definition helperFunction :: ir_function where
  "helperFunction = \<lparr>fn_id = 2, fn_name = ''helper'', fn_isDeclaration = False, fn_hasAddressTaken = False,
     fn_isVarArg = False, fn_params = [], fn_returnsPointer = False,
     fn_blocks = [[\<lparr>in_id = 0, in_isPointer = False, in_op = ORet None\<rparr>]]\<rparr>"

definition noAttributes :: attribute_store where
  "noAttributes = \<lparr>as_gcLeaf = {}, as_gc = Map.empty, as_framePointerAll = {}, as_noInline = {}\<rparr>"

definition exampleModule :: gc_module where
  "exampleModule = \<lparr>gm_functions = [allocFunction, mainFunction, helperFunction], gm_attributes = noAttributes,
     gm_moduleMetadata = None, gm_functionMetadata = None\<rparr>"

definition exampleLoops :: "nat \<Rightarrow> loop list" where
  "exampleLoops g = (if g = 1 then [Loop [1] []] else [])"

definition exampleHasLoops :: "ir_function \<Rightarrow> bool" where
  "exampleHasLoops f \<longleftrightarrow> exampleLoops (fn_id f) \<noteq> []"

lemmas example_defs = allocFunction_def mainFunction_def helperFunction_def exampleModule_def noAttributes_def

lemma exampleModule_wellNumbered: "wellNumbered (gm_functions exampleModule)"
  by (simp add: example_defs wellNumbered_def instructionsOf_def)

section \<open>Leaves\<close>

text \<open>C31. The leaf inference ends, and a function carries the leaf attribute afterwards exactly when its
  calls need no safepoint: it was declared a leaf, or is a known runtime function, or it has a body
  without loops whose calls all go to intrinsics or to such functions, with no allocation and no
  indirect call.  The other attributes are untouched.\<close>

theorem leaf_inference_exact:
  "\<exists>at'. inferManagedGCLeafFunctions hasLoops m at = Some at' \<and>
    as_gcLeaf at' = {g. needsNoSafepoint hasLoops m (declaredLeaves m at) g} \<and>
    at'\<lparr>as_gcLeaf := as_gcLeaf at\<rparr> = at"
proof -
  obtain at' where "inferManagedGCLeafFunctions hasLoops m at = Some at'"
    "as_gcLeaf at' = Collect (needsNoSafepoint hasLoops m (declaredLeaves m at))" "at'\<lparr>as_gcLeaf := as_gcLeaf at\<rparr> = at\<lparr>as_gcLeaf := as_gcLeaf at\<rparr>"
    by (rule infer_exact)
  then show ?thesis by simp
qed

section \<open>Polls\<close>

text \<open>C32. The insertion of polls only adds poll calls: without them every function is as before.  In a
  managed function every allocation call that is not the last instruction of its block is followed by
  a poll, and every latch of every loop ends with one.  The identifiers of the new polls are 1, 2, ...,
  each used once (modulo 2^64).\<close>

theorem safepoint_polls_exact:
  assumes "wellNumbered (gm_functions M)" "\<And>S. finite S \<Longrightarrow> set (pointerOrder S) = S"
    and "getOrInsertPoll (gm_functions M) = (poll, m)"
    and "insertManagedSafepointPolls loopsOf pointerOrder M = M'"
  shows "list_all2 (functionPolled loopsOf m (gm_attributes M)) m (gm_functions M') \<and>
    mset (modulePollIDs m (gm_functions M')) = mset (map of_nat [1 ..< Suc (length (modulePollIDs m (gm_functions M')))])"
  using insertManagedSafepointPolls_facts [OF assms(1-3), of loopsOf] assms(4) by simp

definition examplePoll :: "nat \<Rightarrow> u64 \<Rightarrow> instruction" where
  "examplePoll k n = \<lparr>in_id = k, in_isPointer = False, in_op = OCall (VFunc 3) [VInt 64 (unat n)]\<rparr>"

text \<open>The example after the pass: a poll after each allocation and one in the latch.\<close>

lemma example_polled:
  "getOrInsertPoll (gm_functions exampleModule) = (3, gm_functions exampleModule @ [\<lparr>fn_id = 3, fn_name = kRuntimeSafepointPollSymbol,
          fn_isDeclaration = True, fn_hasAddressTaken = False, fn_isVarArg = False, fn_params = [False],
          fn_returnsPointer = False, fn_blocks = []\<rparr>])"
  by (simp add: example_defs getOrInsertPoll_def freshFunction_def kRuntimeSafepointPollSymbol_def)

lemma safepoint_polls_exact_witness:
  "list_all2 (functionPolled exampleLoops (snd (getOrInsertPoll (gm_functions exampleModule))) noAttributes)
     (snd (getOrInsertPoll (gm_functions exampleModule)))
     (gm_functions (insertManagedSafepointPolls exampleLoops sorted_list_of_set exampleModule))"
proof -
  have a: "set (sorted_list_of_set S) = S" if "finite S" for S :: "nat set" using that by simp
  show ?thesis
    using safepoint_polls_exact [OF exampleModule_wellNumbered a prod.collapse [symmetric] refl, of exampleLoops]
    by (simp add: exampleModule_def)
qed

section \<open>Both together\<close>

lemma attachManagedGC_facts:
  "as_gcLeaf (snd (attachManagedGC fs b at)) = as_gcLeaf at \<and>
   (\<forall>f \<in> set fs. shouldAttachManagedGC at f \<longrightarrow> isManagedGCFunction (snd (attachManagedGC fs b at)) f \<and> fst (attachManagedGC fs b at)) \<and>
   (b \<longrightarrow> fst (attachManagedGC fs b at)) \<and>
   (\<forall>g. as_gc at g = Some kManagedGCStrategy \<longrightarrow> as_gc (snd (attachManagedGC fs b at)) g = Some kManagedGCStrategy)"
proof (induction fs arbitrary: b at)
  case Nil then show ?case by simp
next
  case (Cons f fs)
  let ?at = "at\<lparr>as_gc := (as_gc at)(fn_id f \<mapsto> kManagedGCStrategy), as_framePointerAll := insert (fn_id f) (as_framePointerAll at)\<rparr>"
  have same: "shouldAttachManagedGC ?at = shouldAttachManagedGC at" by (rule ext) (simp add: shouldAttachManagedGC_def)
  have "shouldAttachManagedGC at f \<Longrightarrow> \<not> fn_isDeclaration f" by (auto simp: shouldAttachManagedGC_def)
  then show ?case using Cons.IH [of b at] Cons.IH [of True ?at] unfolding same by (auto simp: isManagedGCFunction_def)
qed

lemma prepare_facts:
  assumes "prepareManagedGCModule hasLoops M = Some M1" "wellNumbered (gm_functions M)" "f \<in> set (gm_functions M)"
    "\<not> fn_isDeclaration f" "\<not> isIntrinsic f"
  obtains poll new where "getOrInsertPoll (gm_functions M1) = (poll, gm_functions M @ new)"
    "wellNumbered (gm_functions M1)"
    "isManagedGCFunction (gm_attributes M1) f \<or> needsNoSafepoint hasLoops (gm_functions M) (declaredLeaves (gm_functions M) (gm_attributes M)) (fn_id f)"
proof -
  let ?m = "gm_functions M" and ?D = "declaredLeaves (gm_functions M) (gm_attributes M)"
  obtain at where at: "inferManagedGCLeafFunctions hasLoops ?m (gm_attributes M) = Some at"
    "as_gcLeaf at = Collect (needsNoSafepoint hasLoops ?m ?D)" by (rule infer_exact)
  obtain b at2 where a: "attachManagedGC ?m False at = (b, at2)" by (cases "attachManagedGC ?m False at")
  note facts = attachManagedGC_facts [of ?m False at, unfolded a, simplified]
  have managed: "isManagedGCFunction at2 f \<and> b \<or> needsNoSafepoint hasLoops ?m ?D (fn_id f)"
    using facts assms(3-5) at(2) by (auto simp: shouldAttachManagedGC_def)
  obtain poll m where p: "getOrInsertPoll ?m = (poll, m)" by (cases "getOrInsertPoll ?m")
  obtain pf new where n: "m = ?m @ new" "wellNumbered m" "getOrInsertPoll m = (poll, m)"
    by (rule getOrInsertPoll_facts [OF p assms(2)])
  show thesis
  proof (cases b)
    case False
    then have "gm_functions M1 = ?m" using assms(1) at(1) a by (auto simp: prepareManagedGCModule_def clearGCMetadata_def)
    then show thesis using that [of poll new] p n(1) managed assms(2) False by auto
  next
    case True
    then have "gm_functions M1 = m" "gm_attributes M1 = at2\<lparr>as_noInline := insert poll (as_noInline at2),
                        as_framePointerAll := insert poll (as_framePointerAll at2)\<rparr>"
      using assms(1) at(1) a p by (auto simp: prepareManagedGCModule_def clearGCMetadata_def)
    then show thesis using that [of poll new] n managed by (auto simp: isManagedGCFunction_def)
  qed
qed

lemma leaf_allocates_not:
  assumes "needsNoSafepoint hasLoops m D (fn_id f)" "fn_id f \<notin> D" "f \<in> set m" "wellNumbered m" "i \<in> set (instructionsOf f)"
  shows "\<not> isRuntimeAllocationCall (m @ new) i"
  using assms(1)
proof (cases rule: needsNoSafepoint.cases)
  case declared then show ?thesis using assms(2) by simp
next
  case (body f')
  have "f' = f" using functionAt_member [OF assms(4)] body(1,2) assms(3) by (metis option.inject)
  show ?thesis
  proof (cases "in_op i")
    case (OCall callee args)
    obtain h where h: "getCalledFunction m callee = Some h" "\<not> isRuntimeAllocationCall m i"
      using body(6) \<open>f' = f\<close> assms(5) OCall by blast
    then have "getCalledFunction (m @ new) callee = Some h"
      by (auto simp: getCalledFunction_def functionAt_append split: val.splits)
    then show ?thesis using h OCall by (simp add: isRuntimeAllocationCall_def)
  qed (simp_all add: isRuntimeAllocationCall_def)
qed

lemma leaf_loops_not:
  assumes "needsNoSafepoint hasLoops m D (fn_id f)" "fn_id f \<notin> D" "f \<in> set m" "wellNumbered m"
  shows "\<not> functionHasLoop hasLoops f"
  using assms(1)
proof (cases rule: needsNoSafepoint.cases)
  case declared then show ?thesis using assms(2) by simp
next
  case (body f')
  have "f' = f" using functionAt_member [OF assms(4)] body(1,2) assms(3) by (metis option.inject)
  then show ?thesis using body(5) by simp
qed

lemma poll_is_no_allocation: "isDirectSafepointPollCall m i \<Longrightarrow> \<not> isRuntimeAllocationCall m i"
  by (auto simp: isDirectSafepointPollCall_def isRuntimeAllocationCall_def kRuntimeSafepointPollSymbol_def isRuntimeAllocationFunctionName_def
    split: operation.splits option.splits)

lemma polled_allocation:
  assumes "functionPolled loopsOf m at f f'" "isManagedGCFunction at f" "b \<in> set (fn_blocks f')" "i \<in> set b" "isRuntimeAllocationCall m i"
  shows "in_id i \<in> allocationCalls m f"
proof -
  have i: "i \<in> set (instructionsOf f')" using assms(3,4) by (auto simp: instructionsOf_def)
  have "in_id i \<in> idsOf f"
  proof (rule ccontr)
    assume "in_id i \<notin> idsOf f"
    then have "i \<in> set (newInstructions f f')" using i by (simp add: newInstructions_def)
    then have "isDirectSafepointPollCall m i" using assms(1,2) by (auto simp: functionPolled_def list_all_iff)
    then show False using poll_is_no_allocation assms(5) by blast
  qed
  then have "i \<in> set (concat (map (filter (\<lambda>i. in_id i \<in> idsOf f)) (fn_blocks f')))" using assms(3,4) by auto
  moreover have "map (filter (\<lambda>i. in_id i \<in> idsOf f)) (fn_blocks f') = fn_blocks f" using assms(1,2) by (simp add: functionPolled_def)
  ultimately have "i \<in> set (instructionsOf f)" by (simp only: instructionsOf_def)
  then show ?thesis using assms(5) by (simp add: allocationCalls_def)
qed

text \<open>C30. After both passes no allocation and no loop escapes the collector: in every function with a body
  that was not declared a leaf beforehand, each allocation call is followed by a poll unless it is the
  last instruction of its block, and each latch of each loop ends with a poll.\<close>

theorem allocations_are_polled:
  assumes "prepareManagedGCModule (\<lambda>f. loopsOf (fn_id f) \<noteq> []) M = Some M1" "wellNumbered (gm_functions M)"
    and "\<And>S. finite S \<Longrightarrow> set (pointerOrder S) = S" "f \<in> set (gm_functions M)" "\<not> fn_isDeclaration f" "\<not> isIntrinsic f"
    and "fn_id f \<notin> declaredLeaves (gm_functions M) (gm_attributes M)"
    and "getOrInsertPoll (gm_functions M1) = (poll, m)"
  shows "\<exists>f'. f' \<in> set (gm_functions (insertManagedSafepointPolls loopsOf pointerOrder M1)) \<and> fn_id f' = fn_id f \<and>
    list_all (followed (isRuntimeAllocationCall m) (isDirectSafepointPollCall m)) (fn_blocks f') \<and>
    latchesPolled m (functionLatches loopsOf f) f'"
proof -
  let ?D = "declaredLeaves (gm_functions M) (gm_attributes M)"
  obtain new where m: "m = gm_functions M @ new" "wellNumbered (gm_functions M1)"
    "isManagedGCFunction (gm_attributes M1) f \<or> needsNoSafepoint (\<lambda>f. loopsOf (fn_id f) \<noteq> []) (gm_functions M) ?D (fn_id f)"
    by (rule prepare_facts [OF assms(1,2,4-6)]) (use assms(8) in simp)
  have "list_all2 (functionPolled loopsOf m (gm_attributes M1)) m (gm_functions (insertManagedSafepointPolls loopsOf pointerOrder M1))"
    by (rule insertManagedSafepointPolls_facts(1) [OF m(2) assms(3,8)])
  moreover have "f \<in> set m" using m(1) assms(4) by simp
  ultimately obtain f' where f': "f' \<in> set (gm_functions (insertManagedSafepointPolls loopsOf pointerOrder M1))"
    "functionPolled loopsOf m (gm_attributes M1) f f'"
    by (auto simp: list_all2_conv_all_nth in_set_conv_nth) metis
  have "fn_id f' = fn_id f"
    using f'(2) by (auto simp: functionPolled_def sameButBlocks_def split: if_splits) (metis ir_function.select_convs(1) ir_function.surjective ir_function.update_convs(8))
  moreover have "list_all (followed (isRuntimeAllocationCall m) (isDirectSafepointPollCall m)) (fn_blocks f') \<and> latchesPolled m (functionLatches loopsOf f) f'"
  proof (cases "isManagedGCFunction (gm_attributes M1) f")
    case True
    have a: "in_id i \<in> allocationCalls m f" if "b \<in> set (fn_blocks f')" "i \<in> set b" "isRuntimeAllocationCall m i" for i b
      using polled_allocation [OF f'(2) True that] .
    then show ?thesis using f'(2) True
      by (auto simp: functionPolled_def allocationsPolled_def list_all_iff intro: followed_mono)
  next
    case False
    then have leaf: "needsNoSafepoint (\<lambda>f. loopsOf (fn_id f) \<noteq> []) (gm_functions M) ?D (fn_id f)" and "f' = f"
      using m(3) f'(2) by (auto simp: functionPolled_def)
    have "\<not> isRuntimeAllocationCall m i" if "i \<in> set (instructionsOf f)" for i
      unfolding m(1) by (rule leaf_allocates_not [OF leaf assms(7,4,2) that])
    moreover have "functionLatches loopsOf f = {} \<or> fn_blocks f = []"
      using leaf_loops_not [OF leaf assms(7,4,2)] by (auto simp: functionLatches_def functionHasLoop_def)
    ultimately show ?thesis using \<open>f' = f\<close>
      by (auto simp: list_all_iff latchesPolled_def instructionsOf_def intro!: followed_none)
  qed
  ultimately show ?thesis using f'(1) by blast
qed

lemma prepare_ends: "\<exists>M1. prepareManagedGCModule hasLoops M = Some M1"
proof -
  obtain at where "inferManagedGCLeafFunctions hasLoops (gm_functions M) (gm_attributes M) = Some at"
    using infer_exact by blast
  then show ?thesis by (simp add: prepareManagedGCModule_def Let_def case_prod_beta)
qed

lemma set_elim:
  assumes "f \<in> set [a, b, c]"
  obtains "f = a" | "f = b" | "f = c"
  using assms by auto

lemma allocations_are_polled_witness:
  "\<exists>M1. prepareManagedGCModule (\<lambda>f. exampleLoops (fn_id f) \<noteq> []) exampleModule = Some M1 \<and>
    (\<exists>f' poll m. getOrInsertPoll (gm_functions M1) = (poll, m) \<and>
      f' \<in> set (gm_functions (insertManagedSafepointPolls exampleLoops sorted_list_of_set M1)) \<and> fn_id f' = 1 \<and>
      list_all (followed (isRuntimeAllocationCall m) (isDirectSafepointPollCall m)) (fn_blocks f') \<and> latchesPolled m {1} f')"
proof -
  obtain M1 where M1: "prepareManagedGCModule (\<lambda>f. exampleLoops (fn_id f) \<noteq> []) exampleModule = Some M1"
    using prepare_ends by blast
  have order: "set (sorted_list_of_set S) = S" if "finite S" for S :: "nat set" using that by simp
  have f: "mainFunction \<in> set (gm_functions exampleModule)" "\<not> fn_isDeclaration mainFunction" "\<not> isIntrinsic mainFunction"
    "fn_id mainFunction = 1" "functionLatches exampleLoops mainFunction = {1}"
    by (simp_all add: example_defs isIntrinsic_def functionLatches_def exampleLoops_def)
  have name: "fn_name f = ''main''" if "f \<in> set [allocFunction, mainFunction, helperFunction]" "fn_id f = 1" for f
    using that by (elim set_elim) (simp_all add: allocFunction_def mainFunction_def helperFunction_def)
  have "\<not> isKnownRuntimeGCLeafFunctionName ''main''" by (simp add: isKnownRuntimeGCLeafFunctionName_def)
  have "1 \<notin> {fn_id f | f. f \<in> set [allocFunction, mainFunction, helperFunction] \<and> isKnownRuntimeGCLeafFunctionName (fn_name f)}"
  proof -
    have "\<not> isKnownRuntimeGCLeafFunctionName (fn_name g)" if "g \<in> set [allocFunction, mainFunction, helperFunction]" "1 = fn_id g" for g
      using \<open>\<not> isKnownRuntimeGCLeafFunctionName ''main''\<close> name [OF that(1) that(2) [symmetric]] by simp
    then show ?thesis unfolding mem_Collect_eq by blast
  qed
  then have "fn_id mainFunction \<notin> declaredLeaves (gm_functions exampleModule) (gm_attributes exampleModule)"
    unfolding declaredLeaves_def f(4) by (simp only: exampleModule_def noAttributes_def gc_module.select_convs attribute_store.select_convs Un_empty_left not_False_eq_True)
  note leaf = this
  obtain poll m where pm: "getOrInsertPoll (gm_functions M1) = (poll, m)" by (cases "getOrInsertPoll (gm_functions M1)")
  obtain f' where "f' \<in> set (gm_functions (insertManagedSafepointPolls exampleLoops sorted_list_of_set M1))" "fn_id f' = 1"
    "list_all (followed (isRuntimeAllocationCall m) (isDirectSafepointPollCall m)) (fn_blocks f')" "latchesPolled m {1} f'"
    using allocations_are_polled [where pointerOrder = sorted_list_of_set, OF M1 exampleModule_wellNumbered _ f(1-3) leaf pm]
    unfolding f(4,5) by (elim meta_impE exE conjE) (simp_all add: order)
  then show ?thesis using M1 pm by (intro exI conjI)
qed

end
