(* ===== verification/Managed_Dispatch.thy ===== *)
theory Managed_Dispatch
  imports Managed_State
begin

text \<open>
  The specialisation of functions by the kinds of their pointer arguments:
  \<open>src/src/mvm/managed_dispatch.cc\<close>.  Calls are named by their function and number.  The parameters are
  \<open>strip\<close>, \<open>stripPointerCasts\<close> in a module, and \<open>unique\<close>, the name \<open>setName\<close> ends up with in a module
  with the given names.  The linkage of functions is not part of the model.
\<close>

section \<open>Signatures\<close>

datatype DispatchArgKind = DGeneric | DRaw | DObject | DArray

type_synonym DispatchSignature = "DispatchArgKind list"

definition hasSpecialization :: "DispatchSignature \<Rightarrow> bool" where
  "hasSpecialization signature \<longleftrightarrow> list_ex (\<lambda>kind. kind \<noteq> DGeneric) signature"

record CallRecord =
  cr_caller :: nat
  cr_call :: nat
  cr_signature :: DispatchSignature

definition toDispatchArgKind :: "PointerState \<Rightarrow> DispatchArgKind" where
  "toDispatchArgKind state =
     (case dispatchKind state of PRaw \<Rightarrow> DRaw | PObject \<Rightarrow> DObject | PArray \<Rightarrow> DArray | PUnknown \<Rightarrow> DGeneric)"

definition renderDispatchArgKind :: "DispatchArgKind \<Rightarrow> string" where
  "renderDispatchArgKind kind =
     (case kind of DGeneric \<Rightarrow> ''generic'' | DRaw \<Rightarrow> ''raw'' | DObject \<Rightarrow> ''object'' | DArray \<Rightarrow> ''array'')"

definition shouldSpecializeFunction :: "ir_function \<Rightarrow> bool" where
  "shouldSpecializeFunction f \<longleftrightarrow> \<not> fn_isDeclaration f \<and> \<not> fn_hasAddressTaken f \<and> \<not> fn_isVarArg f"

text \<open>The loop over the arguments, with the number of the parameter.\<close>

fun fillSignature :: "ir_module \<Rightarrow> analysis \<Rightarrow> nat \<Rightarrow> val list \<Rightarrow> DispatchSignature \<Rightarrow> DispatchSignature" where
  "fillSignature m a n [] signature = signature"
| "fillSignature m a n (arg # args) signature =
     (if n \<ge> length signature then signature
      else fillSignature m a (Suc n) args
        (if isPointerValue m arg then signature[n := toDispatchArgKind (getValueState m a arg)] else signature))"

definition buildDispatchSignature :: "ir_module \<Rightarrow> analysis \<Rightarrow> val list \<Rightarrow> ir_function \<Rightarrow> DispatchSignature" where
  "buildDispatchSignature m a args callee = fillSignature m a 0 args (replicate (length (fn_params callee)) DGeneric)"

definition containsSignature :: "DispatchSignature list \<Rightarrow> DispatchSignature \<Rightarrow> bool" where
  "containsSignature signatures signature \<longleftrightarrow> list_ex (\<lambda>candidate. candidate = signature) signatures"

fun cloneSuffix :: "nat \<Rightarrow> DispatchSignature \<Rightarrow> string" where
  "cloneSuffix n [] = []"
| "cloneSuffix n (kind # kinds) =
     (if kind = DGeneric then [] else ''.arg'' @ showNat n @ ''_'' @ renderDispatchArgKind kind) @ cloneSuffix (Suc n) kinds"

definition buildCloneName :: "ir_function \<Rightarrow> DispatchSignature \<Rightarrow> string" where
  "buildCloneName f signature = fn_name f @ ''.__mvm'' @ cloneSuffix 0 signature"

definition findClone :: "(DispatchSignature \<times> nat) list \<Rightarrow> DispatchSignature \<Rightarrow> nat option" where
  "findClone clones signature = map_option snd (List.find (\<lambda>(candidate, clone). candidate = signature) clones)"

section \<open>The calls of a module\<close>

definition callRecord :: "(val \<Rightarrow> val) \<Rightarrow> ir_module \<Rightarrow> analysis \<Rightarrow> ir_function \<Rightarrow> instruction \<Rightarrow> (nat \<times> CallRecord) list" where
  "callRecord strip m a f i =
     (case in_op i of
        OCall calleeOperand args \<Rightarrow>
          (case getDirectCallee strip calleeOperand of
             None \<Rightarrow> []
           | Some g \<Rightarrow>
               (case functionAt m g of
                  None \<Rightarrow> []
                | Some callee \<Rightarrow>
                    if \<not> shouldSpecializeFunction callee then []
                    else [(g, \<lparr>cr_caller = fn_id f, cr_call = in_id i, cr_signature = buildDispatchSignature m a args callee\<rparr>)]))
      | _ \<Rightarrow> [])"

definition callMap :: "(val \<Rightarrow> val) \<Rightarrow> ir_module \<Rightarrow> analysis \<Rightarrow> (nat \<times> CallRecord) list" where
  "callMap strip m a = concat (map (\<lambda>f. concat (map (callRecord strip m a f) (instructionsOf f))) m)"

definition callsOf :: "(nat \<times> CallRecord) list \<Rightarrow> nat \<Rightarrow> CallRecord list" where
  "callsOf calls g = map snd (filter (\<lambda>(h, _). h = g) calls)"

text \<open>The specialised signatures of a function's calls, and whether there is a generic call.\<close>

fun specializedSignatures :: "CallRecord list \<Rightarrow> DispatchSignature list \<Rightarrow> bool \<Rightarrow> DispatchSignature list \<times> bool" where
  "specializedSignatures [] signatures sawGenericCall = (signatures, sawGenericCall)"
| "specializedSignatures (r # rs) signatures sawGenericCall =
     (if \<not> hasSpecialization (cr_signature r) then specializedSignatures rs signatures True
      else specializedSignatures rs
        (if \<not> containsSignature signatures (cr_signature r) then signatures @ [cr_signature r] else signatures) sawGenericCall)"

section \<open>Cloning and redirecting\<close>

text \<open>\<open>CloneFunction\<close> maps the arguments and instructions of the function to those of the clone.\<close>

definition cloneVal :: "nat \<Rightarrow> nat \<Rightarrow> val \<Rightarrow> val" where
  "cloneVal g g' v =
     (case v of
        VInst h k \<Rightarrow> if h = g then VInst g' k else v
      | VArg h n \<Rightarrow> if h = g then VArg g' n else v
      | _ \<Rightarrow> v)"

definition mapOperands :: "(val \<Rightarrow> val) \<Rightarrow> operation \<Rightarrow> operation" where
  "mapOperands r p =
     (case p of
        OAlloca b \<Rightarrow> OAlloca b
      | OGep v b \<Rightarrow> OGep (r v) b
      | OPhi vs \<Rightarrow> OPhi (map r vs)
      | OSelect v w \<Rightarrow> OSelect (r v) (r w)
      | OFreeze v \<Rightarrow> OFreeze (r v)
      | OLoad v \<Rightarrow> OLoad (r v)
      | OStore v w \<Rightarrow> OStore (r v) (r w)
      | OCall v vs \<Rightarrow> OCall (r v) (map r vs)
      | ORet v \<Rightarrow> ORet (map_option r v)
      | OOther \<Rightarrow> OOther)"

definition cloneFunction :: "nat \<Rightarrow> string \<Rightarrow> ir_function \<Rightarrow> ir_function" where
  "cloneFunction g' name f =
     f\<lparr>fn_id := g', fn_name := name,
       fn_blocks := map (map (\<lambda>i. i\<lparr>in_op := mapOperands (cloneVal (fn_id f) g') (in_op i)\<rparr>)) (fn_blocks f)\<rparr>"

fun cloneAll :: "(string list \<Rightarrow> string \<Rightarrow> string) \<Rightarrow> nat \<Rightarrow> DispatchSignature list \<Rightarrow> (DispatchSignature \<times> nat) list \<Rightarrow> ir_module \<Rightarrow>
   (DispatchSignature \<times> nat) list \<times> ir_module" where
  "cloneAll unique g [] clones m = (clones, m)"
| "cloneAll unique g (signature # signatures) clones m =
     (case functionAt m g of
        None \<Rightarrow> (clones, m)
      | Some f \<Rightarrow>
          let clone = freshFunction m;
              name = unique (map fn_name m) (buildCloneName f signature)
          in cloneAll unique g signatures (clones @ [(signature, clone)]) (m @ [cloneFunction clone name f]))"

definition setCalledFunction :: "nat \<Rightarrow> nat \<Rightarrow> nat \<Rightarrow> ir_module \<Rightarrow> ir_module" where
  "setCalledFunction caller call clone m =
     map (\<lambda>f. if fn_id f \<noteq> caller then f
       else f\<lparr>fn_blocks := map (map (\<lambda>i. if in_id i \<noteq> call then i
         else i\<lparr>in_op := (case in_op i of OCall _ args \<Rightarrow> OCall (VFunc clone) args | p \<Rightarrow> p)\<rparr>)) (fn_blocks f)\<rparr>) m"

definition redirectCalls :: "(DispatchSignature \<times> nat) list \<Rightarrow> CallRecord list \<Rightarrow> ir_module \<Rightarrow> ir_module" where
  "redirectCalls clones records m = fold (\<lambda>r m.
     case findClone clones (cr_signature r) of
       Some clone \<Rightarrow> setCalledFunction (cr_caller r) (cr_call r) clone m
     | None \<Rightarrow> m) records m"

section \<open>A round\<close>

fun specializeFunctions :: "(string list \<Rightarrow> string \<Rightarrow> string) \<Rightarrow> (nat \<times> CallRecord) list \<Rightarrow> nat list \<Rightarrow> bool \<Rightarrow> ir_module \<Rightarrow> bool \<times> ir_module" where
  "specializeFunctions unique calls [] changed m = (changed, m)"
| "specializeFunctions unique calls (g # gs) changed m =
     (if \<not> (case functionAt m g of Some f \<Rightarrow> shouldSpecializeFunction f | None \<Rightarrow> False) then specializeFunctions unique calls gs changed m
      else if callsOf calls g = [] then specializeFunctions unique calls gs changed m
      else let (signatures, sawGenericCall) = specializedSignatures (callsOf calls g) [] False
        in if signatures = [] then specializeFunctions unique calls gs changed m
           else if length signatures = 1 \<and> \<not> sawGenericCall then specializeFunctions unique calls gs changed m
           else let (clones, m) = cloneAll unique g signatures [] m
             in specializeFunctions unique calls gs True (redirectCalls clones (callsOf calls g) m))"

definition specializeManagedDispatchRound ::
  "(ir_module \<Rightarrow> val \<Rightarrow> val) \<Rightarrow> (string list \<Rightarrow> string \<Rightarrow> string) \<Rightarrow> ir_module \<Rightarrow> (bool \<times> ir_module) option" where
  "specializeManagedDispatchRound strip unique m =
     (case analyse (strip m) m of
        None \<Rightarrow> None
      | Some a \<Rightarrow> Some (specializeFunctions unique (callMap (strip m) m a) (map fn_id m) False m))"

partial_function (option) specializeManagedDispatch ::
  "(ir_module \<Rightarrow> val \<Rightarrow> val) \<Rightarrow> (string list \<Rightarrow> string \<Rightarrow> string) \<Rightarrow> ir_module \<Rightarrow> ir_module option" where
  "specializeManagedDispatch strip unique m =
     (case specializeManagedDispatchRound strip unique m of
        None \<Rightarrow> None
      | Some (changed, m') \<Rightarrow> if changed then specializeManagedDispatch strip unique m' else Some m')"

declare specializeManagedDispatch.simps [code]

end
