(* ===== verification/Dispatch_Loop.thy ===== *)
theory Dispatch_Loop
  imports Managed_Dispatch Managed_Flow
begin

text \<open>
  A family of modules that the specialisation never leaves: a recursive function is called with an
  object and with an array.  Its own call stays generic, so every clone calls the original again with
  one kind, and every round clones it for these calls.
\<close>

section \<open>The modules\<close>

definition allocObject :: ir_function where
  "allocObject = \<lparr>fn_id = 0, fn_name = ''__mvm_malloc'', fn_isDeclaration = True, fn_hasAddressTaken = False,
     fn_isVarArg = False, fn_params = [], fn_returnsPointer = True, fn_blocks = []\<rparr>"

definition allocArray :: ir_function where
  "allocArray = \<lparr>fn_id = 1, fn_name = ''__mvm_array_malloc'', fn_isDeclaration = True, fn_hasAddressTaken = False,
     fn_isVarArg = False, fn_params = [False], fn_returnsPointer = True, fn_blocks = []\<rparr>"

text \<open>\<open>void walk(ptr p) { if (...) target(p); }\<close>\<close>

definition walker :: "string \<Rightarrow> nat \<Rightarrow> nat \<Rightarrow> ir_function" where
  "walker name g target = \<lparr>fn_id = g, fn_name = name, fn_isDeclaration = False, fn_hasAddressTaken = False,
     fn_isVarArg = False, fn_params = [True], fn_returnsPointer = False,
     fn_blocks = [[\<lparr>in_id = 0, in_isPointer = False, in_op = OOther\<rparr>],
                  [\<lparr>in_id = 1, in_isPointer = False, in_op = OCall (VFunc target) [VArg g 0]\<rparr>,
                   \<lparr>in_id = 2, in_isPointer = False, in_op = ORet None\<rparr>]]\<rparr>"

text \<open>\<open>main\<close> calls one function with a new object and one with a new array.\<close>

definition mainOf :: "nat \<Rightarrow> nat \<Rightarrow> ir_function" where
  "mainOf u v = \<lparr>fn_id = 3, fn_name = ''main'', fn_isDeclaration = False, fn_hasAddressTaken = False,
     fn_isVarArg = False, fn_params = [], fn_returnsPointer = False,
     fn_blocks = [[\<lparr>in_id = 0, in_isPointer = True, in_op = OCall (VFunc 0) []\<rparr>,
                   \<lparr>in_id = 1, in_isPointer = True, in_op = OCall (VFunc 1) [VInt 64 4]\<rparr>,
                   \<lparr>in_id = 2, in_isPointer = False, in_op = OCall (VFunc u) [VInst 3 0]\<rparr>,
                   \<lparr>in_id = 3, in_isPointer = False, in_op = OCall (VFunc v) [VInst 3 1]\<rparr>,
                   \<lparr>in_id = 4, in_isPointer = False, in_op = ORet None\<rparr>]]\<rparr>"

text \<open>The clones of the rounds so far, a pair for each round, each calling the clone of the next one.
  The last pair calls \<open>s\<close> and \<open>t\<close>.\<close>

type_synonym clones = "(string \<times> nat \<times> string \<times> nat) list"

fun objectHead :: "clones \<Rightarrow> nat \<Rightarrow> nat" where
  "objectHead [] s = s"
| "objectHead ((n, x, k, y) # ps) s = x"

fun arrayHead :: "clones \<Rightarrow> nat \<Rightarrow> nat" where
  "arrayHead [] t = t"
| "arrayHead ((n, x, k, y) # ps) t = y"

fun links :: "clones \<Rightarrow> nat \<Rightarrow> nat \<Rightarrow> ir_function list" where
  "links [] s t = []"
| "links ((n, x, k, y) # ps) s t = walker n x (objectHead ps s) # walker k y (arrayHead ps t) # links ps s t"

definition spun :: "clones \<Rightarrow> nat \<Rightarrow> nat \<Rightarrow> ir_module" where
  "spun ps s t = [allocObject, allocArray, walker ''walk'' 2 2, mainOf (objectHead ps s) (arrayHead ps t)] @ links ps s t"

definition objectIDs :: "clones \<Rightarrow> nat list" where "objectIDs ps = map (\<lambda>(n, x, k, y). x) ps"
definition arrayIDs :: "clones \<Rightarrow> nat list" where "arrayIDs ps = map (\<lambda>(n, x, k, y). y) ps"

definition freshClones :: "clones \<Rightarrow> bool" where
  "freshClones ps \<longleftrightarrow> distinct (objectIDs ps @ arrayIDs ps) \<and> list_all (\<lambda>x. 3 < x) (objectIDs ps @ arrayIDs ps)"

lemmas module_defs = allocObject_def allocArray_def walker_def mainOf_def

lemma links_ids: "fn_id ` set (links ps s t) = set (objectIDs ps) \<union> set (arrayIDs ps)"
  by (induction ps s t rule: links.induct) (auto simp: walker_def objectIDs_def arrayIDs_def)

lemma links_distinct: "freshClones ps \<Longrightarrow> distinct (map fn_id (links ps s t))"
proof (induction ps s t rule: links.induct)
  case (2 n x k y ps s t)
  have "freshClones ps" "x \<notin> set (objectIDs ps) \<union> set (arrayIDs ps)" "y \<notin> set (objectIDs ps) \<union> set (arrayIDs ps)" "x \<noteq> y"
    using 2(2) by (auto simp: freshClones_def objectIDs_def arrayIDs_def)
  then show ?case using 2(1) links_ids [of ps s t] by (auto simp: walker_def)
qed simp

lemma freshClones_ids:
  assumes "freshClones ps"
  shows "k \<le> 3 \<Longrightarrow> k \<notin> set (objectIDs ps)" "k \<le> 3 \<Longrightarrow> k \<notin> set (arrayIDs ps)" "set (objectIDs ps) \<inter> set (arrayIDs ps) = {}"
proof -
  have "3 < x" if "x \<in> set (objectIDs ps) \<union> set (arrayIDs ps)" for x
    using assms that by (simp add: freshClones_def list_all_iff)
  then show "k \<le> 3 \<Longrightarrow> k \<notin> set (objectIDs ps)" "k \<le> 3 \<Longrightarrow> k \<notin> set (arrayIDs ps)" by fastforce+
  show "set (objectIDs ps) \<inter> set (arrayIDs ps) = {}" using assms by (simp add: freshClones_def)
qed

lemma heads:
  "objectHead ps s \<in> insert s (set (objectIDs ps))" "arrayHead ps t \<in> insert t (set (arrayIDs ps))"
  by (cases ps; auto simp: objectIDs_def arrayIDs_def)+

lemma links_walkers:
  assumes "f \<in> set (links ps s t)"
  obtains n g u where "f = walker n g u"
    "g \<in> set (objectIDs ps) \<and> u \<in> insert s (set (objectIDs ps)) \<or> g \<in> set (arrayIDs ps) \<and> u \<in> insert t (set (arrayIDs ps))"
  using assms
proof (induction ps s t arbitrary: thesis rule: links.induct)
  case (1 s t) then show ?case by simp
next
  case (2 n x k y ps s t)
  note IH = 2(1) and prem = 2(2)
  have h: "objectHead ps s \<in> insert s (set (objectIDs ps))" "arrayHead ps t \<in> insert t (set (arrayIDs ps))" by (rule heads)+
  have ids: "objectIDs ((n, x, k, y) # ps) = x # objectIDs ps" "arrayIDs ((n, x, k, y) # ps) = y # arrayIDs ps"
    by (simp_all add: objectIDs_def arrayIDs_def)
  consider "f = walker n x (objectHead ps s)" | "f = walker k y (arrayHead ps t)" | "f \<in> set (links ps s t)" using 2(3) by auto
  then show ?case
  proof cases
    case 1 then show ?thesis using h(1) by (intro prem) (auto simp: ids)
  next
    case 2 then show ?thesis using h(2) by (intro prem) (auto simp: ids)
  next
    case 3
    show ?thesis by (rule IH [OF _ 3]) (rule prem, assumption, auto simp: ids)
  qed
qed

lemma spun_cases:
  assumes "f \<in> set (spun ps s t)"
  obtains "f = allocObject" | "f = allocArray" | "f = walker ''walk'' 2 2" | "f = mainOf (objectHead ps s) (arrayHead ps t)"
    | "f \<in> set (links ps s t)"
proof -
  have "f = allocObject \<or> f = allocArray \<or> f = walker ''walk'' 2 2 \<or> f = mainOf (objectHead ps s) (arrayHead ps t) \<or> f \<in> set (links ps s t)"
    using assms by (simp add: spun_def)
  then show thesis using that by blast
qed

lemma spun_wellNumbered:
  assumes "freshClones ps"
  shows "wellNumbered (spun ps s t)"
proof -
  have g: "3 < x" if "x \<in> fn_id ` set (links ps s t)" for x
    using assms that unfolding links_ids by (auto simp: freshClones_def list_all_iff)
  have n: "k \<notin> fn_id ` set (links ps s t)" if "k \<le> 3" for k using g [of k] that by fastforce
  have "map fn_id (spun ps s t) = [0, 1, 2, 3] @ map fn_id (links ps s t)" by (simp add: spun_def module_defs)
  moreover have "distinct ([0, 1, 2, 3] @ map fn_id (links ps s t))"
    using links_distinct [OF assms, of s t] n [of 0] n [of 1] n [of 2] n [of 3] by simp
  ultimately have "distinct (map fn_id (spun ps s t))" by (simp only:)
  moreover have walker: "distinct (map in_id (instructionsOf (walker n g u)))" for n g u by (simp add: walker_def instructionsOf_def)
  have "distinct (map in_id (instructionsOf f))" if "f \<in> set (spun ps s t)" for f
    using that
  proof (cases rule: spun_cases)
    case 5 then show ?thesis by (rule links_walkers) (simp add: walker)
  qed (simp_all add: module_defs instructionsOf_def)
  ultimately show ?thesis by (simp add: wellNumbered_def)
qed

section \<open>An upper bound of the analysis\<close>

text \<open>These modules have no casts.\<close>

definition noCasts :: "val \<Rightarrow> val" where
  "noCasts v = v"

text \<open>An update that stays within a set of facts.\<close>

definition keeps :: "ir_module \<Rightarrow> (cell \<times> nat) set \<Rightarrow> update \<Rightarrow> bool" where
  "keeps m A u \<longleftrightarrow> (\<forall>a. shaped m a \<and> factsOf a \<subseteq> A \<longrightarrow> shaped m (snd (u a)) \<and> factsOf (snd (u a)) \<subseteq> A)"

lemma keeps_False: "keeps m A (\<lambda>a. (False, a))"
  by (simp add: keeps_def)

lemma keeps_noChange: "keeps m A noChange"
  by (simp add: keeps_def noChange_def)

lemma keeps_thenAlso: "keeps m A u \<Longrightarrow> keeps m A w \<Longrightarrow> keeps m A (thenAlso u w)"
  by (simp add: keeps_def thenAlso_def split_beta Let_def)

lemma keeps_sequenceAll: "(\<And>u. u \<in> set us \<Longrightarrow> keeps m A u) \<Longrightarrow> keeps m A (sequenceAll us)"
  by (induction us) (simp_all add: sequenceAll_def keeps_noChange keeps_thenAlso)

lemma keeps_merge:
  assumes "shaped m a" "factsOf a \<subseteq> A" "r = (False, a) \<or> mergesCell m a c s r" "\<And>i. bit s i \<Longrightarrow> (c, i) \<in> A"
  shows "shaped m (snd r) \<and> factsOf (snd r) \<subseteq> A"
proof (cases "r = (False, a)")
  case False
  then have m: "shaped m (snd r)" "\<And>d. d \<noteq> c \<Longrightarrow> stateAt (snd r) d = stateAt a d" "stateAt (snd r) c = stateAt a c OR s"
    using assms(3) by (auto simp: mergesCell_def)
  have "(d, i) \<in> A" if "bit (stateAt (snd r) d) i" for d i
    using that assms(2,4) m(2) [of d] m(3) by (cases "d = c") (auto simp: factsOf_def bit_or_iff)
  then show ?thesis using m(1) by (auto simp: factsOf_def)
qed (use assms in simp)

definition allowed :: "clones \<Rightarrow> (cell \<times> nat) set" where
  "allowed ps = {(c, i). (c = CValue (VInst 3 0) \<longrightarrow> i = kObjectBit) \<and> (c = CValue (VInst 3 1) \<longrightarrow> i = kArrayBit) \<and>
     (\<forall>x \<in> set (objectIDs ps). c = CParam x 0 \<longrightarrow> i = kObjectBit) \<and> (\<forall>y \<in> set (arrayIDs ps). c = CParam y 0 \<longrightarrow> i = kArrayBit)}"

lemma spun_functionAt:
  assumes "freshClones ps" "f \<in> set (spun ps s t)"
  shows "functionAt (spun ps s t) (fn_id f) = Some f"
  by (rule functionAt_member [OF spun_wellNumbered [OF assms(1)] assms(2)])

lemma spun_base:
  assumes "freshClones ps"
  shows "functionAt (spun ps s t) 0 = Some allocObject" "functionAt (spun ps s t) 1 = Some allocArray"
    "functionAt (spun ps s t) 2 = Some (walker ''walk'' 2 2)"
    "functionAt (spun ps s t) 3 = Some (mainOf (objectHead ps s) (arrayHead ps t))"
  by (simp_all add: spun_def functionAt_def module_defs)

text \<open>The callees are walkers.\<close>

lemma spun_target:
  assumes "freshClones ps" "u \<in> insert 2 (set (objectIDs ps)) \<or> u \<in> insert 2 (set (arrayIDs ps))"
  obtains n v where "functionAt (spun ps 2 2) u = Some (walker n u v)"
proof (cases "u = 2")
  case True then show thesis using that spun_base(3) [OF assms(1)] by blast
next
  case False
  then have "u \<in> fn_id ` set (links ps 2 2)" using assms(2) unfolding links_ids by auto
  then obtain f where f: "f \<in> set (links ps 2 2)" "fn_id f = u" by auto
  obtain n g v where w: "f = walker n g v" by (rule links_walkers [OF f(1)])
  have "functionAt (spun ps 2 2) (fn_id f) = Some f" using f(1) by (intro spun_functionAt [OF assms(1)]) (simp add: spun_def)
  then show thesis using that w f(2) by (auto simp: walker_def)
qed

lemma pass_one:
  "passArguments m (walker n u v) 0 [arg] =
     thenAlso (\<lambda>a. if isPointerValue m arg then updateParamState u 0 (getValueState m a arg) a else (False, a)) noChange"
  by (simp add: walker_def cong: if_cong)

lemma keeps_pass:
  assumes "functionAt m u = Some (walker n u v)" "\<And>a i. shaped m a \<Longrightarrow> factsOf a \<subseteq> A \<Longrightarrow> bit (getValueState m a arg) i \<Longrightarrow> (CParam u 0, i) \<in> A"
  shows "keeps m A (visitCall noCasts m self False (VFunc u) [arg])"
proof -
  have "keeps m A (\<lambda>a. updateParamState u 0 (getValueState m a arg) a)"
    unfolding keeps_def
  proof (intro allI impI)
    fix a assume a: "shaped m a \<and> factsOf a \<subseteq> A"
    have n: "0 < length (fn_params (walker n u v))" by (simp add: walker_def)
    have "updateParamState u 0 (getValueState m a arg) a = (False, a) \<or> mergesCell m a (CParam u 0) (getValueState m a arg) (updateParamState u 0 (getValueState m a arg) a)"
      by (rule updateParamState_merges [OF conjunct1 [OF a] assms(1) n])
    then show "shaped m (snd (updateParamState u 0 (getValueState m a arg) a)) \<and> factsOf (snd (updateParamState u 0 (getValueState m a arg) a)) \<subseteq> A"
      by (rule keeps_merge [OF conjunct1 [OF a] conjunct2 [OF a]]) (rule assms(2) [OF conjunct1 [OF a] conjunct2 [OF a]])
  qed
  then have "keeps m A (\<lambda>a. if isPointerValue m arg then updateParamState u 0 (getValueState m a arg) a else (False, a))"
    by (cases "isPointerValue m arg") (simp_all only: if_True if_False keeps_False)
  then have "keeps m A (passArguments m (walker n u v) 0 [arg])" unfolding pass_one by (intro keeps_thenAlso keeps_noChange)
  moreover have "\<not> fn_isDeclaration (walker n u v)" by (simp add: walker_def)
  moreover have "visitCall noCasts m self False (VFunc u) [arg] =
      thenAlso (\<lambda>a. (False, a)) (if \<not> fn_isDeclaration (walker n u v) then passArguments m (walker n u v) 0 [arg] else noChange)"
    unfolding visitCall_def getDirectCallee_def noCasts_def by (simp only: noCasts_def val.case option.case assms(1) if_False)
  ultimately show ?thesis by (simp only: if_True not_False_eq_True keeps_thenAlso [OF keeps_False])
qed

text \<open>What the walkers, \<open>main\<close> and the declarations do to the state.\<close>

lemma keeps_visitParams:
  assumes "fn_isDeclaration f \<or> fn_hasAddressTaken f \<Longrightarrow> list_all (\<lambda>p. \<not> p) (fn_params f)"
  shows "keeps m A (visitParams f)"
  unfolding visitParams_def
proof (rule keeps_sequenceAll)
  fix u assume "u \<in> set (map (\<lambda>n a. if fn_params f ! n \<and> (fn_isDeclaration f \<or> fn_hasAddressTaken f) then updateParamState (fn_id f) n kStateRaw a
    else (False, a)) [0 ..< length (fn_params f)])"
  then obtain n where n: "n < length (fn_params f)"
    "u = (\<lambda>a. if fn_params f ! n \<and> (fn_isDeclaration f \<or> fn_hasAddressTaken f) then updateParamState (fn_id f) n kStateRaw a else (False, a))"
    by auto
  then have "\<not> (fn_params f ! n \<and> (fn_isDeclaration f \<or> fn_hasAddressTaken f))" using assms by (auto simp: list_all_length)
  then have "u = (\<lambda>a. (False, a))" using n(2) by (simp only: if_False)
  then show "keeps m A u" by (simp only: keeps_False)
qed

lemma keeps_visitFunction:
  assumes "keeps m A (visitParams f)" "\<And>i. i \<in> set (instructionsOf f) \<Longrightarrow> keeps m A (visitInstruction noCasts m f i)"
  shows "keeps m A (visitFunction noCasts m f)"
  unfolding visitFunction_def using assms by (intro keeps_thenAlso keeps_sequenceAll) auto

lemma keeps_walker:
  assumes "functionAt m g = Some (walker n g u)" "functionAt m u = Some (walker k u v)" "\<And>i. (CParam g 0, i) \<in> A \<Longrightarrow> (CParam u 0, i) \<in> A"
  shows "keeps m A (visitFunction noCasts m (walker n g u))"
proof (rule keeps_visitFunction)
  show "keeps m A (visitParams (walker n g u))" by (rule keeps_visitParams) (simp add: walker_def)
  fix i assume "i \<in> set (instructionsOf (walker n g u))"
  then consider "in_op i = OOther" | "in_op i = ORet None" | "i = \<lparr>in_id = 1, in_isPointer = False, in_op = OCall (VFunc u) [VArg g 0]\<rparr>"
    by (auto simp: walker_def instructionsOf_def)
  then show "keeps m A (visitInstruction noCasts m (walker n g u) i)"
  proof cases
    case 3
    have "keeps m A (visitCall noCasts m (selfOf (walker n g u) i) False (VFunc u) [VArg g 0])"
    proof (rule keeps_pass [OF assms(2)])
      fix a j assume a: "shaped m a" "factsOf a \<subseteq> A" "bit (getValueState m a (VArg g 0)) j"
      have "getValueState m a (VArg g 0) = stateAt a (CParam g 0)"
        by (rule getValueState_param [OF a(1) assms(1)]) (simp_all add: walker_def)
      then have "(CParam g 0, j) \<in> factsOf a" using a(3) by (simp only: factsOf_def mem_Collect_eq prod.case)
      then show "(CParam u 0, j) \<in> A" using a(2) assms(3) by blast
    qed
    then show ?thesis using 3 by (simp add: visitInstruction_def fun_eq_iff keeps_def)
  qed (simp_all add: visitInstruction_def keeps_def)
qed

lemma isPointer_main:
  assumes "freshClones ps"
  shows "isPointerValue (spun ps s t) (VInst 3 0)" "isPointerValue (spun ps s t) (VInst 3 1)"
  using spun_base(4) [OF assms, of s t] by (simp_all add: instructionAt_def mainOf_def instructionsOf_def)

lemma keeps_allocation:
  assumes "functionAt m c = Some d" "fn_isDeclaration d" "\<And>a i. bit (getCallResultState a d) i \<Longrightarrow> (CValue self, i) \<in> A"
  shows "keeps m A (visitCall noCasts m self True (VFunc c) args)"
proof -
  have "keeps m A (\<lambda>a. updateValueState m self (getCallResultState a d) a)"
    unfolding keeps_def using assms(3) by (metis keeps_merge updateValueState_merges)
  moreover have "visitCall noCasts m self True (VFunc c) args =
      thenAlso (\<lambda>a. updateValueState m self (getCallResultState a d) a) noChange"
    unfolding visitCall_def getDirectCallee_def noCasts_def by (simp add: assms(1,2))
  ultimately show ?thesis by (simp add: keeps_thenAlso keeps_noChange)
qed

lemma getCallResultState_alloc:
  "getCallResultState a allocObject = kStateManagedObject" "getCallResultState a allocArray = kStateManagedArray"
  by (simp_all add: getCallResultState_def allocObject_def allocArray_def)

lemma keeps_main:
  assumes "freshClones ps"
  shows "keeps (spun ps 2 2) (allowed ps) (visitFunction noCasts (spun ps 2 2) (mainOf (objectHead ps 2) (arrayHead ps 2)))"
proof (rule keeps_visitFunction)
  let ?m = "spun ps 2 2" and ?f = "mainOf (objectHead ps 2) (arrayHead ps 2)" and ?A = "allowed ps"
  show "keeps ?m ?A (visitParams ?f)" by (rule keeps_visitParams) (simp add: mainOf_def)
  have new: "2 \<notin> set (objectIDs ps)" "2 \<notin> set (arrayIDs ps)" "set (objectIDs ps) \<inter> set (arrayIDs ps) = {}"
    using freshClones_ids [OF assms] by simp_all
  have fact: "bit (getValueState ?m a (VInst 3 k)) i \<Longrightarrow> (CValue (VInst 3 k), i) \<in> factsOf a" if "k = 0 \<or> k = 1" for a i k
    using that isPointer_main [OF assms, of 2 2] getValueState_inst [of ?m 3 k a] by (auto simp: factsOf_def)
  obtain n1 v1 where t1: "functionAt ?m (objectHead ps 2) = Some (walker n1 (objectHead ps 2) v1)"
    using spun_target [OF assms, of "objectHead ps 2"] heads(1) [of ps 2] by blast
  obtain n2 v2 where t2: "functionAt ?m (arrayHead ps 2) = Some (walker n2 (arrayHead ps 2) v2)"
    using spun_target [OF assms, of "arrayHead ps 2"] heads(2) [of ps 2] by blast
  have self: "selfOf ?f i = VInst 3 (in_id i)" for i by (simp add: selfOf_def mainOf_def)
  fix i assume "i \<in> set (instructionsOf ?f)"
  then consider "i = \<lparr>in_id = 0, in_isPointer = True, in_op = OCall (VFunc 0) []\<rparr>"
    | "i = \<lparr>in_id = 1, in_isPointer = True, in_op = OCall (VFunc 1) [VInt 64 4]\<rparr>"
    | "i = \<lparr>in_id = 2, in_isPointer = False, in_op = OCall (VFunc (objectHead ps 2)) [VInst 3 0]\<rparr>"
    | "i = \<lparr>in_id = 3, in_isPointer = False, in_op = OCall (VFunc (arrayHead ps 2)) [VInst 3 1]\<rparr>"
    | "in_op i = ORet None"
    by (auto simp: mainOf_def instructionsOf_def)
  then show "keeps ?m ?A (visitInstruction noCasts ?m ?f i)"
  proof cases
    case 1
    have "keeps ?m ?A (visitCall noCasts ?m (VInst 3 0) True (VFunc 0) [])"
      by (rule keeps_allocation [OF spun_base(1) [OF assms]])
        (simp_all add: getCallResultState_alloc state_bits allowed_def, simp add: allocObject_def)
    then show ?thesis using 1 by (simp add: visitInstruction_def self keeps_def)
  next
    case 2
    have "keeps ?m ?A (visitCall noCasts ?m (VInst 3 1) True (VFunc 1) [VInt 64 4])"
      by (rule keeps_allocation [OF spun_base(2) [OF assms]])
        (simp_all add: getCallResultState_alloc state_bits allowed_def, simp add: allocArray_def)
    then show ?thesis using 2 by (simp add: visitInstruction_def self keeps_def)
  next
    case 3
    have "keeps ?m ?A (visitCall noCasts ?m (VInst 3 2) False (VFunc (objectHead ps 2)) [VInst 3 0])"
    proof (rule keeps_pass [OF t1])
      fix a i assume a: "factsOf a \<subseteq> ?A" "bit (getValueState ?m a (VInst 3 0)) i"
      have "(CValue (VInst 3 0), i) \<in> ?A" using fact [of 0 a i] a by blast
      then have "i = kObjectBit" by (simp add: allowed_def)
      then show "(CParam (objectHead ps 2) 0, i) \<in> ?A" using heads(1) [of ps 2] new by (auto simp: allowed_def)
    qed
    then show ?thesis using 3 by (simp add: visitInstruction_def self keeps_def)
  next
    case 4
    have "keeps ?m ?A (visitCall noCasts ?m (VInst 3 3) False (VFunc (arrayHead ps 2)) [VInst 3 1])"
    proof (rule keeps_pass [OF t2])
      fix a i assume a: "factsOf a \<subseteq> ?A" "bit (getValueState ?m a (VInst 3 1)) i"
      have "(CValue (VInst 3 1), i) \<in> ?A" using fact [of 1 a i] a by blast
      then have "i = kArrayBit" by (simp add: allowed_def)
      then show "(CParam (arrayHead ps 2) 0, i) \<in> ?A" using heads(2) [of ps 2] new by (auto simp: allowed_def)
    qed
    then show ?thesis using 4 by (simp add: visitInstruction_def self keeps_def)
  qed (simp add: visitInstruction_def keeps_def)
qed

lemma keeps_spun:
  assumes "freshClones ps"
  shows "keeps (spun ps 2 2) (allowed ps) (visitModule noCasts (spun ps 2 2))"
  unfolding visitModule_def
proof (rule keeps_sequenceAll)
  let ?m = "spun ps 2 2" and ?A = "allowed ps"
  have new: "2 \<notin> set (objectIDs ps)" "2 \<notin> set (arrayIDs ps)" "set (objectIDs ps) \<inter> set (arrayIDs ps) = {}"
    using freshClones_ids [OF assms] by simp_all
  fix u assume "u \<in> set (map (visitFunction noCasts ?m) ?m)"
  then obtain f where u: "u = visitFunction noCasts ?m f" and f: "f \<in> set ?m" by auto
  have walker: "keeps ?m ?A (visitFunction noCasts ?m (walker n g v))"
    if w: "walker n g v \<in> set ?m"
      "v = 2 \<or> g \<in> set (objectIDs ps) \<and> v \<in> set (objectIDs ps) \<or> g \<in> set (arrayIDs ps) \<and> v \<in> set (arrayIDs ps)" for n g v
  proof -
    obtain k z where "functionAt ?m v = Some (walker k v z)" using spun_target [OF assms, of v] w(2) by blast
    moreover have "functionAt ?m g = Some (walker n g v)" using spun_functionAt [OF assms w(1)] by (simp add: walker_def)
    moreover have "(CParam v 0, i) \<in> ?A" if "(CParam g 0, i) \<in> ?A" for i
      using w(2) that new by (auto simp: allowed_def)
    ultimately show ?thesis using keeps_walker by blast
  qed
  show "keeps ?m ?A u"
    unfolding u using f
  proof (cases rule: spun_cases)
    case 3 then show "keeps ?m ?A (visitFunction noCasts ?m f)" using walker [of "''walk''" 2 2] f by simp
  next
    case 4 then show "keeps ?m ?A (visitFunction noCasts ?m f)" using keeps_main [OF assms] by simp
  next
    case 5
    then show "keeps ?m ?A (visitFunction noCasts ?m f)"
      by (rule links_walkers) (use f walker in blast)
  qed (auto simp: allocObject_def allocArray_def instructionsOf_def intro!: keeps_visitFunction keeps_visitParams)
qed

section \<open>The lower bound, and the signatures\<close>

lemma walker_call_flows:
  assumes "freshClones ps" "walker n g u \<in> set (spun ps 2 2)" "functionAt (spun ps 2 2) u = Some (walker k u v)"
    and "mayBe noCasts (spun ps 2 2) (VArg g 0) b"
  shows "mayBe noCasts (spun ps 2 2) (VArg u 0) b"
proof -
  let ?m = "spun ps 2 2"
  have g: "functionAt ?m g = Some (walker n g u)" using spun_functionAt [OF assms(1,2)] by (simp add: walker_def)
  have "mayBe noCasts ?m (VArg (fn_id (walker k u v)) 0) b"
  proof (rule argument [OF assms(2), where c = "VFunc u" and args = "[VArg g 0]"])
    show "\<lparr>in_id = 1, in_isPointer = False, in_op = OCall (VFunc u) [VArg g 0]\<rparr> \<in> set (instructionsOf (walker n g u))"
      by (simp add: walker_def instructionsOf_def)
    show "calls noCasts ?m (VFunc u) (walker k u v)" using assms(3) by (simp add: calls_def getDirectCallee_def noCasts_def)
    show "isPointerValue ?m ([VArg g 0] ! 0)" using g by (simp add: walker_def)
    show "mayBe noCasts ?m ([VArg g 0] ! 0) b" using assms(4) by simp
  qed (simp_all add: walker_def)
  then show ?thesis by (simp add: walker_def)
qed

lemma links_flow:
  assumes "freshClones ps" "set (links qs 2 2) \<subseteq> set (spun ps 2 2)"
    and "set (objectIDs qs) \<subseteq> set (objectIDs ps)" "set (arrayIDs qs) \<subseteq> set (arrayIDs ps)"
    and "mayBe noCasts (spun ps 2 2) (VArg (objectHead qs 2) 0) kObjectBit" "mayBe noCasts (spun ps 2 2) (VArg (arrayHead qs 2) 0) kArrayBit"
  shows "(\<forall>x \<in> insert 2 (set (objectIDs qs)). mayBe noCasts (spun ps 2 2) (VArg x 0) kObjectBit) \<and>
    (\<forall>y \<in> insert 2 (set (arrayIDs qs)). mayBe noCasts (spun ps 2 2) (VArg y 0) kArrayBit)"
  using assms(2-6)
proof (induction qs)
  case Nil then show ?case by (simp add: objectIDs_def arrayIDs_def)
next
  case (Cons q qs)
  obtain n x k y where q: "q = (n, x, k, y)" by (cases q)
  let ?m = "spun ps 2 2"
  have w: "walker n x (objectHead qs 2) \<in> set ?m" "walker k y (arrayHead qs 2) \<in> set ?m" "set (links qs 2 2) \<subseteq> set ?m"
    using Cons.prems(1) q by simp_all
  have sub: "set (objectIDs qs) \<subseteq> set (objectIDs ps)" "set (arrayIDs qs) \<subseteq> set (arrayIDs ps)"
    using Cons.prems(2,3) q by (auto simp: objectIDs_def arrayIDs_def)
  have xy: "mayBe noCasts ?m (VArg x 0) kObjectBit" "mayBe noCasts ?m (VArg y 0) kArrayBit" using Cons.prems(4,5) unfolding q objectHead.simps arrayHead.simps .
  obtain n1 v1 where t1: "functionAt ?m (objectHead qs 2) = Some (walker n1 (objectHead qs 2) v1)"
    using spun_target [OF assms(1), of "objectHead qs 2"] heads(1) [of qs 2] sub by blast
  obtain n2 v2 where t2: "functionAt ?m (arrayHead qs 2) = Some (walker n2 (arrayHead qs 2) v2)"
    using spun_target [OF assms(1), of "arrayHead qs 2"] heads(2) [of qs 2] sub by blast
  have "mayBe noCasts ?m (VArg (objectHead qs 2) 0) kObjectBit" "mayBe noCasts ?m (VArg (arrayHead qs 2) 0) kArrayBit"
    by (rule walker_call_flows [OF assms(1) w(1) t1 xy(1)]) (rule walker_call_flows [OF assms(1) w(2) t2 xy(2)])
  note IH = Cons.IH [OF w(3) sub this]
  have ids: "set (objectIDs (q # qs)) = insert x (set (objectIDs qs))" "set (arrayIDs (q # qs)) = insert y (set (arrayIDs qs))"
    by (simp_all add: q objectIDs_def arrayIDs_def)
  show ?case unfolding ids using IH xy by blast
qed

lemma main_flows:
  assumes "freshClones ps"
  shows "mayBe noCasts (spun ps 2 2) (VInst 3 0) kObjectBit" "mayBe noCasts (spun ps 2 2) (VInst 3 1) kArrayBit"
    "mayBe noCasts (spun ps 2 2) (VArg (objectHead ps 2) 0) kObjectBit" "mayBe noCasts (spun ps 2 2) (VArg (arrayHead ps 2) 0) kArrayBit"
proof -
  let ?m = "spun ps 2 2" and ?f = "mainOf (objectHead ps 2) (arrayHead ps 2)"
  have f: "?f \<in> set ?m" by (simp add: spun_def)
  have i: "\<lparr>in_id = 0, in_isPointer = True, in_op = OCall (VFunc 0) []\<rparr> \<in> set (instructionsOf ?f)"
    "\<lparr>in_id = 1, in_isPointer = True, in_op = OCall (VFunc 1) [VInt 64 4]\<rparr> \<in> set (instructionsOf ?f)"
    "\<lparr>in_id = 2, in_isPointer = False, in_op = OCall (VFunc (objectHead ps 2)) [VInst 3 0]\<rparr> \<in> set (instructionsOf ?f)"
    "\<lparr>in_id = 3, in_isPointer = False, in_op = OCall (VFunc (arrayHead ps 2)) [VInst 3 1]\<rparr> \<in> set (instructionsOf ?f)"
    by (simp_all add: mainOf_def instructionsOf_def)
  have c: "calls noCasts ?m (VFunc 0) allocObject" "calls noCasts ?m (VFunc 1) allocArray"
    using spun_base(1,2) [OF assms, of 2 2] by (simp_all add: calls_def getDirectCallee_def noCasts_def)
  have "inModule ?m ?f \<lparr>in_id = 0, in_isPointer = True, in_op = OCall (VFunc 0) []\<rparr>" using f i by (simp add: inModule_def)
  from object_allocation [OF this _ c(1)] show x: "mayBe noCasts ?m (VInst 3 0) kObjectBit"
    by (simp add: selfOf_def mainOf_def objectAllocator_def allocObject_def)
  have "inModule ?m ?f \<lparr>in_id = 1, in_isPointer = True, in_op = OCall (VFunc 1) [VInt 64 4]\<rparr>" using f i by (simp add: inModule_def)
  from array_allocation [OF this _ c(2)] show y: "mayBe noCasts ?m (VInst 3 1) kArrayBit"
    by (simp add: selfOf_def mainOf_def arrayAllocator_def allocArray_def)
  obtain n1 v1 where t1: "functionAt ?m (objectHead ps 2) = Some (walker n1 (objectHead ps 2) v1)"
    using spun_target [OF assms, of "objectHead ps 2"] heads(1) [of ps 2] by blast
  obtain n2 v2 where t2: "functionAt ?m (arrayHead ps 2) = Some (walker n2 (arrayHead ps 2) v2)"
    using spun_target [OF assms, of "arrayHead ps 2"] heads(2) [of ps 2] by blast
  have w: "\<not> fn_isDeclaration (walker n u v)" "fn_params (walker n u v) = [True]" "fn_id (walker n u v) = u" for n u v
    by (simp_all add: walker_def)
  have "mayBe noCasts ?m (VArg (fn_id (walker n1 (objectHead ps 2) v1)) 0) kObjectBit"
    by (rule argument [OF f i(3), where c = "VFunc (objectHead ps 2)" and args = "[VInst 3 0]"])
      (use t1 x isPointer_main [OF assms, of 2 2] in \<open>simp_all add: w calls_def getDirectCallee_def noCasts_def del: isPointerValue.simps\<close>)
  then show "mayBe noCasts ?m (VArg (objectHead ps 2) 0) kObjectBit" by (simp add: w)
  have "mayBe noCasts ?m (VArg (fn_id (walker n2 (arrayHead ps 2) v2)) 0) kArrayBit"
    by (rule argument [OF f i(4), where c = "VFunc (arrayHead ps 2)" and args = "[VInst 3 1]"])
      (use t2 y isPointer_main [OF assms, of 2 2] in \<open>simp_all add: w calls_def getDirectCallee_def noCasts_def del: isPointerValue.simps\<close>)
  then show "mayBe noCasts ?m (VArg (arrayHead ps 2) 0) kArrayBit" by (simp add: w)
qed

text \<open>The states of the arguments after the analysis.\<close>

lemma state_single:
  assumes "\<And>i. bit (s :: PointerState) i \<longleftrightarrow> bit t i"
  shows "s = t"
  using assms by (simp add: bit_eq_iff)

lemma spun_states:
  assumes "freshClones ps" "analyse noCasts (spun ps 2 2) = Some a"
  shows "getValueState (spun ps 2 2) a (VInst 3 0) = kStateManagedObject"
    and "getValueState (spun ps 2 2) a (VInst 3 1) = kStateManagedArray"
    and "x \<in> set (objectIDs ps) \<Longrightarrow> getValueState (spun ps 2 2) a (VArg x 0) = kStateManagedObject"
    and "y \<in> set (arrayIDs ps) \<Longrightarrow> getValueState (spun ps 2 2) a (VArg y 0) = kStateManagedArray"
    and "bit (getValueState (spun ps 2 2) a (VArg 2 0)) kObjectBit" "bit (getValueState (spun ps 2 2) a (VArg 2 0)) kArrayBit"
proof -
  let ?m = "spun ps 2 2"
  have wn: "wellNumbered ?m" by (rule spun_wellNumbered [OF assms(1)])
  obtain a' where "analyse noCasts ?m = Some a'" and a': "okAnalysis noCasts ?m a'" "visitModule noCasts ?m a' = (False, a')" by (rule analyse_ends [OF wn])
  then have "a' = a" using assms(2) by simp
  then have st: "stable noCasts ?m a" and shaped: "shaped ?m a" using a' wn by (simp_all add: stable_def okAnalysis_def)
  have run: "doWhileChanged (visitModule noCasts ?m) (initialAnalysis ?m) = Some a" using assms(2) by (simp add: analyse_def runAnalysis_def)
  have upper: "factsOf a \<subseteq> allowed ps"
  proof (rule analysisRun.invariant_at_end [OF run initialAnalysis_ok [OF wn], where P = "\<lambda>a. factsOf a \<subseteq> allowed ps"])
    show "factsOf (initialAnalysis ?m) \<subseteq> allowed ps" by (simp add: initialAnalysis_facts)
    fix b assume "okAnalysis noCasts ?m b" "factsOf b \<subseteq> allowed ps"
    then show "factsOf (snd (visitModule noCasts ?m b)) \<subseteq> allowed ps" using keeps_spun [OF assms(1)] by (simp add: keeps_def okAnalysis_def)
  qed
  have lower: "(\<forall>x \<in> insert 2 (set (objectIDs ps)). mayBe noCasts ?m (VArg x 0) kObjectBit) \<and>
    (\<forall>y \<in> insert 2 (set (arrayIDs ps)). mayBe noCasts ?m (VArg y 0) kArrayBit)"
    by (rule links_flow [OF assms(1) _ _ _ main_flows(3,4) [OF assms(1)]]) (auto simp: spun_def)
  have covers: "bit (getValueState ?m a v) b" if "mayBe noCasts ?m v b" for v b using stable_covers(1) [OF st that] by simp
  have inst: "getValueState ?m a (VInst 3 k) = stateAt a (CValue (VInst 3 k))" if "k = 0 \<or> k = 1" for k
    using that isPointer_main [OF assms(1), of 2 2] getValueState_inst by blast
  have only: "bit (stateAt a c) i \<Longrightarrow> (c, i) \<in> allowed ps" for c i using upper by (auto simp: factsOf_def)
  show "getValueState ?m a (VInst 3 0) = kStateManagedObject"
    by (rule state_single) (use covers [OF main_flows(1) [OF assms(1)]] only [of "CValue (VInst 3 0)"] in \<open>auto simp: state_bits inst allowed_def simp del: stateAt.simps\<close>)
  show "getValueState ?m a (VInst 3 1) = kStateManagedArray"
    by (rule state_single) (use covers [OF main_flows(2) [OF assms(1)]] only [of "CValue (VInst 3 1)"] in \<open>auto simp: state_bits inst allowed_def simp del: stateAt.simps\<close>)
  have param: "getValueState ?m a (VArg x 0) = stateAt a (CParam x 0)" if "x \<in> set (objectIDs ps) \<or> x \<in> set (arrayIDs ps)" for x
  proof -
    have "x \<in> insert 2 (set (objectIDs ps)) \<or> x \<in> insert 2 (set (arrayIDs ps))" using that by blast
    then obtain n v where "functionAt ?m x = Some (walker n x v)" by (rule spun_target [OF assms(1)])
    then show ?thesis by (rule getValueState_param [OF shaped]) (simp_all add: walker_def)
  qed
  show "x \<in> set (objectIDs ps) \<Longrightarrow> getValueState ?m a (VArg x 0) = kStateManagedObject"
    using covers [of "VArg x 0" kObjectBit] lower only [of "CParam x 0"] param [of x]
    by (intro state_single) (auto simp: state_bits allowed_def simp del: stateAt.simps)
  show "y \<in> set (arrayIDs ps) \<Longrightarrow> getValueState ?m a (VArg y 0) = kStateManagedArray"
    using covers [of "VArg y 0" kArrayBit] lower only [of "CParam y 0"] param [of y]
    by (intro state_single) (auto simp: state_bits allowed_def simp del: stateAt.simps)
  show "bit (getValueState ?m a (VArg 2 0)) kObjectBit" "bit (getValueState ?m a (VArg 2 0)) kArrayBit"
    using covers lower by blast+
qed

lemma kinds:
  "toDispatchArgKind kStateManagedObject = DObject" "toDispatchArgKind kStateManagedArray = DArray"
  by (simp_all add: toDispatchArgKind_def dispatchKind_def kStateManagedObject_def kStateManagedArray_def kStateRaw_def)

lemma kind_of_both:
  assumes "bit s kObjectBit" "bit s kArrayBit"
  shows "toDispatchArgKind s = DGeneric"
proof -
  let ?c = "s AND (kStateRaw OR kStateManagedObject OR kStateManagedArray)"
  have "bit ?c kObjectBit" "bit ?c kArrayBit" using assms by (simp_all add: bit_and_iff bit_or_iff state_bits)
  then have "?c \<noteq> kStateRaw" "?c \<noteq> kStateManagedObject" "?c \<noteq> kStateManagedArray"
    using state_bits by (metis kArrayBit_def kObjectBit_def kRawBit_def numeral_eq_iff numeral_eq_one_iff one_neq_zero semiring_norm(85) semiring_norm(89) semiring_norm(87))+
  then show ?thesis by (simp add: toDispatchArgKind_def dispatchKind_def Let_def)
qed

section \<open>The calls of the modules\<close>

definition oneArg :: "nat \<Rightarrow> nat \<Rightarrow> DispatchArgKind \<Rightarrow> CallRecord" where
  "oneArg caller call kind = \<lparr>cr_caller = caller, cr_call = call, cr_signature = [kind]\<rparr>"

fun linkCalls :: "clones \<Rightarrow> (nat \<times> CallRecord) list" where
  "linkCalls [] = []"
| "linkCalls ((n, x, k, y) # ps) = (objectHead ps 2, oneArg x 1 DObject) # (arrayHead ps 2, oneArg y 1 DArray) # linkCalls ps"

lemma signature_one:
  "isPointerValue m arg \<Longrightarrow> buildDispatchSignature m a [arg] (walker n u v) = [toDispatchArgKind (getValueState m a arg)]"
  by (simp add: buildDispatchSignature_def walker_def)

lemma should_walker: "shouldSpecializeFunction (walker n u v)"
  by (simp add: shouldSpecializeFunction_def walker_def)

lemma callRecord_walker_call:
  assumes "functionAt m u = Some (walker k u v)" "in_op i = OCall (VFunc u) [arg]" "isPointerValue m arg"
  shows "callRecord noCasts m a f i = [(u, oneArg (fn_id f) (in_id i) (toDispatchArgKind (getValueState m a arg)))]"
  using assms by (simp add: callRecord_def getDirectCallee_def noCasts_def should_walker signature_one oneArg_def del: isPointerValue.simps)

lemma callRecord_decl:
  assumes "functionAt m u = Some d" "fn_isDeclaration d" "in_op i = OCall (VFunc u) args"
  shows "callRecord noCasts m a f i = []"
  using assms by (simp add: callRecord_def getDirectCallee_def noCasts_def shouldSpecializeFunction_def)

lemma callRecord_other: "in_op i = OOther \<Longrightarrow> callRecord strip m a f i = []" "in_op i = ORet v \<Longrightarrow> callRecord strip m a f i = []"
  by (simp_all add: callRecord_def)

lemma walker_calls:
  assumes "freshClones ps" "walker n g u \<in> set (spun ps 2 2)" "functionAt (spun ps 2 2) u = Some (walker k u v)"
  shows "concat (map (callRecord noCasts (spun ps 2 2) a (walker n g u)) (instructionsOf (walker n g u))) =
    [(u, oneArg g 1 (toDispatchArgKind (getValueState (spun ps 2 2) a (VArg g 0))))]"
proof -
  let ?m = "spun ps 2 2"
  have "functionAt ?m g = Some (walker n g u)" using spun_functionAt [OF assms(1,2)] by (simp add: walker_def)
  then have "isPointerValue ?m (VArg g 0)" by (simp add: walker_def)
  from callRecord_walker_call [OF assms(3) _ this, of "\<lparr>in_id = 1, in_isPointer = False, in_op = OCall (VFunc u) [VArg g 0]\<rparr>" a "walker n g u"]
  have "callRecord noCasts ?m a (walker n g u) \<lparr>in_id = 1, in_isPointer = False, in_op = OCall (VFunc u) [VArg g 0]\<rparr> =
    [(u, oneArg g 1 (toDispatchArgKind (getValueState ?m a (VArg g 0))))]" by (simp add: walker_def)
  moreover have "instructionsOf (walker n g u) = [\<lparr>in_id = 0, in_isPointer = False, in_op = OOther\<rparr>,
    \<lparr>in_id = 1, in_isPointer = False, in_op = OCall (VFunc u) [VArg g 0]\<rparr>, \<lparr>in_id = 2, in_isPointer = False, in_op = ORet None\<rparr>]"
    by (simp add: walker_def instructionsOf_def)
  ultimately show ?thesis by (simp add: callRecord_other)
qed

lemma links_calls:
  assumes "freshClones ps" "analyse noCasts (spun ps 2 2) = Some a" "set (links qs 2 2) \<subseteq> set (spun ps 2 2)"
    and "set (objectIDs qs) \<subseteq> set (objectIDs ps)" "set (arrayIDs qs) \<subseteq> set (arrayIDs ps)"
  shows "concat (map (\<lambda>f. concat (map (callRecord noCasts (spun ps 2 2) a f) (instructionsOf f))) (links qs 2 2)) = linkCalls qs"
  using assms(3-5)
proof (induction qs)
  case (Cons q qs)
  obtain n x k y where q: "q = (n, x, k, y)" by (cases q)
  let ?m = "spun ps 2 2"
  have w: "walker n x (objectHead qs 2) \<in> set ?m" "walker k y (arrayHead qs 2) \<in> set ?m" "set (links qs 2 2) \<subseteq> set ?m"
    using Cons.prems(1) q by simp_all
  have sub: "set (objectIDs qs) \<subseteq> set (objectIDs ps)" "set (arrayIDs qs) \<subseteq> set (arrayIDs ps)"
    and xy: "x \<in> set (objectIDs ps)" "y \<in> set (arrayIDs ps)"
    using Cons.prems(2,3) q by (auto simp: objectIDs_def arrayIDs_def)
  obtain n1 v1 where t1: "functionAt ?m (objectHead qs 2) = Some (walker n1 (objectHead qs 2) v1)"
    using spun_target [OF assms(1), of "objectHead qs 2"] heads(1) [of qs 2] sub by blast
  obtain n2 v2 where t2: "functionAt ?m (arrayHead qs 2) = Some (walker n2 (arrayHead qs 2) v2)"
    using spun_target [OF assms(1), of "arrayHead qs 2"] heads(2) [of qs 2] sub by blast
  show ?case
    using walker_calls [OF assms(1) w(1) t1, of a] walker_calls [OF assms(1) w(2) t2, of a] Cons.IH [OF w(3) sub]
      spun_states(3) [OF assms(1,2) xy(1)] spun_states(4) [OF assms(1,2) xy(2)] by (simp add: q kinds)
qed simp

lemma main_calls:
  assumes "freshClones ps" "analyse noCasts (spun ps 2 2) = Some a"
  shows "concat (map (callRecord noCasts (spun ps 2 2) a (mainOf (objectHead ps 2) (arrayHead ps 2))) (instructionsOf (mainOf (objectHead ps 2) (arrayHead ps 2)))) =
    [(objectHead ps 2, oneArg 3 2 DObject), (arrayHead ps 2, oneArg 3 3 DArray)]"
proof -
  let ?m = "spun ps 2 2" and ?f = "mainOf (objectHead ps 2) (arrayHead ps 2)"
  obtain n1 v1 where t1: "functionAt ?m (objectHead ps 2) = Some (walker n1 (objectHead ps 2) v1)"
    using spun_target [OF assms(1), of "objectHead ps 2"] heads(1) [of ps 2] by blast
  obtain n2 v2 where t2: "functionAt ?m (arrayHead ps 2) = Some (walker n2 (arrayHead ps 2) v2)"
    using spun_target [OF assms(1), of "arrayHead ps 2"] heads(2) [of ps 2] by blast
  have fid: "fn_id ?f = 3" by (simp add: mainOf_def)
  have r: "callRecord noCasts ?m a ?f \<lparr>in_id = 0, in_isPointer = True, in_op = OCall (VFunc 0) []\<rparr> = []"
    "callRecord noCasts ?m a ?f \<lparr>in_id = 1, in_isPointer = True, in_op = OCall (VFunc 1) [VInt 64 4]\<rparr> = []"
    using callRecord_decl [OF spun_base(1) [OF assms(1)]] callRecord_decl [OF spun_base(2) [OF assms(1)]]
    by (simp_all add: allocObject_def allocArray_def)
  have "callRecord noCasts ?m a ?f \<lparr>in_id = 2, in_isPointer = False, in_op = OCall (VFunc (objectHead ps 2)) [VInst 3 0]\<rparr> =
      [(objectHead ps 2, oneArg 3 2 DObject)]"
    "callRecord noCasts ?m a ?f \<lparr>in_id = 3, in_isPointer = False, in_op = OCall (VFunc (arrayHead ps 2)) [VInst 3 1]\<rparr> =
      [(arrayHead ps 2, oneArg 3 3 DArray)]"
    using callRecord_walker_call [OF t1 _ isPointer_main(1) [OF assms(1)]] callRecord_walker_call [OF t2 _ isPointer_main(2) [OF assms(1)]]
    by (simp_all add: fid spun_states(1,2) [OF assms] kinds del: One_nat_def)
  moreover have "instructionsOf ?f = [\<lparr>in_id = 0, in_isPointer = True, in_op = OCall (VFunc 0) []\<rparr>,
     \<lparr>in_id = 1, in_isPointer = True, in_op = OCall (VFunc 1) [VInt 64 4]\<rparr>,
     \<lparr>in_id = 2, in_isPointer = False, in_op = OCall (VFunc (objectHead ps 2)) [VInst 3 0]\<rparr>,
     \<lparr>in_id = 3, in_isPointer = False, in_op = OCall (VFunc (arrayHead ps 2)) [VInst 3 1]\<rparr>,
     \<lparr>in_id = 4, in_isPointer = False, in_op = ORet None\<rparr>]" by (simp add: mainOf_def instructionsOf_def)
  ultimately show ?thesis using r by (simp add: callRecord_other)
qed

lemma spun_calls:
  assumes "freshClones ps" "analyse noCasts (spun ps 2 2) = Some a"
  shows "callMap noCasts (spun ps 2 2) a = (2, oneArg 2 1 DGeneric) # (objectHead ps 2, oneArg 3 2 DObject) # (arrayHead ps 2, oneArg 3 3 DArray) # linkCalls ps"
proof -
  let ?m = "spun ps 2 2"
  have "set (links ps 2 2) \<subseteq> set ?m" and w: "walker ''walk'' 2 2 \<in> set ?m" by (auto simp: spun_def)
  then have l: "concat (map (\<lambda>f. concat (map (callRecord noCasts ?m a f) (instructionsOf f))) (links ps 2 2)) = linkCalls ps"
    by (intro links_calls [OF assms]) simp_all
  have self: "concat (map (callRecord noCasts ?m a (walker ''walk'' 2 2)) (instructionsOf (walker ''walk'' 2 2))) = [(2, oneArg 2 1 DGeneric)]"
    using walker_calls [OF assms(1) w spun_base(3) [OF assms(1)], of a] kind_of_both [OF spun_states(5,6) [OF assms]] by simp
  have decls: "instructionsOf allocObject = []" "instructionsOf allocArray = []"
    by (simp_all add: allocObject_def allocArray_def instructionsOf_def)
  have "?m = allocObject # allocArray # walker ''walk'' 2 2 # mainOf (objectHead ps 2) (arrayHead ps 2) # links ps 2 2" by (simp add: spun_def)
  then have "callMap noCasts ?m a = concat (map (\<lambda>f. concat (map (callRecord noCasts ?m a f) (instructionsOf f)))
      (allocObject # allocArray # walker ''walk'' 2 2 # mainOf (objectHead ps 2) (arrayHead ps 2) # links ps 2 2))"
    unfolding callMap_def by (rule arg_cong)
  then show ?thesis using l self main_calls [OF assms] by (simp add: decls)
qed

section \<open>A round\<close>

fun lastCalls :: "nat \<times> nat \<Rightarrow> nat \<times> nat \<Rightarrow> clones \<Rightarrow> (nat \<times> nat) \<times> (nat \<times> nat)" where
  "lastCalls c d [] = (c, d)"
| "lastCalls c d ((n, x, k, y) # ps) = lastCalls (x, 1) (y, 1) ps"

lemma freshClones_tail:
  assumes "freshClones ((n, x, k, y) # ps)"
  shows "freshClones ps" "x \<noteq> y" "3 < x" "3 < y" "x \<notin> set (objectIDs ps)" "x \<notin> set (arrayIDs ps)" "y \<notin> set (objectIDs ps)" "y \<notin> set (arrayIDs ps)"
  using assms by (auto simp: freshClones_def objectIDs_def arrayIDs_def)

lemma ids_Cons: "set (objectIDs ((n, x, k, y) # ps)) = insert x (set (objectIDs ps))" "set (arrayIDs ((n, x, k, y) # ps)) = insert y (set (arrayIDs ps))"
  by (simp_all add: objectIDs_def arrayIDs_def)

lemma callsOf_Cons: "callsOf ((h, r) # records) g = (if h = g then r # callsOf records g else callsOf records g)"
  by (simp add: callsOf_def)

lemma callsOf_none:
  "g \<noteq> 2 \<Longrightarrow> g \<notin> set (objectIDs ps) \<Longrightarrow> g \<notin> set (arrayIDs ps) \<Longrightarrow>
    callsOf ((objectHead ps 2, c) # (arrayHead ps 2, d) # linkCalls ps) g = []"
proof (induction ps arbitrary: c d)
  case Nil then show ?case by (simp add: callsOf_def)
next
  case (Cons q ps)
  obtain n x k y where q: "q = (n, x, k, y)" by (cases q)
  have "g \<noteq> x" "g \<noteq> y" "g \<notin> set (objectIDs ps)" "g \<notin> set (arrayIDs ps)" using Cons.prems unfolding q ids_Cons by auto
  then show ?case using Cons.IH [of "oneArg x 1 DObject" "oneArg y 1 DArray"] Cons.prems(1) by (simp add: q callsOf_Cons)
qed

lemma callsOf_once:
  "freshClones ps \<Longrightarrow> g \<noteq> 2 \<Longrightarrow> length (callsOf ((objectHead ps 2, c) # (arrayHead ps 2, d) # linkCalls ps) g) \<le> 1"
proof (induction ps arbitrary: c d)
  case Nil then show ?case by (simp add: callsOf_def)
next
  case (Cons q ps)
  obtain n x k y where q: "q = (n, x, k, y)" by (cases q)
  note t = freshClones_tail [OF Cons.prems(1) [unfolded q]]
  let ?rest = "callsOf ((objectHead ps 2, oneArg x 1 DObject) # (arrayHead ps 2, oneArg y 1 DArray) # linkCalls ps) g"
  have "?rest = []" if "g = x \<or> g = y" using that t Cons.prems(2) callsOf_none [of g ps] by blast
  moreover have "length ?rest \<le> 1" by (rule Cons.IH [OF t(1) Cons.prems(2)])
  moreover have "callsOf ((objectHead (q # ps) 2, c) # (arrayHead (q # ps) 2, d) # linkCalls (q # ps)) g =
      (if x = g then [c] else []) @ (if y = g then [d] else []) @ ?rest" by (simp add: q callsOf_Cons)
  ultimately show ?case using t(2) by auto
qed

lemma callsOf_two:
  assumes "freshClones ps" "lastCalls (g, i) (h, j) ps = ((g', i'), (h', j'))"
  shows "callsOf ((objectHead ps 2, oneArg g i DObject) # (arrayHead ps 2, oneArg h j DArray) # linkCalls ps) 2 = [oneArg g' i' DObject, oneArg h' j' DArray]"
  using assms
proof (induction ps arbitrary: g i h j)
  case Nil then show ?case by (simp add: callsOf_def)
next
  case (Cons q ps)
  obtain n x k y where q: "q = (n, x, k, y)" by (cases q)
  note t = freshClones_tail [OF Cons.prems(1) [unfolded q]]
  have "lastCalls (x, 1) (y, 1) ps = ((g', i'), (h', j'))" using Cons.prems(2) by (simp add: q)
  from Cons.IH [OF t(1) this] show ?case using t(3,4) by (simp add: q callsOf_Cons)
qed

lemma skip_single:
  assumes "length (callsOf records g) \<le> 1"
  shows "specializeFunctions unique records (g # gs) changed m = specializeFunctions unique records gs changed m"
proof (cases "callsOf records g")
  case (Cons r rs)
  then have "rs = []" using assms by simp
  then show ?thesis using Cons by (simp add: containsSignature_def)
qed simp

lemma skip_all:
  "list_all (\<lambda>g. length (callsOf records g) \<le> 1) gs \<Longrightarrow> specializeFunctions unique records gs changed m = (changed, m)"
  by (induction gs) (simp_all add: skip_single del: specializeFunctions.simps(2))

section \<open>What the redirection makes of the module\<close>

lemma setCalled_append: "setCalledFunction g i u (m @ m') = setCalledFunction g i u m @ setCalledFunction g i u m'"
  by (simp add: setCalledFunction_def)

lemma setCalled_nil: "setCalledFunction g i u [] = []"
  by (simp add: setCalledFunction_def)

lemma setCalled_absent: "g \<notin> fn_id ` set m \<Longrightarrow> setCalledFunction g i u m = m"
  unfolding setCalledFunction_def by (intro map_idI) auto

lemma setCalled_walker: "setCalledFunction g 1 u [walker n g v] = [walker n g u]"
  by (simp add: setCalledFunction_def walker_def)

lemma heads_last: "ps \<noteq> [] \<Longrightarrow> objectHead ps s = objectHead ps s'" "ps \<noteq> [] \<Longrightarrow> arrayHead ps t = arrayHead ps t'"
  by (cases ps; auto)+

lemma lastCalls_ids:
  "ps \<noteq> [] \<Longrightarrow> lastCalls c d ps = ((g, i), (h, j)) \<Longrightarrow> g \<in> set (objectIDs ps) \<and> h \<in> set (arrayIDs ps) \<and> i = 1 \<and> j = 1"
proof (induction ps arbitrary: c d)
  case (Cons q ps)
  obtain n x k y where q: "q = (n, x, k, y)" by (cases q)
  show ?case
  proof (cases ps)
    case Nil then show ?thesis using Cons.prems(2) unfolding q ids_Cons by simp
  next
    case (Cons r rs)
    then show ?thesis using Cons.IH [of "(x, 1)" "(y, 1)"] Cons.prems(2) unfolding q ids_Cons by simp
  qed
qed simp

lemma redirect_links:
  assumes "freshClones ps" "ps \<noteq> []" "lastCalls c d ps = ((g, i), (h, j))"
  shows "setCalledFunction g i u (links ps s t) = links ps u t" "setCalledFunction h j u (links ps s t) = links ps s u"
proof -
  have "setCalledFunction g i u (links ps s t) = links ps u t \<and> setCalledFunction h j u (links ps s t) = links ps s u"
    using assms
  proof (induction ps arbitrary: c d)
    case (Cons q ps)
    obtain n x k y where q: "q = (n, x, k, y)" by (cases q)
    note f = freshClones_tail [OF Cons.prems(1) [unfolded q]]
    have w: "fn_id (walker n x v) = x" "fn_id (walker k y v) = y" for v by (simp_all add: walker_def)
    show ?case
    proof (cases "ps = []")
      case True
      then have "g = x" "h = y" "i = 1" "j = 1" using Cons.prems(3) q by auto
      moreover have "setCalledFunction x 1 u [walker k y t] = [walker k y t]" "setCalledFunction y 1 u [walker n x s] = [walker n x s]"
        using f(2) w by (auto intro!: setCalled_absent)
      ultimately show ?thesis
        using True q setCalled_append [of x 1 u "[walker n x s]" "[walker k y t]"] setCalled_append [of y 1 u "[walker n x s]" "[walker k y t]"]
        by (simp add: setCalled_walker del: One_nat_def)
    next
      case False
      have l: "lastCalls (x, 1) (y, 1) ps = ((g, i), (h, j))" using Cons.prems(3) q by simp
      have gh: "g \<in> set (objectIDs ps)" "h \<in> set (arrayIDs ps)" using lastCalls_ids [OF False l] by blast+
      have "g \<noteq> x" "g \<noteq> y" "h \<noteq> x" "h \<noteq> y" using gh f(5-8) by auto
      then have "setCalledFunction g i u [walker n x a, walker k y b] = [walker n x a, walker k y b]"
        "setCalledFunction h j u [walker n x a, walker k y b] = [walker n x a, walker k y b]" for a b
        using w by (auto intro!: setCalled_absent)
      then show ?thesis
        using Cons.IH [OF f(1) False l] setCalled_append [of g i u "[walker n x (objectHead ps s), walker k y (arrayHead ps t)]" "links ps s t"]
          setCalled_append [of h j u "[walker n x (objectHead ps s), walker k y (arrayHead ps t)]" "links ps s t"]
          heads_last(1) [OF False, of s u] heads_last(2) [OF False, of t u] q by simp
    qed
  qed simp
  then show "setCalledFunction g i u (links ps s t) = links ps u t" "setCalledFunction h j u (links ps s t) = links ps s u" by simp_all
qed

lemma redirect_main:
  "setCalledFunction 3 2 u [mainOf s t] = [mainOf u t]" "setCalledFunction 3 3 u [mainOf s t] = [mainOf s u]"
  by (simp_all add: setCalledFunction_def mainOf_def)

lemma redirect_spun:
  assumes "freshClones ps" "lastCalls (3, 2) (3, 3) ps = ((g, i), (h, j))"
  shows "setCalledFunction g i u (spun ps s t) = spun ps u t" "setCalledFunction h j u (spun ps s t) = spun ps s u"
proof -
  have base: "spun ps s t = [allocObject, allocArray, walker ''walk'' 2 2] @ [mainOf (objectHead ps s) (arrayHead ps t)] @ links ps s t" for s t
    by (simp add: spun_def)
  have ids: "fn_id ` set [allocObject, allocArray, walker ''walk'' 2 2] = {0, 1, 2}" by (simp add: module_defs)
  have "setCalledFunction g i u (spun ps s t) = spun ps u t \<and> setCalledFunction h j u (spun ps s t) = spun ps s u"
  proof (cases "ps = []")
    case True
    then have "g = 3" "i = 2" "h = 3" "j = 3" using assms(2) by auto
    moreover have "setCalledFunction 3 k u [allocObject, allocArray, walker ''walk'' 2 2] = [allocObject, allocArray, walker ''walk'' 2 2]" for k
      by (rule setCalled_absent) (simp add: module_defs)
    ultimately show ?thesis unfolding base setCalled_append using True by (simp add: redirect_main setCalled_nil)
  next
    case False
    have gh: "g \<in> set (objectIDs ps)" "h \<in> set (arrayIDs ps)" using lastCalls_ids [OF False assms(2)] by blast+
    have "3 < g" "3 < h" using gh assms(1) by (simp_all add: freshClones_def list_all_iff)
    then have "setCalledFunction g i u ([allocObject, allocArray, walker ''walk'' 2 2]) = [allocObject, allocArray, walker ''walk'' 2 2]"
      "setCalledFunction h j u ([allocObject, allocArray, walker ''walk'' 2 2]) = [allocObject, allocArray, walker ''walk'' 2 2]"
      "setCalledFunction g i u [mainOf v w] = [mainOf v w]" "setCalledFunction h j u [mainOf v w] = [mainOf v w]" for v w
      by (auto intro!: setCalled_absent simp: module_defs)
    then show ?thesis
      unfolding base setCalled_append redirect_links [OF assms(1) False assms(2)]
      using heads_last(1) [OF False, of s u] heads_last(2) [OF False, of t u] by simp
  qed
  then show "setCalledFunction g i u (spun ps s t) = spun ps u t" "setCalledFunction h j u (spun ps s t) = spun ps s u" by simp_all
qed

lemma links_snoc: "links (ps @ [(n, x, k, y)]) s t = links ps x y @ [walker n x s, walker k y t]"
proof (induction ps)
  case (Cons q ps)
  obtain n' x' k' y' where q: "q = (n', x', k', y')" by (cases q)
  have "objectHead (ps @ [(n, x, k, y)]) s = objectHead ps x" "arrayHead (ps @ [(n, x, k, y)]) t = arrayHead ps y" by (cases ps; auto)+
  then show ?case using Cons by (simp add: q)
qed simp

lemma spun_snoc: "spun (ps @ [(n, x, k, y)]) s t = spun ps x y @ [walker n x s, walker k y t]"
proof -
  have "objectHead (ps @ [(n, x, k, y)]) s = objectHead ps x" "arrayHead (ps @ [(n, x, k, y)]) t = arrayHead ps y" by (cases ps; auto)+
  then show ?thesis by (simp add: spun_def links_snoc)
qed

lemma freshClones_snoc:
  assumes "freshClones ps" "x = freshFunction (spun ps 2 2)" "y = freshFunction (spun ps 2 2 @ [f])" "fn_id f = x"
  shows "freshClones (ps @ [(n, x, k, y)])"
proof -
  have ids: "fn_id ` set (spun ps 2 2) = {0, 1, 2, 3} \<union> set (objectIDs ps) \<union> set (arrayIDs ps)"
    using links_ids [of ps 2 2] by (auto simp: spun_def module_defs)
  have x: "g < x" if "g \<in> {0, 1, 2, 3} \<union> set (objectIDs ps) \<union> set (arrayIDs ps)" for g
    using freshFunction_above [of g "spun ps 2 2"] that assms(2) ids by simp
  have y: "g < y" if "g \<in> insert x ({0, 1, 2, 3} \<union> set (objectIDs ps) \<union> set (arrayIDs ps))" for g
  proof -
    have "fn_id ` set (spun ps 2 2 @ [f]) = insert x ({0, 1, 2, 3} \<union> set (objectIDs ps) \<union> set (arrayIDs ps))"
      using ids assms(4) by simp
    then show ?thesis using freshFunction_above [of g "spun ps 2 2 @ [f]"] that assms(3) by simp
  qed
  have "x \<notin> set (objectIDs ps)" "x \<notin> set (arrayIDs ps)" "y \<notin> set (objectIDs ps)" "y \<notin> set (arrayIDs ps)" "x \<noteq> y" "3 < x" "3 < y"
    using x [of x] y [of y] y [of x] x [of 3] y [of 3] by auto
  then show ?thesis using assms(1) by (auto simp: freshClones_def objectIDs_def arrayIDs_def)
qed

lemma spun_round:
  assumes "freshClones ps"
  obtains p where "specializeManagedDispatchRound (\<lambda>_. noCasts) unique (spun ps 2 2) = Some (True, spun (ps @ [p]) 2 2)"
    "freshClones (ps @ [p])"
proof -
  let ?m = "spun ps 2 2" and ?w = "walker ''walk'' 2 2"
  obtain a where a: "analyse noCasts ?m = Some a" using analyse_ends [OF spun_wellNumbered [OF assms]] by blast
  obtain g i h j where l: "lastCalls (3, 2) (3, 3) ps = ((g, i), (h, j))" by (metis surj_pair)
  define records where "records = callMap noCasts ?m a"
  have r: "records = (2, oneArg 2 1 DGeneric) # (objectHead ps 2, oneArg 3 2 DObject) # (arrayHead ps 2, oneArg 3 3 DArray) # linkCalls ps"
    unfolding records_def by (rule spun_calls [OF assms a])
  have two: "callsOf records 2 = [oneArg 2 1 DGeneric, oneArg g i DObject, oneArg h j DArray]"
    unfolding r callsOf_Cons [of 2] callsOf_two [OF assms l] by simp
  have once: "length (callsOf records f) \<le> 1" if "f \<noteq> 2" for f
    unfolding r callsOf_Cons [of 2] using callsOf_once [OF assms that] that by simp
  have sigs: "specializedSignatures (callsOf records 2) [] False = ([[DObject], [DArray]], True)"
    unfolding two by (simp add: oneArg_def hasSpecialization_def containsSignature_def)
  define x where "x = freshFunction ?m"
  define n where "n = unique (map fn_name ?m) (buildCloneName ?w [DObject])"
  define y where "y = freshFunction (?m @ [walker n x 2])"
  define k where "k = unique (map fn_name ?m @ [fn_name (walker n x 2)]) (buildCloneName ?w [DArray])"
  have clone: "cloneFunction u v ?w = walker v u 2" for u v by (simp add: cloneFunction_def walker_def mapOperands_def cloneVal_def)
  have clones: "cloneAll unique 2 [[DObject], [DArray]] [] ?m = ([([DObject], x), ([DArray], y)], ?m @ [walker n x 2, walker k y 2])"
    using spun_base(3) [OF assms, of 2 2] functionAt_append [OF spun_base(3) [OF assms, of 2 2], of "[walker n x 2]"]
    by (simp add: clone x_def [symmetric] n_def [symmetric] y_def [symmetric] k_def [symmetric])
  have fresh: "freshClones (ps @ [(n, x, k, y)])"
    by (rule freshClones_snoc [OF assms x_def y_def]) (simp add: walker_def)
  have below: "v < x" "v < y" if "v \<in> fn_id ` set ?m" for v
    using that freshFunction_above [of v ?m] freshFunction_above [of v "?m @ [walker n x 2]"] by (simp_all add: x_def y_def)
  have gm: "g \<in> fn_id ` set ?m" "h \<in> fn_id ` set ?m"
  proof -
    have "fn_id (mainOf u v) = 3" for u v by (simp add: mainOf_def)
    then have main: "3 \<in> fn_id ` set ?m" by (force simp: spun_def)
    have "fn_id ` set (links ps 2 2) \<subseteq> fn_id ` set ?m" by (auto simp: spun_def)
    then have "set (objectIDs ps) \<union> set (arrayIDs ps) \<subseteq> fn_id ` set ?m" unfolding links_ids .
    then show "g \<in> fn_id ` set ?m" "h \<in> fn_id ` set ?m"
      using lastCalls_ids [OF _ l] main l by (cases "ps = []"; auto)+
  qed
  have "g < x" "g < y" "h < x" "h < y" using below gm by blast+
  then have new: "setCalledFunction g i u [walker n x 2, walker k y 2] = [walker n x 2, walker k y 2]"
    "setCalledFunction h j u [walker n x 2, walker k y 2] = [walker n x 2, walker k y 2]" for u
    by (auto intro!: setCalled_absent simp: walker_def)
  have red: "redirectCalls [([DObject], x), ([DArray], y)] (callsOf records 2) (?m @ [walker n x 2, walker k y 2]) = spun (ps @ [(n, x, k, y)]) 2 2"
    unfolding two spun_snoc
    by (simp add: redirectCalls_def oneArg_def findClone_def setCalled_append new redirect_spun [OF assms l])
  have step: "specializeFunctions unique records (2 # fs) False ?m = specializeFunctions unique records fs True (spun (ps @ [(n, x, k, y)]) 2 2)" for fs
    using spun_base(3) [OF assms, of 2 2] two sigs clones red should_walker [of "''walk''" 2 2] by simp
  have rest: "list_all (\<lambda>f. length (callsOf records f) \<le> 1) (3 # map fn_id (links ps 2 2))"
  proof -
    have "f \<noteq> 2" if "f \<in> set (3 # map fn_id (links ps 2 2))" for f
      using that links_ids [of ps 2 2] freshClones_ids(1,2) [OF assms, of 2] by auto
    then show ?thesis using once by (simp add: list_all_iff)
  qed
  have "map fn_id ?m = 0 # 1 # 2 # 3 # map fn_id (links ps 2 2)" by (simp add: spun_def module_defs)
  then have "specializeFunctions unique records (map fn_id ?m) False ?m = (True, spun (ps @ [(n, x, k, y)]) 2 2)"
    using skip_single [OF once, of 0] skip_single [OF once, of 1] step skip_all [OF rest] by (simp del: specializeFunctions.simps)
  then have "specializeManagedDispatchRound (\<lambda>_. noCasts) unique ?m = Some (True, spun (ps @ [(n, x, k, y)]) 2 2)"
    by (simp add: specializeManagedDispatchRound_def a records_def)
  then show thesis using that fresh by blast
qed

definition spinning :: "(ir_module \<Rightarrow> val \<Rightarrow> val) \<Rightarrow> ir_module \<Rightarrow> bool" where
  "spinning strip m \<longleftrightarrow> strip = (\<lambda>_. noCasts) \<and> (\<exists>ps. freshClones ps \<and> m = spun ps 2 2)"

lemma spinning_round:
  assumes "spinning strip m"
  obtains m' where "specializeManagedDispatchRound strip unique m = Some (True, m')" "spinning strip m'"
proof -
  obtain ps where s: "strip = (\<lambda>_. noCasts)" "freshClones ps" "m = spun ps 2 2" using assms by (auto simp: spinning_def)
  obtain p where "specializeManagedDispatchRound (\<lambda>_. noCasts) unique (spun ps 2 2) = Some (True, spun (ps @ [p]) 2 2)"
    "freshClones (ps @ [p])" by (rule spun_round [OF s(2)])
  then show thesis using that s unfolding spinning_def by blast
qed

lemma no_result: "specializeManagedDispatch strip unique m = Some r \<Longrightarrow> \<not> spinning strip m"
proof (erule specializeManagedDispatch.raw_induct [where P = "\<lambda>strip unique m r. \<not> spinning strip m", rotated])
  fix spec :: "(ir_module \<Rightarrow> val \<Rightarrow> val) \<Rightarrow> (string list \<Rightarrow> string \<Rightarrow> string) \<Rightarrow> ir_module \<Rightarrow> ir_module option"
  fix strip unique m r
  assume IH: "\<And>strip unique m r. spec strip unique m = Some r \<Longrightarrow> \<not> spinning strip m"
    and body: "(case specializeManagedDispatchRound strip unique m of None \<Rightarrow> None
      | Some (changed, m') \<Rightarrow> if changed then spec strip unique m' else Some m') = Some r"
  show "\<not> spinning strip m"
  proof
    assume "spinning strip m"
    then obtain m' where m': "specializeManagedDispatchRound strip unique m = Some (True, m')" "spinning strip m'"
      by (rule spinning_round)
    have "spec strip unique m' = Some r" using body unfolding m'(1) option.case prod.case if_True .
    then show False using IH m'(2) by blast
  qed
qed

theorem spun_never_ends:
  assumes "freshClones ps"
  shows "specializeManagedDispatch (\<lambda>_. noCasts) unique (spun ps 2 2) = None"
proof (cases "specializeManagedDispatch (\<lambda>_. noCasts) unique (spun ps 2 2)")
  case (Some r)
  have "spinning (\<lambda>_. noCasts) (spun ps 2 2)" unfolding spinning_def using assms by blast
  then show ?thesis using no_result [OF Some] by blast
qed

end
