(* ===== verification/Managed_Dispatch_Properties.thy ===== *)
theory Managed_Dispatch_Properties
  imports Dispatch_Loop
begin

text \<open>
  What a result of the specialisation by argument kinds promises, and a module without a result.
\<close>

section \<open>The last round\<close>

lemma hasSpecialization_not: "\<not> hasSpecialization s \<longleftrightarrow> s = replicate (length s) DGeneric"
  by (induction s) (auto simp: hasSpecialization_def)

lemma specializedSignatures_collects:
  assumes "specializedSignatures rs signatures saw = (signatures', saw')"
  shows "set signatures' = set signatures \<union> {s \<in> cr_signature ` set rs. hasSpecialization s}"
    and "saw' \<longleftrightarrow> saw \<or> (\<exists>r \<in> set rs. \<not> hasSpecialization (cr_signature r))"
  using assms
  by (induction rs signatures saw rule: specializedSignatures.induct)
    (auto simp: containsSignature_def list_ex_iff split: if_splits)

lemma specializedSignatures_same:
  assumes "specializedSignatures rs [] False = (signatures, saw)" "signatures = [] \<or> length signatures = 1 \<and> \<not> saw"
    and "\<And>r. r \<in> set rs \<Longrightarrow> length (cr_signature r) = n" "r \<in> set rs" "r' \<in> set rs"
  shows "cr_signature r = cr_signature r'"
proof -
  note facts = specializedSignatures_collects [OF assms(1)]
  show ?thesis
    using assms(2)
  proof
    assume "signatures = []"
    then have "\<not> hasSpecialization (cr_signature q)" if "q \<in> set rs" for q using facts(1) that by auto
    then have "cr_signature q = replicate n DGeneric" if "q \<in> set rs" for q using that assms(3) hasSpecialization_not by metis
    then show ?thesis using assms(4,5) by simp
  next
    assume one: "length signatures = 1 \<and> \<not> saw"
    then obtain s where s: "signatures = [s]" by (auto simp: length_Suc_conv)
    have "cr_signature q = s" if "q \<in> set rs" for q using facts one s that by auto
    then show ?thesis using assms(4,5) by simp
  qed
qed

lemma fillSignature_length: "length (fillSignature m a n args s) = length s"
  by (induction m a n args s rule: fillSignature.induct) simp_all

text \<open>The calls recorded for a function have signatures of its number of parameters.\<close>

lemma callMap_callee:
  assumes "r \<in> set (callsOf (callMap strip m a) g)"
  obtains callee where "functionAt m g = Some callee" "shouldSpecializeFunction callee" "length (cr_signature r) = length (fn_params callee)"
    "g \<in> set (map fn_id m)"
proof -
  obtain f i where "(g, r) \<in> set (callRecord strip m a f i)" using assms by (auto simp: callsOf_def callMap_def)
  then obtain callee where "functionAt m g = Some callee" "shouldSpecializeFunction callee" "length (cr_signature r) = length (fn_params callee)"
    by (auto simp: callRecord_def buildDispatchSignature_def fillSignature_length split: operation.splits option.splits if_splits dest!: sym [of "Some _" "functionAt m g"])
  then show thesis using that functionAt_Some [of m g callee] by auto
qed

lemma specializeFunctions_unchanged:
  assumes "specializeFunctions unique records gs c m = (False, m')"
  shows "\<not> c" "m' = m"
    "\<And>g f. g \<in> set gs \<Longrightarrow> functionAt m g = Some f \<Longrightarrow> shouldSpecializeFunction f \<Longrightarrow> callsOf records g \<noteq> [] \<Longrightarrow>
       \<exists>signatures saw. specializedSignatures (callsOf records g) [] False = (signatures, saw) \<and>
         (signatures = [] \<or> length signatures = 1 \<and> \<not> saw)"
proof -
  have "\<not> c \<and> m' = m \<and> (\<forall>g f. g \<in> set gs \<longrightarrow> functionAt m g = Some f \<longrightarrow> shouldSpecializeFunction f \<longrightarrow> callsOf records g \<noteq> [] \<longrightarrow>
     (\<exists>signatures saw. specializedSignatures (callsOf records g) [] False = (signatures, saw) \<and>
       (signatures = [] \<or> length signatures = 1 \<and> \<not> saw)))"
    using assms
  proof (induction gs arbitrary: c m)
    case Nil then show ?case by simp
  next
    case (Cons g gs)
    show ?case
    proof (cases "(case functionAt m g of Some f \<Rightarrow> shouldSpecializeFunction f | None \<Rightarrow> False) \<and> callsOf records g \<noteq> []")
      case False
      then have "specializeFunctions unique records gs c m = (False, m')" using Cons.prems by (auto split: option.splits if_splits)
      from Cons.IH [OF this] show ?thesis using False by (auto split: option.splits)
    next
      case True
      obtain s saw where s: "specializedSignatures (callsOf records g) [] False = (s, saw)" by (metis surj_pair)
      show ?thesis
      proof (cases "s = [] \<or> length s = 1 \<and> \<not> saw")
        case quiet: True
        then have "specializeFunctions unique records gs c m = (False, m')" using Cons.prems True s by (auto split: option.splits if_splits)
        from Cons.IH [OF this] show ?thesis using s quiet by auto
      next
        case False
        obtain clones m1 where "cloneAll unique g s [] m = (clones, m1)" by (metis surj_pair)
        then have "specializeFunctions unique records gs True (redirectCalls clones (callsOf records g) m1) = (False, m')"
          using Cons.prems True s False by (auto split: option.splits if_splits)
        from Cons.IH [OF this] show ?thesis by simp
      qed
    qed
  qed
  then show "\<not> c" "m' = m"
    "\<And>g f. g \<in> set gs \<Longrightarrow> functionAt m g = Some f \<Longrightarrow> shouldSpecializeFunction f \<Longrightarrow> callsOf records g \<noteq> [] \<Longrightarrow>
       \<exists>signatures saw. specializedSignatures (callsOf records g) [] False = (signatures, saw) \<and>
         (signatures = [] \<or> length signatures = 1 \<and> \<not> saw)"
    by blast+
qed

lemma last_round:
  assumes "specializeManagedDispatch strip unique m = Some m'"
  shows "specializeManagedDispatchRound strip unique m' = Some (False, m')"
proof (rule specializeManagedDispatch.raw_induct
    [where P = "\<lambda>strip unique m m'. specializeManagedDispatchRound strip unique m' = Some (False, m')", OF _ assms])
  fix spec :: "(ir_module \<Rightarrow> val \<Rightarrow> val) \<Rightarrow> (string list \<Rightarrow> string \<Rightarrow> string) \<Rightarrow> ir_module \<Rightarrow> ir_module option"
  fix strip unique m m'
  assume IH: "\<And>strip unique m m'. spec strip unique m = Some m' \<Longrightarrow> specializeManagedDispatchRound strip unique m' = Some (False, m')"
    and body: "(case specializeManagedDispatchRound strip unique m of None \<Rightarrow> None
      | Some (changed, m') \<Rightarrow> if changed then spec strip unique m' else Some m') = Some m'"
  obtain changed m1 where r: "specializeManagedDispatchRound strip unique m = Some (changed, m1)"
    using body by (auto split: option.splits)
  show "specializeManagedDispatchRound strip unique m' = Some (False, m')"
  proof (cases changed)
    case True
    then have "spec strip unique m1 = Some m'" using body r by simp
    then show ?thesis by (rule IH)
  next
    case False
    then have m1: "m1 = m'" using body r by simp
    obtain a where "specializeFunctions unique (callMap (strip m) m a) (map fn_id m) False m = (False, m')"
      using r False m1 by (auto simp: specializeManagedDispatchRound_def split: option.splits)
    then have "m' = m" by (rule specializeFunctions_unchanged)
    then show ?thesis using r False m1 by simp
  qed
qed

section \<open>Calls and their arguments, read off the module\<close>

text \<open>The instruction \<open>i\<close> of \<open>f\<close> calls function \<open>g\<close> directly, with these arguments.\<close>

definition callsDirectly :: "(val \<Rightarrow> val) \<Rightarrow> ir_module \<Rightarrow> ir_function \<Rightarrow> instruction \<Rightarrow> nat \<Rightarrow> val list \<Rightarrow> bool" where
  "callsDirectly strip m f i g args \<longleftrightarrow>
     f \<in> set m \<and> i \<in> set (instructionsOf f) \<and> (\<exists>c. in_op i = OCall c args \<and> strip c = VFunc g)"

text \<open>What an argument is known to be; a value that is no pointer is of no known kind.\<close>

definition argumentKind :: "ir_module \<Rightarrow> analysis \<Rightarrow> val \<Rightarrow> ManagedPointerKind" where
  "argumentKind m a v = (if isPointerValue m v then dispatchKind (getValueState m a v) else PUnknown)"

lemma fillSignature_nth:
  "k \<le> j \<Longrightarrow> j < length s \<Longrightarrow> j - k < length args \<Longrightarrow> isPointerValue m (args ! (j - k)) \<Longrightarrow>
     fillSignature m a k args s ! j = toDispatchArgKind (getValueState m a (args ! (j - k)))"
  "k \<le> j \<Longrightarrow> j < length s \<Longrightarrow> j - k < length args \<Longrightarrow> \<not> isPointerValue m (args ! (j - k)) \<Longrightarrow>
     fillSignature m a k args s ! j = s ! j"
  "j < k \<Longrightarrow> fillSignature m a k args s ! j = s ! j"
proof (induction m a k args s rule: fillSignature.induct)
  case (2 m a k arg args s)
  { case 1
    show ?case
    proof (cases "k = j")
      case True then show ?thesis using 1 2(3) by simp
    next
      case False
      then have "j - k = Suc (j - Suc k)" using 1(1) by simp
      then show ?thesis using 1 2(1) False by simp
    qed
  next
    case 2
    show ?case
    proof (cases "k = j")
      case True then show ?thesis using 2 "2.IH"(3) by simp
    next
      case False
      then have "j - k = Suc (j - Suc k)" using 2(1) by simp
      then show ?thesis using 2 "2.IH"(2) False by simp
    qed
  next
    case 3 then show ?case using "2.IH"(3) by simp }
qed simp_all

lemma toDispatchArgKind_inj: "toDispatchArgKind s = toDispatchArgKind t \<longleftrightarrow> dispatchKind s = dispatchKind t"
  by (cases "dispatchKind s"; cases "dispatchKind t") (simp_all add: toDispatchArgKind_def)

lemma toDispatchArgKind_generic: "toDispatchArgKind s = DGeneric \<longleftrightarrow> dispatchKind s = PUnknown"
  by (cases "dispatchKind s") (simp_all add: toDispatchArgKind_def)

text \<open>The signature of a call says at every parameter which kind its argument is.\<close>

lemma buildDispatchSignature_nth:
  assumes "n < length (fn_params h)" "n < length args"
  shows "buildDispatchSignature m a args h ! n =
    (if isPointerValue m (args ! n) then toDispatchArgKind (getValueState m a (args ! n)) else DGeneric)"
  using assms fillSignature_nth(1,2) [of 0 n "replicate (length (fn_params h)) DGeneric" args m a]
  by (simp add: buildDispatchSignature_def)

lemma same_signature_same_kind:
  assumes "buildDispatchSignature m a args h = buildDispatchSignature m a args' h"
    and "n < length (fn_params h)" "n < length args" "n < length args'"
  shows "argumentKind m a (args ! n) = argumentKind m a (args' ! n)"
proof -
  have "buildDispatchSignature m a args h ! n = buildDispatchSignature m a args' h ! n" using assms(1) by simp
  then show ?thesis
    by (auto simp: buildDispatchSignature_nth [OF assms(2,3)] buildDispatchSignature_nth [OF assms(2,4)] argumentKind_def
        toDispatchArgKind_inj toDispatchArgKind_generic dest: sym split: if_splits)
qed

lemma recorded_call:
  assumes "callsDirectly strip m f i g args" "functionAt m g = Some h" "shouldSpecializeFunction h"
  shows "\<lparr>cr_caller = fn_id f, cr_call = in_id i, cr_signature = buildDispatchSignature m a args h\<rparr>
    \<in> set (callsOf (callMap strip m a) g)"
proof -
  have "(g, \<lparr>cr_caller = fn_id f, cr_call = in_id i, cr_signature = buildDispatchSignature m a args h\<rparr>) \<in> set (callRecord strip m a f i)"
    using assms by (auto simp: callsDirectly_def callRecord_def getDirectCallee_def)
  then show ?thesis using assms(1) by (force simp: callsDirectly_def callsOf_def callMap_def)
qed

lemma result_signatures:
  assumes "specializeManagedDispatch strip unique m = Some m'" "analyse (strip m') m' = Some a"
    and "r \<in> set (callsOf (callMap (strip m') m' a) g)" "r' \<in> set (callsOf (callMap (strip m') m' a) g)"
  shows "cr_signature r = cr_signature r'"
proof -
  let ?calls = "callMap (strip m') m' a"
  have "specializeFunctions unique ?calls (map fn_id m') False m' = (False, m')"
    using last_round [OF assms(1)] assms(2) by (simp add: specializeManagedDispatchRound_def)
  note quiet = specializeFunctions_unchanged(3) [OF this]
  obtain callee where c: "functionAt m' g = Some callee" "shouldSpecializeFunction callee" "g \<in> set (map fn_id m')"
    by (rule callMap_callee [OF assms(3)])
  have ne: "callsOf ?calls g \<noteq> []" using assms(3) by auto
  obtain signatures saw where s: "specializedSignatures (callsOf ?calls g) [] False = (signatures, saw)"
    "signatures = [] \<or> length signatures = 1 \<and> \<not> saw" using quiet [OF c(3,1,2) ne] by blast
  have "length (cr_signature q) = length (fn_params callee)" if "q \<in> set (callsOf ?calls g)" for q
    by (rule callMap_callee [OF that]) (use c(1) in simp)
  then show ?thesis by (rule specializedSignatures_same [OF s _ assms(3,4)])
qed

text \<open>C19. When the specialisation by argument kinds ends, its result is monomorphic: any two direct calls of
  a function that is defined, has no variable arguments and whose address is not taken pass the same
  kind of argument - raw, object, array or not known - at each of its parameters, by the states of the
  analysis of the result.\<close>

theorem result_is_monomorphic:
  assumes "specializeManagedDispatch strip unique m = Some m'" "analyse (strip m') m' = Some a"
    and "callsDirectly (strip m') m' f i g args" "callsDirectly (strip m') m' f' i' g args'"
    and "functionAt m' g = Some h" "\<not> fn_isDeclaration h" "\<not> fn_hasAddressTaken h" "\<not> fn_isVarArg h"
    and "n < length (fn_params h)" "n < length args" "n < length args'"
  shows "argumentKind m' a (args ! n) = argumentKind m' a (args' ! n)"
proof -
  have h: "shouldSpecializeFunction h" using assms(6-8) by (simp add: shouldSpecializeFunction_def)
  have "buildDispatchSignature m' a args h = buildDispatchSignature m' a args' h"
    using result_signatures [OF assms(1,2) recorded_call [OF assms(3,5) h] recorded_call [OF assms(4,5) h]] by simp
  then show ?thesis by (rule same_signature_same_kind [OF _ assms(9-11)])
qed

text \<open>A module whose \<open>main\<close> passes an object, an array and another object to \<open>sink\<close>, and what the
  specialisation makes of it: a clone for objects and a clone for arrays.\<close>

definition splitMain :: "nat \<Rightarrow> nat \<Rightarrow> ir_function" where
  "splitMain x y =
      \<lparr>fn_id = 3, fn_name = ''main'', fn_isDeclaration = False, fn_hasAddressTaken = False, fn_isVarArg = False,
        fn_params = [], fn_returnsPointer = False,
        fn_blocks = [[\<lparr>in_id = 0, in_isPointer = True, in_op = OCall (VFunc 0) []\<rparr>,
          \<lparr>in_id = 1, in_isPointer = True, in_op = OCall (VFunc 1) []\<rparr>,
          \<lparr>in_id = 2, in_isPointer = True, in_op = OCall (VFunc 0) []\<rparr>,
          \<lparr>in_id = 3, in_isPointer = False, in_op = OCall (VFunc x) [VInst 3 0]\<rparr>,
          \<lparr>in_id = 4, in_isPointer = False, in_op = OCall (VFunc y) [VInst 3 1]\<rparr>,
          \<lparr>in_id = 5, in_isPointer = False, in_op = OCall (VFunc x) [VInst 3 2]\<rparr>,
          \<lparr>in_id = 6, in_isPointer = False, in_op = ORet None\<rparr>]]\<rparr>"

definition sink :: "string \<Rightarrow> nat \<Rightarrow> ir_function" where
  "sink n g = \<lparr>fn_id = g, fn_name = n, fn_isDeclaration = False, fn_hasAddressTaken = False, fn_isVarArg = False,
        fn_params = [True], fn_returnsPointer = False,
        fn_blocks = [[\<lparr>in_id = 0, in_isPointer = False, in_op = ORet None\<rparr>]]\<rparr>"

definition splitModule :: ir_module where
  "splitModule = [allocObject, allocArray, sink ''sink'' 2, splitMain 2 2]"

definition splitResult :: ir_module where
  "splitResult = [allocObject, allocArray, sink ''sink'' 2, splitMain 4 5,
     sink ''sink.__mvm.arg0_object'' 4, sink ''sink.__mvm.arg0_array'' 5]"

lemma splitModule_specialised: "specializeManagedDispatch (\<lambda>_. noCasts) (\<lambda>_ n. n) splitModule = Some splitResult"
  by code_simp

lemma splitResult_numbered: "wellNumbered splitResult"
  by (simp add: wellNumbered_def splitResult_def allocObject_def allocArray_def sink_def splitMain_def instructionsOf_def)

lemma splitResult_calls:
  "callsDirectly noCasts splitResult (splitMain 4 5) \<lparr>in_id = 3, in_isPointer = False, in_op = OCall (VFunc 4) [VInst 3 0]\<rparr> 4 [VInst 3 0]"
  "callsDirectly noCasts splitResult (splitMain 4 5) \<lparr>in_id = 5, in_isPointer = False, in_op = OCall (VFunc 4) [VInst 3 2]\<rparr> 4 [VInst 3 2]"
  by (simp_all add: callsDirectly_def splitResult_def splitMain_def instructionsOf_def noCasts_def)

theorem result_is_monomorphic_witness:
  "specializeManagedDispatch (\<lambda>_. noCasts) (\<lambda>_ n. n) splitModule = Some splitResult \<and> splitResult \<noteq> splitModule \<and>
   (\<exists>a. analyse noCasts splitResult = Some a \<and> argumentKind splitResult a (VInst 3 0) = argumentKind splitResult a (VInst 3 2))"
proof -
  obtain a where a: "analyse noCasts splitResult = Some a" by (rule analyse_ends [OF splitResult_numbered])
  have "argumentKind splitResult a ([VInst 3 0] ! 0) = argumentKind splitResult a ([VInst 3 2] ! 0)"
    by (rule result_is_monomorphic [OF splitModule_specialised a splitResult_calls, of "sink ''sink.__mvm.arg0_object'' 4"])
      (simp_all add: functionAt_def splitResult_def allocObject_def allocArray_def sink_def splitMain_def)
  moreover have "splitResult \<noteq> splitModule" by (simp add: splitResult_def splitModule_def)
  ultimately show ?thesis using splitModule_specialised a by auto
qed

text \<open>C20. The specialisation does not end on a module whose function \<open>walk\<close> calls itself and is called from
  \<open>main\<close> with an object and with an array: every round clones \<open>walk\<close> again for the calls of the clones
  of the round before.\<close>

theorem recursive_dispatch_never_ends:
  "specializeManagedDispatch (\<lambda>_. noCasts) unique
     [allocObject, allocArray, walker ''walk'' 2 2, mainOf 2 2] = None"
proof -
  have "freshClones []" by (simp add: freshClones_def objectIDs_def arrayIDs_def)
  from spun_never_ends [OF this] show ?thesis by (simp add: spun_def)
qed

end
