(* ===== verification/Heap_Layout.thy ===== *)
theory Heap_Layout
  imports LLVM_IR Command_Line
begin

text \<open>
  The type descriptors of allocation calls: \<open>src/src/mvm/heap_layout.cc\<close>.  LLVM's types are a
  datatype; a struct type carries its fields, or nothing when it is opaque (types of LLVM are only
  recursive through opaque pointers).  The data layout, the table of named struct types and
  \<open>StringRef::consumeInteger\<close> are the parameter \<open>dl\<close>; \<open>metadata\<close> gives the operands of the
  \<open>lona.alloc.type\<close> node of a call (each a string or another node); \<open>unique\<close> the name that LLVM gives a
  new global when a name is taken; \<open>strip\<close> is \<open>stripPointerCasts\<close> in a module.
\<close>

section \<open>Types and their layout\<close>

datatype ir_type =
    TInt nat
  | TFloat
  | TDouble
  | TPointer nat
  | TArray ir_type u64
  | TStruct string "ir_type list option"
  | TVector ir_type nat
  | TOther nat

record data_layout =
  dl_pointerBits :: nat
  dl_isSized :: "ir_type \<Rightarrow> bool"
  dl_isScalable :: "ir_type \<Rightarrow> bool"
  dl_allocSize :: "ir_type \<Rightarrow> u64"
  dl_abiAlign :: "ir_type \<Rightarrow> u64"
  dl_elementOffset :: "ir_type \<Rightarrow> nat \<Rightarrow> u64"
  dl_typeByName :: "string \<Rightarrow> ir_type option"
  dl_consumeInteger :: "string \<Rightarrow> u64 option"

text \<open>\<open>dl_consumeInteger\<close>: the value of the decimal number the text begins with, or nothing when the
  call reports an error.\<close>

datatype layout_error =
    MissingTypeMetadata nat nat
  | EmptyTypeName nat nat
  | OpaqueType string
  | UnknownType string
  | UnsizedType
  | ScalableType

section \<open>Type names\<close>

definition endsWith :: "string \<Rightarrow> string \<Rightarrow> bool" where
  "endsWith s t \<longleftrightarrow> length t \<le> length s \<and> drop (length s - length t) s = t"

fun rfindChar :: "char \<Rightarrow> string \<Rightarrow> nat option" where
  "rfindChar c [] = None"
| "rfindChar c (x # xs) =
     (case rfindChar c xs of
        Some n \<Rightarrow> Some (Suc n)
      | None \<Rightarrow> if x = c then Some 0 else None)"

text \<open>The element type's name and the count of a name of the form \<open>T[n]\<close>.\<close>

definition arrayParts :: "data_layout \<Rightarrow> string \<Rightarrow> (string \<times> u64) option" where
  "arrayParts dl typeName =
     (if \<not> endsWith typeName '']'' then None
      else case rfindChar CHR ''['' typeName of
        None \<Rightarrow> None
      | Some openBracket \<Rightarrow>
          if \<not> openBracket + 1 < length typeName - 1 then None
          else let elementTypeName = take openBracket typeName;
                   countText = drop (openBracket + 1) (take (length typeName - 1) typeName)
               in if elementTypeName = [] \<or> countText = [] then None
                  else case dl_consumeInteger dl countText of
                    None \<Rightarrow> None
                  | Some elementCount \<Rightarrow> Some (elementTypeName, elementCount))"

lemma arrayParts_shorter: "arrayParts dl s = Some (t, n) \<Longrightarrow> length t < length s"
  by (auto simp: arrayParts_def Let_def split: if_splits option.splits)

definition resolveStructName :: "data_layout \<Rightarrow> string \<Rightarrow> layout_error + ir_type" where
  "resolveStructName dl typeName =
     (case dl_typeByName dl typeName of
        Some structType \<Rightarrow>
          (case structType of
             TStruct _ None \<Rightarrow> Inl (OpaqueType typeName)
           | _ \<Rightarrow> Inr structType)
      | None \<Rightarrow> Inl (UnknownType typeName))"

definition scalarTypes :: "data_layout \<Rightarrow> (string \<times> ir_type) list" where
  "scalarTypes dl =
     [(''bool'', TInt 1), (''u8'', TInt 8), (''i8'', TInt 8), (''u16'', TInt 16), (''i16'', TInt 16),
      (''u32'', TInt 32), (''i32'', TInt 32), (''u64'', TInt 64), (''i64'', TInt 64),
      (''usize'', TInt (dl_pointerBits dl)), (''f32'', TFloat), (''f64'', TDouble)]"

function resolveTypeName :: "data_layout \<Rightarrow> string \<Rightarrow> layout_error + ir_type" where
  "resolveTypeName dl typeName =
     (if endsWith typeName ''[*]'' \<or> endsWith typeName ''*'' then Inr (TPointer 0)
      else case map_of (scalarTypes dl) typeName of
        Some t \<Rightarrow> Inr t
      | None \<Rightarrow>
          (case arrayParts dl typeName of
             Some (elementTypeName, elementCount) \<Rightarrow>
               bindE (resolveTypeName dl elementTypeName) (\<lambda>elementType. Inr (TArray elementType elementCount))
           | None \<Rightarrow> resolveStructName dl typeName))"
  by pat_completeness auto
termination by (relation "measure (\<lambda>(dl, s). length s)") (auto dest: arrayParts_shorter)

declare resolveTypeName.simps [simp del]

section \<open>Pointer offsets\<close>

fun collectPointerOffsets :: "data_layout \<Rightarrow> ir_type \<Rightarrow> u64 \<Rightarrow> u64 list"
  and collectFieldOffsets :: "data_layout \<Rightarrow> ir_type \<Rightarrow> nat \<Rightarrow> ir_type list \<Rightarrow> u64 \<Rightarrow> u64 list" where
  "collectPointerOffsets dl (TPointer a) baseOffset = [baseOffset]"
| "collectPointerOffsets dl (TArray t n) baseOffset =
     (if dl_isScalable dl t then []
      else concat (map (\<lambda>index. collectPointerOffsets dl t (baseOffset + of_nat index * dl_allocSize dl t)) [0 ..< unat n]))"
| "collectPointerOffsets dl (TStruct s (Some ts)) baseOffset = collectFieldOffsets dl (TStruct s (Some ts)) 0 ts baseOffset"
| "collectPointerOffsets dl _ baseOffset = []"
| "collectFieldOffsets dl structType index [] baseOffset = []"
| "collectFieldOffsets dl structType index (t # ts) baseOffset =
     collectPointerOffsets dl t (baseOffset + dl_elementOffset dl structType index) @
     collectFieldOffsets dl structType (Suc index) ts baseOffset"

section \<open>Descriptors\<close>

datatype global_init =
    OffsetArray "u64 list"
  | DescriptorStruct u64 u64 u64 u64 "string option"

text \<open>The fields of a descriptor: version, size, alignment, number of offsets, and the global of the
  offsets or a null pointer.\<close>

record layout_state =
  ls_descriptorMap :: "(ir_type \<times> string) list"
  ls_nextId :: u64
  ls_globals :: "(string \<times> global_init) list"
  ls_module :: ir_module

definition kGCTypeDescriptorABIVersion :: u64 where
  "kGCTypeDescriptorABIVersion = 1"

definition newGlobal :: "(string list \<Rightarrow> string \<Rightarrow> string) \<Rightarrow> string \<Rightarrow> global_init \<Rightarrow> layout_state \<Rightarrow> string \<times> layout_state" where
  "newGlobal unique prefix init st =
     (let name = unique (map fst (ls_globals st)) (prefix @ showNat (unat (ls_nextId st)))
      in (name, st\<lparr>ls_nextId := ls_nextId st + 1, ls_globals := ls_globals st @ [(name, init)]\<rparr>))"

definition referenceOffsets :: "data_layout \<Rightarrow> ir_type \<Rightarrow> u64 list" where
  "referenceOffsets dl t = remdups_adj (sort (collectPointerOffsets dl t 0))"

definition newDescriptor :: "data_layout \<Rightarrow> (string list \<Rightarrow> string \<Rightarrow> string) \<Rightarrow> ir_type \<Rightarrow> layout_state \<Rightarrow> string \<times> layout_state" where
  "newDescriptor dl unique t st =
     (let offsets = referenceOffsets dl t;
          (offsetBase, st) =
            (if offsets = [] then (None, st)
             else let (g, st) = newGlobal unique ''__mvm_type_offsets.'' (OffsetArray offsets) st in (Some g, st));
          (descriptor, st) = newGlobal unique ''__mvm_type.''
            (DescriptorStruct kGCTypeDescriptorABIVersion (dl_allocSize dl t) (dl_abiAlign dl t) (of_nat (length offsets)) offsetBase) st
      in (descriptor, st\<lparr>ls_descriptorMap := (t, descriptor) # ls_descriptorMap st\<rparr>))"

definition getOrCreateDescriptor ::
  "data_layout \<Rightarrow> (string list \<Rightarrow> string \<Rightarrow> string) \<Rightarrow> ir_type \<Rightarrow> layout_state \<Rightarrow> layout_error + (string \<times> layout_state)" where
  "getOrCreateDescriptor dl unique t st =
     (case map_of (ls_descriptorMap st) t of
        Some found \<Rightarrow> Inr (found, st)
      | None \<Rightarrow>
          if \<not> dl_isSized dl t then Inl UnsizedType
          else if dl_isScalable dl t then Inl ScalableType
          else Inr (newDescriptor dl unique t st))"

section \<open>Rewriting the calls\<close>

definition kManagedObjectAllocName :: string where "kManagedObjectAllocName = ''__mvm_malloc''"
definition kManagedArrayAllocName :: string where "kManagedArrayAllocName = ''__mvm_array_malloc''"
definition kManagedTypedObjectAllocName :: string where "kManagedTypedObjectAllocName = ''__mvm_malloc_typed''"
definition kManagedTypedArrayAllocName :: string where "kManagedTypedArrayAllocName = ''__mvm_array_malloc_typed''"

type_synonym type_metadata = "nat \<Rightarrow> nat \<Rightarrow> string option list option"

definition resolveLayoutType :: "data_layout \<Rightarrow> type_metadata \<Rightarrow> nat \<Rightarrow> nat \<Rightarrow> layout_error + ir_type" where
  "resolveLayoutType dl metadata f i =
     (case metadata f i of
        None \<Rightarrow> Inl (MissingTypeMetadata f i)
      | Some [] \<Rightarrow> Inl (MissingTypeMetadata f i)
      | Some (None # _) \<Rightarrow> Inl (EmptyTypeName f i)
      | Some (Some typeName # _) \<Rightarrow>
          if typeName = [] then Inl (EmptyTypeName f i) else resolveTypeName dl typeName)"

definition getOrInsertFunction :: "string \<Rightarrow> bool list \<Rightarrow> bool \<Rightarrow> ir_module \<Rightarrow> nat \<times> ir_module" where
  "getOrInsertFunction name params returnsPointer m =
     (case List.find (\<lambda>f. fn_name f = name) m of
        Some f \<Rightarrow> (fn_id f, m)
      | None \<Rightarrow> (freshFunction m, m @ [\<lparr>fn_id = freshFunction m, fn_name = name, fn_isDeclaration = True,
          fn_hasAddressTaken = False, fn_isVarArg = False, fn_params = params, fn_returnsPointer = returnsPointer,
          fn_blocks = []\<rparr>]))"

definition setOperation :: "nat \<Rightarrow> nat \<Rightarrow> operation \<Rightarrow> ir_module \<Rightarrow> ir_module" where
  "setOperation g k p m =
     map (\<lambda>f. if fn_id f \<noteq> g then f
       else f\<lparr>fn_blocks := map (map (\<lambda>i. if in_id i \<noteq> k then i else i\<lparr>in_op := p\<rparr>)) (fn_blocks f)\<rparr>) m"

text \<open>The call of an allocation function by number, with its arguments and its callee.\<close>

definition directCall :: "(val \<Rightarrow> val) \<Rightarrow> ir_module \<Rightarrow> instruction \<Rightarrow> (val list \<times> ir_function) option" where
  "directCall strip m i =
     (case in_op i of
        OCall calleeOperand args \<Rightarrow>
          (case strip calleeOperand of
             VFunc g \<Rightarrow> map_option (\<lambda>callee. (args, callee)) (functionAt m g)
           | _ \<Rightarrow> None)
      | _ \<Rightarrow> None)"

definition isAllocationCall :: "(val \<Rightarrow> val) \<Rightarrow> ir_module \<Rightarrow> instruction \<Rightarrow> bool" where
  "isAllocationCall strip m i \<longleftrightarrow>
     (case directCall strip m i of
        Some (_, callee) \<Rightarrow> fn_name callee = kManagedObjectAllocName \<or> fn_name callee = kManagedArrayAllocName
      | None \<Rightarrow> False)"

text \<open>The new call takes the place, the uses and the number of the old one.\<close>

definition replaceCall :: "nat \<Rightarrow> instruction \<Rightarrow> val list \<Rightarrow> ir_function \<Rightarrow> string \<Rightarrow> ir_module \<Rightarrow> ir_module" where
  "replaceCall f call args callee descriptor m =
     (let (typedHelper, m) =
            (if fn_name callee = kManagedObjectAllocName
             then getOrInsertFunction kManagedTypedObjectAllocName [True] (in_isPointer call) m
             else getOrInsertFunction kManagedTypedArrayAllocName [False, True] (in_isPointer call) m)
      in setOperation f (in_id call) (OCall (VFunc typedHelper) (args @ [VGlobalVariable descriptor False])) m)"

definition rewriteCall ::
  "data_layout \<Rightarrow> (string list \<Rightarrow> string \<Rightarrow> string) \<Rightarrow> type_metadata \<Rightarrow> (ir_module \<Rightarrow> val \<Rightarrow> val) \<Rightarrow>
     nat \<Rightarrow> instruction \<Rightarrow> layout_state \<Rightarrow> layout_error + layout_state" where
  "rewriteCall dl unique metadata strip f call st =
     (case directCall (strip (ls_module st)) (ls_module st) call of
        None \<Rightarrow> Inr st
      | Some (args, callee) \<Rightarrow>
          bindE (resolveLayoutType dl metadata f (in_id call)) (\<lambda>layoutType.
          bindE (getOrCreateDescriptor dl unique layoutType st) (\<lambda>(descriptor, st).
            Inr (st\<lparr>ls_module := replaceCall f call args callee descriptor (ls_module st)\<rparr>))))"

fun rewriteCalls ::
  "data_layout \<Rightarrow> (string list \<Rightarrow> string \<Rightarrow> string) \<Rightarrow> type_metadata \<Rightarrow> (ir_module \<Rightarrow> val \<Rightarrow> val) \<Rightarrow>
     (nat \<times> instruction) list \<Rightarrow> layout_state \<Rightarrow> layout_error + layout_state" where
  "rewriteCalls dl unique metadata strip [] st = Inr st"
| "rewriteCalls dl unique metadata strip ((f, call) # calls) st =
     bindE (rewriteCall dl unique metadata strip f call st) (rewriteCalls dl unique metadata strip calls)"

definition allocationCalls :: "(val \<Rightarrow> val) \<Rightarrow> ir_module \<Rightarrow> (nat \<times> instruction) list" where
  "allocationCalls strip m =
     concat (map (\<lambda>f. map (\<lambda>i. (fn_id f, i)) (filter (isAllocationCall strip m) (instructionsOf f))) m)"

definition annotateManagedHeapLayouts ::
  "data_layout \<Rightarrow> (string list \<Rightarrow> string \<Rightarrow> string) \<Rightarrow> type_metadata \<Rightarrow> (ir_module \<Rightarrow> val \<Rightarrow> val) \<Rightarrow>
     ir_module \<Rightarrow> layout_error + layout_state" where
  "annotateManagedHeapLayouts dl unique metadata strip m =
     rewriteCalls dl unique metadata strip (allocationCalls (strip m) m)
       \<lparr>ls_descriptorMap = [], ls_nextId = 0, ls_globals = [], ls_module = m\<rparr>"

end
