(* ===== verification/Heap_Layout_Facts.thy ===== *)
theory Heap_Layout_Facts
  imports Heap_Layout
begin

text \<open>
  What the descriptors hold: the offsets of the pointers of a type, once each and in order.  And what
  the rewriting of the calls leaves.
\<close>

section \<open>Where the pointers of a type are\<close>

inductive pointerAt :: "data_layout \<Rightarrow> ir_type \<Rightarrow> nat \<Rightarrow> bool" for dl where
  here: "pointerAt dl (TPointer a) 0"
| element: "k < unat n \<Longrightarrow> pointerAt dl t off \<Longrightarrow> pointerAt dl (TArray t n) (k * unat (dl_allocSize dl t) + off)"
| field: "k < length ts \<Longrightarrow> pointerAt dl (ts ! k) off \<Longrightarrow>
    pointerAt dl (TStruct s (Some ts)) (unat (dl_elementOffset dl (TStruct s (Some ts)) k) + off)"
| vector_element: "k < n \<Longrightarrow> pointerAt dl t off \<Longrightarrow> pointerAt dl (TVector t n) (k * unat (dl_allocSize dl t) + off)"

inductive_simps pointerAt_simps:
  "pointerAt dl (TPointer a) off" "pointerAt dl (TArray t n) off" "pointerAt dl (TStruct s body) off"
  "pointerAt dl (TInt w) off" "pointerAt dl TFloat off" "pointerAt dl TDouble off" "pointerAt dl (TVector t k) off"
  "pointerAt dl (TOther k) off"

text \<open>What LLVM documents of the layout of a type: a pointer has eight bytes, the elements of an array
  follow each other, the fields of a struct lie inside it.\<close>

fun laidOut :: "data_layout \<Rightarrow> ir_type \<Rightarrow> bool"
  and fieldsLaidOut :: "data_layout \<Rightarrow> ir_type \<Rightarrow> nat \<Rightarrow> ir_type list \<Rightarrow> bool" where
  "laidOut dl (TPointer a) \<longleftrightarrow> unat (dl_allocSize dl (TPointer a)) = 8"
| "laidOut dl (TArray t n) \<longleftrightarrow> laidOut dl t \<and> \<not> dl_isScalable dl t \<and>
     unat (dl_allocSize dl (TArray t n)) = unat n * unat (dl_allocSize dl t)"
| "laidOut dl (TStruct s (Some ts)) \<longleftrightarrow> fieldsLaidOut dl (TStruct s (Some ts)) 0 ts"
| "laidOut dl _ \<longleftrightarrow> True"
| "fieldsLaidOut dl structType k [] \<longleftrightarrow> True"
| "fieldsLaidOut dl structType k (t # ts) \<longleftrightarrow> laidOut dl t \<and>
     unat (dl_elementOffset dl structType k) + unat (dl_allocSize dl t) \<le> unat (dl_allocSize dl structType) \<and>
     fieldsLaidOut dl structType (Suc k) ts"

text \<open>The types whose pointers the code looks for: it does not look into vectors, so these may only have
  numbers as their elements.\<close>

fun isNumberType :: "ir_type \<Rightarrow> bool" where
  "isNumberType (TInt w) \<longleftrightarrow> True"
| "isNumberType TFloat \<longleftrightarrow> True"
| "isNumberType TDouble \<longleftrightarrow> True"
| "isNumberType _ \<longleftrightarrow> False"

fun noPointerVectors :: "ir_type \<Rightarrow> bool" where
  "noPointerVectors (TArray t n) \<longleftrightarrow> noPointerVectors t"
| "noPointerVectors (TStruct s (Some ts)) \<longleftrightarrow> list_all noPointerVectors ts"
| "noPointerVectors (TVector t n) \<longleftrightarrow> isNumberType t"
| "noPointerVectors _ \<longleftrightarrow> True"

lemma number_has_no_pointer: "isNumberType t \<Longrightarrow> \<not> pointerAt dl t off"
  by (cases t) (auto simp: pointerAt_simps)

lemma fieldsLaidOut_nth:
  "fieldsLaidOut dl structType k ts \<Longrightarrow> i < length ts \<Longrightarrow>
     laidOut dl (ts ! i) \<and> unat (dl_elementOffset dl structType (k + i)) + unat (dl_allocSize dl (ts ! i)) \<le> unat (dl_allocSize dl structType)"
proof (induction ts arbitrary: k i)
  case (Cons t ts)
  show ?case
  proof (cases i)
    case (Suc j) then show ?thesis using Cons.IH [of "Suc k" j] Cons.prems by simp
  qed (use Cons.prems in simp)
qed simp

lemma pointerAt_inside:
  "pointerAt dl t off \<Longrightarrow> laidOut dl t \<Longrightarrow> noPointerVectors t \<Longrightarrow> off + 8 \<le> unat (dl_allocSize dl t)"
proof (induction rule: pointerAt.induct)
  case (element k n t off)
  then have t: "off + 8 \<le> unat (dl_allocSize dl t)" and n: "unat (dl_allocSize dl (TArray t n)) = unat n * unat (dl_allocSize dl t)"
    by simp_all
  have "(k + 1) * unat (dl_allocSize dl t) \<le> unat n * unat (dl_allocSize dl t)" using element.hyps(1) by (intro mult_right_mono) simp_all
  then show ?case unfolding n using t by simp
next
  case (field k ts off s)
  then show ?case using fieldsLaidOut_nth [of dl "TStruct s (Some ts)" 0 ts k] by (simp add: list_all_length)
next
  case (vector_element k n t off)
  then show ?case using number_has_no_pointer by simp
qed simp

text \<open>The collection finds these offsets and no others, whatever the word arithmetic does.\<close>

lemma pointerOffsets_exact:
  shows "laidOut dl t \<Longrightarrow> noPointerVectors t \<Longrightarrow> set (collectPointerOffsets dl t base) = {base + of_nat off | off. pointerAt dl t off}"
    and "fieldsLaidOut dl structType k ts \<Longrightarrow> list_all noPointerVectors ts \<Longrightarrow> set (collectFieldOffsets dl structType k ts base) =
      {base + dl_elementOffset dl structType (k + i) + of_nat off | i off. i < length ts \<and> pointerAt dl (ts ! i) off}"
proof (induction dl t base and dl structType k ts base rule: collectPointerOffsets_collectFieldOffsets.induct)
  case (2 dl t n base)
  have IH: "set (collectPointerOffsets dl t (base + of_nat k * dl_allocSize dl t)) =
      {base + of_nat k * dl_allocSize dl t + of_nat off | off. pointerAt dl t off}" if "k < unat n" for k
    using 2 that by simp
  have "{base + of_nat off | off. pointerAt dl (TArray t n) off} =
      (\<Union>k < unat n. {base + of_nat k * dl_allocSize dl t + of_nat off | off. pointerAt dl t off})" (is "?L = ?R")
  proof
    show "?L \<subseteq> ?R" by (auto simp: pointerAt_simps add.assoc) blast
    have "base + of_nat k * dl_allocSize dl t + of_nat off = base + of_nat (k * unat (dl_allocSize dl t) + off)" for k off
      by (simp add: add.assoc)
    then show "?R \<subseteq> ?L" using element [of _ n dl t] by blast
  qed
  moreover have "set (collectPointerOffsets dl (TArray t n) base) =
      (\<Union>k < unat n. set (collectPointerOffsets dl t (base + of_nat k * dl_allocSize dl t)))"
    using 2(2) by (simp add: atLeast0LessThan)
  ultimately show ?case using IH by simp
next
  case (3 dl s ts base)
  have "set (collectFieldOffsets dl (TStruct s (Some ts)) 0 ts base) =
      {base + dl_elementOffset dl (TStruct s (Some ts)) (0 + i) + of_nat off | i off. i < length ts \<and> pointerAt dl (ts ! i) off}"
    using 3 by simp
  also have "\<dots> = {base + of_nat off | off. pointerAt dl (TStruct s (Some ts)) off}" (is "?L = ?R")
  proof
    have "base + dl_elementOffset dl (TStruct s (Some ts)) (0 + i) + of_nat off =
        base + of_nat (unat (dl_elementOffset dl (TStruct s (Some ts)) i) + off)" for i off
      by (simp add: add.assoc)
    then show "?L \<subseteq> ?R" using field [of _ ts dl _ s] by blast
    show "?R \<subseteq> ?L" by (auto simp: pointerAt_simps add.assoc) blast
  qed
  finally show ?case by simp
next
  case (6 dl structType k t ts base)
  let ?S = "\<lambda>i off. base + dl_elementOffset dl structType (k + i) + of_nat off"
  have "set (collectFieldOffsets dl structType k (t # ts) base) =
      {?S 0 off | off. pointerAt dl t off} \<union> {?S (Suc i) off | i off. i < length ts \<and> pointerAt dl (ts ! i) off}"
    using 6 by simp
  also have "\<dots> = {?S i off | i off. i < length (t # ts) \<and> pointerAt dl ((t # ts) ! i) off}" (is "?L = ?R")
  proof
    show "?L \<subseteq> ?R" by force
    show "?R \<subseteq> ?L"
    proof
      fix x assume "x \<in> ?R"
      then obtain i off where x: "x = ?S i off" "i < length (t # ts)" "pointerAt dl ((t # ts) ! i) off" by blast
      then show "x \<in> ?L" by (cases i) auto
    qed
  qed
  finally show ?case .
qed (auto simp: pointerAt_simps number_has_no_pointer)

lemma remdups_adj_strict: "sorted xs \<Longrightarrow> sorted_wrt (<) (remdups_adj (xs :: 'a :: linorder list))"
  by (induction xs rule: remdups_adj.induct) (auto simp: less_le)

lemma referenceOffsets_exact:
  assumes "laidOut dl t" "noPointerVectors t"
  shows "sorted_wrt (<) (referenceOffsets dl t)" "unat ` set (referenceOffsets dl t) = Collect (pointerAt dl t)"
    "length (referenceOffsets dl t) < 18446744073709551616"
proof -
  show sorted: "sorted_wrt (<) (referenceOffsets dl t)" unfolding referenceOffsets_def by (rule remdups_adj_strict) simp
  have small: "unat (of_nat off :: u64) = off" if "pointerAt dl t off" for off
    using pointerAt_inside [OF that assms] unat_le_max [of "dl_allocSize dl t"] by (intro unat_of_nat_u64) linarith
  have "set (referenceOffsets dl t) = of_nat ` Collect (pointerAt dl t)"
    using pointerOffsets_exact(1) [OF assms, of 0] by (auto simp: referenceOffsets_def)
  then have "unat ` set (referenceOffsets dl t) = (\<lambda>off. unat (of_nat off :: u64)) ` Collect (pointerAt dl t)"
    by (simp add: image_image)
  also have "\<dots> = (\<lambda>off. off) ` Collect (pointerAt dl t)" by (rule image_cong) (simp_all add: small)
  finally show offs: "unat ` set (referenceOffsets dl t) = Collect (pointerAt dl t)" by simp
  have "length (referenceOffsets dl t) = card (set (referenceOffsets dl t))"
    using sorted by (simp add: distinct_card strict_sorted_iff)
  also have "\<dots> = card (unat ` set (referenceOffsets dl t))"
    by (rule card_image [symmetric]) (simp add: inj_on_def word_unat_eq_iff)
  also have "\<dots> \<le> card {..< 18446744073709551608 :: nat}"
  proof (rule card_mono)
    show "unat ` set (referenceOffsets dl t) \<subseteq> {..< 18446744073709551608}"
    proof
      fix off assume "off \<in> unat ` set (referenceOffsets dl t)"
      then have "pointerAt dl t off" unfolding offs by simp
      from pointerAt_inside [OF this assms] show "off \<in> {..< 18446744073709551608}"
        using unat_le_max [of "dl_allocSize dl t"] by (simp only: lessThan_iff)
    qed
  qed simp
  finally show "length (referenceOffsets dl t) < 18446744073709551616" by simp
qed

section \<open>The table of descriptors\<close>

text \<open>LLVM never gives two globals the same name.\<close>

definition givesNewNames :: "(string list \<Rightarrow> string \<Rightarrow> string) \<Rightarrow> bool" where
  "givesNewNames unique \<longleftrightarrow> (\<forall>taken name. unique taken name \<notin> set taken)"

definition describes :: "data_layout \<Rightarrow> (string \<times> global_init) list \<Rightarrow> ir_type \<Rightarrow> string \<Rightarrow> bool" where
  "describes dl globals t name \<longleftrightarrow>
     (\<exists>offsetBase. map_of globals name =
        Some (DescriptorStruct 1 (dl_allocSize dl t) (dl_abiAlign dl t) (of_nat (length (referenceOffsets dl t))) offsetBase) \<and>
      (case offsetBase of None \<Rightarrow> referenceOffsets dl t = []
       | Some g \<Rightarrow> map_of globals g = Some (OffsetArray (referenceOffsets dl t))))"

definition tableOk :: "data_layout \<Rightarrow> layout_state \<Rightarrow> bool" where
  "tableOk dl st \<longleftrightarrow>
     (\<forall>t name. map_of (ls_descriptorMap st) t = Some name \<longrightarrow>
        dl_isSized dl t \<and> \<not> dl_isScalable dl t \<and> describes dl (ls_globals st) t name)"

lemma map_of_append_new: "fst p \<notin> set (map fst xs) \<Longrightarrow> map_of (xs @ [p]) k = (if k = fst p then Some (snd p) else map_of xs k)"
  by (induction xs) (cases p; auto)+

lemma newGlobal_extends:
  assumes "givesNewNames unique" "newGlobal unique prefix init st = (name, st')"
  shows "map_of (ls_globals st') = (map_of (ls_globals st))(name \<mapsto> init)" "map_of (ls_globals st) name = None"
    "ls_descriptorMap st' = ls_descriptorMap st" "ls_module st' = ls_module st"
proof -
  have st': "name = unique (map fst (ls_globals st)) (prefix @ showNat (unat (ls_nextId st)))"
    "st' = st\<lparr>ls_nextId := ls_nextId st + 1, ls_globals := ls_globals st @ [(name, init)]\<rparr>"
    using assms(2) by (auto simp: newGlobal_def Let_def)
  then have new: "name \<notin> set (map fst (ls_globals st))" using assms(1) by (simp add: givesNewNames_def del: set_map)
  show "map_of (ls_globals st') = (map_of (ls_globals st))(name \<mapsto> init)"
    using new st'(2) by (auto simp: fun_eq_iff map_of_append_new simp del: map_of_append)
  show "map_of (ls_globals st) name = None" using new by (simp add: map_of_eq_None_iff)
  show "ls_descriptorMap st' = ls_descriptorMap st" "ls_module st' = ls_module st" using st'(2) by simp_all
qed

lemma describes_mono: "describes dl globals t name \<Longrightarrow> map_of globals \<subseteq>\<^sub>m map_of globals' \<Longrightarrow> describes dl globals' t name"
  unfolding describes_def by (fastforce simp: map_le_def dom_def split: option.splits)

lemma newDescriptor_describes:
  assumes "givesNewNames unique" "newDescriptor dl unique t st = (name, st')"
  shows "describes dl (ls_globals st') t name" "map_of (ls_globals st) \<subseteq>\<^sub>m map_of (ls_globals st')"
    "ls_descriptorMap st' = (t, name) # ls_descriptorMap st" "ls_module st' = ls_module st"
proof -
  obtain offsetBase st1 where
    base: "(if referenceOffsets dl t = [] then (None, st)
       else let (g, st) = newGlobal unique ''__mvm_type_offsets.'' (OffsetArray (referenceOffsets dl t)) st in (Some g, st)) = (offsetBase, st1)"
    by (metis surj_pair)
  define init where "init = DescriptorStruct kGCTypeDescriptorABIVersion (dl_allocSize dl t) (dl_abiAlign dl t)
      (of_nat (length (referenceOffsets dl t))) offsetBase"
  obtain n st2 where d: "newGlobal unique ''__mvm_type.'' init st1 = (n, st2)" by (metis surj_pair)
  have r: "n = name" "st' = st2\<lparr>ls_descriptorMap := (t, n) # ls_descriptorMap st2\<rparr>"
    using assms(2) base d by (auto simp: newDescriptor_def init_def Let_def)
  note g2 = newGlobal_extends [OF assms(1) d]
  have "map_of (ls_globals st) \<subseteq>\<^sub>m map_of (ls_globals st1) \<and> ls_descriptorMap st1 = ls_descriptorMap st \<and> ls_module st1 = ls_module st \<and>
    (case offsetBase of None \<Rightarrow> referenceOffsets dl t = [] | Some g \<Rightarrow> map_of (ls_globals st1) g = Some (OffsetArray (referenceOffsets dl t)))"
  proof (cases "referenceOffsets dl t = []")
    case True then show ?thesis using base by auto
  next
    case False
    obtain g s where g: "newGlobal unique ''__mvm_type_offsets.'' (OffsetArray (referenceOffsets dl t)) st = (g, s)" by (metis surj_pair)
    then have "offsetBase = Some g" "st1 = s" using base False by (simp_all add: Let_def)
    then show ?thesis using newGlobal_extends [OF assms(1) g] by (auto simp: map_le_def)
  qed
  note g1 = this
  show le: "map_of (ls_globals st) \<subseteq>\<^sub>m map_of (ls_globals st')"
  proof (rule map_le_trans [OF conjunct1 [OF g1]])
    show "map_of (ls_globals st1) \<subseteq>\<^sub>m map_of (ls_globals st')" using g2(1,2) r by (auto simp: map_le_def)
  qed
  show "ls_descriptorMap st' = (t, name) # ls_descriptorMap st" "ls_module st' = ls_module st" using g1 g2 r by simp_all
  show "describes dl (ls_globals st') t name"
    unfolding describes_def using g1 g2 r by (intro exI [of _ offsetBase]) (auto simp: init_def kGCTypeDescriptorABIVersion_def split: option.splits)
qed

lemma getOrCreateDescriptor_ok:
  assumes "givesNewNames unique" "tableOk dl st" "getOrCreateDescriptor dl unique t st = Inr (name, st')"
  shows "tableOk dl st'" "map_of (ls_descriptorMap st') t = Some name"
    "map_of (ls_descriptorMap st) \<subseteq>\<^sub>m map_of (ls_descriptorMap st')" "ls_module st' = ls_module st"
    "dl_isSized dl t" "\<not> dl_isScalable dl t"
proof -
  have "tableOk dl st' \<and> map_of (ls_descriptorMap st') t = Some name \<and> map_of (ls_descriptorMap st) \<subseteq>\<^sub>m map_of (ls_descriptorMap st') \<and>
    ls_module st' = ls_module st \<and> dl_isSized dl t \<and> \<not> dl_isScalable dl t"
  proof (cases "map_of (ls_descriptorMap st) t")
    case (Some n)
    then have "n = name" "st' = st" using assms(3) by (simp_all add: getOrCreateDescriptor_def)
    then show ?thesis using assms(2) Some by (auto simp: tableOk_def)
  next
    case None
    then have new: "newDescriptor dl unique t st = (name, st')" "dl_isSized dl t" "\<not> dl_isScalable dl t"
      using assms(3) by (auto simp: getOrCreateDescriptor_def split: if_splits)
    note facts = newDescriptor_describes [OF assms(1) new(1)]
    show ?thesis
      using new(2,3) facts assms(2) None describes_mono [OF _ facts(2)] by (auto simp: tableOk_def map_le_def split: if_splits)
  qed
  then show "tableOk dl st'" "map_of (ls_descriptorMap st') t = Some name"
    "map_of (ls_descriptorMap st) \<subseteq>\<^sub>m map_of (ls_descriptorMap st')" "ls_module st' = ls_module st"
    "dl_isSized dl t" "\<not> dl_isScalable dl t" by simp_all
qed

lemma getOrCreateDescriptor_error:
  assumes "tableOk dl st"
  shows "(\<exists>e. getOrCreateDescriptor dl unique t st = Inl e) \<longleftrightarrow> \<not> dl_isSized dl t \<or> dl_isScalable dl t"
  using assms by (auto simp: getOrCreateDescriptor_def tableOk_def split: option.splits)

end
