(* ===== verification/Heap_Layout_Calls.thy ===== *)
theory Heap_Layout_Calls
  imports Heap_Layout_Facts
begin

text \<open>
  What the rewriting does to the allocation calls of a module: which succeed, and what becomes of them.
\<close>

section \<open>Changing one instruction\<close>

lemma find_map_key: "(\<And>x. key (u x) = key x) \<Longrightarrow> List.find (\<lambda>y. key y = k) (map u xs) = map_option u (List.find (\<lambda>y. key y = k) xs)"
  by (induction xs) simp_all

lemma find_append: "List.find P (xs @ ys) = (case List.find P xs of Some x \<Rightarrow> Some x | None \<Rightarrow> List.find P ys)"
  by (induction xs) simp_all

definition setOperationIn :: "nat \<Rightarrow> nat \<Rightarrow> operation \<Rightarrow> ir_function \<Rightarrow> ir_function" where
  "setOperationIn g k p f = (if fn_id f \<noteq> g then f
     else f\<lparr>fn_blocks := map (map (\<lambda>i. if in_id i \<noteq> k then i else i\<lparr>in_op := p\<rparr>)) (fn_blocks f)\<rparr>)"

lemma setOperation_map: "setOperation g k p m = map (setOperationIn g k p) m"
  by (simp add: setOperation_def setOperationIn_def)

lemma setOperationIn_kept [simp]: "fn_id (setOperationIn g k p f) = fn_id f" "fn_name (setOperationIn g k p f) = fn_name f"
  by (simp_all add: setOperationIn_def)

lemma instructionsOf_setOperationIn:
  "instructionsOf (setOperationIn g k p f) =
     (if fn_id f \<noteq> g then instructionsOf f else map (\<lambda>i. if in_id i \<noteq> k then i else i\<lparr>in_op := p\<rparr>) (instructionsOf f))"
  by (simp add: setOperationIn_def instructionsOf_def map_concat)

lemma functionAt_setOperation: "functionAt (setOperation g k p m) x = map_option (setOperationIn g k p) (functionAt m x)"
  unfolding functionAt_def setOperation_map by (rule find_map_key) simp

lemma instructionAt_setOperation:
  "instructionAt (setOperation g k p m) x l =
     (if x = g \<and> l = k then map_option (\<lambda>i. i\<lparr>in_op := p\<rparr>) (instructionAt m x l) else instructionAt m x l)"
proof (cases "functionAt m x")
  case None then show ?thesis by (auto simp: instructionAt_def functionAt_setOperation)
next
  case (Some f)
  define u :: "instruction \<Rightarrow> instruction" where "u = (\<lambda>i. if in_id i \<noteq> k then i else i\<lparr>in_op := p\<rparr>)"
  have x: "fn_id f = x" using functionAt_Some [OF Some] by simp
  have at: "instructionAt m x l = List.find (\<lambda>i. in_id i = l) (instructionsOf f)" by (simp add: instructionAt_def Some)
  have at': "instructionAt (setOperation g k p m) x l =
      (if x = g then map_option u (instructionAt m x l) else instructionAt m x l)"
    unfolding at using find_map_key [of in_id u l "instructionsOf f"]
    by (simp add: instructionAt_def functionAt_setOperation Some instructionsOf_setOperationIn x u_def)
  show ?thesis
  proof (cases "instructionAt m x l")
    case None show ?thesis by (simp only: at' None option.map if_cancel)
  next
    case (Some i)
    then have "in_id i = l" using at by (simp add: find_Some_iff) blast
    then show ?thesis using Some at' by (auto simp: u_def)
  qed
qed

lemma setOperationIn_ids: "map in_id (instructionsOf (setOperationIn g k p f)) = map in_id (instructionsOf f)"
  by (simp add: instructionsOf_setOperationIn)

lemma wellNumbered_setOperation: "wellNumbered m \<Longrightarrow> wellNumbered (setOperation g k p m)"
  unfolding wellNumbered_def setOperation_map by (auto simp: comp_def setOperationIn_ids simp del: map_map) (simp add: comp_def)

section \<open>The typed allocation functions\<close>

lemma getOrInsertFunction_new:
  assumes "wellNumbered m" "getOrInsertFunction name ps b m = (h, m')"
  shows "wellNumbered m'" "map_option fn_name (functionAt m' h) = Some name"
    "\<And>g c. functionAt m g = Some c \<Longrightarrow> functionAt m' g = Some c"
    "\<And>g c. functionAt m' g = Some c \<Longrightarrow> functionAt m g = Some c \<or> fn_name c = name"
    "instructionAt m' = instructionAt m"
proof -
  have "wellNumbered m' \<and> map_option fn_name (functionAt m' h) = Some name \<and>
    (\<forall>g c. functionAt m g = Some c \<longrightarrow> functionAt m' g = Some c) \<and>
    (\<forall>g c. functionAt m' g = Some c \<longrightarrow> functionAt m g = Some c \<or> fn_name c = name) \<and> instructionAt m' = instructionAt m"
  proof (cases "List.find (\<lambda>f. fn_name f = name) m")
    case (Some f)
    then have "f \<in> set m" "fn_name f = name" by (auto simp: find_Some_iff)
    moreover have "h = fn_id f" "m' = m" using assms(2) Some by (simp_all add: getOrInsertFunction_def)
    ultimately have "h = fn_id f" "m' = m" "f \<in> set m" "fn_name f = name" by simp_all
    note f = this
    have "functionAt m h = Some f" using functionAt_member [OF assms(1) f(3)] f(1) by simp
    then show ?thesis using assms(1) f(2,4) by (intro conjI allI impI) simp_all
  next
    case None
    define d where "d = \<lparr>fn_id = freshFunction m, fn_name = name, fn_isDeclaration = True,
          fn_hasAddressTaken = False, fn_isVarArg = False, fn_params = ps, fn_returnsPointer = b, fn_blocks = []\<rparr>"
    have "getOrInsertFunction name ps b m = (fn_id d, m @ [d])" using None by (simp add: getOrInsertFunction_def d_def)
    then have m': "h = fn_id d" "m' = m @ [d]" using trans [OF sym [OF assms(2)]] by blast+
    have new: "fn_id d \<notin> fn_id ` set m" using freshFunction_new [of m] by (simp add: d_def)
    have at: "functionAt m' g = (case functionAt m g of Some c \<Rightarrow> Some c | None \<Rightarrow> if g = fn_id d then Some d else None)" for g
      by (simp add: m' functionAt_def find_append split: option.split)
    have dn: "fn_name d = name" "instructionsOf d = []" by (simp_all add: d_def instructionsOf_def)
    have none: "functionAt m (fn_id d) = None"
      unfolding functionAt_def find_None_iff using new by (metis image_eqI)
    have c1: "wellNumbered m'" using assms(1) new by (simp add: wellNumbered_def m' dn)
    have c2: "map_option fn_name (functionAt m' h) = Some name" by (simp add: at m'(1) none dn)
    have c3: "functionAt m g = Some c \<Longrightarrow> functionAt m' g = Some c" for g c by (simp add: at)
    have c4: "functionAt m' g = Some c \<Longrightarrow> functionAt m g = Some c \<or> fn_name c = name" for g c
      using dn(1) by (cases "functionAt m g"; cases "g = fn_id d") (auto simp: at)
    have "instructionAt m' g k = instructionAt m g k" for g k
      by (cases "functionAt m g") (simp_all add: instructionAt_def at dn(2))
    then have "instructionAt m' = instructionAt m" by (intro ext)
    with c1 c2 c3 c4 show ?thesis by (intro conjI allI impI)
  qed
  note c1 = conjunct1 [OF this] and rest = conjunct2 [OF this]
  note c2 = conjunct1 [OF rest] and c3 = conjunct1 [OF conjunct2 [OF rest]] and c45 = conjunct2 [OF conjunct2 [OF rest]]
  show "wellNumbered m'" by (rule c1)
  show "map_option fn_name (functionAt m' h) = Some name" by (rule c2)
  show "instructionAt m' = instructionAt m" by (rule conjunct2 [OF c45])
  show "\<And>g c. functionAt m g = Some c \<Longrightarrow> functionAt m' g = Some c" by (rule c3 [rule_format])
  show "\<And>g c. functionAt m' g = Some c \<Longrightarrow> functionAt m g = Some c \<or> fn_name c = name"
    by (rule conjunct1 [OF c45, rule_format])
qed

lemmas allocNames = kManagedObjectAllocName_def kManagedArrayAllocName_def kManagedTypedObjectAllocName_def kManagedTypedArrayAllocName_def

definition isAllocName :: "string \<Rightarrow> bool" where
  "isAllocName n \<longleftrightarrow> n = kManagedObjectAllocName \<or> n = kManagedArrayAllocName"

definition typedName :: "string \<Rightarrow> string" where
  "typedName n = (if n = kManagedObjectAllocName then kManagedTypedObjectAllocName else kManagedTypedArrayAllocName)"

lemma typedName_typed: "\<not> isAllocName (typedName n)"
  by (simp add: isAllocName_def typedName_def allocNames)

text \<open>The functions of a module keep their names, and no allocation function is added.\<close>

definition sameCallees :: "ir_module \<Rightarrow> ir_module \<Rightarrow> bool" where
  "sameCallees m m' \<longleftrightarrow>
     (\<forall>g c. functionAt m g = Some c \<longrightarrow> map_option fn_name (functionAt m' g) = Some (fn_name c)) \<and>
     (\<forall>g c. functionAt m' g = Some c \<longrightarrow> isAllocName (fn_name c) \<longrightarrow> functionAt m g \<noteq> None)"

lemma sameCallees_name: "sameCallees m m' \<Longrightarrow> functionAt m g = Some c \<Longrightarrow> map_option fn_name (functionAt m' g) = Some (fn_name c)"
  by (simp add: sameCallees_def)

lemma sameCallees_back: "sameCallees m m' \<Longrightarrow> functionAt m' g = Some c \<Longrightarrow> isAllocName (fn_name c) \<Longrightarrow> functionAt m g \<noteq> None"
  by (simp add: sameCallees_def)

lemma isAllocationCall_iff:
  "isAllocationCall s m i \<longleftrightarrow>
     (\<exists>c args g. in_op i = OCall c args \<and> s c = VFunc g \<and> (\<exists>callee. functionAt m g = Some callee \<and> isAllocName (fn_name callee)))"
  unfolding isAllocationCall_def directCall_def isAllocName_def by (auto split: operation.splits val.splits option.splits)

lemma sameCallees_allocation:
  assumes "sameCallees m m'"
  shows "isAllocationCall s m' i \<longleftrightarrow> isAllocationCall s m i"
proof -
  have "(\<exists>callee. functionAt m' g = Some callee \<and> isAllocName (fn_name callee)) \<longleftrightarrow>
      (\<exists>callee. functionAt m g = Some callee \<and> isAllocName (fn_name callee))" for g
    using assms unfolding sameCallees_def by (cases "functionAt m g"; cases "functionAt m' g") fastforce+
  then show ?thesis unfolding isAllocationCall_iff by simp
qed

lemma replaceCall_effect:
  assumes "wellNumbered m" "m' = replaceCall f call args callee descriptor m"
  obtains h where "wellNumbered m'" "sameCallees m m'" "map_option fn_name (functionAt m' h) = Some (typedName (fn_name callee))"
    "\<And>g k. instructionAt m' g k = (if g = f \<and> k = in_id call
       then map_option (\<lambda>i. i\<lparr>in_op := OCall (VFunc h) (args @ [VGlobalVariable descriptor False])\<rparr>) (instructionAt m g k)
       else instructionAt m g k)"
proof -
  obtain ps h m1 where h: "getOrInsertFunction (typedName (fn_name callee)) ps (in_isPointer call) m = (h, m1)"
    "m' = setOperation f (in_id call) (OCall (VFunc h) (args @ [VGlobalVariable descriptor False])) m1"
  proof (cases "fn_name callee = kManagedObjectAllocName")
    case True
    obtain h m1 where "getOrInsertFunction (typedName (fn_name callee)) [True] (in_isPointer call) m = (h, m1)" by (metis surj_pair)
    with True show thesis using that assms(2) by (simp add: replaceCall_def typedName_def)
  next
    case False
    obtain h m1 where "getOrInsertFunction (typedName (fn_name callee)) [False, True] (in_isPointer call) m = (h, m1)" by (metis surj_pair)
    with False show thesis using that assms(2) by (simp add: replaceCall_def typedName_def)
  qed
  note ins = getOrInsertFunction_new [OF assms(1) h(1)]
  have "sameCallees m m'"
    unfolding sameCallees_def h(2) functionAt_setOperation using ins(3,4) typedName_typed by (fastforce simp: option.map_comp comp_def)
  moreover have "map_option fn_name (functionAt m' h) = Some (typedName (fn_name callee))"
    unfolding h(2) functionAt_setOperation using ins(2) by (simp add: option.map_comp comp_def)
  ultimately show thesis using that wellNumbered_setOperation [OF ins(1)] h(2) by (simp add: instructionAt_setOperation ins(5))
qed

section \<open>The calls of a module\<close>

lemma allocationCalls_iff:
  assumes "wellNumbered m"
  shows "(g, i) \<in> set (allocationCalls s m) \<longleftrightarrow> instructionAt m g (in_id i) = Some i \<and> isAllocationCall s m i"
proof
  assume "(g, i) \<in> set (allocationCalls s m)"
  then obtain f where "f \<in> set m" "i \<in> set (instructionsOf f)" "g = fn_id f" "isAllocationCall s m i" by (auto simp: allocationCalls_def)
  then show "instructionAt m g (in_id i) = Some i \<and> isAllocationCall s m i" using instructionAt_member [OF assms] by simp
next
  assume i: "instructionAt m g (in_id i) = Some i \<and> isAllocationCall s m i"
  then obtain f where f: "functionAt m g = Some f" "List.find (\<lambda>j. in_id j = in_id i) (instructionsOf f) = Some i"
    by (auto simp: instructionAt_def split: option.splits)
  have "f \<in> set m" "fn_id f = g" "i \<in> set (instructionsOf f)" using functionAt_Some [OF f(1)] f(2) by (auto simp: find_Some_iff)
  then show "(g, i) \<in> set (allocationCalls s m)" using i by (auto simp: allocationCalls_def)
qed

lemma allocationCalls_distinct:
  assumes "wellNumbered m"
  shows "distinct (map (\<lambda>(g, i). (g, in_id i)) (allocationCalls s m))"
proof -
  have "distinct (map (\<lambda>(g, i). (g, in_id i)) (concat (map (\<lambda>f. map (\<lambda>i. (fn_id f, i)) (filter P (instructionsOf f))) fs)))"
    if "distinct (map fn_id fs)" "\<forall>f \<in> set fs. distinct (map in_id (instructionsOf f))" for fs P
    using that
  proof (induction fs)
    case (Cons f fs)
    have "distinct (map (\<lambda>(g, i). (g, in_id i)) (map (\<lambda>i. (fn_id f, i)) (filter P (instructionsOf f))))"
      using Cons.prems(2) by (auto simp: distinct_map comp_def inj_on_def)
    then show ?case using Cons by (auto simp: image_iff)
  qed simp
  then show ?thesis using assms by (simp add: allocationCalls_def wellNumbered_def)
qed

text \<open>The type that the metadata of a call names has a size.\<close>

definition layoutFound :: "data_layout \<Rightarrow> type_metadata \<Rightarrow> nat \<Rightarrow> instruction \<Rightarrow> bool" where
  "layoutFound dl metadata f call \<longleftrightarrow>
     (\<exists>t. resolveLayoutType dl metadata f (in_id call) = Inr t \<and> dl_isSized dl t \<and> \<not> dl_isScalable dl t)"

definition typedCall :: "data_layout \<Rightarrow> type_metadata \<Rightarrow> (val \<Rightarrow> val) \<Rightarrow> ir_module \<Rightarrow> layout_state \<Rightarrow> nat \<Rightarrow> instruction \<Rightarrow> bool" where
  "typedCall dl metadata s m st f call \<longleftrightarrow>
     (\<exists>c args g callee t name h. in_op call = OCall c args \<and> s c = VFunc g \<and> functionAt m g = Some callee \<and>
        resolveLayoutType dl metadata f (in_id call) = Inr t \<and> map_of (ls_descriptorMap st) t = Some name \<and>
        instructionAt (ls_module st) f (in_id call) = Some (call\<lparr>in_op := OCall (VFunc h) (args @ [VGlobalVariable name False])\<rparr>) \<and>
        map_option fn_name (functionAt (ls_module st) h) = Some (typedName (fn_name callee)))"

lemma typedCallI:
  assumes "in_op call = OCall c args" "s c = VFunc g" "functionAt m g = Some callee" "resolveLayoutType dl metadata f (in_id call) = Inr t"
    and "map_of (ls_descriptorMap st) t = Some name"
    and "instructionAt (ls_module st) f (in_id call) = Some (call\<lparr>in_op := OCall (VFunc h) (args @ [VGlobalVariable name False])\<rparr>)"
    and "map_option fn_name (functionAt (ls_module st) h) = Some (typedName (fn_name callee))"
  shows "typedCall dl metadata s m st f call"
  unfolding typedCall_def
  by (rule exI [of _ c], rule exI [of _ args], rule exI [of _ g], rule exI [of _ callee], rule exI [of _ t], rule exI [of _ name],
      rule exI [of _ h]) (intro conjI assms)

lemma typedCallE:
  assumes "typedCall dl metadata s m st f call"
  obtains c args g callee t name h where "in_op call = OCall c args" "s c = VFunc g" "functionAt m g = Some callee"
    "resolveLayoutType dl metadata f (in_id call) = Inr t" "map_of (ls_descriptorMap st) t = Some name"
    "instructionAt (ls_module st) f (in_id call) = Some (call\<lparr>in_op := OCall (VFunc h) (args @ [VGlobalVariable name False])\<rparr>)"
    "map_option fn_name (functionAt (ls_module st) h) = Some (typedName (fn_name callee))"
  using assms unfolding typedCall_def by (elim exE conjE)

text \<open>What holds of the state between two calls, for the module at the start.\<close>

definition rewriting :: "data_layout \<Rightarrow> ir_module \<Rightarrow> layout_state \<Rightarrow> bool" where
  "rewriting dl m st \<longleftrightarrow> tableOk dl st \<and> wellNumbered (ls_module st) \<and> sameCallees m (ls_module st)"

lemma sameCallees_trans: "sameCallees m m1 \<Longrightarrow> sameCallees m1 m2 \<Longrightarrow> sameCallees m m2"
proof -
  assume a: "sameCallees m m1" "sameCallees m1 m2"
  have "map_option fn_name (functionAt m2 g) = Some (fn_name c)" if c: "functionAt m g = Some c" for g c
  proof -
    obtain c1 where "functionAt m1 g = Some c1" "fn_name c1 = fn_name c" using sameCallees_name [OF a(1) c] by auto
    then show ?thesis using sameCallees_name [OF a(2)] by metis
  qed
  moreover have "functionAt m g \<noteq> None" if c: "functionAt m2 g = Some c" "isAllocName (fn_name c)" for g c
  proof -
    obtain c1 where c1: "functionAt m1 g = Some c1" using sameCallees_back [OF a(2) c] by auto
    then have "fn_name c1 = fn_name c" using sameCallees_name [OF a(2) c1] c(1) by simp
    then show ?thesis using sameCallees_back [OF a(1) c1] c(2) by simp
  qed
  ultimately show "sameCallees m m2" unfolding sameCallees_def by (intro conjI allI impI)
qed

lemma rewriteCall_step:
  assumes "givesNewNames unique" "rewriting dl m st" "isAllocationCall s m call"
    and "instructionAt (ls_module st) f (in_id call) = Some call"
  shows "(\<exists>st'. rewriteCall dl unique metadata (\<lambda>_. s) f call st = Inr st') \<longleftrightarrow> layoutFound dl metadata f call"
    and "rewriteCall dl unique metadata (\<lambda>_. s) f call st = Inr st' \<Longrightarrow>
      rewriting dl m st' \<and> typedCall dl metadata s m st' f call \<and>
      map_of (ls_descriptorMap st) \<subseteq>\<^sub>m map_of (ls_descriptorMap st') \<and> sameCallees (ls_module st) (ls_module st') \<and>
      (\<forall>g k. (g, k) \<noteq> (f, in_id call) \<longrightarrow> instructionAt (ls_module st') g k = instructionAt (ls_module st) g k)"
proof -
  have inv: "tableOk dl st" "wellNumbered (ls_module st)" "sameCallees m (ls_module st)" using assms(2) by (simp_all add: rewriting_def)
  obtain c args g callee0 where c: "in_op call = OCall c args" "s c = VFunc g" "functionAt m g = Some callee0" "isAllocName (fn_name callee0)"
    using assms(3) unfolding isAllocationCall_iff by blast
  obtain callee where callee: "functionAt (ls_module st) g = Some callee" "fn_name callee = fn_name callee0"
    using sameCallees_name [OF inv(3) c(3)] by auto
  have direct: "directCall s (ls_module st) call = Some (args, callee)" by (simp add: directCall_def c callee)
  have run: "rewriteCall dl unique metadata (\<lambda>_. s) f call st =
      bindE (resolveLayoutType dl metadata f (in_id call)) (\<lambda>t. bindE (getOrCreateDescriptor dl unique t st)
        (\<lambda>(descriptor, st). Inr (st\<lparr>ls_module := replaceCall f call args callee descriptor (ls_module st)\<rparr>)))"
    by (simp add: rewriteCall_def direct)
  show "(\<exists>st'. rewriteCall dl unique metadata (\<lambda>_. s) f call st = Inr st') \<longleftrightarrow> layoutFound dl metadata f call"
  proof (cases "resolveLayoutType dl metadata f (in_id call)")
    case (Inl e) then show ?thesis by (simp add: run layoutFound_def)
  next
    case (Inr t)
    then show ?thesis
      using getOrCreateDescriptor_error [OF inv(1), of unique t]
      by (cases "getOrCreateDescriptor dl unique t st") (auto simp: run layoutFound_def split: prod.split)
  qed
  assume r: "rewriteCall dl unique metadata (\<lambda>_. s) f call st = Inr st'"
  obtain t name st1 where t: "resolveLayoutType dl metadata f (in_id call) = Inr t" "getOrCreateDescriptor dl unique t st = Inr (name, st1)"
    "st' = st1\<lparr>ls_module := replaceCall f call args callee name (ls_module st1)\<rparr>"
    using r unfolding run by (auto simp: bindE_eq_Inr split: prod.splits)
  note d = getOrCreateDescriptor_ok [OF assms(1) inv(1) t(2)]
  have m': "ls_module st' = replaceCall f call args callee name (ls_module st)" using t(3) d(4) by simp
  obtain h where h: "wellNumbered (ls_module st')" "sameCallees (ls_module st) (ls_module st')"
    "map_option fn_name (functionAt (ls_module st') h) = Some (typedName (fn_name callee))"
    "\<And>g k. instructionAt (ls_module st') g k = (if g = f \<and> k = in_id call
       then map_option (\<lambda>i. i\<lparr>in_op := OCall (VFunc h) (args @ [VGlobalVariable name False])\<rparr>) (instructionAt (ls_module st) g k)
       else instructionAt (ls_module st) g k)"
    by (rule replaceCall_effect [OF inv(2) m']) blast
  have "tableOk dl st'" using d(1) t(3) by (simp add: tableOk_def)
  then have "rewriting dl m st'" using h(1) sameCallees_trans [OF inv(3) h(2)] by (simp add: rewriting_def)
  moreover have "typedCall dl metadata s m st' f call"
  proof (rule typedCallI [where s = s and f = f, OF c(1-3) t(1)])
    show "map_of (ls_descriptorMap st') t = Some name" using d(2) t(3) by simp
    show "instructionAt (ls_module st') f (in_id call) = Some (call\<lparr>in_op := OCall (VFunc h) (args @ [VGlobalVariable name False])\<rparr>)"
      using assms(4) by (simp add: h(4))
    show "map_option fn_name (functionAt (ls_module st') h) = Some (typedName (fn_name callee0))" using h(3) callee(2) by simp
  qed
  ultimately show "rewriting dl m st' \<and> typedCall dl metadata s m st' f call \<and>
      map_of (ls_descriptorMap st) \<subseteq>\<^sub>m map_of (ls_descriptorMap st') \<and> sameCallees (ls_module st) (ls_module st') \<and>
      (\<forall>g k. (g, k) \<noteq> (f, in_id call) \<longrightarrow> instructionAt (ls_module st') g k = instructionAt (ls_module st) g k)"
    using d(3) t(3) h(2,4) by simp
qed

lemma typedCall_kept:
  assumes "typedCall dl metadata s m st f call" "map_of (ls_descriptorMap st) \<subseteq>\<^sub>m map_of (ls_descriptorMap st')"
    and "sameCallees (ls_module st) (ls_module st')"
    and "instructionAt (ls_module st') f (in_id call) = instructionAt (ls_module st) f (in_id call)"
  shows "typedCall dl metadata s m st' f call"
proof -
  obtain c args g callee t name h where t: "in_op call = OCall c args" "s c = VFunc g" "functionAt m g = Some callee"
    "resolveLayoutType dl metadata f (in_id call) = Inr t" "map_of (ls_descriptorMap st) t = Some name"
    "instructionAt (ls_module st) f (in_id call) = Some (call\<lparr>in_op := OCall (VFunc h) (args @ [VGlobalVariable name False])\<rparr>)"
    "map_option fn_name (functionAt (ls_module st) h) = Some (typedName (fn_name callee))"
    by (rule typedCallE [OF assms(1)])
  obtain helper where helper: "functionAt (ls_module st) h = Some helper" "fn_name helper = typedName (fn_name callee)" using t(7) by auto
  show ?thesis
  proof (rule typedCallI [where s = s and f = f, OF t(1-4)])
    show "map_of (ls_descriptorMap st') t = Some name" using assms(2) t(5) by (metis domI map_le_def)
    show "instructionAt (ls_module st') f (in_id call) = Some (call\<lparr>in_op := OCall (VFunc h) (args @ [VGlobalVariable name False])\<rparr>)"
      unfolding assms(4) by (rule t(6))
    show "map_option fn_name (functionAt (ls_module st') h) = Some (typedName (fn_name callee))"
      using sameCallees_name [OF assms(3) helper(1)] helper(2) by simp
  qed
qed

lemma rewriteCalls_effect:
  assumes "givesNewNames unique" "rewriting dl m st" "distinct (map (\<lambda>(f, call). (f, in_id call)) calls)"
    and "\<forall>(f, call) \<in> set calls. instructionAt (ls_module st) f (in_id call) = Some call \<and> isAllocationCall s m call"
  shows "((\<exists>st'. rewriteCalls dl unique metadata (\<lambda>_. s) calls st = Inr st') \<longleftrightarrow> (\<forall>(f, call) \<in> set calls. layoutFound dl metadata f call)) \<and>
    (\<forall>st'. rewriteCalls dl unique metadata (\<lambda>_. s) calls st = Inr st' \<longrightarrow>
      rewriting dl m st' \<and> (\<forall>(f, call) \<in> set calls. typedCall dl metadata s m st' f call) \<and>
      map_of (ls_descriptorMap st) \<subseteq>\<^sub>m map_of (ls_descriptorMap st') \<and> sameCallees (ls_module st) (ls_module st') \<and>
      (\<forall>g k. (g, k) \<notin> (\<lambda>(f, call). (f, in_id call)) ` set calls \<longrightarrow> instructionAt (ls_module st') g k = instructionAt (ls_module st) g k))"
  using assms(2-4)
proof (induction calls arbitrary: st)
  case Nil then show ?case by (simp add: sameCallees_def)
next
  case (Cons p calls)
  obtain f call where p: "p = (f, call)" by (cases p)
  have here: "isAllocationCall s m call" "instructionAt (ls_module st) f (in_id call) = Some call" using Cons.prems(3) p by simp_all
  note step = rewriteCall_step [OF assms(1) Cons.prems(1) here, of metadata]
  have unfold: "rewriteCalls dl unique metadata (\<lambda>_. s) (p # calls) st =
      bindE (rewriteCall dl unique metadata (\<lambda>_. s) f call st) (rewriteCalls dl unique metadata (\<lambda>_. s) calls)" by (simp add: p)
  show ?case
  proof (cases "rewriteCall dl unique metadata (\<lambda>_. s) f call st")
    case (Inl e)
    then have "\<not> layoutFound dl metadata f call" using step(1) by simp
    then show ?thesis unfolding unfold using Inl p by simp
  next
    case (Inr st1)
    then have found: "layoutFound dl metadata f call" using step(1) by blast
    have one: "rewriting dl m st1" "typedCall dl metadata s m st1 f call" "map_of (ls_descriptorMap st) \<subseteq>\<^sub>m map_of (ls_descriptorMap st1)"
      "sameCallees (ls_module st) (ls_module st1)"
      "\<And>g k. (g, k) \<noteq> (f, in_id call) \<Longrightarrow> instructionAt (ls_module st1) g k = instructionAt (ls_module st) g k"
      using step(2) [OF Inr] by (auto simp del: prod.inject)
    have fresh: "(f, in_id call) \<notin> (\<lambda>(f, call). (f, in_id call)) ` set calls" using Cons.prems(2) p by simp
    have "\<forall>(f', call') \<in> set calls. instructionAt (ls_module st1) f' (in_id call') = Some call' \<and> isAllocationCall s m call'"
    proof (clarify, rule conjI)
      fix f' call' assume q: "(f', call') \<in> set calls"
      then have "(f', in_id call') \<noteq> (f, in_id call)" using fresh by force
      then have kept: "instructionAt (ls_module st1) f' (in_id call') = instructionAt (ls_module st) f' (in_id call')" by (rule one(5))
      have "(f', call') \<in> set (p # calls)" using q by simp
      then have "instructionAt (ls_module st) f' (in_id call') = Some call' \<and> isAllocationCall s m call'"
        using Cons.prems(3) by blast
      then show "instructionAt (ls_module st1) f' (in_id call') = Some call'" "isAllocationCall s m call'" using kept by simp_all
    qed
    note IH = Cons.IH [OF one(1) _ this]
    have dist: "distinct (map (\<lambda>(f, call). (f, in_id call)) calls)" using Cons.prems(2) by simp
    show ?thesis
      unfolding unfold Inr bindE_simps
    proof (intro conjI allI impI)
      show "(\<exists>st'. rewriteCalls dl unique metadata (\<lambda>_. s) calls st1 = Inr st') \<longleftrightarrow> (\<forall>(f, call) \<in> set (p # calls). layoutFound dl metadata f call)"
        using conjunct1 [OF IH [OF dist]] found p by simp
      fix st' assume r: "rewriteCalls dl unique metadata (\<lambda>_. s) calls st1 = Inr st'"
      note rest = conjunct2 [OF IH [OF dist], rule_format, OF r]
      show "rewriting dl m st'" using rest by blast
      show "map_of (ls_descriptorMap st) \<subseteq>\<^sub>m map_of (ls_descriptorMap st')" using one(3) rest map_le_trans by blast
      show "sameCallees (ls_module st) (ls_module st')" using one(4) rest sameCallees_trans by blast
      have "typedCall dl metadata s m st' f call"
        by (rule typedCall_kept [OF one(2)]) (use rest fresh in blast)+
      then show "\<forall>(f, call) \<in> set (p # calls). typedCall dl metadata s m st' f call" using rest p by simp
      fix g k assume "(g, k) \<notin> (\<lambda>(f, call). (f, in_id call)) ` set (p # calls)"
      then have "(g, k) \<notin> (\<lambda>(f, call). (f, in_id call)) ` set calls" "(g, k) \<noteq> (f, in_id call)" using p by auto
      then show "instructionAt (ls_module st') g k = instructionAt (ls_module st) g k" using rest one(5) by metis
    qed
  qed
qed

end
