(* ===== verification/Heap_Layout_Properties.thy ===== *)
theory Heap_Layout_Properties
  imports Heap_Layout_Calls Heap_Examples
begin

text \<open>
  What the heap layout pass promises: typed allocation calls only, and descriptors with which the
  collector visits exactly the pointers of an object.
\<close>

section \<open>The calls\<close>

lemma annotate_effect:
  assumes "givesNewNames unique" "wellNumbered m"
  shows "(\<exists>st. annotateManagedHeapLayouts dl unique metadata (\<lambda>_. s) m = Inr st) \<longleftrightarrow>
      (\<forall>(f, call) \<in> set (allocationCalls s m). layoutFound dl metadata f call)"
    and "annotateManagedHeapLayouts dl unique metadata (\<lambda>_. s) m = Inr st \<Longrightarrow>
      rewriting dl m st \<and> (\<forall>(f, call) \<in> set (allocationCalls s m). typedCall dl metadata s m st f call) \<and>
      (\<forall>g k. (g, k) \<notin> (\<lambda>(f, call). (f, in_id call)) ` set (allocationCalls s m) \<longrightarrow>
        instructionAt (ls_module st) g k = instructionAt m g k)"
proof -
  let ?st = "\<lparr>ls_descriptorMap = [], ls_nextId = 0, ls_globals = [], ls_module = m\<rparr>"
  have inv: "rewriting dl m ?st" using assms(2) by (simp add: rewriting_def tableOk_def sameCallees_def)
  have calls: "\<forall>(f, call) \<in> set (allocationCalls s m).
      instructionAt (ls_module ?st) f (in_id call) = Some call \<and> isAllocationCall s m call"
    using allocationCalls_iff [OF assms(2)] by auto
  note effect = rewriteCalls_effect [OF assms(1) inv allocationCalls_distinct [OF assms(2)] calls, of metadata]
  show "(\<exists>st. annotateManagedHeapLayouts dl unique metadata (\<lambda>_. s) m = Inr st) \<longleftrightarrow>
      (\<forall>(f, call) \<in> set (allocationCalls s m). layoutFound dl metadata f call)"
    unfolding annotateManagedHeapLayouts_def by (rule conjunct1 [OF effect])
  assume "annotateManagedHeapLayouts dl unique metadata (\<lambda>_. s) m = Inr st"
  then have r: "rewriteCalls dl unique metadata (\<lambda>_. s) (allocationCalls s m) ?st = Inr st" by (simp add: annotateManagedHeapLayouts_def)
  note facts = conjunct2 [OF effect, rule_format, OF r]
  show "rewriting dl m st \<and> (\<forall>(f, call) \<in> set (allocationCalls s m). typedCall dl metadata s m st f call) \<and>
      (\<forall>g k. (g, k) \<notin> (\<lambda>(f, call). (f, in_id call)) ` set (allocationCalls s m) \<longrightarrow>
        instructionAt (ls_module st) g k = instructionAt m g k)"
    using facts by simp
qed

lemma no_allocation_left:
  assumes "givesNewNames unique" "wellNumbered m" "\<And>g. s (VFunc g) = VFunc g"
    and "annotateManagedHeapLayouts dl unique metadata (\<lambda>_. s) m = Inr st"
  shows "allocationCalls s (ls_module st) = []"
proof -
  note facts = annotate_effect(2) [OF assms(1,2,4)]
  have inv: "wellNumbered (ls_module st)" "sameCallees m (ls_module st)"
    using conjunct1 [OF facts] by (simp_all add: rewriting_def)
  note typed = conjunct1 [OF conjunct2 [OF facts]] and kept = conjunct2 [OF conjunct2 [OF facts], rule_format]
  have False if "(g, i) \<in> set (allocationCalls s (ls_module st))" for g i
  proof -
    have i: "instructionAt (ls_module st) g (in_id i) = Some i" "isAllocationCall s (ls_module st) i"
      using that allocationCalls_iff [OF inv(1)] by simp_all
    show False
    proof (cases "(g, in_id i) \<in> (\<lambda>(f, call). (f, in_id call)) ` set (allocationCalls s m)")
      case True
      then obtain call where call: "(g, call) \<in> set (allocationCalls s m)" "in_id call = in_id i" by auto
      then have "typedCall dl metadata s m st g call" using bspec [OF typed call(1)] by simp
      then obtain c args f callee t name h where call': "in_op call = OCall c args" "s c = VFunc f" "functionAt m f = Some callee"
        "resolveLayoutType dl metadata g (in_id call) = Inr t" "map_of (ls_descriptorMap st) t = Some name"
        and h: "instructionAt (ls_module st) g (in_id call) = Some (call\<lparr>in_op := OCall (VFunc h) (args @ [VGlobalVariable name False])\<rparr>)"
        "map_option fn_name (functionAt (ls_module st) h) = Some (typedName (fn_name callee))"
        by (rule typedCallE)
      have "Some i = Some (call\<lparr>in_op := OCall (VFunc h) (args @ [VGlobalVariable name False])\<rparr>)"
        using h(1) unfolding call(2) i(1) .
      then have "in_op i = OCall (VFunc h) (args @ [VGlobalVariable name False])" by simp
      then have "\<exists>c. functionAt (ls_module st) h = Some c \<and> isAllocName (fn_name c)"
        using i(2) unfolding isAllocationCall_iff by (simp add: assms(3))
      then obtain c where "functionAt (ls_module st) h = Some c" "isAllocName (fn_name c)" by (elim exE conjE)
      then show False using h(2) typedName_typed [of "fn_name callee"] by simp
    next
      case False
      then have "instructionAt (ls_module st) g (in_id i) = instructionAt m g (in_id i)" by (rule kept)
      then have "(g, i) \<in> set (allocationCalls s m)"
        using i allocationCalls_iff [OF assms(2)] sameCallees_allocation [OF inv(2)] by simp
      then show False using False by force
    qed
  qed
  then have "set (allocationCalls s (ls_module st)) = {}" by (intro equals0I) (metis surj_pair)
  then show ?thesis by (simp only: set_empty)
qed

text \<open>C21. The heap layout pass succeeds exactly when the metadata of every allocation call names a type
  with a size.  Afterwards no call of the untyped allocation functions is left: each has become, in its
  place, a call of the typed function of its kind with the same arguments and the descriptor of the
  type that its metadata names.\<close>

theorem allocation_calls_are_typed:
  assumes "givesNewNames unique" "wellNumbered m" "\<And>g. s (VFunc g) = VFunc g"
  shows "if \<forall>(f, call) \<in> set (allocationCalls s m). layoutFound dl metadata f call
    then \<exists>st. annotateManagedHeapLayouts dl unique metadata (\<lambda>_. s) m = Inr st \<and> allocationCalls s (ls_module st) = [] \<and>
      (\<forall>(f, call) \<in> set (allocationCalls s m). typedCall dl metadata s m st f call)
    else \<exists>e. annotateManagedHeapLayouts dl unique metadata (\<lambda>_. s) m = Inl e"
proof (cases "\<forall>(f, call) \<in> set (allocationCalls s m). layoutFound dl metadata f call")
  case True
  then obtain st where st: "annotateManagedHeapLayouts dl unique metadata (\<lambda>_. s) m = Inr st"
    using annotate_effect(1) [OF assms(1,2)] by blast
  then have "\<forall>(f, call) \<in> set (allocationCalls s m). typedCall dl metadata s m st f call"
    using annotate_effect(2) [OF assms(1,2)] by blast
  with st no_allocation_left [OF assms st] show ?thesis unfolding if_P [OF True] by (intro exI conjI)
next
  case False
  then have "\<nexists>st. annotateManagedHeapLayouts dl unique metadata (\<lambda>_. s) m = Inr st"
    using annotate_effect(1) [OF assms(1,2), of dl metadata s] by simp
  then show ?thesis unfolding if_not_P [OF False] by (metis sum.exhaust)
qed

section \<open>The descriptors\<close>

text \<open>The loaded module has the descriptor of a global at an address, and its offsets where it points.\<close>

definition placed :: "memory \<Rightarrow> (string \<times> global_init) list \<Rightarrow> addr \<Rightarrow> string \<Rightarrow> bool" where
  "placed rd globals td name \<longleftrightarrow> td \<noteq> 0 \<and>
     (case map_of globals name of
        Some (DescriptorStruct version instanceSize alignment count base) \<Rightarrow>
          \<exists>start. rd_descriptor rd td = \<lparr>td_abiVersion = version, td_instanceSize = instanceSize, td_instanceAlignment = alignment,
              td_referenceSlotCount = count, td_referenceSlotOffsets = start\<rparr> \<and>
            (case base of None \<Rightarrow> start = 0
             | Some g \<Rightarrow> start \<noteq> 0 \<and> (\<forall>offsets. map_of globals g = Some (OffsetArray offsets) \<longrightarrow>
                 (\<forall>i < length offsets. rd_word rd (start + of_nat (8 * i)) = offsets ! i)))
      | _ \<Rightarrow> False)"

lemma described_slots:
  assumes "describes dl globals t name" "placed rd globals td name" "laidOut dl t" "noPointerVectors t"
  shows "slotRefs rd (rd_descriptor rd td) base (dl_allocSize dl t) [0 ..< unat (td_referenceSlotCount (rd_descriptor rd td))] =
      map (\<lambda>offset. rd_word rd (base + offset)) (referenceOffsets dl t)"
    and "td_abiVersion (rd_descriptor rd td) = 1" "td_instanceSize (rd_descriptor rd td) = dl_allocSize dl t"
proof -
  note exact = referenceOffsets_exact [OF assms(3,4)]
  obtain b where b: "map_of globals name =
      Some (DescriptorStruct 1 (dl_allocSize dl t) (dl_abiAlign dl t) (of_nat (length (referenceOffsets dl t))) b)"
    "case b of None \<Rightarrow> referenceOffsets dl t = [] | Some g \<Rightarrow> map_of globals g = Some (OffsetArray (referenceOffsets dl t))"
    using assms(1) unfolding describes_def by blast
  obtain start where d: "rd_descriptor rd td = \<lparr>td_abiVersion = 1, td_instanceSize = dl_allocSize dl t, td_instanceAlignment = dl_abiAlign dl t,
      td_referenceSlotCount = of_nat (length (referenceOffsets dl t)), td_referenceSlotOffsets = start\<rparr>"
    "case b of None \<Rightarrow> start = 0 | Some g \<Rightarrow> start \<noteq> 0 \<and> (\<forall>offsets. map_of globals g = Some (OffsetArray offsets) \<longrightarrow>
       (\<forall>i < length offsets. rd_word rd (start + of_nat (8 * i)) = offsets ! i))"
    using assms(2) unfolding placed_def b(1) by auto
  show "td_abiVersion (rd_descriptor rd td) = 1" "td_instanceSize (rd_descriptor rd td) = dl_allocSize dl t" by (simp_all add: d(1))
  have count: "unat (td_referenceSlotCount (rd_descriptor rd td)) = length (referenceOffsets dl t)"
    using unat_of_nat_u64 [OF exact(3)] by (simp add: d(1))
  have inside: "\<not> offset + 8 > dl_allocSize dl t" if "offset \<in> set (referenceOffsets dl t)" for offset
  proof -
    have "pointerAt dl t (unat offset)" using exact(2) that by auto
    from pointerAt_inside [OF this assms(3,4)] have "unat offset + unat (8 :: u64) \<le> unat (dl_allocSize dl t)" by simp
    moreover from this have "unat (offset + 8) = unat offset + unat (8 :: u64)"
      using unat_le_max [of "dl_allocSize dl t"] by (intro unat_plus_u64) linarith
    ultimately show ?thesis by (simp add: word_less_nat_alt)
  qed
  show "slotRefs rd (rd_descriptor rd td) base (dl_allocSize dl t) [0 ..< unat (td_referenceSlotCount (rd_descriptor rd td))] =
      map (\<lambda>offset. rd_word rd (base + offset)) (referenceOffsets dl t)"
  proof (cases b)
    case None
    then show ?thesis using b(2) d(2) by (simp add: slotRefs_def d(1))
  next
    case (Some g)
    have "map (\<lambda>i. rd_word rd (start + of_nat (8 * i))) [0 ..< length (referenceOffsets dl t)] = referenceOffsets dl t"
      using Some b(2) d(2) by (intro nth_equalityI) simp_all
    moreover have "filter (\<lambda>offset. \<not> offset + 8 > dl_allocSize dl t) (referenceOffsets dl t) = referenceOffsets dl t"
      using inside by (simp add: filter_id_conv)
    ultimately show ?thesis using Some d(2) unfolding slotRefs_def count by (simp add: d(1))
  qed
qed

text \<open>C22. For a type that has a size other than 0 and no vector of pointers in it, the descriptor that the
  pass makes is accepted by the allocation functions, and when an object or array has it, the collector
  visits exactly the words at the pointers of the type - the type itself, elements of arrays and fields
  of structs, nested to any depth - in every element.  Vectors of pointers are left out, since the pass
  does not look into vectors.\<close>

theorem descriptors_trace_exactly:
  assumes "givesNewNames unique" "wellNumbered m" "annotateManagedHeapLayouts dl unique metadata (\<lambda>_. s) m = Inr st"
    and "map_of (ls_descriptorMap st) t = Some name" "laidOut dl t" "noPointerVectors t"
    and "dl_allocSize dl t \<noteq> 0" and "placed rd (ls_globals st) td name" "ah_typeDescriptor (hdrs heap h) = td"
  shows "descriptorOk rd td \<and> set (payloadRefs rd heap h) =
    {rd_word rd (payloadAddress h + of_nat e * dl_allocSize dl t + of_nat off) | e off.
       e < unat (if ah_kind (hdrs heap h) = AArray then ah_elementCount (hdrs heap h) else 1) \<and> pointerAt dl t off}"
proof -
  have "tableOk dl st" using annotate_effect(2) [OF assms(1-3)] by (simp add: rewriting_def)
  then have "describes dl (ls_globals st) t name" using assms(4) by (simp add: tableOk_def)
  note d = described_slots [OF this assms(8,5,6)]
  let ?n = "unat (if ah_kind (hdrs heap h) = AArray then ah_elementCount (hdrs heap h) else 1)"
  have td: "td \<noteq> 0" using assms(8) by (simp add: placed_def)
  have offs: "set (referenceOffsets dl t) = of_nat ` Collect (pointerAt dl t)"
    using pointerOffsets_exact(1) [OF assms(5,6), of 0] by (auto simp: referenceOffsets_def)
  have "payloadRefs rd heap h = concat (map (\<lambda>e. map (\<lambda>offset. rd_word rd (payloadAddress h + of_nat e * dl_allocSize dl t + offset))
      (referenceOffsets dl t)) [0 ..< ?n])"
    using td assms(7) by (simp add: payloadRefs_def Let_def assms(9) d)
  then have "set (payloadRefs rd heap h) = (\<Union>e < ?n. (\<lambda>offset. rd_word rd (payloadAddress h + of_nat e * dl_allocSize dl t + offset)) `
      of_nat ` Collect (pointerAt dl t))"
    by (simp add: offs atLeast0LessThan)
  also have "\<dots> = {rd_word rd (payloadAddress h + of_nat e * dl_allocSize dl t + of_nat off) | e off. e < ?n \<and> pointerAt dl t off}"
    by (auto simp del: if_split)
  finally show ?thesis using td assms(7) d(2,3) by (simp add: descriptorOk_def)
qed

section \<open>Array type names\<close>

lemma rfindChar_last: "c \<notin> set ys \<Longrightarrow> rfindChar c (xs @ c # ys) = Some (length xs)"
proof -
  assume c: "c \<notin> set ys"
  then have "rfindChar c ys = None" by (induction ys) auto
  then show ?thesis by (induction xs) simp_all
qed

lemma endsWith_iff: "endsWith s t \<longleftrightarrow> (\<exists>u. s = u @ t)"
proof
  assume "endsWith s t"
  then have "s = take (length s - length t) s @ t" unfolding endsWith_def by (metis append_take_drop_id)
  then show "\<exists>u. s = u @ t" by blast
qed (auto simp: endsWith_def)

lemma scalarTypes_last: "map_of (scalarTypes dl) s = Some t \<Longrightarrow> last s \<noteq> CHR '']''"
  by (auto simp: scalarTypes_def split: if_splits)

text \<open>The name \<open>T[n]\<close> stands for the array of \<open>n\<close> elements of \<open>T\<close>, for every element type \<open>T\<close>; and what
  stands between the number and the bracket is ignored, so that \<open>u8[3abc]\<close> is taken for \<open>u8[3]\<close>.\<close>

theorem array_counts_ignore_trailing_text:
  assumes "elem \<noteq> []" "CHR ''['' \<notin> set rest" "dl_consumeInteger dl (showNat k @ rest) = Some (of_nat k)"
  shows "resolveTypeName dl (elem @ ''['' @ showNat k @ rest @ '']'') =
    bindE (resolveTypeName dl elem) (\<lambda>t. Inr (TArray t (of_nat k)))"
proof -
  let ?count = "showNat k @ rest" and ?name = "elem @ ''['' @ showNat k @ rest @ '']''"
  have digits: "list_all isDigitChar (showNat k)" "showNat k \<noteq> []"
    using showNat_digits showNat_nonempty by (simp_all add: list_all_iff)
  then have "CHR ''['' \<notin> set (showNat k)" by (auto simp: list_all_iff isDigitChar_def)
  then have find: "rfindChar CHR ''['' ?name = Some (length elem)"
    using assms(2) rfindChar_last [of "CHR ''[''" "showNat k @ rest @ '']''" elem] by simp
  have last: "last ?name = CHR '']''" by simp
  have "\<not> endsWith ?name ''*''" using last by (auto simp: endsWith_iff)
  moreover have "\<not> endsWith ?name ''[*]''"
  proof
    assume "endsWith ?name ''[*]''"
    then obtain u where u: "?name = u @ ''[*]''" by (auto simp: endsWith_iff)
    have "rfindChar CHR ''['' ?name = Some (length u)" unfolding u using rfindChar_last [of "CHR ''[''" "''*]''" u] by simp
    then have "Some (length elem) = Some (length u)" unfolding find .
    then have "showNat k @ rest @ '']'' = ''*]''" using u by simp
    moreover obtain c cs where "showNat k = c # cs" "isDigitChar c" using digits by (cases "showNat k") auto
    ultimately show False by (simp add: isDigitChar_def)
  qed
  moreover have "map_of (scalarTypes dl) ?name = None"
    using scalarTypes_last [of dl ?name] last by (cases "map_of (scalarTypes dl) ?name") simp_all
  moreover have "arrayParts dl ?name = Some (elem, of_nat k)"
  proof -
    have "endsWith ?name '']''" unfolding endsWith_iff by (intro exI [of _ "elem @ ''['' @ ?count"]) simp
    then show ?thesis
      using find assms(1,3) digits(2) unfolding arrayParts_def by (simp add: Let_def)
  qed
  ultimately show ?thesis by (subst resolveTypeName.simps) simp
qed

section \<open>An example\<close>

definition freshName :: "string list \<Rightarrow> string \<Rightarrow> string" where
  "freshName taken name = (if name \<notin> set taken then name else replicate (Suc (sum_list (map length taken))) CHR ''.'')"

lemma freshName_new: "givesNewNames freshName"
proof -
  have "length x \<le> sum_list (map length taken)" if "x \<in> set taken" for x and taken :: "string list"
    by (rule member_le_sum_list) (use that in auto)
  then show ?thesis by (fastforce simp: givesNewNames_def freshName_def)
qed

definition plainOperand :: "val \<Rightarrow> val" where "plainOperand v = v"

definition nodeType :: ir_type where "nodeType = TStruct ''Node'' (Some [TPointer 0, TInt 64])"

definition exampleLayout :: data_layout where
  "exampleLayout = \<lparr>dl_pointerBits = 64, dl_isSized = (\<lambda>_. True), dl_isScalable = (\<lambda>_. False),
     dl_allocSize = (\<lambda>t. case t of TStruct _ _ \<Rightarrow> 16 | _ \<Rightarrow> 8), dl_abiAlign = (\<lambda>_. 8), dl_elementOffset = (\<lambda>_ k. of_nat (8 * k)),
     dl_typeByName = (\<lambda>name. if name = ''Node'' then Some nodeType else None),
     dl_consumeInteger = (\<lambda>text. let digits = takeWhile isDigitChar text
        in if digits = [] then None else Some (of_nat (decimalValue digits)))\<rparr>"

definition allocationModule :: ir_module where
  "allocationModule =
     [\<lparr>fn_id = 0, fn_name = ''__mvm_malloc'', fn_isDeclaration = True, fn_hasAddressTaken = False, fn_isVarArg = False,
        fn_params = [], fn_returnsPointer = True, fn_blocks = []\<rparr>,
      \<lparr>fn_id = 1, fn_name = ''main'', fn_isDeclaration = False, fn_hasAddressTaken = False, fn_isVarArg = False,
        fn_params = [], fn_returnsPointer = False,
        fn_blocks = [[\<lparr>in_id = 0, in_isPointer = True, in_op = OCall (VFunc 0) []\<rparr>,
                      \<lparr>in_id = 1, in_isPointer = False, in_op = ORet None\<rparr>]]\<rparr>]"

definition nodeMetadata :: type_metadata where
  "nodeMetadata f i = (if f = 1 \<and> i = 0 then Some [Some ''Node''] else None)"

lemma allocationModule_numbered: "wellNumbered allocationModule"
  by (simp add: wellNumbered_def allocationModule_def instructionsOf_def)

lemma allocationModule_calls:
  "allocationCalls plainOperand allocationModule = [(1, \<lparr>in_id = 0, in_isPointer = True, in_op = OCall (VFunc 0) []\<rparr>)]"
  by code_simp

lemma nodeName: "resolveTypeName exampleLayout ''Node'' = Inr nodeType"
  by code_simp

definition exampleGlobals :: "(string \<times> global_init) list" where
  "exampleGlobals = [(''__mvm_type_offsets.0'', OffsetArray [0]),
     (''__mvm_type.1'', DescriptorStruct 1 16 8 1 (Some ''__mvm_type_offsets.0''))]"

lemma allocationModule_annotated:
  "case annotateManagedHeapLayouts exampleLayout freshName nodeMetadata (\<lambda>_. plainOperand) allocationModule of
     Inl _ \<Rightarrow> False
   | Inr st \<Rightarrow> ls_globals st = exampleGlobals \<and> ls_descriptorMap st = [(nodeType, ''__mvm_type.1'')]"
  by code_simp

lemma allocationModule_found: "\<forall>(f, call) \<in> set (allocationCalls plainOperand allocationModule). layoutFound exampleLayout nodeMetadata f call"
  unfolding allocationModule_calls
  by (simp add: layoutFound_def resolveLayoutType_def nodeMetadata_def nodeName) (simp add: exampleLayout_def)

theorem allocation_calls_are_typed_witness:
  "\<exists>st. annotateManagedHeapLayouts exampleLayout freshName nodeMetadata (\<lambda>_. plainOperand) allocationModule = Inr st \<and>
     allocationCalls plainOperand (ls_module st) = []"
proof -
  have "plainOperand (VFunc g) = VFunc g" for g by (simp add: plainOperand_def)
  from allocation_calls_are_typed [OF freshName_new allocationModule_numbered this, of exampleLayout nodeMetadata]
  show ?thesis unfolding if_P [OF allocationModule_found] by blast
qed

text \<open>The descriptor of \<open>Node\<close> is loaded at the address that the object of \<open>objectRuntime\<close> has as its descriptor.\<close>

definition nodeMemory :: memory where
  "nodeMemory = \<lparr>rd_word = (\<lambda>_. 0), rd_descriptor = (\<lambda>_. \<lparr>td_abiVersion = 1, td_instanceSize = 16, td_instanceAlignment = 8,
     td_referenceSlotCount = 1, td_referenceSlotOffsets = 4096\<rparr>)\<rparr>"

theorem descriptors_trace_exactly_witness:
  "descriptorOk nodeMemory 64 \<and>
   set (payloadRefs nodeMemory (rt_heap objectRuntime) 1048576) = {0}"
proof -
  obtain st where st: "annotateManagedHeapLayouts exampleLayout freshName nodeMetadata (\<lambda>_. plainOperand) allocationModule = Inr st"
    "ls_globals st = exampleGlobals" "ls_descriptorMap st = [(nodeType, ''__mvm_type.1'')]"
    using allocationModule_annotated
    by (cases "annotateManagedHeapLayouts exampleLayout freshName nodeMetadata (\<lambda>_. plainOperand) allocationModule") (simp_all only: sum.case)
  have d: "map_of (ls_descriptorMap st) nodeType = Some ''__mvm_type.1''" unfolding st(3) by simp
  have laid: "laidOut exampleLayout nodeType" "noPointerVectors nodeType" "dl_allocSize exampleLayout nodeType \<noteq> 0" by code_simp+
  have placed: "placed nodeMemory (ls_globals st) 64 ''__mvm_type.1''"
    by (simp add: placed_def st(2) exampleGlobals_def nodeMemory_def)
  have "pointerAt exampleLayout nodeType (unat (dl_elementOffset exampleLayout (TStruct ''Node'' (Some [TPointer 0, TInt 64])) 0) + 0)"
    unfolding nodeType_def by (rule field) (simp_all add: here)
  then have pointer: "pointerAt exampleLayout nodeType 0" by (simp add: exampleLayout_def)
  have word: "rd_word nodeMemory a = 0" for a by (simp add: nodeMemory_def)
  let ?n = "unat (if ah_kind (hdrs (rt_heap objectRuntime) 1048576) = AArray then ah_elementCount (hdrs (rt_heap objectRuntime) 1048576) else 1)"
  have n: "?n = 1" by (simp add: objectHeap_header(1))
  note t = descriptors_trace_exactly [OF freshName_new allocationModule_numbered st(1) d laid placed objectHeap_header(3)]
  have "(0 :: nat) < ?n \<and> pointerAt exampleLayout nodeType 0" unfolding n using pointer by simp
  then have "set (payloadRefs nodeMemory (rt_heap objectRuntime) 1048576) = {0}" unfolding conjunct2 [OF t] word by blast
  with conjunct1 [OF t] show ?thesis by (rule conjI)
qed

theorem array_counts_ignore_trailing_text_witness:
  "resolveTypeName exampleLayout ''u8[3abc]'' = Inr (TArray (TInt 8) 3)"
proof -
  have three: "showNat 3 = ''3''" by code_simp
  have "dl_consumeInteger exampleLayout (showNat 3 @ ''abc'') = Some (of_nat 3)" unfolding three by code_simp
  from array_counts_ignore_trailing_text [OF _ _ this, of "''u8''"] show ?thesis
    unfolding three by (simp add: resolveTypeName.simps [of _ "''u8''"] endsWith_def scalarTypes_def)
qed

text \<open>The pointers of a vector inside a struct are not listed.\<close>

lemma vector_pointers_are_not_listed:
  assumes "0 < n"
  shows "\<exists>off. pointerAt dl (TStruct s (Some [TVector (TPointer 0) n])) off"
    and "referenceOffsets dl (TStruct s (Some [TVector (TPointer 0) n])) = []"
proof -
  have "pointerAt dl (TVector (TPointer 0) n) (0 * unat (dl_allocSize dl (TPointer 0)) + 0)"
    by (intro vector_element here assms)
  then show "\<exists>off. pointerAt dl (TStruct s (Some [TVector (TPointer 0) n])) off"
    using field [of 0 "[TVector (TPointer 0) n]" dl _ s] by fastforce
qed (simp add: referenceOffsets_def)

end
