(* ===== verification/Bounds_Checks.thy ===== *)
theory Bounds_Checks
  imports Heap_Layout GC_Leaf
begin

text \<open>
  The injection of bounds checks: \<open>src/src/mvm/bounds_instrumentation.cc\<close>.  What this pass reads of an
  instruction beyond the IR of \<open>LLVM_IR\<close>, and what LLVM computes for it, is the record \<open>bounds_view\<close>:
  the source type and the indices of a \<open>getelementptr\<close>, the width of integer values, use lists,
  \<open>stripPointerCasts\<close>, and the dominator tree of a function over the numbers of its blocks, taken before
  the first check is injected.
\<close>

record bounds_view =
  bv_sourceType :: "nat \<Rightarrow> nat \<Rightarrow> ir_type"
  bv_indices :: "nat \<Rightarrow> nat \<Rightarrow> val list"
  bv_width :: "val \<Rightarrow> nat option"
  bv_users :: "val \<Rightarrow> instruction list"
  bv_strip :: "val \<Rightarrow> val"
  bv_dominates :: "nat \<Rightarrow> nat \<Rightarrow> nat \<Rightarrow> bool"
  bv_reachable :: "nat \<Rightarrow> nat \<Rightarrow> bool"

section \<open>Conditions\<close>

text \<open>An index as it is compared: itself, or cast to 64 bits as an unsigned integer.\<close>

datatype index64 =
    SameIndex val
  | IntCast val

definition integerWidth :: "bounds_view \<Rightarrow> val \<Rightarrow> nat option" where
  "integerWidth bv v = (case v of VInt w n \<Rightarrow> Some w | _ \<Rightarrow> bv_width bv v)"

definition normalizeIndex :: "bounds_view \<Rightarrow> val \<Rightarrow> index64 option" where
  "normalizeIndex bv index =
     (case integerWidth bv index of
        None \<Rightarrow> None
      | Some w \<Rightarrow> if w = 64 then Some (SameIndex index) else Some (IntCast index))"

text \<open>The value the trap depends on: an index not below the length of the managed array at a pointer, an
  index not below a number, or one of two such conditions.\<close>

datatype oob =
    DynamicOob index64 val
  | StaticOob index64 u64
  | OrOob oob oob

section \<open>Managed arrays\<close>

definition startsWith :: "string \<Rightarrow> string \<Rightarrow> bool" where
  "startsWith s t \<longleftrightarrow> take (length t) s = t"

definition isIgnorableAllocaUser :: "ir_module \<Rightarrow> instruction \<Rightarrow> bool" where
  "isIgnorableAllocaUser m user =
     (case in_op user of
        OCall callee args \<Rightarrow>
          (case getCalledFunction m callee of
             Some f \<Rightarrow> list_ex (startsWith (fn_name f))
               [''llvm.dbg.assign'', ''llvm.dbg.declare'', ''llvm.dbg.label'', ''llvm.dbg.value'',
                ''llvm.lifetime.start'', ''llvm.lifetime.end'']
           | None \<Rightarrow> False)
      | _ \<Rightarrow> False)"

text \<open>The blocks of a function while checks are injected.  A block of the original function has its number,
  a block that a split has made has none.  A check ends its block: it branches to a block that traps, or
  on to the next block.\<close>

datatype element =
    Original instruction
  | TrapIf oob

type_synonym blocks = "(nat option \<times> element list) list"

definition blockOf :: "blocks \<Rightarrow> nat \<Rightarrow> nat option option" where
  "blockOf bs k = map_option fst (List.find (\<lambda>(origin, es). list_ex (\<lambda>e. case e of Original i \<Rightarrow> in_id i = k | TrapIf c \<Rightarrow> False) es) bs)"

fun comesBefore :: "element list \<Rightarrow> nat \<Rightarrow> nat \<Rightarrow> bool" where
  "comesBefore [] d u = False"
| "comesBefore (TrapIf c # es) d u = comesBefore es d u"
| "comesBefore (Original i # es) d u =
     (if in_id i = u then False else if in_id i = d then True else comesBefore es d u)"

text \<open>\<open>DominatorTree::dominates\<close> for two instructions: a use in a block the tree does not know counts as
  unreachable and is dominated, a definition in such a block dominates nothing else.\<close>

definition dominates :: "bounds_view \<Rightarrow> nat \<Rightarrow> blocks \<Rightarrow> nat \<Rightarrow> nat \<Rightarrow> bool" where
  "dominates bv f bs def user =
     (case blockOf bs user of
        Some (Some u) \<Rightarrow>
          if \<not> bv_reachable bv f u then True
          else (case blockOf bs def of
            Some (Some d) \<Rightarrow>
              if \<not> bv_reachable bv f d then False
              else if d \<noteq> u then bv_dominates bv f d u
              else comesBefore (concat (map snd bs)) def user
          | _ \<Rightarrow> False)
      | _ \<Rightarrow> True)"

text \<open>The loop over the users of a slot: the one value stored there, if there is one.\<close>

fun storedInAlloca :: "bounds_view \<Rightarrow> ir_module \<Rightarrow> nat \<Rightarrow> blocks \<Rightarrow> val \<Rightarrow> nat \<Rightarrow> instruction list \<Rightarrow> val option \<Rightarrow> val option" where
  "storedInAlloca bv m f bs slot load [] storedValue = storedValue"
| "storedInAlloca bv m f bs slot load (user # users) storedValue =
     (if in_id user = load \<or> isIgnorableAllocaUser m user then storedInAlloca bv m f bs slot load users storedValue
      else case in_op user of
        OLoad p \<Rightarrow> storedInAlloca bv m f bs slot load users storedValue
      | OStore v p \<Rightarrow>
          if bv_strip bv p \<noteq> slot \<or> \<not> dominates bv f bs (in_id user) load then None
          else if storedValue = None then storedInAlloca bv m f bs slot load users (Some v)
          else if storedValue \<noteq> Some v then None
          else storedInAlloca bv m f bs slot load users storedValue
      | _ \<Rightarrow> None)"

definition isManagedArrayBaseStoredInAlloca :: "bounds_view \<Rightarrow> ir_module \<Rightarrow> nat \<Rightarrow> blocks \<Rightarrow> nat \<Rightarrow> val \<Rightarrow> val option" where
  "isManagedArrayBaseStoredInAlloca bv m f bs load pointerOperand =
     (let slot = bv_strip bv pointerOperand in
      case slot of
        VInst g k \<Rightarrow>
          (case instructionAt m g k of
             Some i \<Rightarrow> (case in_op i of
               OAlloca b \<Rightarrow> storedInAlloca bv m f bs slot load (bv_users bv slot) None
             | _ \<Rightarrow> None)
           | None \<Rightarrow> None)
      | _ \<Rightarrow> None)"

text \<open>What the answer for a value depends on: the values that must be array bases as well, or \<open>None\<close> when
  it is none.\<close>

definition baseParts :: "bounds_view \<Rightarrow> ir_module \<Rightarrow> nat \<Rightarrow> blocks \<Rightarrow> val \<Rightarrow> val list option" where
  "baseParts bv m f bs v =
     (case v of
        VInst g k \<Rightarrow>
          (case instructionAt m g k of
             None \<Rightarrow> None
           | Some i \<Rightarrow>
               (case in_op i of
                  OCall callee args \<Rightarrow>
                    (case getCalledFunction m callee of
                       Some c \<Rightarrow> if fn_name c = kManagedArrayAllocName then Some [] else None
                     | None \<Rightarrow> None)
                | OLoad p \<Rightarrow> map_option (\<lambda>stored. [stored]) (isManagedArrayBaseStoredInAlloca bv m f bs k p)
                | OPhi vs \<Rightarrow> if vs = [] then None else Some vs
                | OSelect t e \<Rightarrow> Some [t, e]
                | _ \<Rightarrow> None))
      | _ \<Rightarrow> None)"

definition instructionValues :: "ir_module \<Rightarrow> val set" where
  "instructionValues m = (\<Union>f \<in> set m. \<Union>i \<in> set (instructionsOf f). {VInst (fn_id f) (in_id i)})"

lemma baseParts_instruction: "baseParts bv m f bs v = Some vs \<Longrightarrow> v \<in> instructionValues m"
  by (auto simp: baseParts_def instructionAt_def instructionValues_def find_Some_iff dest!: functionAt_Some
      split: val.splits option.splits intro: nth_mem)

lemma finite_instructionValues: "finite (instructionValues m)"
  by (simp add: instructionValues_def)

text \<open>The recursion: every answer is a conjunction that stops at the first failure, so the values still to
  be asked are a list, in the order of the recursion, and the set \<open>visiting\<close> is shared by all.\<close>

function areManagedArrayBases :: "bounds_view \<Rightarrow> ir_module \<Rightarrow> nat \<Rightarrow> blocks \<Rightarrow> val list \<Rightarrow> val set \<Rightarrow> bool" where
  "areManagedArrayBases bv m f bs [] visiting = True"
| "areManagedArrayBases bv m f bs (v # todo) visiting =
     (let stripped = bv_strip bv v in
      if \<not> isPointerValue m stripped then False
      else if stripped \<in> visiting then False
      else case baseParts bv m f bs stripped of
        None \<Rightarrow> False
      | Some parts \<Rightarrow> areManagedArrayBases bv m f bs (parts @ todo) (insert stripped visiting))"
  by pat_completeness auto
termination
proof (relation "measures [\<lambda>(bv, m, f, bs, vs, visiting). card (instructionValues m - visiting)]", simp, goal_cases)
  case (1 bv m f bs v todo visiting stripped parts)
  then have "stripped \<in> instructionValues m - visiting" using baseParts_instruction by blast
  then have "instructionValues m - insert stripped visiting \<subset> instructionValues m - visiting" by blast
  then show ?case using finite_instructionValues [of m] by (simp add: psubset_card_mono)
qed

definition isManagedArrayBase :: "bounds_view \<Rightarrow> ir_module \<Rightarrow> nat \<Rightarrow> blocks \<Rightarrow> val \<Rightarrow> bool" where
  "isManagedArrayBase bv m f bs v = areManagedArrayBases bv m f bs [v] {}"

section \<open>Static checks\<close>

definition isStaticallyInBounds :: "val \<Rightarrow> u64 \<Rightarrow> bool" where
  "isStaticallyInBounds index bound = (case index of VInt w n \<Rightarrow> n < unat bound | _ \<Rightarrow> False)"

text \<open>The walk over the indices after the first, with the type they select from.\<close>

fun walkIndices :: "ir_type \<Rightarrow> val list \<Rightarrow> (val \<times> u64) list" where
  "walkIndices t [] = []"
| "walkIndices t (index # indices) =
     (case t of
        TStruct s body \<Rightarrow>
          (case index of
             VInt w field \<Rightarrow>
               (case body of
                  Some ts \<Rightarrow> if field \<ge> length ts then [] else walkIndices (ts ! field) indices
                | None \<Rightarrow> [])
           | _ \<Rightarrow> [])
      | TArray e n \<Rightarrow> (index, n) # walkIndices e indices
      | TVector e n \<Rightarrow> walkIndices e indices
      | _ \<Rightarrow> [])"

definition collectStaticChecks :: "ir_type \<Rightarrow> val list \<Rightarrow> (val \<times> u64) list" where
  "collectStaticChecks sourceType indices = (case indices of [] \<Rightarrow> [] | _ # rest \<Rightarrow> walkIndices sourceType rest)"

fun addStaticChecks :: "bounds_view \<Rightarrow> (val \<times> u64) list \<Rightarrow> oob option \<Rightarrow> oob option" where
  "addStaticChecks bv [] outOfBounds = outOfBounds"
| "addStaticChecks bv ((index, bound) # checks) outOfBounds =
     (if isStaticallyInBounds index bound then addStaticChecks bv checks outOfBounds
      else case normalizeIndex bv index of
        None \<Rightarrow> addStaticChecks bv checks outOfBounds
      | Some i \<Rightarrow> addStaticChecks bv checks
          (Some (case outOfBounds of Some c \<Rightarrow> OrOob c (StaticOob i bound) | None \<Rightarrow> StaticOob i bound)))"

section \<open>Injection\<close>

definition dynamicCheck :: "bounds_view \<Rightarrow> ir_module \<Rightarrow> nat \<Rightarrow> blocks \<Rightarrow> val \<Rightarrow> val list \<Rightarrow> oob option" where
  "dynamicCheck bv m f bs pointerOperand indices =
     (case indices of
        [] \<Rightarrow> None
      | index # _ \<Rightarrow>
          if isManagedArrayBase bv m f bs pointerOperand
          then map_option (\<lambda>i. DynamicOob i pointerOperand) (normalizeIndex bv index)
          else None)"

definition outOfBoundsCondition :: "bounds_view \<Rightarrow> ir_module \<Rightarrow> nat \<Rightarrow> blocks \<Rightarrow> nat \<Rightarrow> val \<Rightarrow> oob option" where
  "outOfBoundsCondition bv m f bs gep pointerOperand =
     addStaticChecks bv (collectStaticChecks (bv_sourceType bv f gep) (bv_indices bv f gep))
       (dynamicCheck bv m f bs pointerOperand (bv_indices bv f gep))"

text \<open>\<open>SplitBlockAndInsertIfThen\<close>: the block is split before the instruction; its first part ends with the
  check.\<close>

fun splitElements :: "nat \<Rightarrow> oob \<Rightarrow> element list \<Rightarrow> (element list \<times> element list) option" where
  "splitElements gep c [] = None"
| "splitElements gep c (e # es) =
     (if (case e of Original i \<Rightarrow> in_id i = gep | TrapIf _ \<Rightarrow> False) then Some ([TrapIf c], e # es)
      else map_option (\<lambda>(before, rest). (e # before, rest)) (splitElements gep c es))"

fun instrumentTrapIfOutOfBounds :: "nat \<Rightarrow> oob \<Rightarrow> blocks \<Rightarrow> blocks" where
  "instrumentTrapIfOutOfBounds gep c [] = []"
| "instrumentTrapIfOutOfBounds gep c ((origin, es) # bs) =
     (case splitElements gep c es of
        Some (before, rest) \<Rightarrow> (origin, before) # (None, rest) # bs
      | None \<Rightarrow> (origin, es) # instrumentTrapIfOutOfBounds gep c bs)"

definition instrumentGEP :: "bounds_view \<Rightarrow> ir_module \<Rightarrow> nat \<Rightarrow> nat \<times> val \<Rightarrow> blocks \<Rightarrow> blocks" where
  "instrumentGEP bv m f gep bs =
     (case outOfBoundsCondition bv m f bs (fst gep) (snd gep) of
        None \<Rightarrow> bs
      | Some c \<Rightarrow> instrumentTrapIfOutOfBounds (fst gep) c bs)"

definition gepsOf :: "ir_function \<Rightarrow> (nat \<times> val) list" where
  "gepsOf f = concat (map (\<lambda>i. case in_op i of OGep base b \<Rightarrow> [(in_id i, base)] | _ \<Rightarrow> []) (instructionsOf f))"

definition initialBlocks :: "ir_function \<Rightarrow> blocks" where
  "initialBlocks f = zip (map Some [0 ..< length (fn_blocks f)]) (map (map Original) (fn_blocks f))"

definition instrumentFunction :: "bounds_view \<Rightarrow> ir_module \<Rightarrow> ir_function \<Rightarrow> blocks" where
  "instrumentFunction bv m f = fold (instrumentGEP bv m (fn_id f)) (gepsOf f) (initialBlocks f)"

definition kManagedArrayLengthName :: string where "kManagedArrayLengthName = ''__mvm_array_length''"

definition injectBoundsChecks :: "bounds_view \<Rightarrow> ir_module \<Rightarrow> (ir_function \<times> blocks) list" where
  "injectBoundsChecks bv m =
     (let (managedArrayLength, m) = getOrInsertFunction kManagedArrayLengthName [True] False m
      in map (\<lambda>f. (f, if fn_isDeclaration f then [] else instrumentFunction bv m f)) m)"

end
