(* ===== verification/Bounds_Properties.thy ===== *)
theory Bounds_Properties
  imports Bounds_Checks
begin

text \<open>
  What the injected bounds checks test, where they stand, and accesses they miss.
\<close>

section \<open>The meaning of a check\<close>

text \<open>The unsigned value of an integer operand in a run, and what a cast to 64 bits makes of it.\<close>

definition operandValue :: "(val \<Rightarrow> nat) \<Rightarrow> val \<Rightarrow> nat" where
  "operandValue env v = (case v of VInt w n \<Rightarrow> n | _ \<Rightarrow> env v)"

fun indexValue :: "(val \<Rightarrow> nat) \<Rightarrow> index64 \<Rightarrow> u64" where
  "indexValue env (SameIndex v) = of_nat (operandValue env v)"
| "indexValue env (IntCast v) = of_nat (operandValue env v)"

fun traps :: "(val \<Rightarrow> nat) \<Rightarrow> (val \<Rightarrow> u64) \<Rightarrow> oob \<Rightarrow> bool" where
  "traps env lengthOf (DynamicOob i p) \<longleftrightarrow> lengthOf p \<le> indexValue env i"
| "traps env lengthOf (StaticOob i bound) \<longleftrightarrow> bound \<le> indexValue env i"
| "traps env lengthOf (OrOob c d) \<longleftrightarrow> traps env lengthOf c \<or> traps env lengthOf d"

definition isInteger :: "bounds_view \<Rightarrow> val \<Rightarrow> bool" where
  "isInteger bv v \<longleftrightarrow> integerWidth bv v \<noteq> None"

lemma normalizeIndex_value:
  "normalizeIndex bv index = Some i \<Longrightarrow> isInteger bv index \<and> indexValue env i = of_nat (operandValue env index)"
  "normalizeIndex bv index = None \<longleftrightarrow> \<not> isInteger bv index"
  by (auto simp: normalizeIndex_def isInteger_def split: option.splits if_splits)

definition someTrap :: "(val \<Rightarrow> nat) \<Rightarrow> (val \<Rightarrow> u64) \<Rightarrow> oob option \<Rightarrow> bool" where
  "someTrap env lengthOf c = (case c of None \<Rightarrow> False | Some c \<Rightarrow> traps env lengthOf c)"

lemma someTrap_simps [simp]: "someTrap env lengthOf None = False" "someTrap env lengthOf (Some c) = traps env lengthOf c"
  by (simp_all add: someTrap_def)

lemma isStaticallyInBounds_value:
  "isStaticallyInBounds index bound \<Longrightarrow> \<not> bound \<le> of_nat (operandValue env index)"
proof (cases index)
  case (VInt w n)
  assume "isStaticallyInBounds index bound"
  then have n: "n < unat bound" by (simp add: isStaticallyInBounds_def VInt)
  then have "unat (of_nat n :: u64) = n" using unat_le_max [of bound] by (intro unat_of_nat_u64) linarith
  then show ?thesis using n by (simp add: VInt operandValue_def word_le_nat_alt)
qed (simp_all add: isStaticallyInBounds_def)

lemma addStaticChecks_traps:
  "someTrap env lengthOf (addStaticChecks bv checks c) \<longleftrightarrow>
     someTrap env lengthOf c \<or> (\<exists>(index, bound) \<in> set checks. isInteger bv index \<and> bound \<le> of_nat (operandValue env index))"
proof (induction bv checks c rule: addStaticChecks.induct)
  case (2 bv index bound checks c)
  show ?case
  proof (cases "isStaticallyInBounds index bound")
    case True
    then show ?thesis using 2(1) isStaticallyInBounds_value [OF True, of env] by simp
  next
    case False
    show ?thesis
    proof (cases "normalizeIndex bv index")
      case None
      then have "\<not> isInteger bv index" using normalizeIndex_value(2) by blast
      then show ?thesis using 2(2) [OF False None] False None by simp
    next
      case (Some i)
      have "someTrap env lengthOf (Some (case c of Some c \<Rightarrow> OrOob c (StaticOob i bound) | None \<Rightarrow> StaticOob i bound)) \<longleftrightarrow>
          someTrap env lengthOf c \<or> bound \<le> of_nat (operandValue env index)"
        using normalizeIndex_value(1) [OF Some, of env] by (cases c) auto
      then show ?thesis using 2(3) [OF False Some] False Some normalizeIndex_value(1) [OF Some] by auto
    qed
  qed
qed simp

lemma check_condition_exact_raw:
  "someTrap env lengthOf (outOfBoundsCondition bv m f bs gep p) \<longleftrightarrow>
     (\<exists>index rest. bv_indices bv f gep = index # rest \<and> isManagedArrayBase bv m f bs p \<and> isInteger bv index \<and>
        lengthOf p \<le> of_nat (operandValue env index)) \<or>
     (\<exists>(index, bound) \<in> set (collectStaticChecks (bv_sourceType bv f gep) (bv_indices bv f gep)).
        isInteger bv index \<and> bound \<le> of_nat (operandValue env index))"
proof -
  have "someTrap env lengthOf (dynamicCheck bv m f bs p (bv_indices bv f gep)) \<longleftrightarrow>
      (\<exists>index rest. bv_indices bv f gep = index # rest \<and> isManagedArrayBase bv m f bs p \<and> isInteger bv index \<and>
        lengthOf p \<le> of_nat (operandValue env index))"
  proof (cases "bv_indices bv f gep")
    case (Cons index rest)
    then show ?thesis
      using normalizeIndex_value [of bv index]
      by (cases "normalizeIndex bv index") (auto simp: dynamicCheck_def isInteger_def)
  qed (simp add: dynamicCheck_def)
  then show ?thesis unfolding outOfBoundsCondition_def addStaticChecks_traps by simp
qed

text \<open>The check in front of a \<open>getelementptr\<close> traps exactly when its base is a managed array whose length
  is not above the first index, or one of its other indices is not below the length of the array type it
  selects from; all indices are read as unsigned numbers, cut to 64 bits.\<close>

theorem check_condition_exact:
  "someTrap env lengthOf (outOfBoundsCondition bv m f bs gep p) \<longleftrightarrow>
     (\<exists>index rest. bv_indices bv f gep = index # rest \<and> isManagedArrayBase bv m f bs p \<and> isInteger bv index \<and>
        lengthOf p \<le> of_nat (operandValue env index)) \<or>
     (\<exists>(index, bound) \<in> set (collectStaticChecks (bv_sourceType bv f gep) (bv_indices bv f gep)).
        isInteger bv index \<and> bound \<le> of_nat (operandValue env index))"
  by (rule check_condition_exact_raw)

section \<open>Where the checks stand\<close>

text \<open>The code without the checks, and the check in front of an instruction.\<close>

definition originals :: "blocks \<Rightarrow> instruction list" where
  "originals bs = concat (map (\<lambda>e. case e of Original i \<Rightarrow> [i] | TrapIf c \<Rightarrow> []) (concat (map snd bs)))"

fun guardIn :: "nat \<Rightarrow> oob option \<Rightarrow> element list \<Rightarrow> oob option" where
  "guardIn k c [] = None"
| "guardIn k c (TrapIf d # es) = guardIn k (Some d) es"
| "guardIn k c (Original i # es) = (if in_id i = k then c else guardIn k None es)"

definition guardOf :: "nat \<Rightarrow> blocks \<Rightarrow> oob option" where
  "guardOf k bs = guardIn k None (concat (map snd bs))"

definition elementIDs :: "element list \<Rightarrow> nat list" where
  "elementIDs es = concat (map (\<lambda>e. case e of Original i \<Rightarrow> [in_id i] | TrapIf c \<Rightarrow> []) es)"

lemma splitElements_Some:
  "splitElements k c es = Some (before, rest) \<Longrightarrow>
     (\<exists>xs i ys. es = xs @ Original i # ys \<and> in_id i = k \<and> k \<notin> set (elementIDs xs) \<and> before = xs @ [TrapIf c] \<and> rest = Original i # ys)"
proof (induction es arbitrary: before)
  case (Cons e es)
  show ?case
  proof (cases "case e of Original i \<Rightarrow> in_id i = k | TrapIf _ \<Rightarrow> False")
    case True
    then obtain i where "e = Original i" "in_id i = k" by (cases e) auto
    then show ?thesis using Cons.prems by (intro exI [of _ "[]"]) (auto simp: elementIDs_def)
  next
    case False
    then obtain b where b: "splitElements k c es = Some (b, rest)" "before = e # b" using Cons.prems by auto
    then obtain xs i ys where "es = xs @ Original i # ys" "in_id i = k" "k \<notin> set (elementIDs xs)" "b = xs @ [TrapIf c]" "rest = Original i # ys"
      using Cons.IH by blast
    then show ?thesis using b False by (intro exI [of _ "e # xs"] exI [of _ i] exI [of _ ys]) (auto simp: elementIDs_def split: element.splits)
  qed
qed simp

lemma splitElements_None: "splitElements k c es = None \<longleftrightarrow> k \<notin> set (elementIDs es)"
  by (induction es) (auto simp: elementIDs_def split: element.splits)

text \<open>In terms of the elements alone: the check is put before the first instruction of that number.\<close>

fun guardElements :: "nat \<Rightarrow> oob \<Rightarrow> element list \<Rightarrow> element list" where
  "guardElements k c [] = []"
| "guardElements k c (TrapIf d # es) = TrapIf d # guardElements k c es"
| "guardElements k c (Original i # es) =
     (if in_id i = k then TrapIf c # Original i # es else Original i # guardElements k c es)"

lemma guardElements_absent: "k \<notin> set (elementIDs es) \<Longrightarrow> guardElements k c es = es"
  by (induction k c es rule: guardElements.induct) (auto simp: elementIDs_def)

lemma guardElements_append:
  "guardElements k c (xs @ ys) = (if k \<in> set (elementIDs xs) then guardElements k c xs @ ys else xs @ guardElements k c ys)"
  by (induction k c xs rule: guardElements.induct) (auto simp: elementIDs_def)

lemma instrument_elements: "concat (map snd (instrumentTrapIfOutOfBounds k c bs)) = guardElements k c (concat (map snd bs))"
proof (induction k c bs rule: instrumentTrapIfOutOfBounds.induct)
  case (2 k c origin es bs)
  show ?case
  proof (cases "splitElements k c es")
    case None
    then have "k \<notin> set (elementIDs es)" using splitElements_None by blast
    then show ?thesis using 2(1) None by (simp add: guardElements_append)
  next
    case (Some p)
    obtain before rest where p: "p = (before, rest)" by (cases p)
    then obtain xs i ys where es: "es = xs @ Original i # ys" "in_id i = k" "k \<notin> set (elementIDs xs)" "before = xs @ [TrapIf c]" "rest = Original i # ys"
      using splitElements_Some [of k c es] Some by blast
    then show ?thesis using Some p by (simp add: guardElements_append)
  qed
qed simp

lemma guardElements_facts:
  "originals [(None, guardElements k c es)] = originals [(None, es)]"
  "elementIDs (guardElements k c es) = elementIDs es"
  "distinct (elementIDs es) \<Longrightarrow> k \<in> set (elementIDs es) \<Longrightarrow> guardIn k d (guardElements k c es) = Some c"
  "distinct (elementIDs es) \<Longrightarrow> j \<noteq> k \<Longrightarrow> guardIn j d (guardElements k c es) = guardIn j d es"
proof -
  show "originals [(None, guardElements k c es)] = originals [(None, es)]"
    by (induction k c es rule: guardElements.induct) (simp_all add: originals_def)
  show ids: "elementIDs (guardElements k c es) = elementIDs es" for es
    by (induction k c es rule: guardElements.induct) (simp_all add: elementIDs_def)
  show "distinct (elementIDs es) \<Longrightarrow> k \<in> set (elementIDs es) \<Longrightarrow> guardIn k d (guardElements k c es) = Some c"
    by (induction k c es arbitrary: d rule: guardElements.induct) (auto simp: elementIDs_def)
  show "distinct (elementIDs es) \<Longrightarrow> j \<noteq> k \<Longrightarrow> guardIn j d (guardElements k c es) = guardIn j d es"
    by (induction k c es arbitrary: d rule: guardElements.induct) (auto simp: elementIDs_def)
qed

definition blockIDs :: "blocks \<Rightarrow> nat list" where
  "blockIDs bs = elementIDs (concat (map snd bs))"

lemma originals_elements: "originals bs = originals [(None, concat (map snd bs))]"
  by (simp add: originals_def)

lemma instrumentGEP_facts:
  assumes "distinct (blockIDs bs)" "fst g \<in> set (blockIDs bs)" "guardOf (fst g) bs = None"
  shows "originals (instrumentGEP bv m f g bs) = originals bs" "blockIDs (instrumentGEP bv m f g bs) = blockIDs bs"
    "guardOf (fst g) (instrumentGEP bv m f g bs) = outOfBoundsCondition bv m f bs (fst g) (snd g)"
    "j \<noteq> fst g \<Longrightarrow> guardOf j (instrumentGEP bv m f g bs) = guardOf j bs"
proof -
  note es = guardElements_facts [where k = "fst g" and es = "concat (map snd bs)"]
  show "originals (instrumentGEP bv m f g bs) = originals bs"
    using es(1) originals_elements [of bs] originals_elements [of "instrumentGEP bv m f g bs"]
    by (cases "outOfBoundsCondition bv m f bs (fst g) (snd g)") (simp_all add: instrumentGEP_def instrument_elements)
  show "blockIDs (instrumentGEP bv m f g bs) = blockIDs bs"
    by (simp add: instrumentGEP_def blockIDs_def instrument_elements es(2) split: option.split)
  show "guardOf (fst g) (instrumentGEP bv m f g bs) = outOfBoundsCondition bv m f bs (fst g) (snd g)"
    using assms es(3) by (simp add: instrumentGEP_def guardOf_def blockIDs_def instrument_elements split: option.split)
  show "j \<noteq> fst g \<Longrightarrow> guardOf j (instrumentGEP bv m f g bs) = guardOf j bs"
    using assms(1) es(4) by (simp add: instrumentGEP_def guardOf_def blockIDs_def instrument_elements split: option.split)
qed

text \<open>The state of the function when it comes to the \<open>getelementptr\<close> after some others.\<close>

definition instrumentAll :: "bounds_view \<Rightarrow> ir_module \<Rightarrow> nat \<Rightarrow> (nat \<times> val) list \<Rightarrow> blocks \<Rightarrow> blocks" where
  "instrumentAll bv m f gs bs = fold (instrumentGEP bv m f) gs bs"

lemma instrumentAll_facts:
  assumes "distinct (blockIDs bs)" "distinct (map fst gs)" "fst ` set gs \<subseteq> set (blockIDs bs)" "\<forall>g \<in> set gs. guardOf (fst g) bs = None"
  shows "originals (instrumentAll bv m f gs bs) = originals bs \<and> blockIDs (instrumentAll bv m f gs bs) = blockIDs bs \<and>
    (\<forall>xs g ys. gs = xs @ g # ys \<longrightarrow>
       guardOf (fst g) (instrumentAll bv m f gs bs) = outOfBoundsCondition bv m f (instrumentAll bv m f xs bs) (fst g) (snd g)) \<and>
    (\<forall>j. j \<notin> fst ` set gs \<longrightarrow> guardOf j (instrumentAll bv m f gs bs) = guardOf j bs)"
  using assms
proof (induction gs arbitrary: bs)
  case Nil then show ?case by (simp add: instrumentAll_def)
next
  case (Cons g gs)
  let ?bs = "instrumentGEP bv m f g bs"
  have one: "originals ?bs = originals bs" "blockIDs ?bs = blockIDs bs"
    "guardOf (fst g) ?bs = outOfBoundsCondition bv m f bs (fst g) (snd g)" "\<And>j. j \<noteq> fst g \<Longrightarrow> guardOf j ?bs = guardOf j bs"
    using instrumentGEP_facts [OF Cons.prems(1), of g] Cons.prems by simp_all
  have "\<forall>h \<in> set gs. guardOf (fst h) ?bs = None"
  proof
    fix h assume h: "h \<in> set gs"
    then have "fst h \<noteq> fst g" using Cons.prems(2) by simp (metis image_eqI)
    then show "guardOf (fst h) ?bs = None" using one(4) Cons.prems(4) h by simp
  qed
  then have ih: "originals (instrumentAll bv m f gs ?bs) = originals ?bs \<and> blockIDs (instrumentAll bv m f gs ?bs) = blockIDs ?bs \<and>
    (\<forall>xs g ys. gs = xs @ g # ys \<longrightarrow>
       guardOf (fst g) (instrumentAll bv m f gs ?bs) = outOfBoundsCondition bv m f (instrumentAll bv m f xs ?bs) (fst g) (snd g)) \<and>
    (\<forall>j. j \<notin> fst ` set gs \<longrightarrow> guardOf j (instrumentAll bv m f gs ?bs) = guardOf j ?bs)"
    using Cons.prems one(2) by (intro Cons.IH) simp_all
  note IH = conjunct1 [OF ih] conjunct1 [OF conjunct2 [OF ih]] conjunct1 [OF conjunct2 [OF conjunct2 [OF ih]], rule_format]
    conjunct2 [OF conjunct2 [OF conjunct2 [OF ih]], rule_format]
  have run: "instrumentAll bv m f (h # hs) bs = instrumentAll bv m f hs (instrumentGEP bv m f h bs)" for h hs
    by (simp add: instrumentAll_def)
  show ?case
  proof (intro conjI allI impI)
    show "originals (instrumentAll bv m f (g # gs) bs) = originals bs" "blockIDs (instrumentAll bv m f (g # gs) bs) = blockIDs bs"
      using IH one by (simp_all add: run)
    fix xs h ys assume "g # gs = xs @ h # ys"
    then consider "xs = []" "h = g" "ys = gs" | zs where "xs = g # zs" "gs = zs @ h # ys" by (cases xs) auto
    then show "guardOf (fst h) (instrumentAll bv m f (g # gs) bs) = outOfBoundsCondition bv m f (instrumentAll bv m f xs bs) (fst h) (snd h)"
    proof cases
      case 1
      have "fst g \<notin> fst ` set gs" using Cons.prems(2) by simp
      then show ?thesis unfolding run 1 using IH(4) one(3) by (simp add: instrumentAll_def)
    next
      case 2 then show ?thesis unfolding run 2(1) by (intro IH(3))
    qed
  next
    fix j assume "j \<notin> fst ` set (g # gs)"
    then show "guardOf j (instrumentAll bv m f (g # gs) bs) = guardOf j bs" unfolding run using IH(4) one(4) by simp
  qed
qed

lemma initialBlocks_elements: "concat (map snd (initialBlocks f)) = map Original (instructionsOf f)"
proof -
  have "map snd (initialBlocks f) = map (map Original) (fn_blocks f)" by (simp add: initialBlocks_def)
  then show ?thesis by (simp add: instructionsOf_def map_concat)
qed

lemma guardIn_originals: "guardIn k None (map Original is) = None"
  by (induction "is") simp_all

lemma gepsOf_ids:
  "fst ` set (gepsOf f) \<subseteq> set (map in_id (instructionsOf f))"
  "distinct (map in_id (instructionsOf f)) \<Longrightarrow> distinct (map fst (gepsOf f))"
proof -
  have "fst ` set (concat (map (\<lambda>i. case in_op i of OGep base b \<Rightarrow> [(in_id i, base)] | _ \<Rightarrow> []) is)) \<subseteq> set (map in_id is) \<and>
    (distinct (map in_id is) \<longrightarrow> distinct (map fst (concat (map (\<lambda>i. case in_op i of OGep base b \<Rightarrow> [(in_id i, base)] | _ \<Rightarrow> []) is))))" for "is"
    by (induction "is") (auto split: operation.splits)
  from this [of "instructionsOf f"] show "fst ` set (gepsOf f) \<subseteq> set (map in_id (instructionsOf f))"
    "distinct (map in_id (instructionsOf f)) \<Longrightarrow> distinct (map fst (gepsOf f))" unfolding gepsOf_def by blast+
qed

text \<open>The injection leaves the instructions of a function as they are, in their order, and puts in front
  of each \<open>getelementptr\<close> the check that its condition asks for when its turn comes, or none when there is
  no condition; no other instruction gets one.\<close>

theorem checks_precede_their_geps:
  assumes "distinct (map in_id (instructionsOf fn))"
  shows "originals (instrumentFunction bv m fn) = instructionsOf fn \<and>
    (\<forall>xs g ys. gepsOf fn = xs @ g # ys \<longrightarrow>
       guardOf (fst g) (instrumentFunction bv m fn) =
         outOfBoundsCondition bv m (fn_id fn) (instrumentAll bv m (fn_id fn) xs (initialBlocks fn)) (fst g) (snd g)) \<and>
    (\<forall>k. k \<notin> fst ` set (gepsOf fn) \<longrightarrow> guardOf k (instrumentFunction bv m fn) = None)"
proof -
  have ids: "blockIDs (initialBlocks fn) = map in_id (instructionsOf fn)"
    by (simp add: blockIDs_def elementIDs_def initialBlocks_elements comp_def)
  have none: "guardOf k (initialBlocks fn) = None" for k by (simp add: guardOf_def initialBlocks_elements guardIn_originals)
  have "originals (initialBlocks fn) = instructionsOf fn" by (simp add: originals_def initialBlocks_elements comp_def)
  moreover have "instrumentFunction bv m fn = instrumentAll bv m (fn_id fn) (gepsOf fn) (initialBlocks fn)"
    by (simp add: instrumentFunction_def instrumentAll_def)
  ultimately show ?thesis
    using instrumentAll_facts [of "initialBlocks fn" "gepsOf fn" bv m "fn_id fn"] assms gepsOf_ids [of fn] by (simp add: ids none)
qed

lemma guard_of_gep:
  assumes "distinct (map in_id (instructionsOf fn))" "gepsOf fn = xs @ g # ys"
  shows "guardOf (fst g) (instrumentFunction bv m fn) =
    outOfBoundsCondition bv m (fn_id fn) (instrumentAll bv m (fn_id fn) xs (initialBlocks fn)) (fst g) (snd g)"
  using checks_precede_their_geps [OF assms(1)] assms(2) by blast

section \<open>What a passed check promises\<close>

text \<open>The index that \<open>getelementptr\<close> computes with: operands narrower than 64 bits are sign-extended.\<close>

definition gepIndex :: "nat \<Rightarrow> nat \<Rightarrow> int" where
  "gepIndex w n = (if n < 2 ^ (w - 1) then int n else int n - 2 ^ w)"

lemma index_below:
  assumes "n < 18446744073709551616" "\<not> bound \<le> (of_nat n :: u64)"
  shows "n < unat bound"
  using assms unat_of_nat_u64 [OF assms(1)] by (simp add: word_le_nat_alt not_le)

text \<open>What the indices of a \<open>getelementptr\<close> select from, as LLVM's language reference defines it: the first
  steps over whole objects of the source type, each other one goes into the type that the ones in
  front of it have selected.\<close>

fun stepInto :: "ir_type \<Rightarrow> val \<Rightarrow> ir_type option" where
  "stepInto (TStruct s (Some ts)) (VInt w n) = (if n < length ts then Some (ts ! n) else None)"
| "stepInto (TArray t n) index = Some t"
| "stepInto (TVector t n) index = Some t"
| "stepInto t index = None"

fun selectedType :: "ir_type \<Rightarrow> val list \<Rightarrow> ir_type option" where
  "selectedType t [] = Some t"
| "selectedType t (index # indices) = (case stepInto t index of None \<Rightarrow> None | Some u \<Rightarrow> selectedType u indices)"

text \<open>The index goes into an array type of \<open>bound\<close> elements.\<close>

definition indexesArray :: "ir_type \<Rightarrow> val list \<Rightarrow> val \<Rightarrow> u64 \<Rightarrow> bool" where
  "indexesArray sourceType indices index bound \<longleftrightarrow>
     (\<exists>first before after t. indices = first # before @ index # after \<and> selectedType sourceType before = Some (TArray t bound))"

lemma walkIndices_complete: "selectedType t before = Some (TArray e bound) \<Longrightarrow> (index, bound) \<in> set (walkIndices t (before @ index # after))"
proof (induction t before rule: selectedType.induct)
  case (2 t i before)
  then obtain u where u: "stepInto t i = Some u" "(index, bound) \<in> set (walkIndices u (before @ index # after))"
    by (auto split: option.splits)
  show ?case
  proof (cases t)
    case (TStruct s body)
    then obtain ts w n where "body = Some ts" "i = VInt w n" "n < length ts" "u = ts ! n"
      using u(1) by (cases body; cases i) (auto split: if_splits)
    then show ?thesis using u(2) TStruct by simp
  qed (use u in simp_all)
qed simp

lemma indexesArray_checked: "indexesArray t indices index bound \<Longrightarrow> (index, bound) \<in> set (collectStaticChecks t indices)"
  by (auto simp: indexesArray_def collectStaticChecks_def walkIndices_complete)

text \<open>C27. When the check that the pass has put in front of a \<open>getelementptr\<close> does not trap, its 64-bit indices
  are in bounds: each that goes into an array type of at most \<open>2 ^ 63\<close> elements, at any depth of nested
  arrays, structs and vectors, selects one of them, and a 64-bit first index on a managed array that the
  pass recognises, of at most \<open>2 ^ 63\<close> elements, selects an element of this array.\<close>

theorem passed_checks_are_in_bounds:
  assumes "distinct (map in_id (instructionsOf fn))" "gepsOf fn = xs @ (gep, p) # ys"
    and "\<not> someTrap env lengthOf (guardOf gep (instrumentFunction bv m fn))"
    and "indexesArray (bv_sourceType bv (fn_id fn) gep) (bv_indices bv (fn_id fn) gep) index bound \<or>
      isManagedArrayBase bv m (fn_id fn) (instrumentAll bv m (fn_id fn) xs (initialBlocks fn)) p \<and>
        bv_indices bv (fn_id fn) gep = index # rest \<and> bound = lengthOf p"
    and "integerWidth bv index = Some 64" "operandValue env index < 2 ^ 64" "unat bound \<le> 2 ^ 63"
  shows "0 \<le> gepIndex 64 (operandValue env index) \<and> gepIndex 64 (operandValue env index) < int (unat bound)"
proof -
  let ?bs = "instrumentAll bv m (fn_id fn) xs (initialBlocks fn)"
  have "guardOf gep (instrumentFunction bv m fn) = outOfBoundsCondition bv m (fn_id fn) ?bs gep p"
    using guard_of_gep [OF assms(1,2)] by simp
  then have passed: "\<not> someTrap env lengthOf (outOfBoundsCondition bv m (fn_id fn) ?bs gep p)" using assms(3) by simp
  have integer: "isInteger bv index" using assms(5) by (simp add: isInteger_def)
  from assms(4) have "\<not> bound \<le> of_nat (operandValue env index)"
  proof
    assume "indexesArray (bv_sourceType bv (fn_id fn) gep) (bv_indices bv (fn_id fn) gep) index bound"
    from indexesArray_checked [OF this] show ?thesis
      using passed integer unfolding check_condition_exact_raw by blast
  next
    assume "isManagedArrayBase bv m (fn_id fn) ?bs p \<and> bv_indices bv (fn_id fn) gep = index # rest \<and> bound = lengthOf p"
    then show ?thesis using passed integer unfolding check_condition_exact_raw by blast
  qed
  then have "operandValue env index < unat bound" using assms(6) by (intro index_below) simp_all
  then have "int (operandValue env index) < int (unat bound)" "operandValue env index < 2 ^ 63" using assms(7) by linarith+
  then show ?thesis by (simp only: gepIndex_def) simp
qed

text \<open>C28. An index of eight bits with the value -1 passes the check of an array of 300 elements, although
  \<open>getelementptr\<close> then selects the element in front of the array: the check extends the index with
  zeros.\<close>

theorem narrow_negative_index_passes:
  assumes "bv_sourceType bv f gep = TArray t 300" "bv_indices bv f gep = [VInt 64 0, index]"
    and "integerWidth bv index = Some 8" "operandValue env index = 255" "\<not> isManagedArrayBase bv m f bs p"
  shows "\<not> someTrap env lengthOf (outOfBoundsCondition bv m f bs gep p) \<and> gepIndex 8 (operandValue env index) = - 1"
proof -
  have "collectStaticChecks (bv_sourceType bv f gep) (bv_indices bv f gep) = [(index, 300)]"
    using assms(1,2) by (simp add: collectStaticChecks_def)
  moreover have "\<not> (300 :: u64) \<le> of_nat (operandValue env index)" unfolding assms(4) by (simp add: word_le_nat_alt)
  ultimately have "\<not> someTrap env lengthOf (outOfBoundsCondition bv m f bs gep p)"
    unfolding check_condition_exact_raw using assms(5) by simp
  then show ?thesis by (simp add: gepIndex_def assms(4))
qed

section \<open>Accesses without a check\<close>

text \<open>\<open>main\<close> keeps a managed array in a slot, writes to an array of ten elements before it stores it there,
  and reads the managed array through the slot in the next block.\<close>

definition slotFunction :: ir_function where
  "slotFunction =
     \<lparr>fn_id = 1, fn_name = ''main'', fn_isDeclaration = False, fn_hasAddressTaken = False, fn_isVarArg = False,
       fn_params = [False], fn_returnsPointer = False,
       fn_blocks =
         [[\<lparr>in_id = 0, in_isPointer = True, in_op = OAlloca True\<rparr>,
           \<lparr>in_id = 1, in_isPointer = True, in_op = OCall (VFunc 0) [VInt 64 5]\<rparr>,
           \<lparr>in_id = 2, in_isPointer = True, in_op = OGep (VGlobalVariable ''table'' False) False\<rparr>,
           \<lparr>in_id = 3, in_isPointer = False, in_op = OStore (VInst 1 1) (VInst 1 0)\<rparr>,
           \<lparr>in_id = 4, in_isPointer = False, in_op = OOther\<rparr>],
          [\<lparr>in_id = 5, in_isPointer = True, in_op = OLoad (VInst 1 0)\<rparr>,
           \<lparr>in_id = 6, in_isPointer = True, in_op = OGep (VInst 1 5) False\<rparr>,
           \<lparr>in_id = 7, in_isPointer = True, in_op = OSelect (VInst 1 1) (VInst 1 1)\<rparr>,
           \<lparr>in_id = 8, in_isPointer = False, in_op = ORet None\<rparr>]]\<rparr>"

definition slotModule :: ir_module where
  "slotModule =
     [\<lparr>fn_id = 0, fn_name = ''__mvm_array_malloc'', fn_isDeclaration = True, fn_hasAddressTaken = False, fn_isVarArg = False,
        fn_params = [False], fn_returnsPointer = True, fn_blocks = []\<rparr>, slotFunction]"

definition slotView :: bounds_view where
  "slotView = \<lparr>bv_sourceType = (\<lambda>f k. if k = 2 then TArray (TInt 64) 10 else TInt 64),
     bv_indices = (\<lambda>f k. if k = 2 then [VInt 64 0, VArg 1 0] else [VArg 1 0]),
     bv_width = (\<lambda>v. if v = VArg 1 0 then Some 64 else None),
     bv_users = (\<lambda>v. if v = VInst 1 0 then [\<lparr>in_id = 5, in_isPointer = True, in_op = OLoad (VInst 1 0)\<rparr>,
        \<lparr>in_id = 3, in_isPointer = False, in_op = OStore (VInst 1 1) (VInst 1 0)\<rparr>] else []),
     bv_strip = (\<lambda>v. v), bv_dominates = (\<lambda>f d u. d \<le> u), bv_reachable = (\<lambda>f b. True)\<rparr>"

text \<open>The access in the second block gets no check, although its condition in the original function is
  that the index is not below the length of the array: the check of the first access has split the block
  of the store, and the dominator tree, which is not updated, does not know the new block.\<close>

lemma access_after_a_split_is_unchecked:
  "guardOf 6 (instrumentFunction slotView slotModule slotFunction) = None \<and>
   outOfBoundsCondition slotView slotModule 1 (initialBlocks slotFunction) 6 (VInst 1 5) =
     Some (DynamicOob (SameIndex (VArg 1 0)) (VInst 1 5))"
  by code_simp

text \<open>A choice between an array and itself does not count as an array, since the second question about it
  meets the entry of the first in \<open>visiting\<close>.\<close>

lemma select_of_one_array_is_unchecked:
  "isManagedArrayBase slotView slotModule 1 (initialBlocks slotFunction) (VInst 1 1)"
  "\<not> isManagedArrayBase slotView slotModule 1 (initialBlocks slotFunction) (VInst 1 7)"
  by code_simp+

section \<open>Witnesses\<close>

theorem checks_precede_their_geps_witness:
  "originals (instrumentFunction slotView slotModule slotFunction) = instructionsOf slotFunction"
  using checks_precede_their_geps [of slotFunction slotView slotModule] by (simp add: slotFunction_def instructionsOf_def)

text \<open>The first access of \<open>main\<close> into a table of four rows of ten elements: row 2, column 7.\<close>

definition tableView :: bounds_view where
  "tableView = slotView\<lparr>bv_sourceType := (\<lambda>f k. if k = 2 then TArray (TArray (TInt 64) 10) 4 else TInt 64),
     bv_indices := (\<lambda>f k. if k = 2 then [VInt 64 0, VInt 64 2, VArg 1 0] else [VArg 1 0])\<rparr>"

theorem passed_checks_are_in_bounds_witness:
  "guardOf 2 (instrumentFunction tableView slotModule slotFunction) = Some (StaticOob (SameIndex (VArg 1 0)) 10) \<and>
   (0 :: int) \<le> gepIndex 64 (operandValue (\<lambda>_. 7) (VArg 1 0)) \<and> gepIndex 64 (operandValue (\<lambda>_. 7) (VArg 1 0)) < 10"
proof -
  have guard: "guardOf 2 (instrumentFunction tableView slotModule slotFunction) = Some (StaticOob (SameIndex (VArg 1 0)) 10)"
    by code_simp
  have "selectedType (TArray (TArray (TInt 64) 10) 4) [VInt 64 2] = Some (TArray (TInt 64) 10)" by simp
  then have index: "indexesArray (bv_sourceType tableView (fn_id slotFunction) 2) (bv_indices tableView (fn_id slotFunction) 2) (VArg 1 0) 10"
    unfolding indexesArray_def by (intro exI [of _ "VInt 64 0"] exI [of _ "[VInt 64 2]"] exI [of _ "[]"] exI [of _ "TInt 64"])
      (simp add: tableView_def)
  have ids: "distinct (map in_id (instructionsOf slotFunction))" and width: "integerWidth tableView (VArg 1 0) = Some 64" by code_simp+
  have geps: "gepsOf slotFunction = [] @ (2, VGlobalVariable ''table'' False) # [(6, VInst 1 5)]" by code_simp
  have passed: "\<not> someTrap (\<lambda>_. 7) (\<lambda>_. 5) (guardOf 2 (instrumentFunction tableView slotModule slotFunction))"
    unfolding guard by (simp add: operandValue_def)
  have "0 \<le> gepIndex 64 (operandValue (\<lambda>_. 7) (VArg 1 0)) \<and>
      gepIndex 64 (operandValue (\<lambda>_. 7) (VArg 1 0)) < int (unat (10 :: u64))"
    by (rule passed_checks_are_in_bounds [OF ids geps passed disjI1 [OF index] width]) (simp_all add: operandValue_def)
  with guard show ?thesis by simp
qed

theorem narrow_negative_index_passes_witness:
  "\<not> someTrap (\<lambda>_. 0) (\<lambda>_. 0) (outOfBoundsCondition
     (slotView\<lparr>bv_sourceType := \<lambda>f k. TArray (TInt 8) 300, bv_indices := \<lambda>f k. [VInt 64 0, VInt 8 255]\<rparr>)
     slotModule 1 (initialBlocks slotFunction) 2 VNull)"
proof -
  let ?bv = "slotView\<lparr>bv_sourceType := \<lambda>f k. TArray (TInt 8) 300, bv_indices := \<lambda>f k. [VInt 64 0, VInt 8 255]\<rparr>"
  have "\<not> isManagedArrayBase ?bv slotModule 1 (initialBlocks slotFunction) VNull" by code_simp
  then show ?thesis
    by (intro conjunct1 [OF narrow_negative_index_passes [where t = "TInt 8" and index = "VInt 8 255"]])
      (simp_all add: integerWidth_def operandValue_def)
qed

end
