(* ===== verification/Pointer_Lowering.thy ===== *)
theory Pointer_Lowering
  imports Managed_State
begin

text \<open>
  The lowering of managed pointers to address space 1: \<open>src/src/mvm/managed_pointer_lowering.cc\<close>.  A
  function that holds managed pointers is built again with other types; an instruction of the new function
  stands for the old one of the same number, and has its type and its operands with their types.  What the pass reads
  of the code beyond the IR of \<open>LLVM_IR\<close> is the record \<open>lowering_view\<close>: types, the classes of constants,
  the operands the IR leaves out, the dominator tree, and which functions are used outside of instructions.
\<close>

section \<open>Types and views\<close>

text \<open>The types that matter: pointers with their address space, the type of no value, and any other.\<close>

datatype lty = LVoid | LPtr nat | LType nat

datatype constant_class = CUndef | CPoison | CZeroAggregate | COtherConstant | CNotConstant

datatype dom_tree = DomNode nat "dom_tree list"

record lowering_view =
  lv_type :: "val \<Rightarrow> lty"
  lv_allocated :: "nat \<Rightarrow> nat \<Rightarrow> lty"
  lv_signature :: "nat \<Rightarrow> lty \<times> lty list"
  lv_constant :: "val \<Rightarrow> constant_class"
  lv_operands :: "nat \<Rightarrow> nat \<Rightarrow> val list"
  lv_isICmp :: "nat \<Rightarrow> nat \<Rightarrow> bool"
  lv_isInvoke :: "nat \<Rightarrow> nat \<Rightarrow> bool"
  lv_isDbgInfo :: "nat \<Rightarrow> nat \<Rightarrow> bool"
  lv_domTree :: "nat \<Rightarrow> dom_tree option"
  lv_strip :: "val \<Rightarrow> val"
  lv_usedElsewhere :: "nat \<Rightarrow> bool"

text \<open>\<open>lv_operands\<close>: the array size of an alloca, the indices of a \<open>getelementptr\<close>, the condition of a
  select, all operands of an instruction that is \<open>OOther\<close>.\<close>

definition isPtr :: "lty \<Rightarrow> bool" where
  "isPtr t = (case t of LPtr _ \<Rightarrow> True | _ \<Rightarrow> False)"

definition kManagedAddressSpace :: nat where
  "kManagedAddressSpace = 1"

definition managedPointerType :: lty where
  "managedPointerType = LPtr kManagedAddressSpace"

datatype lower_error =
    AddressTaken nat
  | NullNotPointer
  | RetargetConstant val
  | CouldNotRemap val
  | UnsupportedInstruction nat nat
  | StoreMismatch nat nat
  | PhiMismatch nat nat
  | InvokeUnsupported
  | IndirectManagedResult
  | IndirectManagedArgument
  | UsesRemain nat

section \<open>The functions to lower\<close>

definition isManagedRuntimeDeclaration :: "ir_function \<Rightarrow> bool" where
  "isManagedRuntimeDeclaration f \<longleftrightarrow>
     fn_name f \<in> {''__mvm_malloc'', ''__mvm_array_malloc'', ''__mvm_malloc_typed'', ''__mvm_array_malloc_typed'', ''__mvm_array_length''}"

definition concreteValue :: "ir_module \<Rightarrow> analysis \<Rightarrow> val \<Rightarrow> bool" where
  "concreteValue m a v \<longleftrightarrow> isConcreteManagedKind (dispatchKind (getValueState m a v))"

definition concreteParam :: "analysis \<Rightarrow> ir_function \<Rightarrow> nat \<Rightarrow> bool" where
  "concreteParam a f n \<longleftrightarrow> isConcreteManagedKind (dispatchKind (fst_params (functionStateOf a (fn_id f)) ! n))"

definition concreteReturn :: "analysis \<Rightarrow> ir_function \<Rightarrow> bool" where
  "concreteReturn a f \<longleftrightarrow> isConcreteManagedKind (dispatchKind (fst_returnState (functionStateOf a (fn_id f))))"

definition someConcreteParam :: "analysis \<Rightarrow> ir_function \<Rightarrow> bool" where
  "someConcreteParam a f \<longleftrightarrow> list_ex (\<lambda>n. fn_params f ! n \<and> concreteParam a f n) [0 ..< length (fn_params f)]"

definition instructionNeedsLowering :: "ir_module \<Rightarrow> analysis \<Rightarrow> ir_function \<Rightarrow> instruction \<Rightarrow> bool" where
  "instructionNeedsLowering m a f i \<longleftrightarrow>
     in_isPointer i \<and> concreteValue m a (selfOf f i) \<or>
     (case in_op i of
        OAlloca allocatesPointer \<Rightarrow> allocatesPointer \<and> isConcreteManagedKind (dispatchKind (getSlotState a (selfOf f i)))
      | _ \<Rightarrow> False)"

definition functionNeedsLowering :: "ir_module \<Rightarrow> analysis \<Rightarrow> ir_function \<Rightarrow> bool" where
  "functionNeedsLowering m a f \<longleftrightarrow>
     concreteReturn a f \<or> someConcreteParam a f \<or> list_ex (instructionNeedsLowering m a f) (instructionsOf f)"

definition shouldLowerFunction :: "ir_module \<Rightarrow> analysis \<Rightarrow> ir_function \<Rightarrow> lower_error + bool" where
  "shouldLowerFunction m a f =
     (if fn_isDeclaration f then Inr (isManagedRuntimeDeclaration f)
      else if \<not> functionNeedsLowering m a f then Inr False
      else if fn_hasAddressTaken f \<and> (concreteReturn a f \<or> someConcreteParam a f) then Inl (AddressTaken (fn_id f))
      else Inr True)"

section \<open>Replacements\<close>

type_synonym signature = "lty \<times> lty list"

definition buildReplacementType :: "lowering_view \<Rightarrow> analysis \<Rightarrow> ir_function \<Rightarrow> signature" where
  "buildReplacementType lv a f =
     (let (returnType, params) = lv_signature lv (fn_id f)
      in (if isPtr returnType \<and> concreteReturn a f then managedPointerType else returnType,
          map (\<lambda>n. if isPtr (params ! n) \<and> concreteParam a f n then managedPointerType else params ! n) [0 ..< length params]))"

definition buildManagedRuntimeDeclarationType :: "lowering_view \<Rightarrow> lty \<Rightarrow> ir_function \<Rightarrow> signature" where
  "buildManagedRuntimeDeclarationType lv i64 f =
     (if fn_name f = ''__mvm_malloc'' then (managedPointerType, [])
      else if fn_name f = ''__mvm_array_malloc'' then (managedPointerType, [i64])
      else if fn_name f = ''__mvm_malloc_typed'' then (managedPointerType, [LPtr 0])
      else if fn_name f = ''__mvm_array_malloc_typed'' then (managedPointerType, [i64, LPtr 0])
      else if fn_name f = ''__mvm_array_length'' then (i64, [managedPointerType])
      else lv_signature lv (fn_id f))"

text \<open>The replacements in the order they are made, each with the number of the old function.\<close>

fun createFunctionReplacements ::
  "lowering_view \<Rightarrow> lty \<Rightarrow> ir_module \<Rightarrow> analysis \<Rightarrow> ir_function list \<Rightarrow> lower_error + (nat \<times> signature) list" where
  "createFunctionReplacements lv i64 m a [] = Inr []"
| "createFunctionReplacements lv i64 m a (f # fs) =
     bindE (shouldLowerFunction m a f) (\<lambda>shouldLower.
       if \<not> shouldLower then createFunctionReplacements lv i64 m a fs
       else bindE (createFunctionReplacements lv i64 m a fs) (\<lambda>rest.
         Inr ((fn_id f, if fn_isDeclaration f then buildManagedRuntimeDeclarationType lv i64 f else buildReplacementType lv a f) # rest)))"

section \<open>Values\<close>

type_synonym function_map = "nat \<rightharpoonup> signature"
type_synonym value_map = "val \<rightharpoonup> lty"

text \<open>A new value is named as the old one; \<open>value_map\<close> has the types of those that exist.\<close>

definition constantClass :: "lowering_view \<Rightarrow> val \<Rightarrow> constant_class" where
  "constantClass lv v =
     (case v of
        VInst _ _ \<Rightarrow> CNotConstant
      | VArg _ _ \<Rightarrow> CNotConstant
      | VOther _ _ \<Rightarrow> lv_constant lv v
      | VUndef \<Rightarrow> CUndef
      | _ \<Rightarrow> COtherConstant)"

text \<open>In LLVM a poison value is also an undef value: a poison operand takes the branch of the undef values
  and becomes undef, and the branch for poison values is never reached.\<close>

definition mapConstant :: "lowering_view \<Rightarrow> val \<Rightarrow> lty \<Rightarrow> lower_error + val \<times> lty" where
  "mapConstant lv v expectedType =
     (case constantClass lv v of
        CUndef \<Rightarrow> Inr (v, expectedType)
      | CPoison \<Rightarrow> Inr (VUndef, expectedType)
      | CZeroAggregate \<Rightarrow> Inr (v, expectedType)
      | COtherConstant \<Rightarrow> if lv_type lv v = expectedType then Inr (v, expectedType) else Inl (RetargetConstant v)
      | CNotConstant \<Rightarrow> Inl (CouldNotRemap v))"

definition mapValue :: "lowering_view \<Rightarrow> function_map \<Rightarrow> value_map \<Rightarrow> val \<Rightarrow> lty \<Rightarrow> lower_error + val \<times> lty" where
  "mapValue lv fm vm v expectedType =
     (case vm v of
        Some t \<Rightarrow> Inr (v, t)
      | None \<Rightarrow>
          (case v of
             VFunc g \<Rightarrow> if fm g \<noteq> None then Inr (v, LPtr 0) else mapConstant lv v expectedType
           | VNull \<Rightarrow> if isPtr expectedType then Inr (v, expectedType) else Inl NullNotPointer
           | _ \<Rightarrow> mapConstant lv v expectedType))"

fun mapValues :: "lowering_view \<Rightarrow> function_map \<Rightarrow> value_map \<Rightarrow> val list \<Rightarrow> lower_error + (val \<times> lty) list" where
  "mapValues lv fm vm [] = Inr []"
| "mapValues lv fm vm (v # vs) =
     bindE (mapValue lv fm vm v (lv_type lv v)) (\<lambda>w. bindE (mapValues lv fm vm vs) (\<lambda>ws. Inr (w # ws)))"

section \<open>Instructions\<close>

record lowered =
  lo_old :: instruction
  lo_type :: lty
  lo_allocated :: lty
  lo_operands :: "(val \<times> lty) list"

definition plainLowered :: "instruction \<Rightarrow> lty \<Rightarrow> (val \<times> lty) list \<Rightarrow> lowered" where
  "plainLowered i t operands = \<lparr>lo_old = i, lo_type = t, lo_allocated = LVoid, lo_operands = operands\<rparr>"

text \<open>The type of a value in the new function: managed when it is a pointer of a concrete managed kind.\<close>

definition loweredType :: "lowering_view \<Rightarrow> ir_module \<Rightarrow> analysis \<Rightarrow> val \<Rightarrow> lty" where
  "loweredType lv m a v =
     (if isPtr (lv_type lv v) \<and> concreteValue m a v then managedPointerType else lv_type lv v)"

fun cloneOperands :: "lowering_view \<Rightarrow> function_map \<Rightarrow> value_map \<Rightarrow> nat \<Rightarrow> nat \<Rightarrow> val list \<Rightarrow> lower_error + (val \<times> lty) list" where
  "cloneOperands lv fm vm f k [] = Inr []"
| "cloneOperands lv fm vm f k (v # vs) =
     bindE (mapValue lv fm vm v (lv_type lv v)) (\<lambda>w.
       if snd w \<noteq> lv_type lv v then Inl (UnsupportedInstruction f k)
       else bindE (cloneOperands lv fm vm f k vs) (\<lambda>ws. Inr (w # ws)))"

definition cloneGenericInstruction ::
  "lowering_view \<Rightarrow> function_map \<Rightarrow> value_map \<Rightarrow> ir_function \<Rightarrow> instruction \<Rightarrow> val list \<Rightarrow> lower_error + lowered" where
  "cloneGenericInstruction lv fm vm f i operands =
     bindE (cloneOperands lv fm vm (fn_id f) (in_id i) operands) (\<lambda>ws. Inr (plainLowered i (lv_type lv (selfOf f i)) ws))"

definition lowererTrackedSlot :: "lowering_view \<Rightarrow> ir_module \<Rightarrow> val \<Rightarrow> val option" where
  "lowererTrackedSlot lv m pointerOperand =
     (let slot = lv_strip lv pointerOperand in
      case slot of
        VInst g k \<Rightarrow>
          (case instructionAt m g k of
             Some i \<Rightarrow> (case in_op i of OAlloca allocatesPointer \<Rightarrow> if allocatesPointer then Some slot else None | _ \<Rightarrow> None)
           | None \<Rightarrow> None)
      | VGlobalVariable _ holdsPointer \<Rightarrow> if holdsPointer then Some slot else None
      | _ \<Rightarrow> None)"

definition lowerAlloca :: "lowering_view \<Rightarrow> analysis \<Rightarrow> function_map \<Rightarrow> value_map \<Rightarrow> ir_function \<Rightarrow> instruction \<Rightarrow> bool \<Rightarrow> lower_error + lowered" where
  "lowerAlloca lv a fm vm f i allocatesPointer =
     bindE (mapValues lv fm vm (lv_operands lv (fn_id f) (in_id i))) (\<lambda>ws.
       Inr \<lparr>lo_old = i, lo_type = lv_type lv (selfOf f i),
         lo_allocated = (if allocatesPointer \<and> isConcreteManagedKind (dispatchKind (getSlotState a (selfOf f i)))
           then managedPointerType else lv_allocated lv (fn_id f) (in_id i)),
         lo_operands = ws\<rparr>)"

definition lowerLoad :: "lowering_view \<Rightarrow> ir_module \<Rightarrow> analysis \<Rightarrow> function_map \<Rightarrow> value_map \<Rightarrow> ir_function \<Rightarrow> instruction \<Rightarrow> val \<Rightarrow> lower_error + lowered" where
  "lowerLoad lv m a fm vm f i p =
     bindE (mapValue lv fm vm p (lv_type lv p)) (\<lambda>w. Inr (plainLowered i (loweredType lv m a (selfOf f i)) [w]))"

text \<open>The type a stored value must have.\<close>

definition storedType :: "lowering_view \<Rightarrow> ir_module \<Rightarrow> analysis \<Rightarrow> val \<Rightarrow> val \<Rightarrow> lty" where
  "storedType lv m a v p =
     (if \<not> isPtr (lv_type lv v) then lv_type lv v
      else case lowererTrackedSlot lv m p of
        Some slot \<Rightarrow>
          if isConcreteManagedKind (dispatchKind (getSlotState a slot)) then managedPointerType else lv_type lv v
      | None \<Rightarrow>
          if isConcreteManagedKind (dispatchKind (getLocationState (lv_strip lv) m a p)) then managedPointerType
          else if concreteValue m a v then managedPointerType
          else lv_type lv v)"

definition lowerStore ::
  "lowering_view \<Rightarrow> ir_module \<Rightarrow> analysis \<Rightarrow> function_map \<Rightarrow> value_map \<Rightarrow> ir_function \<Rightarrow> instruction \<Rightarrow> val \<Rightarrow> val \<Rightarrow> lower_error + lowered" where
  "lowerStore lv m a fm vm f i v p =
     bindE (mapValue lv fm vm p (lv_type lv p)) (\<lambda>pointer.
     bindE (mapValue lv fm vm v (storedType lv m a v p)) (\<lambda>w.
       if snd w \<noteq> storedType lv m a v p then Inl (StoreMismatch (fn_id f) (in_id i))
       else Inr (plainLowered i LVoid [w, pointer])))"

definition lowerGEP :: "lowering_view \<Rightarrow> function_map \<Rightarrow> value_map \<Rightarrow> ir_function \<Rightarrow> instruction \<Rightarrow> val \<Rightarrow> lower_error + lowered" where
  "lowerGEP lv fm vm f i base =
     bindE (mapValue lv fm vm base (lv_type lv base)) (\<lambda>pointer.
     bindE (mapValues lv fm vm (lv_operands lv (fn_id f) (in_id i))) (\<lambda>indices.
       Inr (plainLowered i (snd pointer) (pointer # indices))))"

definition lowerSelect ::
  "lowering_view \<Rightarrow> ir_module \<Rightarrow> analysis \<Rightarrow> function_map \<Rightarrow> value_map \<Rightarrow> ir_function \<Rightarrow> instruction \<Rightarrow> val \<Rightarrow> val \<Rightarrow> lower_error + lowered" where
  "lowerSelect lv m a fm vm f i t e =
     bindE (mapValues lv fm vm (lv_operands lv (fn_id f) (in_id i))) (\<lambda>condition.
     bindE (mapValue lv fm vm t (loweredType lv m a (selfOf f i))) (\<lambda>trueValue.
     bindE (mapValue lv fm vm e (loweredType lv m a (selfOf f i))) (\<lambda>falseValue.
       Inr (plainLowered i (snd trueValue) (condition @ [trueValue, falseValue])))))"

definition lowerFreeze ::
  "lowering_view \<Rightarrow> ir_module \<Rightarrow> analysis \<Rightarrow> function_map \<Rightarrow> value_map \<Rightarrow> ir_function \<Rightarrow> instruction \<Rightarrow> val \<Rightarrow> lower_error + lowered" where
  "lowerFreeze lv m a fm vm f i v =
     bindE (mapValue lv fm vm v (loweredType lv m a (selfOf f i))) (\<lambda>w. Inr (plainLowered i (snd w) [w]))"

text \<open>The types the two sides of a comparison of pointers are mapped with.\<close>

definition comparedTypes :: "lowering_view \<Rightarrow> value_map \<Rightarrow> val \<Rightarrow> val \<Rightarrow> lty \<times> lty" where
  "comparedTypes lv vm l r =
     (case vm l of
        Some t \<Rightarrow> if isPtr t then (t, t)
          else (case vm r of Some u \<Rightarrow> if isPtr u then (u, u) else (lv_type lv l, lv_type lv r) | None \<Rightarrow> (lv_type lv l, lv_type lv r))
      | None \<Rightarrow> (case vm r of Some u \<Rightarrow> if isPtr u then (u, u) else (lv_type lv l, lv_type lv r) | None \<Rightarrow> (lv_type lv l, lv_type lv r)))"

definition lowerICmp :: "lowering_view \<Rightarrow> function_map \<Rightarrow> value_map \<Rightarrow> ir_function \<Rightarrow> instruction \<Rightarrow> val \<Rightarrow> val \<Rightarrow> lower_error + lowered" where
  "lowerICmp lv fm vm f i l r =
     bindE (mapValue lv fm vm l (fst (comparedTypes lv vm l r))) (\<lambda>lhs.
     bindE (mapValue lv fm vm r (snd (comparedTypes lv vm l r))) (\<lambda>rhs.
       Inr (plainLowered i (lv_type lv (selfOf f i)) [lhs, rhs])))"

text \<open>The arguments of a call, each with the type of its parameter while there are parameters.\<close>

fun lowerArguments :: "lowering_view \<Rightarrow> function_map \<Rightarrow> value_map \<Rightarrow> lty list \<Rightarrow> val list \<Rightarrow> lower_error + (val \<times> lty) list" where
  "lowerArguments lv fm vm params [] = Inr []"
| "lowerArguments lv fm vm params (arg # args) =
     bindE (mapValue lv fm vm arg (case params of t # _ \<Rightarrow> t | [] \<Rightarrow> lv_type lv arg)) (\<lambda>w.
     bindE (lowerArguments lv fm vm (tl params) args) (\<lambda>ws. Inr (w # ws)))"

definition calleeSignature :: "lowering_view \<Rightarrow> function_map \<Rightarrow> nat \<Rightarrow> signature" where
  "calleeSignature lv fm g = (case fm g of Some s \<Rightarrow> s | None \<Rightarrow> lv_signature lv g)"

definition lowerCall ::
  "lowering_view \<Rightarrow> ir_module \<Rightarrow> analysis \<Rightarrow> function_map \<Rightarrow> value_map \<Rightarrow> ir_function \<Rightarrow> instruction \<Rightarrow> val \<Rightarrow> val list \<Rightarrow>
     lower_error + lowered option" where
  "lowerCall lv m a fm vm f i calledOperand args =
     (if lv_isDbgInfo lv (fn_id f) (in_id i) then Inr None
      else if lv_isInvoke lv (fn_id f) (in_id i) then Inl InvokeUnsupported
      else case lv_strip lv calledOperand of
        VFunc g \<Rightarrow>
          bindE (lowerArguments lv fm vm (snd (calleeSignature lv fm g)) args) (\<lambda>ws.
            Inr (Some (plainLowered i (fst (calleeSignature lv fm g)) (ws @ [(VFunc g, LPtr 0)]))))
      | _ \<Rightarrow>
          if in_isPointer i \<and> concreteValue m a (selfOf f i) then Inl IndirectManagedResult
          else if list_ex (\<lambda>arg. isPointerValue m arg \<and> concreteValue m a arg) args then Inl IndirectManagedArgument
          else bindE (mapValues lv fm vm args) (\<lambda>ws.
            bindE (mapValue lv fm vm calledOperand (lv_type lv calledOperand)) (\<lambda>callee.
              Inr (Some (plainLowered i (lv_type lv (selfOf f i)) (ws @ [callee]))))))"

definition lowerReturn :: "lowering_view \<Rightarrow> function_map \<Rightarrow> value_map \<Rightarrow> instruction \<Rightarrow> lty \<Rightarrow> val option \<Rightarrow> lower_error + lowered" where
  "lowerReturn lv fm vm i returnType v =
     (case v of
        None \<Rightarrow> Inr (plainLowered i LVoid [])
      | Some v \<Rightarrow> bindE (mapValue lv fm vm v returnType) (\<lambda>w. Inr (plainLowered i LVoid [w])))"

definition lowerInstruction ::
  "lowering_view \<Rightarrow> ir_module \<Rightarrow> analysis \<Rightarrow> function_map \<Rightarrow> ir_function \<Rightarrow> lty \<Rightarrow> value_map \<Rightarrow> instruction \<Rightarrow>
     lower_error + lowered option" where
  "lowerInstruction lv m a fm f returnType vm i =
     (let operands = lv_operands lv (fn_id f) (in_id i);
          some = (\<lambda>r. bindE r (\<lambda>l. Inr (Some l)))
      in case in_op i of
        OAlloca allocatesPointer \<Rightarrow> some (lowerAlloca lv a fm vm f i allocatesPointer)
      | OPhi _ \<Rightarrow> Inr (Some (plainLowered i (loweredType lv m a (selfOf f i)) []))
      | OLoad p \<Rightarrow> some (lowerLoad lv m a fm vm f i p)
      | OStore v p \<Rightarrow> some (lowerStore lv m a fm vm f i v p)
      | OGep base _ \<Rightarrow> some (lowerGEP lv fm vm f i base)
      | OSelect t e \<Rightarrow> some (lowerSelect lv m a fm vm f i t e)
      | OFreeze v \<Rightarrow>
          if in_isPointer i \<or> isPointerValue m v then some (lowerFreeze lv m a fm vm f i v)
          else some (cloneGenericInstruction lv fm vm f i [v])
      | OCall callee args \<Rightarrow> lowerCall lv m a fm vm f i callee args
      | ORet v \<Rightarrow> some (lowerReturn lv fm vm i returnType v)
      | OOther \<Rightarrow>
          (case operands of
             [l, r] \<Rightarrow>
               if lv_isICmp lv (fn_id f) (in_id i) \<and> (isPointerValue m l \<or> isPointerValue m r)
               then some (lowerICmp lv fm vm f i l r)
               else some (cloneGenericInstruction lv fm vm f i operands)
           | _ \<Rightarrow> some (cloneGenericInstruction lv fm vm f i operands)))"

section \<open>Functions\<close>

fun collectDominancePreorder :: "dom_tree \<Rightarrow> nat list \<Rightarrow> nat list"
  and collectChildren :: "dom_tree list \<Rightarrow> nat list \<Rightarrow> nat list" where
  "collectDominancePreorder (DomNode block children) order =
     collectChildren children (if block \<in> set order then order else order @ [block])"
| "collectChildren [] order = order"
| "collectChildren (child # children) order = collectChildren children (collectDominancePreorder child order)"

text \<open>The blocks in the order they are lowered: the dominator tree from its root, then those it lacks.\<close>

definition loweringOrder :: "dom_tree option \<Rightarrow> nat \<Rightarrow> nat list" where
  "loweringOrder tree blockCount =
     (let order = (case tree of Some t \<Rightarrow> collectDominancePreorder t [] | None \<Rightarrow> [])
      in order @ filter (\<lambda>b. b \<notin> set order) [0 ..< blockCount])"

fun lowerBlock ::
  "lowering_view \<Rightarrow> ir_module \<Rightarrow> analysis \<Rightarrow> function_map \<Rightarrow> ir_function \<Rightarrow> lty \<Rightarrow> instruction list \<Rightarrow> value_map \<Rightarrow>
     lower_error + value_map \<times> lowered list" where
  "lowerBlock lv m a fm f returnType [] vm = Inr (vm, [])"
| "lowerBlock lv m a fm f returnType (i # is) vm =
     bindE (lowerInstruction lv m a fm f returnType vm i) (\<lambda>r.
       case r of
         None \<Rightarrow> lowerBlock lv m a fm f returnType is vm
       | Some l \<Rightarrow>
           bindE (lowerBlock lv m a fm f returnType is (if lv_type lv (selfOf f i) = LVoid then vm else vm(selfOf f i \<mapsto> lo_type l)))
             (\<lambda>(vm, ls). Inr (vm, l # ls)))"

fun lowerBlocks ::
  "lowering_view \<Rightarrow> ir_module \<Rightarrow> analysis \<Rightarrow> function_map \<Rightarrow> ir_function \<Rightarrow> lty \<Rightarrow> nat list \<Rightarrow> value_map \<Rightarrow>
     lower_error + value_map \<times> (nat \<times> lowered list) list" where
  "lowerBlocks lv m a fm f returnType [] vm = Inr (vm, [])"
| "lowerBlocks lv m a fm f returnType (b # order) vm =
     bindE (lowerBlock lv m a fm f returnType (fn_blocks f ! b) vm) (\<lambda>(vm, ls).
     bindE (lowerBlocks lv m a fm f returnType order vm) (\<lambda>(vm, rest). Inr (vm, (b, ls) # rest)))"

text \<open>The incoming values of the new phis.\<close>

fun addIncoming :: "lowering_view \<Rightarrow> function_map \<Rightarrow> value_map \<Rightarrow> ir_function \<Rightarrow> lowered \<Rightarrow> val list \<Rightarrow> lower_error + lowered" where
  "addIncoming lv fm vm f phi [] = Inr phi"
| "addIncoming lv fm vm f phi (v # vs) =
     bindE (mapValue lv fm vm v (lo_type phi)) (\<lambda>w.
       if snd w \<noteq> lo_type phi then Inl (PhiMismatch (fn_id f) (in_id (lo_old phi)))
       else addIncoming lv fm vm f (phi\<lparr>lo_operands := lo_operands phi @ [w]\<rparr>) vs)"

definition finishLowered :: "lowering_view \<Rightarrow> function_map \<Rightarrow> value_map \<Rightarrow> ir_function \<Rightarrow> lowered \<Rightarrow> lower_error + lowered" where
  "finishLowered lv fm vm f l = (case in_op (lo_old l) of OPhi incoming \<Rightarrow> addIncoming lv fm vm f l incoming | _ \<Rightarrow> Inr l)"

fun finishBlock :: "lowering_view \<Rightarrow> function_map \<Rightarrow> value_map \<Rightarrow> ir_function \<Rightarrow> lowered list \<Rightarrow> lower_error + lowered list" where
  "finishBlock lv fm vm f [] = Inr []"
| "finishBlock lv fm vm f (l # ls) =
     bindE (finishLowered lv fm vm f l) (\<lambda>l. bindE (finishBlock lv fm vm f ls) (\<lambda>ls. Inr (l # ls)))"

fun finishBlocks :: "lowering_view \<Rightarrow> function_map \<Rightarrow> value_map \<Rightarrow> ir_function \<Rightarrow> (nat \<times> lowered list) list \<Rightarrow> lower_error + (nat \<times> lowered list) list" where
  "finishBlocks lv fm vm f [] = Inr []"
| "finishBlocks lv fm vm f ((b, ls) # bs) =
     bindE (finishBlock lv fm vm f ls) (\<lambda>ls. bindE (finishBlocks lv fm vm f bs) (\<lambda>bs. Inr ((b, ls) # bs)))"

record new_function =
  nf_old :: ir_function
  nf_signature :: signature
  nf_blocks :: "lowered list list"

definition argumentTypes :: "ir_function \<Rightarrow> signature \<Rightarrow> value_map" where
  "argumentTypes f s v =
     (case v of VArg g n \<Rightarrow> if g = fn_id f \<and> n < length (snd s) then Some (snd s ! n) else None | _ \<Rightarrow> None)"

definition rebuildFunction ::
  "lowering_view \<Rightarrow> ir_module \<Rightarrow> analysis \<Rightarrow> function_map \<Rightarrow> ir_function \<Rightarrow> signature \<Rightarrow> lower_error + new_function" where
  "rebuildFunction lv m a fm f s =
     bindE (lowerBlocks lv m a fm f (fst s) (loweringOrder (lv_domTree lv (fn_id f)) (length (fn_blocks f))) (argumentTypes f s))
       (\<lambda>(vm, bs).
     bindE (finishBlocks lv fm vm f bs) (\<lambda>bs.
       Inr \<lparr>nf_old = f, nf_signature = s,
         nf_blocks = map (\<lambda>b. case map_of bs b of Some ls \<Rightarrow> ls | None \<Rightarrow> []) [0 ..< length (fn_blocks f)]\<rparr>))"

fun rebuildFunctions ::
  "lowering_view \<Rightarrow> ir_module \<Rightarrow> analysis \<Rightarrow> function_map \<Rightarrow> (nat \<times> signature) list \<Rightarrow> lower_error + new_function list" where
  "rebuildFunctions lv m a fm [] = Inr []"
| "rebuildFunctions lv m a fm ((g, s) # rest) =
     (case functionAt m g of
        None \<Rightarrow> rebuildFunctions lv m a fm rest
      | Some f \<Rightarrow>
          if fn_isDeclaration f then rebuildFunctions lv m a fm rest
          else bindE (rebuildFunction lv m a fm f s) (\<lambda>n. bindE (rebuildFunctions lv m a fm rest) (\<lambda>ns. Inr (n # ns))))"

section \<open>The pass\<close>

fun operandsOf :: "operation \<Rightarrow> val list" where
  "operandsOf (OAlloca b) = []"
| "operandsOf (OGep v b) = [v]"
| "operandsOf (OPhi vs) = vs"
| "operandsOf (OSelect v w) = [v, w]"
| "operandsOf (OFreeze v) = [v]"
| "operandsOf (OLoad p) = [p]"
| "operandsOf (OStore v p) = [v, p]"
| "operandsOf (OCall c args) = args @ [c]"
| "operandsOf (ORet v) = (case v of None \<Rightarrow> [] | Some w \<Rightarrow> [w])"
| "operandsOf OOther = []"

definition mentionsFunction :: "lowering_view \<Rightarrow> nat \<Rightarrow> ir_function \<Rightarrow> bool" where
  "mentionsFunction lv g f \<longleftrightarrow>
     list_ex (\<lambda>i. VFunc g \<in> set (operandsOf (in_op i) @ lv_operands lv (fn_id f) (in_id i))) (instructionsOf f)"

text \<open>A use of a replaced function that is left once uses of the same type are replaced and the old bodies
  are deleted.\<close>

definition usesRemain :: "lowering_view \<Rightarrow> ir_module \<Rightarrow> (nat \<times> signature) list \<Rightarrow> nat \<times> signature \<Rightarrow> bool" where
  "usesRemain lv m replacements r \<longleftrightarrow>
     snd r \<noteq> lv_signature lv (fst r) \<and>
     (lv_usedElsewhere lv (fst r) \<or>
      list_ex (\<lambda>f. fn_id f \<notin> set (map fst replacements) \<and> mentionsFunction lv (fst r) f) m)"

record lowered_module =
  lm_kept :: ir_module
  lm_replacements :: "(nat \<times> signature) list"
  lm_functions :: "new_function list"

text \<open>\<open>order\<close> is the order in which the map of the replacements is enumerated.\<close>

definition runLowering ::
  "lowering_view \<Rightarrow> lty \<Rightarrow> ((nat \<times> signature) list \<Rightarrow> (nat \<times> signature) list) \<Rightarrow> ir_module \<Rightarrow> analysis \<Rightarrow> lower_error + lowered_module" where
  "runLowering lv i64 order m a =
     bindE (createFunctionReplacements lv i64 m a m) (\<lambda>replacements.
     bindE (rebuildFunctions lv m a (map_of replacements) (order replacements)) (\<lambda>functions.
       case List.find (usesRemain lv m replacements) (order replacements) of
         Some r \<Rightarrow> Inl (UsesRemain (fst r))
       | None \<Rightarrow> Inr \<lparr>lm_kept = filter (\<lambda>f. fn_id f \<notin> set (map fst replacements)) m,
           lm_replacements = replacements, lm_functions = functions\<rparr>))"

definition lowerManagedPointers ::
  "lowering_view \<Rightarrow> lty \<Rightarrow> ((nat \<times> signature) list \<Rightarrow> (nat \<times> signature) list) \<Rightarrow> ir_module \<Rightarrow> (lower_error + lowered_module) option" where
  "lowerManagedPointers lv i64 order m = map_option (runLowering lv i64 order m) (analyse (lv_strip lv) m)"

end
