(* ===== verification/Lowering_Facts.thy ===== *)
theory Lowering_Facts
  imports Pointer_Lowering
begin

text \<open>
  What the lowering of an instruction, a block and a function does: the operation and the operands are
  kept, values have one type, and the order of the blocks follows the dominator tree.
\<close>

section \<open>Operands\<close>

text \<open>A typed operand: the type of its value in the new function, or a constant.\<close>

definition operandOk :: "lowering_view \<Rightarrow> value_map \<Rightarrow> val \<times> lty \<Rightarrow> bool" where
  "operandOk lv vm w \<longleftrightarrow> vm (fst w) = Some (snd w) \<or> constantClass lv (fst w) \<noteq> CNotConstant"

text \<open>All values that are not constants exist.\<close>

definition present :: "lowering_view \<Rightarrow> value_map \<Rightarrow> val \<Rightarrow> bool" where
  "present lv vm v \<longleftrightarrow> vm v \<noteq> None \<or> constantClass lv v \<noteq> CNotConstant"

lemma constantClass_simps [simp]:
  "constantClass lv (VInst g k) = CNotConstant" "constantClass lv (VArg g n) = CNotConstant"
  "constantClass lv (VFunc g) = COtherConstant" "constantClass lv VNull = COtherConstant" "constantClass lv VUndef = CUndef"
  by (simp_all add: constantClass_def)

text \<open>A new operand stands for the old one: it is named as that, or it is undef for poison.\<close>

definition standsFor :: "lowering_view \<Rightarrow> val \<Rightarrow> val \<Rightarrow> bool" where
  "standsFor lv v u \<longleftrightarrow> u = v \<or> constantClass lv v = CPoison \<and> u = VUndef"

lemma standsFor_simps [simp]:
  "standsFor lv v v" "standsFor lv (VInst g k) u \<longleftrightarrow> u = VInst g k" "standsFor lv (VArg g n) u \<longleftrightarrow> u = VArg g n"
  "standsFor lv (VFunc g) u \<longleftrightarrow> u = VFunc g"
  by (auto simp: standsFor_def)

lemma standsFor_append [simp]:
  "list_all2 (standsFor lv) vs ws \<Longrightarrow> list_all2 (standsFor lv) (vs @ us) (ws @ xs) \<longleftrightarrow> list_all2 (standsFor lv) us xs"
  by (simp add: list_all2_append list_all2_lengthD)

lemma mapConstant_Inr:
  "mapConstant lv v e = Inr w \<Longrightarrow> standsFor lv v (fst w) \<and> snd w = e \<and> constantClass lv (fst w) \<noteq> CNotConstant"
  by (auto simp: mapConstant_def standsFor_def split: constant_class.splits if_splits)

lemma mapValue_Inr:
  assumes "mapValue lv fm vm v e = Inr w"
  shows "standsFor lv v (fst w)" "operandOk lv vm w" "vm v = None \<Longrightarrow> snd w = e \<or> (\<exists>g. v = VFunc g \<and> snd w = LPtr 0)"
  using assms mapConstant_Inr [of lv v e w]
  by (auto simp: mapValue_def operandOk_def split: option.splits val.splits if_splits)

lemma mapValue_pair: "mapValue lv fm vm v e = Inr (u, t) \<Longrightarrow> standsFor lv v u \<and> operandOk lv vm (u, t)"
  using mapValue_Inr(1,2) [of lv fm vm v e "(u, t)"] by simp

lemma mapValue_present: "present lv vm v \<Longrightarrow> mapValue lv fm vm v e \<noteq> Inl (CouldNotRemap u)"
  by (auto simp: mapValue_def present_def mapConstant_def split: option.splits val.splits constant_class.splits if_splits)

lemma mapValues_Inr: "mapValues lv fm vm vs = Inr ws \<Longrightarrow> list_all2 (standsFor lv) vs (map fst ws) \<and> list_all (operandOk lv vm) ws"
  by (induction vs arbitrary: ws) (auto simp: bindE_eq_Inr dest!: mapValue_pair)

lemma cloneOperands_Inr:
  "cloneOperands lv fm vm f k vs = Inr ws \<Longrightarrow>
     list_all2 (standsFor lv) vs (map fst ws) \<and> list_all (operandOk lv vm) ws \<and> map snd ws = map (lv_type lv) vs"
  by (induction vs arbitrary: ws) (auto simp: bindE_eq_Inr dest!: mapValue_pair split: if_splits)

lemma lowerArguments_Inr: "lowerArguments lv fm vm params vs = Inr ws \<Longrightarrow> list_all2 (standsFor lv) vs (map fst ws) \<and> list_all (operandOk lv vm) ws"
  by (induction vs arbitrary: params ws) (auto simp: bindE_eq_Inr dest!: mapValue_pair)

lemma mapValues_present: "list_all (present lv vm) vs \<Longrightarrow> mapValues lv fm vm vs \<noteq> Inl (CouldNotRemap u)"
  by (induction vs) (auto simp: bindE_eq_Inl mapValue_present)

lemma cloneOperands_present: "list_all (present lv vm) vs \<Longrightarrow> cloneOperands lv fm vm f k vs \<noteq> Inl (CouldNotRemap u)"
  by (induction vs) (auto simp: bindE_eq_Inl mapValue_present split: if_splits)

lemma lowerArguments_present: "list_all (present lv vm) vs \<Longrightarrow> lowerArguments lv fm vm params vs \<noteq> Inl (CouldNotRemap u)"
  by (induction vs arbitrary: params) (auto simp: bindE_eq_Inl mapValue_present)

section \<open>Instructions\<close>

definition skipped :: "lowering_view \<Rightarrow> ir_function \<Rightarrow> instruction \<Rightarrow> bool" where
  "skipped lv f i \<longleftrightarrow> (case in_op i of OCall c args \<Rightarrow> lv_isDbgInfo lv (fn_id f) (in_id i) | _ \<Rightarrow> False)"

text \<open>The operands of an instruction that the lowering maps, in the order of the new instruction; the callee
  of a direct call is the function itself.  Operand bundles of calls are not among them: \<open>lowerCall\<close> does
  not carry them over.\<close>

definition fullOperands :: "lowering_view \<Rightarrow> ir_function \<Rightarrow> instruction \<Rightarrow> val list" where
  "fullOperands lv f i =
     (let more = lv_operands lv (fn_id f) (in_id i) in
      case in_op i of
        OAlloca b \<Rightarrow> more
      | OGep v b \<Rightarrow> v # more
      | OSelect t e \<Rightarrow> more @ [t, e]
      | OCall c args \<Rightarrow> args @ [case lv_strip lv c of VFunc g \<Rightarrow> VFunc g | _ \<Rightarrow> c]
      | OOther \<Rightarrow> more
      | p \<Rightarrow> operandsOf p)"

definition isPhi :: "instruction \<Rightarrow> bool" where
  "isPhi i \<longleftrightarrow> (case in_op i of OPhi vs \<Rightarrow> True | _ \<Rightarrow> False)"

text \<open>The typing rules: a load has the type of its state, a stored value the type its place asks for, a
  \<open>getelementptr\<close> the type of its base, and the operands of instructions that know nothing of managed
  pointers the types they had.\<close>

definition ruleOk :: "lowering_view \<Rightarrow> ir_module \<Rightarrow> analysis \<Rightarrow> ir_function \<Rightarrow> lowered \<Rightarrow> bool" where
  "ruleOk lv m a f l \<longleftrightarrow>
     (case in_op (lo_old l) of
        OPhi vs \<Rightarrow> lo_type l = loweredType lv m a (selfOf f (lo_old l)) \<and> list_all (\<lambda>w. snd w = lo_type l) (lo_operands l)
      | OLoad p \<Rightarrow> lo_type l = loweredType lv m a (selfOf f (lo_old l))
      | OStore v p \<Rightarrow> lo_operands l \<noteq> [] \<and> standsFor lv v (fst (hd (lo_operands l))) \<and> snd (hd (lo_operands l)) = storedType lv m a v p
      | OGep base b \<Rightarrow> lo_operands l \<noteq> [] \<and> standsFor lv base (fst (hd (lo_operands l))) \<and> snd (hd (lo_operands l)) = lo_type l
      | OOther \<Rightarrow> lo_type l = lv_type lv (selfOf f (lo_old l)) \<and>
          (lv_isICmp lv (fn_id f) (in_id (lo_old l)) \<or>
           map snd (lo_operands l) = map (lv_type lv) (lv_operands lv (fn_id f) (in_id (lo_old l))))
      | _ \<Rightarrow> True)"

definition instructionOk :: "lowering_view \<Rightarrow> ir_module \<Rightarrow> analysis \<Rightarrow> ir_function \<Rightarrow> value_map \<Rightarrow> lowered \<Rightarrow> bool" where
  "instructionOk lv m a f vm l \<longleftrightarrow> ruleOk lv m a f l \<and> list_all (operandOk lv vm) (lo_operands l)"

lemma plainLowered_simps [simp]:
  "lo_old (plainLowered i t ws) = i" "lo_type (plainLowered i t ws) = t" "lo_operands (plainLowered i t ws) = ws"
  by (simp_all add: plainLowered_def)

definition loweredAs :: "lowering_view \<Rightarrow> ir_module \<Rightarrow> analysis \<Rightarrow> ir_function \<Rightarrow> value_map \<Rightarrow> instruction \<Rightarrow> lowered \<Rightarrow> bool" where
  "loweredAs lv m a f vm i l \<longleftrightarrow> lo_old l = i \<and> instructionOk lv m a f vm l \<and>
     list_all2 (standsFor lv) (if isPhi i then [] else fullOperands lv f i) (map fst (lo_operands l))"

lemmas loweredAs_defs = loweredAs_def instructionOk_def ruleOk_def isPhi_def fullOperands_def

lemma clone_as:
  "cloneGenericInstruction lv fm vm f i vs = Inr l \<Longrightarrow>
     lo_old l = i \<and> lo_type l = lv_type lv (selfOf f i) \<and> list_all2 (standsFor lv) vs (map fst (lo_operands l)) \<and>
     list_all (operandOk lv vm) (lo_operands l) \<and> map snd (lo_operands l) = map (lv_type lv) vs"
proof -
  assume "cloneGenericInstruction lv fm vm f i vs = Inr l"
  then obtain ws where ws: "cloneOperands lv fm vm (fn_id f) (in_id i) vs = Inr ws" "l = plainLowered i (lv_type lv (selfOf f i)) ws"
    by (auto simp: cloneGenericInstruction_def bindE_eq_Inr)
  then show ?thesis using cloneOperands_Inr [OF ws(1)] by simp
qed

lemma alloca_as: "in_op i = OAlloca b \<Longrightarrow> lowerAlloca lv a fm vm f i b = Inr l \<Longrightarrow> loweredAs lv m a f vm i l"
  by (auto simp: lowerAlloca_def bindE_eq_Inr loweredAs_defs dest!: mapValues_Inr)

lemma gep_as: "in_op i = OGep v b \<Longrightarrow> lowerGEP lv fm vm f i v = Inr l \<Longrightarrow> loweredAs lv m a f vm i l"
  by (auto simp: lowerGEP_def bindE_eq_Inr loweredAs_defs dest!: mapValues_Inr mapValue_pair)

lemma select_as: "in_op i = OSelect t e \<Longrightarrow> lowerSelect lv m a fm vm f i t e = Inr l \<Longrightarrow> loweredAs lv m a f vm i l"
  by (auto simp: lowerSelect_def bindE_eq_Inr loweredAs_defs dest!: mapValues_Inr mapValue_pair)

lemma freeze_as: "in_op i = OFreeze v \<Longrightarrow> lowerFreeze lv m a fm vm f i v = Inr l \<Longrightarrow> loweredAs lv m a f vm i l"
  by (auto simp: lowerFreeze_def bindE_eq_Inr loweredAs_defs dest!: mapValue_pair)

lemma load_as: "in_op i = OLoad p \<Longrightarrow> lowerLoad lv m a fm vm f i p = Inr l \<Longrightarrow> loweredAs lv m a f vm i l"
  by (auto simp: lowerLoad_def bindE_eq_Inr loweredAs_defs dest!: mapValue_pair)

lemma store_as: "in_op i = OStore v p \<Longrightarrow> lowerStore lv m a fm vm f i v p = Inr l \<Longrightarrow> loweredAs lv m a f vm i l"
  by (auto simp: lowerStore_def bindE_eq_Inr loweredAs_defs dest!: mapValue_pair split: if_splits)

lemma return_as: "in_op i = ORet v \<Longrightarrow> lowerReturn lv fm vm i returnType v = Inr l \<Longrightarrow> loweredAs lv m a f vm i l"
  by (auto simp: lowerReturn_def bindE_eq_Inr loweredAs_defs dest!: mapValue_pair split: option.splits)

lemma call_as:
  assumes "in_op i = OCall c args" "lowerCall lv m a fm vm f i c args = Inr (Some l)"
  shows "loweredAs lv m a f vm i l \<and> \<not> lv_isDbgInfo lv (fn_id f) (in_id i)"
proof (cases "\<exists>g. lv_strip lv c = VFunc g")
  case True
  then obtain g where g: "lv_strip lv c = VFunc g" by blast
  have "operandOk lv vm (VFunc g, LPtr 0)" by (simp add: operandOk_def)
  then show ?thesis using assms g
    by (auto simp: lowerCall_def bindE_eq_Inr loweredAs_defs dest!: lowerArguments_Inr split: if_splits)
next
  case False
  then obtain ws w where d: "\<not> lv_isDbgInfo lv (fn_id f) (in_id i)" "mapValues lv fm vm args = Inr ws"
    "mapValue lv fm vm c (lv_type lv c) = Inr w" "l = plainLowered i (lv_type lv (selfOf f i)) (ws @ [w])"
    using assms(2) by (auto simp: lowerCall_def bindE_eq_Inr split: if_splits val.splits)
  have "(case lv_strip lv c of VFunc g \<Rightarrow> VFunc g | _ \<Rightarrow> c) = c" using False by (auto split: val.split)
  then have "fullOperands lv f i = args @ [c]" by (simp add: fullOperands_def assms(1))
  then show ?thesis
    using mapValues_Inr [OF d(2)] mapValue_Inr [OF d(3)] d(1,4) by (simp add: loweredAs_def instructionOk_def ruleOk_def isPhi_def assms(1))
qed

lemma icmp_as: "in_op i = OOther \<Longrightarrow> lv_operands lv (fn_id f) (in_id i) = [p, q] \<Longrightarrow> lv_isICmp lv (fn_id f) (in_id i) \<Longrightarrow>
    lowerICmp lv fm vm f i p q = Inr l \<Longrightarrow> loweredAs lv m a f vm i l"
  by (auto simp: lowerICmp_def bindE_eq_Inr loweredAs_defs dest!: mapValue_pair)

lemma other_as: "in_op i = OOther \<Longrightarrow> cloneGenericInstruction lv fm vm f i (lv_operands lv (fn_id f) (in_id i)) = Inr l \<Longrightarrow> loweredAs lv m a f vm i l"
  using clone_as [of lv fm vm f i "lv_operands lv (fn_id f) (in_id i)" l] by (simp add: loweredAs_defs)

lemma plainFreeze_as: "in_op i = OFreeze v \<Longrightarrow> cloneGenericInstruction lv fm vm f i [v] = Inr l \<Longrightarrow> loweredAs lv m a f vm i l"
  using clone_as [of lv fm vm f i "[v]" l] by (simp add: loweredAs_defs)

lemma bindSome: "bindE r (\<lambda>l. Inr (Some l)) = Inr (Some l) \<longleftrightarrow> r = Inr l"
  by (cases r) auto

lemma lowerInstruction_Some:
  assumes "lowerInstruction lv m a fm f returnType vm i = Inr (Some l)"
  shows "loweredAs lv m a f vm i l \<and> \<not> skipped lv f i"
proof (cases "in_op i")
  case (OPhi vs)
  then have "l = plainLowered i (loweredType lv m a (selfOf f i)) []" using assms by (simp add: lowerInstruction_def)
  then show ?thesis using OPhi by (simp add: loweredAs_defs skipped_def)
next
  case (OFreeze v)
  then show ?thesis
    using assms freeze_as [OF OFreeze] plainFreeze_as [OF OFreeze] by (auto simp: lowerInstruction_def bindSome skipped_def split: if_splits)
next
  case (OCall c args)
  then show ?thesis using assms call_as [OF OCall] by (simp add: lowerInstruction_def skipped_def)
next
  case OOther
  let ?vs = "lv_operands lv (fn_id f) (in_id i)"
  have "loweredAs lv m a f vm i l"
  proof (cases "\<exists>p q. ?vs = [p, q] \<and> lv_isICmp lv (fn_id f) (in_id i) \<and> (isPointerValue m p \<or> isPointerValue m q)")
    case True
    then obtain p q where vs: "?vs = [p, q]" "lv_isICmp lv (fn_id f) (in_id i)" "isPointerValue m p \<or> isPointerValue m q" by blast
    then have "lowerICmp lv fm vm f i p q = Inr l" using assms OOther by (simp add: lowerInstruction_def bindSome)
    then show ?thesis by (rule icmp_as [OF OOther vs(1,2)])
  next
    case False
    then have "bindE (cloneGenericInstruction lv fm vm f i ?vs) (\<lambda>l. Inr (Some l)) = Inr (Some l)"
      using assms OOther by (auto simp: lowerInstruction_def Let_def split: list.splits if_splits)
    then show ?thesis using other_as [OF OOther] by (simp add: bindSome)
  qed
  then show ?thesis by (simp add: skipped_def OOther)
qed (use assms in \<open>simp_all add: lowerInstruction_def bindSome skipped_def alloca_as gep_as select_as load_as store_as return_as\<close>)

lemma lowerInstruction_None: "lowerInstruction lv m a fm f returnType vm i = Inr None \<Longrightarrow> skipped lv f i"
  by (auto simp: lowerInstruction_def lowerCall_def skipped_def bindE_eq_Inr Let_def split: operation.splits if_splits val.splits list.splits)

section \<open>Blocks\<close>

lemma operandOk_mono: "operandOk lv vm w \<Longrightarrow> vm \<subseteq>\<^sub>m vm' \<Longrightarrow> operandOk lv vm' w"
  by (auto simp: operandOk_def map_le_def dom_def)

lemma loweredAs_mono: "loweredAs lv m a f vm i l \<Longrightarrow> vm \<subseteq>\<^sub>m vm' \<Longrightarrow> loweredAs lv m a f vm' i l"
  by (auto simp: loweredAs_def instructionOk_def list_all_iff intro: operandOk_mono)

definition keptCode :: "lowering_view \<Rightarrow> ir_function \<Rightarrow> instruction list \<Rightarrow> instruction list" where
  "keptCode lv f is = filter (\<lambda>i. \<not> skipped lv f i) is"

definition newTypes :: "ir_function \<Rightarrow> value_map \<Rightarrow> value_map \<Rightarrow> lowered list \<Rightarrow> bool" where
  "newTypes f vm vm' ls \<longleftrightarrow> vm \<subseteq>\<^sub>m vm' \<and>
     (\<forall>v t. vm' v = Some t \<longrightarrow> vm v = Some t \<or> (\<exists>l \<in> set ls. v = selfOf f (lo_old l) \<and> t = lo_type l))"

lemma newTypes_trans: "newTypes f vm vm1 ls \<Longrightarrow> newTypes f vm1 vm2 ls' \<Longrightarrow> newTypes f vm vm2 (ls @ ls')"
  unfolding newTypes_def by (metis Un_iff map_le_trans set_append)

lemma lowerBlock_effect:
  assumes "lowerBlock lv m a fm f returnType is vm = Inr (vm', ls)"
    and "distinct (map in_id is)" "\<forall>i \<in> set is. vm (selfOf f i) = None"
  shows "newTypes f vm vm' ls \<and> map lo_old ls = keptCode lv f is \<and> list_all (\<lambda>l. loweredAs lv m a f vm' (lo_old l) l) ls"
  using assms
proof (induction "is" arbitrary: vm ls)
  case Nil then show ?case by (simp add: newTypes_def keptCode_def)
next
  case (Cons i "is")
  obtain r where r: "lowerInstruction lv m a fm f returnType vm i = Inr r" using Cons.prems(1) by (auto simp: bindE_eq_Inr)
  show ?case
  proof (cases r)
    case None
    then have "skipped lv f i" using r lowerInstruction_None by blast
    then show ?thesis using Cons.IH [of vm ls] Cons.prems r None by (simp add: keptCode_def)
  next
    case (Some l)
    let ?vm = "if lv_type lv (selfOf f i) = LVoid then vm else vm(selfOf f i \<mapsto> lo_type l)"
    obtain ls' where ls: "lowerBlock lv m a fm f returnType is ?vm = Inr (vm', ls')" "ls = l # ls'"
      using Cons.prems(1) r Some by (auto simp: bindE_eq_Inr)
    have l: "loweredAs lv m a f vm i l" "\<not> skipped lv f i" using lowerInstruction_Some [of lv m a fm f returnType vm i l] r Some by simp_all
    have other: "selfOf f j \<noteq> selfOf f i" if "j \<in> set is" for j
      using Cons.prems(2) that by (simp add: selfOf_def) (metis image_eqI)
    have fresh: "\<forall>j \<in> set is. ?vm (selfOf f j) = None" using Cons.prems(3) other by simp
    have IH: "newTypes f ?vm vm' ls'" "map lo_old ls' = keptCode lv f is" "list_all (\<lambda>l. loweredAs lv m a f vm' (lo_old l) l) ls'"
      using Cons.IH [OF ls(1) _ fresh] Cons.prems(2) by simp_all
    have old: "lo_old l = i" using l(1) by (simp add: loweredAs_def)
    have "newTypes f vm ?vm [l]" using Cons.prems(3) old by (auto simp: newTypes_def map_le_def)
    then have new: "newTypes f vm vm' (l # ls')" using newTypes_trans [OF _ IH(1)] by fastforce
    then have "loweredAs lv m a f vm' i l" using loweredAs_mono [OF l(1)] by (simp add: newTypes_def)
    then show ?thesis using new IH old l(2) ls(2) by (simp add: keptCode_def)
  qed
qed

lemma lowerBlocks_effect:
  assumes "lowerBlocks lv m a fm f returnType order vm = Inr (vm', bs)"
    and "distinct (map in_id (concat (map (\<lambda>b. fn_blocks f ! b) order)))"
    and "\<forall>i \<in> set (concat (map (\<lambda>b. fn_blocks f ! b) order)). vm (selfOf f i) = None"
  shows "newTypes f vm vm' (concat (map snd bs)) \<and> map fst bs = order \<and>
    list_all (\<lambda>(b, ls). map lo_old ls = keptCode lv f (fn_blocks f ! b) \<and> list_all (\<lambda>l. loweredAs lv m a f vm' (lo_old l) l) ls) bs"
  using assms
proof (induction order arbitrary: vm bs)
  case Nil then show ?case by (simp add: newTypes_def)
next
  case (Cons b order)
  obtain vm1 ls rest where r: "lowerBlock lv m a fm f returnType (fn_blocks f ! b) vm = Inr (vm1, ls)"
    "lowerBlocks lv m a fm f returnType order vm1 = Inr (vm', rest)" "bs = (b, ls) # rest"
    using Cons.prems(1) by (auto simp: bindE_eq_Inr)
  have dist: "distinct (map in_id (fn_blocks f ! b))" "distinct (map in_id (concat (map (\<lambda>b. fn_blocks f ! b) order)))"
    "set (map in_id (fn_blocks f ! b)) \<inter> set (map in_id (concat (map (\<lambda>b. fn_blocks f ! b) order))) = {}"
    using Cons.prems(2) by auto
  have one: "newTypes f vm vm1 ls" "map lo_old ls = keptCode lv f (fn_blocks f ! b)" "list_all (\<lambda>l. loweredAs lv m a f vm1 (lo_old l) l) ls"
    using lowerBlock_effect [OF r(1) dist(1)] Cons.prems(3) by simp_all
  have "vm1 (selfOf f i) = None" if i: "i \<in> set (concat (map (\<lambda>b. fn_blocks f ! b) order))" for i
  proof (rule ccontr)
    assume "vm1 (selfOf f i) \<noteq> None"
    moreover have "vm (selfOf f i) = None" using Cons.prems(3) i by simp
    ultimately obtain l where "l \<in> set ls" "selfOf f i = selfOf f (lo_old l)" using one(1) unfolding newTypes_def by force
    then have "in_id i \<in> set (map in_id (fn_blocks f ! b))"
      using arg_cong [OF one(2), of set] by (force simp: selfOf_def keptCode_def)
    then show False using dist(3) i by (metis IntI empty_iff image_eqI set_map)
  qed
  then have two: "newTypes f vm1 vm' (concat (map snd rest))" "map fst rest = order"
    "list_all (\<lambda>(b, ls). map lo_old ls = keptCode lv f (fn_blocks f ! b) \<and> list_all (\<lambda>l. loweredAs lv m a f vm' (lo_old l) l) ls) rest"
    using Cons.IH [OF r(2) dist(2)] by blast+
  have "vm1 \<subseteq>\<^sub>m vm'" using two(1) by (simp add: newTypes_def)
  then have "list_all (\<lambda>l. loweredAs lv m a f vm' (lo_old l) l) ls" using one(3) loweredAs_mono unfolding list_all_iff by blast
  then show ?case using newTypes_trans [OF one(1) two(1)] one(2) two(2,3) r(3) by simp
qed

section \<open>Phis\<close>

lemma addIncoming_effect:
  "addIncoming lv fm vm f phi vs = Inr phi' \<Longrightarrow>
     \<exists>ws. phi' = phi\<lparr>lo_operands := lo_operands phi @ ws\<rparr> \<and> list_all2 (standsFor lv) vs (map fst ws) \<and>
       list_all (\<lambda>w. operandOk lv vm w \<and> snd w = lo_type phi) ws"
proof (induction vs arbitrary: phi)
  case (Cons v vs)
  obtain w where w: "mapValue lv fm vm v (lo_type phi) = Inr w" "snd w = lo_type phi"
    "addIncoming lv fm vm f (phi\<lparr>lo_operands := lo_operands phi @ [w]\<rparr>) vs = Inr phi'"
    using Cons.prems by (auto simp: bindE_eq_Inr split: if_splits)
  obtain ws where ws: "phi' = phi\<lparr>lo_operands := (lo_operands phi @ [w]) @ ws\<rparr>" "list_all2 (standsFor lv) vs (map fst ws)"
    "list_all (\<lambda>w. operandOk lv vm w \<and> snd w = lo_type phi) ws"
    using Cons.IH [OF w(3)] by auto
  show ?case using ws w(2) mapValue_Inr(1,2) [OF w(1)] by (intro exI [of _ "w # ws"]) simp
qed simp

text \<open>What a finished instruction is.\<close>

definition finishedAs :: "lowering_view \<Rightarrow> ir_module \<Rightarrow> analysis \<Rightarrow> ir_function \<Rightarrow> value_map \<Rightarrow> lowered \<Rightarrow> bool" where
  "finishedAs lv m a f vm l \<longleftrightarrow> instructionOk lv m a f vm l \<and>
     list_all2 (standsFor lv) (fullOperands lv f (lo_old l)) (map fst (lo_operands l))"

lemma finishLowered_effect:
  assumes "finishLowered lv fm vm f l = Inr l'" "loweredAs lv m a f vm (lo_old l) l"
  shows "lo_old l' = lo_old l \<and> lo_type l' = lo_type l \<and> finishedAs lv m a f vm l'"
proof (cases "isPhi (lo_old l)")
  case True
  then obtain vs where vs: "in_op (lo_old l) = OPhi vs" by (auto simp: isPhi_def split: operation.splits)
  then have "addIncoming lv fm vm f l vs = Inr l'" using assms(1) by (simp add: finishLowered_def)
  then obtain ws where ws: "l' = l\<lparr>lo_operands := lo_operands l @ ws\<rparr>" "list_all2 (standsFor lv) vs (map fst ws)" "list_all (\<lambda>w. operandOk lv vm w \<and> snd w = lo_type l) ws"
    using addIncoming_effect by blast
  have "lo_operands l = []" using assms(2) True by (simp add: loweredAs_def)
  then show ?thesis using ws assms(2) vs
    by (auto simp: finishedAs_def loweredAs_def instructionOk_def ruleOk_def fullOperands_def list_all_iff)
next
  case False
  then have "l' = l" using assms(1) by (auto simp: finishLowered_def isPhi_def split: operation.splits)
  then show ?thesis using assms(2) False by (simp add: finishedAs_def loweredAs_def)
qed

lemma finishBlock_effect:
  "finishBlock lv fm vm f ls = Inr ls' \<Longrightarrow> list_all (\<lambda>l. loweredAs lv m a f vm (lo_old l) l) ls \<Longrightarrow>
     map lo_old ls' = map lo_old ls \<and> map lo_type ls' = map lo_type ls \<and> list_all (finishedAs lv m a f vm) ls'"
  by (induction ls arbitrary: ls') (auto simp: bindE_eq_Inr dest: finishLowered_effect)

lemma finishBlocks_effect:
  "finishBlocks lv fm vm f bs = Inr bs' \<Longrightarrow>
     list_all (\<lambda>(b, ls). map lo_old ls = keptCode lv f (fn_blocks f ! b) \<and> list_all (\<lambda>l. loweredAs lv m a f vm (lo_old l) l) ls) bs \<Longrightarrow>
     map fst bs' = map fst bs \<and>
     list_all2 (\<lambda>(b, ls) (b', ls'). b' = b \<and> map lo_old ls' = map lo_old ls \<and> map lo_type ls' = map lo_type ls) bs bs' \<and>
     list_all (\<lambda>(b, ls). map lo_old ls = keptCode lv f (fn_blocks f ! b) \<and> list_all (finishedAs lv m a f vm) ls) bs'"
proof (induction bs arbitrary: bs')
  case (Cons p bs)
  obtain b ls where p: "p = (b, ls)" by (cases p)
  then obtain ls' rest where r: "finishBlock lv fm vm f ls = Inr ls'" "finishBlocks lv fm vm f bs = Inr rest" "bs' = (b, ls') # rest"
    using Cons.prems(1) by (auto simp: bindE_eq_Inr)
  then show ?case using Cons.IH [OF r(2)] Cons.prems(2) p finishBlock_effect [OF r(1), of m a] by auto
qed simp

end
