(* ===== verification/Lowering_Order.thy ===== *)
theory Lowering_Order
  imports Lowering_Facts "HOL-Library.Multiset"
begin

text \<open>
  The order in which the blocks of a function are lowered: every block once, and a block after the blocks
  above it in the dominator tree.
\<close>

fun treeBlocks :: "dom_tree \<Rightarrow> nat list"
  and forestBlocks :: "dom_tree list \<Rightarrow> nat list" where
  "treeBlocks (DomNode b ts) = b # forestBlocks ts"
| "forestBlocks [] = []"
| "forestBlocks (t # ts) = treeBlocks t @ forestBlocks ts"

lemma preorder_distinct:
  "distinct (treeBlocks t) \<Longrightarrow> set (treeBlocks t) \<inter> set order = {} \<Longrightarrow> collectDominancePreorder t order = order @ treeBlocks t"
  "distinct (forestBlocks ts) \<Longrightarrow> set (forestBlocks ts) \<inter> set order = {} \<Longrightarrow> collectChildren ts order = order @ forestBlocks ts"
proof (induction t order and ts order rule: collectDominancePreorder_collectChildren.induct)
  case (3 t ts order)
  have "collectDominancePreorder t order = order @ treeBlocks t" using 3 by auto
  moreover have "collectChildren ts (order @ treeBlocks t) = (order @ treeBlocks t) @ forestBlocks ts"
    using 3(2) 3(3,4) calculation by (intro "3.IH"(2) [unfolded calculation]) auto
  ultimately show ?case by simp
qed (auto split: if_splits)

text \<open>The tree of a function names each of its blocks at most once.\<close>

definition treeOf :: "nat \<Rightarrow> dom_tree option \<Rightarrow> bool" where
  "treeOf n tree \<longleftrightarrow> (case tree of Some t \<Rightarrow> distinct (treeBlocks t) \<and> set (treeBlocks t) \<subseteq> {..<n} | None \<Rightarrow> True)"

definition orderedBlocks :: "dom_tree option \<Rightarrow> nat list" where
  "orderedBlocks tree = (case tree of Some t \<Rightarrow> treeBlocks t | None \<Rightarrow> [])"

lemma loweringOrder_alt: "treeOf n tree \<Longrightarrow> loweringOrder tree n = orderedBlocks tree @ filter (\<lambda>b. b \<notin> set (orderedBlocks tree)) [0 ..< n]"
  using preorder_distinct(1) [of _ "[]"] by (auto simp: loweringOrder_def treeOf_def orderedBlocks_def Let_def split: option.splits)

lemma loweringOrder_blocks:
  assumes "treeOf n tree"
  shows "distinct (loweringOrder tree n)" "set (loweringOrder tree n) = {..<n}"
  using assms by (auto simp: loweringOrder_alt) (auto simp: treeOf_def orderedBlocks_def split: option.splits)

section \<open>Dominance\<close>

text \<open>Block \<open>a\<close> is above block \<open>b\<close> in the tree.\<close>

fun above :: "dom_tree \<Rightarrow> nat \<Rightarrow> nat \<Rightarrow> bool"
  and aboveForest :: "dom_tree list \<Rightarrow> nat \<Rightarrow> nat \<Rightarrow> bool" where
  "above (DomNode c ts) a b \<longleftrightarrow> a = c \<and> b \<in> set (forestBlocks ts) \<or> aboveForest ts a b"
| "aboveForest [] a b \<longleftrightarrow> False"
| "aboveForest (t # ts) a b \<longleftrightarrow> above t a b \<or> aboveForest ts a b"

lemma above_split:
  "above t a b \<Longrightarrow> \<exists>xs ys. treeBlocks t = xs @ b # ys \<and> a \<in> set xs"
  "aboveForest ts a b \<Longrightarrow> \<exists>xs ys. forestBlocks ts = xs @ b # ys \<and> a \<in> set xs"
proof (induction t and ts rule: treeBlocks_forestBlocks.induct)
  case (1 c ts)
  show ?case
  proof (cases "aboveForest ts a b")
    case True
    then obtain xs ys where "forestBlocks ts = xs @ b # ys" "a \<in> set xs" using 1 by blast
    then show ?thesis by (intro exI [of _ "c # xs"] exI [of _ ys]) simp
  next
    case False
    then have "a = c" "b \<in> set (forestBlocks ts)" using 1(2) by auto
    then obtain xs ys where "forestBlocks ts = xs @ b # ys" by (metis split_list)
    then show ?thesis using \<open>a = c\<close> by (intro exI [of _ "c # xs"] exI [of _ ys]) simp
  qed
next
  case (3 t ts)
  consider "above t a b" | "aboveForest ts a b" using 3(3) by auto
  then show ?case
  proof cases
    case 1
    then obtain xs ys where "treeBlocks t = xs @ b # ys" "a \<in> set xs" using 3(1) by blast
    then show ?thesis by (intro exI [of _ xs] exI [of _ "ys @ forestBlocks ts"]) simp
  next
    case 2
    then obtain xs ys where "forestBlocks ts = xs @ b # ys" "a \<in> set xs" using 3(2) by blast
    then show ?thesis by (intro exI [of _ "treeBlocks t @ xs"] exI [of _ ys]) simp
  qed
qed simp

lemma above_before:
  assumes "treeOf n (Some t)" "above t a b" "loweringOrder (Some t) n = xs @ b # ys"
  shows "a \<in> set xs"
proof -
  obtain us vs where us: "treeBlocks t = us @ b # vs" "a \<in> set us" using above_split(1) [OF assms(2)] by blast
  then obtain ws where "loweringOrder (Some t) n = us @ b # ws" using loweringOrder_alt [OF assms(1)] by (simp add: orderedBlocks_def)
  moreover have "distinct (loweringOrder (Some t) n)" using loweringOrder_blocks [OF assms(1)] by blast
  ultimately have "us = xs" using assms(3) by (metis append_Cons_eq_iff distinct.simps(2) distinct_append not_distinct_conv_prefix in_set_conv_decomp append_eq_append_conv2 disjoint_iff list.set_intros(1))
  then show ?thesis using us by simp
qed

section \<open>Present operands\<close>

text \<open>A value that instructions \<open>is\<close> define, an argument, or a constant.\<close>

definition definedBy :: "lowering_view \<Rightarrow> ir_function \<Rightarrow> instruction list \<Rightarrow> val \<Rightarrow> bool" where
  "definedBy lv f is v \<longleftrightarrow> list_ex (\<lambda>j. v = selfOf f j \<and> lv_type lv v \<noteq> LVoid \<and> \<not> skipped lv f j) is"

definition isArgument :: "lowering_view \<Rightarrow> ir_function \<Rightarrow> val \<Rightarrow> bool" where
  "isArgument lv f v \<longleftrightarrow> (case v of VArg g n \<Rightarrow> g = fn_id f \<and> n < length (snd (lv_signature lv g)) | _ \<Rightarrow> False)"

definition available :: "lowering_view \<Rightarrow> ir_function \<Rightarrow> instruction list \<Rightarrow> val \<Rightarrow> bool" where
  "available lv f is v \<longleftrightarrow> constantClass lv v \<noteq> CNotConstant \<or> isArgument lv f v \<or> definedBy lv f is v"

fun blockInOrder :: "lowering_view \<Rightarrow> ir_function \<Rightarrow> instruction list \<Rightarrow> instruction list \<Rightarrow> bool" where
  "blockInOrder lv f before [] \<longleftrightarrow> True"
| "blockInOrder lv f before (i # is) \<longleftrightarrow>
     (isPhi i \<or> skipped lv f i \<or> list_all (available lv f before) (fullOperands lv f i)) \<and> blockInOrder lv f (before @ [i]) is"

definition codeAbove :: "ir_function \<Rightarrow> dom_tree \<Rightarrow> nat \<Rightarrow> instruction list" where
  "codeAbove f t b = concat (map (\<lambda>a. fn_blocks f ! a) (filter (\<lambda>a. above t a b) [0 ..< length (fn_blocks f)]))"

text \<open>The form of LLVM's SSA code: a value is used below its definition, an incoming value is defined.\<close>

definition usesDominated :: "lowering_view \<Rightarrow> ir_function \<Rightarrow> bool" where
  "usesDominated lv f \<longleftrightarrow>
     (case lv_domTree lv (fn_id f) of
        None \<Rightarrow> False
      | Some t \<Rightarrow>
          list_all (\<lambda>b. blockInOrder lv f (codeAbove f t b) (fn_blocks f ! b)) [0 ..< length (fn_blocks f)] \<and>
          list_all (\<lambda>i. case in_op i of OPhi vs \<Rightarrow> list_all (available lv f (instructionsOf f)) vs | _ \<Rightarrow> True) (instructionsOf f))"

text \<open>The map of values has the arguments and what \<open>is\<close> defines.\<close>

definition covers :: "lowering_view \<Rightarrow> ir_function \<Rightarrow> value_map \<Rightarrow> instruction list \<Rightarrow> bool" where
  "covers lv f vm is \<longleftrightarrow> (\<forall>v. isArgument lv f v \<or> definedBy lv f is v \<longrightarrow> vm v \<noteq> None)"

lemma covers_present: "covers lv f vm is \<Longrightarrow> available lv f is v \<Longrightarrow> present lv vm v"
  by (auto simp: covers_def available_def present_def)

lemma lowerInstruction_present:
  assumes "isPhi i \<or> skipped lv f i \<or> list_all (present lv vm) (fullOperands lv f i)"
  shows "lowerInstruction lv m a fm f returnType vm i \<noteq> Inl (CouldNotRemap u)"
proof (cases "in_op i")
  case (OCall c args)
  have "list_all (present lv vm) args \<and> ((\<forall>g. lv_strip lv c \<noteq> VFunc g) \<longrightarrow> present lv vm c)" if "\<not> skipped lv f i"
    using assms OCall that by (auto simp: isPhi_def fullOperands_def split: val.splits)
  then show ?thesis using OCall
    by (auto simp: lowerInstruction_def lowerCall_def skipped_def bindE_eq_Inl mapValue_present mapValues_present lowerArguments_present
        split: if_splits val.splits)
next
  case OOther
  then have "list_all (present lv vm) (lv_operands lv (fn_id f) (in_id i))"
    using assms by (simp add: isPhi_def skipped_def fullOperands_def)
  then show ?thesis using OOther
    by (auto simp: lowerInstruction_def cloneGenericInstruction_def lowerICmp_def bindE_eq_Inl mapValue_present cloneOperands_present Let_def
        split: list.splits if_splits)
qed (use assms in \<open>auto simp: lowerInstruction_def lowerAlloca_def lowerLoad_def lowerStore_def lowerGEP_def lowerSelect_def lowerFreeze_def
       lowerReturn_def cloneGenericInstruction_def isPhi_def skipped_def fullOperands_def bindE_eq_Inl mapValue_present mapValues_present
       split: if_splits option.splits\<close>)

text \<open>A result whose error, if any, is not a missing value.\<close>

definition remapped :: "('a \<Rightarrow> bool) \<Rightarrow> lower_error + 'a \<Rightarrow> bool" where
  "remapped P r \<longleftrightarrow> (case r of Inl e \<Rightarrow> \<forall>u. e \<noteq> CouldNotRemap u | Inr x \<Rightarrow> P x)"

lemma remapped_simps [simp]: "remapped P (Inr x) = P x" "remapped P (Inl e) = (\<forall>u. e \<noteq> CouldNotRemap u)"
  by (simp_all add: remapped_def)

lemma remapped_bind: "remapped P r \<Longrightarrow> (\<And>x. r = Inr x \<Longrightarrow> P x \<Longrightarrow> remapped Q (f x)) \<Longrightarrow> remapped Q (bindE r f)"
  by (cases r) simp_all

lemma remapped_Inl: "\<forall>u. r \<noteq> Inl (CouldNotRemap u) \<Longrightarrow> (\<And>x. r = Inr x \<Longrightarrow> P x) \<Longrightarrow> remapped P r"
  by (cases r) simp_all

lemma covers_step:
  assumes "covers lv f vm before"
  shows "skipped lv f i \<Longrightarrow> covers lv f vm (before @ [i])"
    "covers lv f (if lv_type lv (selfOf f i) = LVoid then vm else vm(selfOf f i \<mapsto> t)) (before @ [i])"
  using assms by (auto simp: covers_def definedBy_def)

lemma lowerBlock_present:
  "covers lv f vm before \<Longrightarrow> blockInOrder lv f before is \<Longrightarrow>
     remapped (\<lambda>p. covers lv f (fst p) (before @ is)) (lowerBlock lv m a fm f returnType is vm)"
proof (induction "is" arbitrary: vm before)
  case (Cons i "is")
  let ?r = "lowerInstruction lv m a fm f returnType vm i"
  have none: "\<forall>u. ?r \<noteq> Inl (CouldNotRemap u)"
    using Cons.prems covers_present by (intro allI lowerInstruction_present) (auto simp: list_all_iff)
  have rest: "remapped (\<lambda>p. covers lv f (fst p) (before @ i # is)) (lowerBlock lv m a fm f returnType is vm'')"
    if "covers lv f vm'' (before @ [i])" for vm''
    using Cons.IH [OF that] Cons.prems(2) by simp
  show ?case unfolding lowerBlock.simps
  proof (rule remapped_bind [where P = "\<lambda>_. True"], rule remapped_Inl [OF none])
    fix r assume r: "?r = Inr r"
    show "remapped (\<lambda>p. covers lv f (fst p) (before @ i # is)) (case r of
         None \<Rightarrow> lowerBlock lv m a fm f returnType is vm
       | Some l \<Rightarrow>
           bindE (lowerBlock lv m a fm f returnType is (if lv_type lv (selfOf f i) = LVoid then vm else vm(selfOf f i \<mapsto> lo_type l)))
             (\<lambda>(vm, ls). Inr (vm, l # ls)))"
    proof (cases r)
      case None
      then show ?thesis using r rest [OF covers_step(1) [OF Cons.prems(1)]] lowerInstruction_None by fastforce
    next
      case (Some l)
      show ?thesis unfolding Some option.case
        by (rule remapped_bind [OF rest [OF covers_step(2) [OF Cons.prems(1)]]]) (simp add: case_prod_beta)
    qed
  qed simp
qed simp

definition codeOf :: "ir_function \<Rightarrow> nat list \<Rightarrow> instruction list" where
  "codeOf f bs = concat (map (\<lambda>a. fn_blocks f ! a) bs)"

lemma definedBy_mono: "definedBy lv f is v \<Longrightarrow> set is \<subseteq> set js \<Longrightarrow> definedBy lv f js v"
  by (auto simp: definedBy_def list_ex_iff)

lemma available_mono: "available lv f is v \<Longrightarrow> set is \<subseteq> set js \<Longrightarrow> available lv f js v"
  by (auto simp: available_def dest: definedBy_mono)

lemma blockInOrder_mono: "blockInOrder lv f before is \<Longrightarrow> set before \<subseteq> set before' \<Longrightarrow> blockInOrder lv f before' is"
proof (induction "is" arbitrary: before before')
  case (Cons i "is")
  have "blockInOrder lv f (before' @ [i]) is" using Cons.IH [of "before @ [i]" "before' @ [i]"] Cons.prems by auto
  then show ?case using Cons.prems available_mono [of lv f before _ before'] by (auto simp: list_all_iff)
qed simp

lemma lowerBlocks_present:
  assumes "treeOf n (Some t)" "loweringOrder (Some t) n = done @ rest" "n = length (fn_blocks f)"
    and "\<forall>b < n. blockInOrder lv f (codeAbove f t b) (fn_blocks f ! b)" "covers lv f vm (codeOf f done)"
  shows "remapped (\<lambda>p. covers lv f (fst p) (codeOf f (done @ rest))) (lowerBlocks lv m a fm f returnType rest vm)"
  using assms(2,5)
proof (induction rest arbitrary: "done" vm)
  case (Cons b rest)
  have "b < n" using loweringOrder_blocks(2) [OF assms(1)] Cons.prems(1) by auto
  have "{a. above t a b} \<subseteq> set done" using above_before [OF assms(1) _ Cons.prems(1)] by blast
  then have "set (codeAbove f t b) \<subseteq> set (codeOf f done)" by (auto simp: codeAbove_def codeOf_def)
  then have "blockInOrder lv f (codeOf f done) (fn_blocks f ! b)" using assms(4) \<open>b < n\<close> blockInOrder_mono by blast
  from lowerBlock_present [OF Cons.prems(2) this, of m a fm returnType]
  have one: "remapped (\<lambda>p. covers lv f (fst p) (codeOf f (done @ [b]))) (lowerBlock lv m a fm f returnType (fn_blocks f ! b) vm)"
    by (simp add: codeOf_def)
  have two: "remapped (\<lambda>p. covers lv f (fst p) (codeOf f (done @ b # rest))) (lowerBlocks lv m a fm f returnType rest vm')"
    if "covers lv f vm' (codeOf f (done @ [b]))" for vm'
    using Cons.IH [of "done @ [b]", OF _ that] Cons.prems(1) by simp
  show ?case unfolding lowerBlocks.simps case_prod_beta
    by (rule remapped_bind [OF one], rule remapped_bind [OF two]) simp_all
qed simp

section \<open>Functions\<close>

lemma addIncoming_present:
  "list_all (present lv vm) vs \<Longrightarrow> remapped (\<lambda>_. True) (addIncoming lv fm vm f phi vs)"
proof (induction vs arbitrary: phi)
  case (Cons v vs)
  have "remapped (\<lambda>_. True) (mapValue lv fm vm v (lo_type phi))"
    using Cons.prems by (intro remapped_Inl) (simp_all add: mapValue_present)
  then show ?case unfolding addIncoming.simps by (rule remapped_bind) (use Cons in simp)
qed simp

definition incomingPresent :: "lowering_view \<Rightarrow> value_map \<Rightarrow> instruction \<Rightarrow> bool" where
  "incomingPresent lv vm i \<longleftrightarrow> (case in_op i of OPhi vs \<Rightarrow> list_all (present lv vm) vs | _ \<Rightarrow> True)"

lemma finishBlock_present:
  "list_all (\<lambda>l. incomingPresent lv vm (lo_old l)) ls \<Longrightarrow> remapped (\<lambda>_. True) (finishBlock lv fm vm f ls)"
proof (induction ls)
  case (Cons l ls)
  have one: "remapped (\<lambda>_. True) (finishLowered lv fm vm f l)"
    using Cons.prems addIncoming_present by (auto simp: finishLowered_def incomingPresent_def split: operation.splits)
  show ?case unfolding finishBlock.simps
    by (rule remapped_bind [OF one], rule remapped_bind [where P = "\<lambda>_. True"]) (use Cons in simp_all)
qed simp

lemma finishBlocks_present:
  "list_all (\<lambda>p. list_all (\<lambda>l. incomingPresent lv vm (lo_old l)) (snd p)) bs \<Longrightarrow> remapped (\<lambda>_. True) (finishBlocks lv fm vm f bs)"
proof (induction bs)
  case (Cons p bs)
  obtain b ls where p: "p = (b, ls)" by (cases p)
  have one: "remapped (\<lambda>_. True) (finishBlock lv fm vm f ls)" using Cons.prems p by (simp add: finishBlock_present)
  show ?case unfolding p finishBlocks.simps
    by (rule remapped_bind [OF one], rule remapped_bind [where P = "\<lambda>_. True"]) (use Cons in simp_all)
qed simp

lemma codeOf_all: "codeOf f [0 ..< length (fn_blocks f)] = instructionsOf f"
  by (simp add: codeOf_def instructionsOf_def map_nth)

lemma codeOf_order:
  assumes "treeOf (length (fn_blocks f)) tree"
  shows "mset (codeOf f (loweringOrder tree (length (fn_blocks f)))) = mset (instructionsOf f)"
proof -
  have "mset (loweringOrder tree (length (fn_blocks f))) = mset [0 ..< length (fn_blocks f)]"
    using set_eq_iff_mset_eq_distinct [OF loweringOrder_blocks(1) [OF assms] distinct_upt [of 0 "length (fn_blocks f)"]]
      loweringOrder_blocks(2) [OF assms] by (simp only: set_upt atLeast0LessThan simp_thms)
  moreover have "mset (codeOf f bs) = sum_mset (image_mset (\<lambda>b. mset (fn_blocks f ! b)) (mset bs))" for bs
    by (induction bs) (simp_all add: codeOf_def)
  ultimately have "mset (codeOf f (loweringOrder tree (length (fn_blocks f)))) = mset (codeOf f [0 ..< length (fn_blocks f)])"
    by (simp only:)
  then show ?thesis by (simp add: codeOf_all)
qed

lemma argumentTypes_inst [simp]: "argumentTypes f s (selfOf g i) = None"
  by (simp add: argumentTypes_def selfOf_def)

lemma lowerBlocks_whole:
  assumes "wellNumbered m" "f \<in> set m" "treeOf (length (fn_blocks f)) tree"
    and "lowerBlocks lv m a fm f r (loweringOrder tree (length (fn_blocks f))) (argumentTypes f s) = Inr (vm, bs)"
  shows "newTypes f (argumentTypes f s) vm (concat (map snd bs)) \<and> map fst bs = loweringOrder tree (length (fn_blocks f)) \<and>
    list_all (\<lambda>(b, ls). map lo_old ls = keptCode lv f (fn_blocks f ! b) \<and> list_all (\<lambda>l. loweredAs lv m a f vm (lo_old l) l) ls) bs"
proof (rule lowerBlocks_effect [OF assms(4)])
  have "distinct (map in_id (instructionsOf f))" using assms(1,2) by (simp add: wellNumbered_def)
  moreover have "mset (map in_id (codeOf f (loweringOrder tree (length (fn_blocks f))))) = mset (map in_id (instructionsOf f))"
    using codeOf_order [OF assms(3)] by simp
  ultimately show "distinct (map in_id (concat (map ((!) (fn_blocks f)) (loweringOrder tree (length (fn_blocks f))))))"
    unfolding codeOf_def by (metis mset_eq_imp_distinct_iff)
qed simp

lemma lowered_member:
  assumes "wellNumbered m" "f \<in> set m" "treeOf (length (fn_blocks f)) tree"
    and "lowerBlocks lv m a fm f r (loweringOrder tree (length (fn_blocks f))) (argumentTypes f s) = Inr (vm, bs)"
    and "(b, ls) \<in> set bs" "l \<in> set ls"
  shows "lo_old l \<in> set (instructionsOf f)"
proof -
  note w = lowerBlocks_whole [OF assms(1-4)]
  have "b \<in> set (map fst bs)" using assms(5) by force
  then have "b < length (fn_blocks f)" using w loweringOrder_blocks(2) [OF assms(3)] by simp
  then have sub: "set (fn_blocks f ! b) \<subseteq> set (instructionsOf f)" unfolding instructionsOf_def by (simp add: UN_upper)
  have "map lo_old ls = keptCode lv f (fn_blocks f ! b)" using w assms(5) by (auto simp: list_all_iff)
  then have "lo_old ` set ls \<subseteq> set (fn_blocks f ! b)" by (metis filter_is_subset keptCode_def list.set_map)
  then show ?thesis using sub assms(6) by blast
qed

lemma incoming_present:
  assumes "usesDominated lv f" "covers lv f vm is" "set is = set (instructionsOf f)" "i \<in> set (instructionsOf f)"
  shows "incomingPresent lv vm i"
proof (cases "in_op i")
  case (OPhi vs)
  have "list_all (available lv f (instructionsOf f)) vs"
    using assms(1,4) OPhi by (fastforce simp: usesDominated_def list_all_iff split: option.splits)
  then show ?thesis using OPhi covers_present [OF assms(2)] available_mono [of lv f "instructionsOf f" _ "is"] assms(3)
    by (simp add: incomingPresent_def list_all_iff)
qed (simp_all add: incomingPresent_def)

lemma rebuildFunction_present:
  assumes "wellNumbered m" "f \<in> set m" "treeOf (length (fn_blocks f)) (lv_domTree lv (fn_id f))" "usesDominated lv f"
    and "length (snd s) = length (snd (lv_signature lv (fn_id f)))"
  shows "remapped (\<lambda>_. True) (rebuildFunction lv m a fm f s)"
proof -
  let ?n = "length (fn_blocks f)"
  obtain t where t: "lv_domTree lv (fn_id f) = Some t" using assms(4) by (auto simp: usesDominated_def split: option.splits)
  let ?order = "loweringOrder (Some t) ?n"
  have tree: "treeOf ?n (Some t)" using assms(3) t by simp
  have start: "covers lv f (argumentTypes f s) (codeOf f [])"
    using assms(5) by (auto simp: covers_def isArgument_def argumentTypes_def definedBy_def codeOf_def split: val.splits)
  have blocks: "\<forall>b < ?n. blockInOrder lv f (codeAbove f t b) (fn_blocks f ! b)"
    using assms(4) t by (simp add: usesDominated_def list_all_iff)
  have lower: "remapped (\<lambda>p. covers lv f (fst p) (codeOf f ?order)) (lowerBlocks lv m a fm f (fst s) ?order (argumentTypes f s))"
    using lowerBlocks_present [OF tree _ refl blocks start, of ?order] by simp
  have all: "set (codeOf f ?order) = set (instructionsOf f)"
    using codeOf_order [OF tree] by (rule mset_eq_setD)
  show ?thesis unfolding rebuildFunction_def t case_prod_beta
  proof (rule remapped_bind [OF lower])
    fix p assume p: "lowerBlocks lv m a fm f (fst s) ?order (argumentTypes f s) = Inr p" "covers lv f (fst p) (codeOf f ?order)"
    show "remapped (\<lambda>_. True) (bindE (finishBlocks lv fm (fst p) f (snd p)) (\<lambda>bs.
       Inr \<lparr>nf_old = f, nf_signature = s,
         nf_blocks = map (\<lambda>b. case map_of bs b of Some ls \<Rightarrow> ls | None \<Rightarrow> []) [0 ..< ?n]\<rparr>))"
    proof (rule remapped_bind [OF finishBlocks_present])
      have "list_all (\<lambda>l. incomingPresent lv (fst p) (lo_old l)) ls" if "(b, ls) \<in> set (snd p)" for b ls
      proof -
        have "lo_old l \<in> set (instructionsOf f)" if "l \<in> set ls" for l
          using lowered_member [OF assms(1,2) tree _ \<open>(b, ls) \<in> set (snd p)\<close> that] p(1) by (metis prod.collapse)
        then show ?thesis using incoming_present [OF assms(4) p(2) all] by (simp add: list_all_iff)
      qed
      then show "list_all (\<lambda>q. list_all (\<lambda>l. incomingPresent lv (fst p) (lo_old l)) (snd q)) (snd p)"
        unfolding list_all_iff by (metis prod.collapse)
    qed simp
  qed
qed

section \<open>What a rebuilt function is\<close>

text \<open>The new type of a value: that of its parameter, or of the instruction that stands for it.\<close>

definition newType :: "new_function \<Rightarrow> value_map" where
  "newType nf v =
     (case v of
        VArg g n \<Rightarrow> argumentTypes (nf_old nf) (nf_signature nf) v
      | VInst g k \<Rightarrow>
          if g = fn_id (nf_old nf) then map_option lo_type (List.find (\<lambda>l. in_id (lo_old l) = k) (concat (nf_blocks nf))) else None
      | _ \<Rightarrow> None)"

definition rebuiltAs :: "lowering_view \<Rightarrow> ir_module \<Rightarrow> analysis \<Rightarrow> new_function \<Rightarrow> bool" where
  "rebuiltAs lv m a nf \<longleftrightarrow>
     map (map lo_old) (nf_blocks nf) = map (keptCode lv (nf_old nf)) (fn_blocks (nf_old nf)) \<and>
     list_all (list_all (finishedAs lv m a (nf_old nf) (newType nf))) (nf_blocks nf)"

lemma keptCode_concat: "concat (map (keptCode lv f) bs) = keptCode lv f (concat bs)"
  by (induction bs) (simp_all add: keptCode_def)

lemma newType_lowered:
  assumes "distinct (map in_id (instructionsOf (nf_old nf)))"
    and "map (map lo_old) (nf_blocks nf) = map (keptCode lv (nf_old nf)) (fn_blocks (nf_old nf))" "l \<in> set (concat (nf_blocks nf))"
  shows "newType nf (selfOf (nf_old nf) (lo_old l)) = Some (lo_type l)"
proof -
  have "map lo_old (concat (nf_blocks nf)) = keptCode lv (nf_old nf) (instructionsOf (nf_old nf))"
    unfolding instructionsOf_def keptCode_concat [symmetric] assms(2) [symmetric] by (simp add: map_concat)
  then have "map in_id (map lo_old (concat (nf_blocks nf))) = map in_id (keptCode lv (nf_old nf) (instructionsOf (nf_old nf)))" by simp
  then have "distinct (map (\<lambda>l. in_id (lo_old l)) (concat (nf_blocks nf)))"
    using distinct_map_filter [OF assms(1)] by (simp add: keptCode_def comp_def)
  from find_distinct [OF this assms(3)] show ?thesis by (simp add: newType_def selfOf_def)
qed

lemma finishedAs_mono: "finishedAs lv m a f vm l \<Longrightarrow> vm \<subseteq>\<^sub>m vm' \<Longrightarrow> finishedAs lv m a f vm' l"
  by (auto simp: finishedAs_def instructionOk_def list_all_iff intro: operandOk_mono)

lemma same_fields:
  assumes "map lo_old ls' = map lo_old ls" "map lo_type ls' = map lo_type ls" "l \<in> set ls"
  shows "\<exists>l'. l' \<in> set ls' \<and> lo_old l' = lo_old l \<and> lo_type l' = lo_type l"
proof -
  obtain i where i: "i < length ls" "l = ls ! i" using assms(3) by (metis in_set_conv_nth)
  have len: "length ls' = length ls" using map_eq_imp_length_eq [OF assms(1)] .
  have "map lo_old ls' ! i = map lo_old ls ! i" "map lo_type ls' ! i = map lo_type ls ! i" using assms(1,2) by simp_all
  then show ?thesis using i len by (intro exI [of _ "ls' ! i"]) simp
qed

lemma vm_below_newType:
  assumes "distinct (map in_id (instructionsOf (nf_old nf)))"
    and "map (map lo_old) (nf_blocks nf) = map (keptCode lv (nf_old nf)) (fn_blocks (nf_old nf))"
    and "newTypes f vm0 vm (concat (map snd bs))"
    and "list_all2 (\<lambda>(b, ls) (b', ls'). b' = b \<and> map lo_old ls' = map lo_old ls \<and> map lo_type ls' = map lo_type ls) bs bs'"
    and "\<forall>v t. vm0 v = Some t \<longrightarrow> newType nf v = Some t" "nf_old nf = f" "snd ` set bs' \<subseteq> set (nf_blocks nf)"
  shows "vm \<subseteq>\<^sub>m newType nf"
proof -
  have "newType nf v = Some t" if v: "vm v = Some t" for v t
  proof (cases "vm0 v = Some t")
    case False
    then obtain l where l: "l \<in> set (concat (map snd bs))" "v = selfOf f (lo_old l)" "t = lo_type l"
      using assms(3) v unfolding newTypes_def by blast
    then obtain p where "p \<in> set bs" "l \<in> set (snd p)" by auto
    then obtain k where k: "k < length bs" "l \<in> set (snd (bs ! k))" unfolding in_set_conv_nth [of p] by blast
    then have same: "map lo_old (snd (bs' ! k)) = map lo_old (snd (bs ! k))" "map lo_type (snd (bs' ! k)) = map lo_type (snd (bs ! k))"
      "k < length bs'"
      using assms(4) by (auto simp: list_all2_conv_all_nth case_prod_beta)
    then obtain l' where l': "l' \<in> set (snd (bs' ! k))" "lo_old l' = lo_old l" "lo_type l' = lo_type l"
      using same_fields [OF same(1,2) k(2)] by blast
    have "snd (bs' ! k) \<in> set (nf_blocks nf)" using assms(7) same(3) by (meson image_subset_iff nth_mem)
    then have "l' \<in> set (concat (nf_blocks nf))" using l'(1) by auto
    from newType_lowered [OF assms(1,2) this] show ?thesis using l l' assms(6) by simp
  qed (use assms(5) in blast)
  then show ?thesis unfolding map_le_def dom_def by auto
qed

lemma gathered:
  assumes "distinct (map fst bs)" "set (map fst bs) = {..<n}"
    and "blocks = map (\<lambda>b. case map_of bs b of Some ls \<Rightarrow> ls | None \<Rightarrow> []) [0 ..< n]"
  shows "(b, ls) \<in> set bs \<Longrightarrow> b < n \<and> blocks ! b = ls" "b < n \<Longrightarrow> (b, blocks ! b) \<in> set bs"
proof -
  show one: "b < n \<and> blocks ! b = ls" if "(b, ls) \<in> set bs" for b ls
  proof -
    have "b \<in> set (map fst bs)" using that by (metis fst_conv image_eqI set_map)
    then have "b < n" using assms(2) by simp
    then show ?thesis using map_of_is_SomeI [OF assms(1) that] by (simp add: assms(3))
  qed
  show "(b, blocks ! b) \<in> set bs" if "b < n"
  proof -
    have "b \<in> fst ` set bs" using assms(2) that by simp
    then obtain ls where "(b, ls) \<in> set bs" by fastforce
    then show ?thesis using one [of b ls] by simp
  qed
qed

lemma rebuildFunction_effect:
  assumes "wellNumbered m" "f \<in> set m" "treeOf (length (fn_blocks f)) (lv_domTree lv (fn_id f))"
    and "rebuildFunction lv m a fm f s = Inr nf"
  shows "nf_old nf = f \<and> nf_signature nf = s \<and> rebuiltAs lv m a nf"
proof -
  let ?n = "length (fn_blocks f)" and ?order = "loweringOrder (lv_domTree lv (fn_id f)) (length (fn_blocks f))"
  obtain vm bs bs' where r: "lowerBlocks lv m a fm f (fst s) ?order (argumentTypes f s) = Inr (vm, bs)"
    "finishBlocks lv fm vm f bs = Inr bs'"
    "nf = \<lparr>nf_old = f, nf_signature = s, nf_blocks = map (\<lambda>b. case map_of bs' b of Some ls \<Rightarrow> ls | None \<Rightarrow> []) [0 ..< ?n]\<rparr>"
    using assms(4) unfolding rebuildFunction_def by (auto simp: bindE_eq_Inr)
  have nf: "nf_old nf = f" "nf_signature nf = s"
    "nf_blocks nf = map (\<lambda>b. case map_of bs' b of Some ls \<Rightarrow> ls | None \<Rightarrow> []) [0 ..< ?n]" by (simp_all add: r(3))
  have len: "length (nf_blocks nf) = ?n" by (simp add: nf(3))
  note w = lowerBlocks_whole [OF assms(1-3) r(1)]
  note g = finishBlocks_effect [OF r(2) conjunct2 [OF conjunct2 [OF w]]]
  have keys: "map fst bs' = ?order" using w g by simp
  have dist: "distinct (map fst bs')" "set (map fst bs') = {..<?n}"
    unfolding keys using loweringOrder_blocks [OF assms(3)] by simp_all
  note at = gathered [OF dist nf(3)]
  have each: "map lo_old (nf_blocks nf ! b) = keptCode lv f (fn_blocks f ! b) \<and> list_all (finishedAs lv m a f vm) (nf_blocks nf ! b)"
    if "b < ?n" for b
    using bspec [OF iffD1 [OF list_all_iff conjunct2 [OF conjunct2 [OF g]]] at(2) [OF that]] by simp
  have olds: "map (map lo_old) (nf_blocks nf) = map (keptCode lv f) (fn_blocks f)"
    using each by (intro nth_equalityI) (simp_all add: len)
  have "vm \<subseteq>\<^sub>m newType nf"
  proof (rule vm_below_newType [OF _ _ conjunct1 [OF w] conjunct1 [OF conjunct2 [OF g]] _ nf(1)])
    show "distinct (map in_id (instructionsOf (nf_old nf)))" using assms(1,2) by (simp add: nf(1) wellNumbered_def)
    show "map (map lo_old) (nf_blocks nf) = map (keptCode lv (nf_old nf)) (fn_blocks (nf_old nf))" using olds by (simp add: nf(1))
    have "newType nf v = Some t" if "argumentTypes f s v = Some t" for v t
      using that by (cases v) (simp_all add: newType_def nf(1,2) argumentTypes_def)
    then show "\<forall>v t. argumentTypes f s v = Some t \<longrightarrow> newType nf v = Some t" by blast
    have "ls \<in> set (nf_blocks nf)" if "(b, ls) \<in> set bs'" for b ls
      using at(1) [OF that] nth_mem [of b "nf_blocks nf"] len by simp
    then show "snd ` set bs' \<subseteq> set (nf_blocks nf)" by auto
  qed
  moreover have "list_all (finishedAs lv m a f vm) ls" if "ls \<in> set (nf_blocks nf)" for ls
    using each that len by (metis in_set_conv_nth)
  ultimately have "list_all (list_all (finishedAs lv m a f (newType nf))) (nf_blocks nf)"
    unfolding list_all_iff by (metis finishedAs_mono)
  then show ?thesis using olds by (simp add: rebuiltAs_def nf(1,2))
qed

end
