(* ===== verification/Lowering_Properties.thy ===== *)
theory Lowering_Properties
  imports Lowering_Order Managed_State_Properties
begin

text \<open>
  The properties of the lowering of managed pointers.
\<close>

section \<open>All functions of a module\<close>

text \<open>LLVM's dominator trees: a tree names blocks of its function, each at most once.\<close>

definition treesOf :: "lowering_view \<Rightarrow> ir_module \<Rightarrow> bool" where
  "treesOf lv m \<longleftrightarrow> list_all (\<lambda>f. treeOf (length (fn_blocks f)) (lv_domTree lv (fn_id f))) m"

lemma rebuildFunctions_effect:
  assumes "rebuildFunctions lv m a fm rs = Inr nfs" "wellNumbered m" "treesOf lv m"
  shows "map (\<lambda>nf. (fn_id (nf_old nf), nf_signature nf)) nfs =
      filter (\<lambda>r. case functionAt m (fst r) of Some f \<Rightarrow> \<not> fn_isDeclaration f | None \<Rightarrow> False) rs \<and>
    (\<forall>nf \<in> set nfs. nf_old nf \<in> set m \<and> rebuiltAs lv m a nf)"
  using assms(1)
proof (induction rs arbitrary: nfs)
  case (Cons r rs)
  obtain g s where r: "r = (g, s)" by (cases r)
  show ?case
  proof (cases "\<exists>f. functionAt m g = Some f \<and> \<not> fn_isDeclaration f")
    case True
    then obtain f where f: "functionAt m g = Some f" "\<not> fn_isDeclaration f" by blast
    obtain n ns where n: "rebuildFunction lv m a fm f s = Inr n" "rebuildFunctions lv m a fm rs = Inr ns" "nfs = n # ns"
      using Cons.prems f by (auto simp: r bindE_eq_Inr)
    have mem: "f \<in> set m" "fn_id f = g" using functionAt_Some [OF f(1)] by simp_all
    have "treeOf (length (fn_blocks f)) (lv_domTree lv (fn_id f))" using assms(3) mem(1) by (simp add: treesOf_def list_all_iff)
    from rebuildFunction_effect [OF assms(2) mem(1) this n(1)] show ?thesis using Cons.IH [OF n(2)] f mem n(3) by (simp add: r)
  next
    case False
    then have "rebuildFunctions lv m a fm rs = Inr nfs" using Cons.prems by (auto simp: r split: option.splits)
    then show ?thesis using Cons.IH False by (auto simp: r split: option.split)
  qed
qed simp

lemma runLowering_Inr:
  assumes "runLowering lv i64 order m a = Inr lm"
  shows "createFunctionReplacements lv i64 m a m = Inr (lm_replacements lm)"
    "rebuildFunctions lv m a (map_of (lm_replacements lm)) (order (lm_replacements lm)) = Inr (lm_functions lm)"
    "\<forall>r \<in> set (order (lm_replacements lm)). \<not> usesRemain lv m (lm_replacements lm) r"
    "lm_kept lm = filter (\<lambda>f. fn_id f \<notin> set (map fst (lm_replacements lm))) m"
proof -
  obtain rs fs where r: "createFunctionReplacements lv i64 m a m = Inr rs" "rebuildFunctions lv m a (map_of rs) (order rs) = Inr fs"
    "(case List.find (usesRemain lv m rs) (order rs) of Some r \<Rightarrow> Inl (UsesRemain (fst r))
       | None \<Rightarrow> Inr \<lparr>lm_kept = filter (\<lambda>f. fn_id f \<notin> set (map fst rs)) m, lm_replacements = rs, lm_functions = fs\<rparr>) = Inr lm"
    using assms unfolding runLowering_def bindE_eq_Inr by (elim exE conjE) (rule that)
  have none: "List.find (usesRemain lv m rs) (order rs) = None"
    and lm: "lm = \<lparr>lm_kept = filter (\<lambda>f. fn_id f \<notin> set (map fst rs)) m, lm_replacements = rs, lm_functions = fs\<rparr>"
    using r(3) by (simp_all split: option.splits)
  show "createFunctionReplacements lv i64 m a m = Inr (lm_replacements lm)"
    "rebuildFunctions lv m a (map_of (lm_replacements lm)) (order (lm_replacements lm)) = Inr (lm_functions lm)"
    "\<forall>r \<in> set (order (lm_replacements lm)). \<not> usesRemain lv m (lm_replacements lm) r"
    "lm_kept lm = filter (\<lambda>f. fn_id f \<notin> set (map fst (lm_replacements lm))) m"
    using r(1,2) none unfolding find_None_iff by (simp_all add: lm, blast)
qed

lemma createFunctionReplacements_effect:
  "createFunctionReplacements lv i64 m a fs = Inr rs \<Longrightarrow>
     rs = map (\<lambda>f. (fn_id f, if fn_isDeclaration f then buildManagedRuntimeDeclarationType lv i64 f else buildReplacementType lv a f))
       (filter (\<lambda>f. shouldLowerFunction m a f = Inr True) fs)"
proof (induction fs arbitrary: rs)
  case (Cons f fs)
  obtain b where b: "shouldLowerFunction m a f = Inr b" using Cons.prems by (auto simp: bindE_eq_Inr)
  show ?case
  proof (cases b)
    case True
    then obtain rest where "createFunctionReplacements lv i64 m a fs = Inr rest"
      "rs = (fn_id f, if fn_isDeclaration f then buildManagedRuntimeDeclarationType lv i64 f else buildReplacementType lv a f) # rest"
      using Cons.prems b by (auto simp: bindE_eq_Inr)
    then show ?thesis using Cons.IH b True by simp
  next
    case False
    then show ?thesis using Cons b by simp
  qed
qed simp


text \<open>The signature of a function after the pass: that of its replacement.\<close>

lemma lowered_functions:
  assumes "runLowering lv i64 order m a = Inr lm" "wellNumbered m" "treesOf lv m"
    and "set (order (lm_replacements lm)) = set (lm_replacements lm)" "nf \<in> set (lm_functions lm)"
  shows "nf_old nf \<in> set m" "\<not> fn_isDeclaration (nf_old nf)" "nf_signature nf = buildReplacementType lv a (nf_old nf)" "rebuiltAs lv m a nf"
proof -
  let ?rs = "lm_replacements lm"
  note r = runLowering_Inr [OF assms(1)]
  note e = rebuildFunctions_effect [OF r(2) assms(2,3)]
  show old: "nf_old nf \<in> set m" and "rebuiltAs lv m a nf" using e assms(5) by blast+
  have "(fn_id (nf_old nf), nf_signature nf) \<in> set (map (\<lambda>nf. (fn_id (nf_old nf), nf_signature nf)) (lm_functions lm))"
    using assms(5) by simp
  then have pair: "(fn_id (nf_old nf), nf_signature nf) \<in> set ?rs"
    and decl: "case functionAt m (fn_id (nf_old nf)) of Some f \<Rightarrow> \<not> fn_isDeclaration f | None \<Rightarrow> False"
    unfolding conjunct1 [OF e] using assms(4) by auto
  then show nd: "\<not> fn_isDeclaration (nf_old nf)" using functionAt_member [OF assms(2) old] by simp
  obtain f where f: "f \<in> set m" "fn_id (nf_old nf) = fn_id f"
    "nf_signature nf = (if fn_isDeclaration f then buildManagedRuntimeDeclarationType lv i64 f else buildReplacementType lv a f)"
    using pair createFunctionReplacements_effect [OF r(1)] by auto
  have "f = nf_old nf" using functionAt_member [OF assms(2) f(1)] functionAt_member [OF assms(2) old] f(2) by simp
  then show "nf_signature nf = buildReplacementType lv a (nf_old nf)" using f(3) nd by simp
qed

lemma every_function:
  assumes "runLowering lv i64 order m a = Inr lm" "wellNumbered m" "treesOf lv m"
    and "set (order (lm_replacements lm)) = set (lm_replacements lm)" "f \<in> set m" "\<not> fn_isDeclaration f"
  shows "f \<in> set (lm_kept lm) \<or> (\<exists>nf \<in> set (lm_functions lm). nf_old nf = f)"
proof (cases "fn_id f \<in> set (map fst (lm_replacements lm))")
  case True
  note r = runLowering_Inr [OF assms(1)]
  note e = rebuildFunctions_effect [OF r(2) assms(2,3)]
  obtain s where s: "(fn_id f, s) \<in> set (order (lm_replacements lm))" using True assms(4) by auto
  have "(fn_id f, s) \<in> set (map (\<lambda>nf. (fn_id (nf_old nf), nf_signature nf)) (lm_functions lm))"
    unfolding conjunct1 [OF e] using s functionAt_member [OF assms(2,5)] assms(6) by simp
  then obtain nf where nf: "nf \<in> set (lm_functions lm)" "fn_id (nf_old nf) = fn_id f" by auto
  have "nf_old nf \<in> set m" using e nf(1) by blast
  then have "nf_old nf = f" using functionAt_member [OF assms(2) assms(5)] functionAt_member [OF assms(2), of "nf_old nf"] nf(2) by simp
  then show ?thesis using nf(1) by blast
next
  case False
  then show ?thesis using runLowering_Inr(4) [OF assms(1)] assms(5) by simp
qed

lemma lowerManagedPointers_Inr:
  assumes "lowerManagedPointers lv i64 order m = Some r"
  obtains a where "analyse (lv_strip lv) m = Some a" "runLowering lv i64 order m a = r"
  using assms by (auto simp: lowerManagedPointers_def)

section \<open>An example\<close>

text \<open>The module that allocates an object, keeps it in a stack slot and returns it.\<close>

lemma exampleModule_at:
  "functionAt exampleModule g = (if g = 0 then Some exampleMalloc else if g = 1 then Some exampleMain else None)"
  by (simp add: functionAt_def exampleModule_def exampleMalloc_def exampleMain_def)

lemma exampleModule_instruction:
  "instructionAt exampleModule 1 k = List.find (\<lambda>i. in_id i = k) (instructionsOf exampleMain)"
  by (simp add: instructionAt_def exampleModule_at)

definition exampleStates :: analysis where
  "exampleStates = \<lparr>an_valueStates = [VInst 1 0 \<mapsto> kStateRaw, VInst 1 1 \<mapsto> kStateManagedObject, VInst 1 3 \<mapsto> kStateManagedObject],
     an_locationStates = [VInst 1 0 \<mapsto> kStateManagedObject], an_slotStates = [VInst 1 0 \<mapsto> kStateManagedObject],
     an_functionStates = [0 \<mapsto> \<lparr>fst_params = [], fst_returnState = 0\<rparr>, 1 \<mapsto> \<lparr>fst_params = [], fst_returnState = kStateManagedObject\<rparr>]\<rparr>"

lemmas visit_defs = visitModule_def visitFunction_def visitParams_def sequenceAll_def visitInstruction_def thenAlso_def noChange_def
  updateValueState_def updateLocationState_def updateSlotState_def updateReturnState_def updatePointerSourceState_def mergeInto_def
  mergeState_def stateIn_def stateEmpty_def getValueState.simps getTrackedSlot_def getSlotState_def getLocationState_def hasManaged_def
  functionStateOf_def visitCall_def getDirectCallee_def getCallResultState_def kStateRaw_def kStateManagedObject_def kStateManagedArray_def
  kStateNull_def Let_def selfOf_def

lemma exampleMain_code: "instructionsOf exampleMain =
    [\<lparr>in_id = 0, in_isPointer = True, in_op = OAlloca True\<rparr>,
         \<lparr>in_id = 1, in_isPointer = True, in_op = OCall (VFunc 0) []\<rparr>,
         \<lparr>in_id = 2, in_isPointer = False, in_op = OStore (VInst 1 1) (VInst 1 0)\<rparr>,
         \<lparr>in_id = 3, in_isPointer = True, in_op = OLoad (VInst 1 0)\<rparr>,
         \<lparr>in_id = 4, in_isPointer = False, in_op = ORet (Some (VInst 1 3))\<rparr>]"
  by (simp add: exampleMain_def instructionsOf_def)

lemma states: "initialAnalysis exampleModule = \<lparr>an_valueStates = Map.empty, an_locationStates = Map.empty, an_slotStates = Map.empty,
     an_functionStates = [0 \<mapsto> \<lparr>fst_params = [], fst_returnState = 0\<rparr>, 1 \<mapsto> \<lparr>fst_params = [], fst_returnState = 0\<rparr>]\<rparr>"
  by (auto simp: initialAnalysis_def exampleModule_at exampleMalloc_def exampleMain_def)

lemma mallocVisit:
 "visitFunction id exampleModule exampleMalloc a = (False, a)"
  by (simp add: visit_defs exampleMalloc_def instructionsOf_def)
lemma main_fields: "fn_id exampleMain = 1" "fn_params exampleMain = []" by (simp_all add: exampleMain_def)
lemma malloc_fields: "fn_id exampleMalloc = 0" "fn_isDeclaration exampleMalloc" "fn_returnsPointer exampleMalloc" "fn_name exampleMalloc = ''__mvm_malloc''" by (simp_all add: exampleMalloc_def)


lemmas example_visit = visit_defs exampleMain_code exampleModule_at exampleModule_instruction [simplified One_nat_def] main_fields
  malloc_fields exampleStates_def

lemma mainVisit:
  "visitFunction id exampleModule exampleMain (initialAnalysis exampleModule) = (True, exampleStates)"
  "visitFunction id exampleModule exampleMain exampleStates = (False, exampleStates)"
  by (simp_all add: states example_visit)

lemma moduleVisit: "visitModule id exampleModule = thenAlso (visitFunction id exampleModule exampleMalloc)
    (thenAlso (visitFunction id exampleModule exampleMain) noChange)"
  by (simp add: visitModule_def sequenceAll_def exampleModule_def)

lemma exampleModule_analysis: "analyse id exampleModule = Some exampleStates"
proof -
  have "visitModule id exampleModule (initialAnalysis exampleModule) = (True, exampleStates)"
    "visitModule id exampleModule exampleStates = (False, exampleStates)"
    by (simp_all add: moduleVisit thenAlso_def mallocVisit mainVisit noChange_def)
  then show ?thesis by (simp add: analyse_def runAnalysis_def doWhileChanged_go doWhileChanged_stop)
qed

definition exampleView :: lowering_view where
  "exampleView = \<lparr>lv_type = (\<lambda>v. case v of VInst g k \<Rightarrow> if k \<in> {2, 4} then LVoid else LPtr 0 | VInt w n \<Rightarrow> LType w | _ \<Rightarrow> LPtr 0),
     lv_allocated = (\<lambda>g k. LPtr 0), lv_signature = (\<lambda>g. (LPtr 0, [])), lv_constant = (\<lambda>v. COtherConstant),
     lv_operands = (\<lambda>g k. if k = 0 then [VInt 32 1] else []), lv_isICmp = (\<lambda>g k. False), lv_isInvoke = (\<lambda>g k. False),
     lv_isDbgInfo = (\<lambda>g k. False), lv_domTree = (\<lambda>g. if g = 1 then Some (DomNode 0 []) else None), lv_strip = id,
     lv_usedElsewhere = (\<lambda>g. False)\<rparr>"

definition exampleLowered :: lowered_module where
  "exampleLowered = \<lparr>lm_kept = [], lm_replacements = [(0, LPtr 1, []), (1, LPtr 1, [])],
     lm_functions = [\<lparr>nf_old = exampleMain, nf_signature = (LPtr 1, []), nf_blocks =
       [[\<lparr>lo_old = fn_blocks exampleMain ! 0 ! 0, lo_type = LPtr 0, lo_allocated = LPtr 1, lo_operands = [(VInt 32 1, LType 32)]\<rparr>,
         plainLowered (fn_blocks exampleMain ! 0 ! 1) (LPtr 1) [(VFunc 0, LPtr 0)],
         plainLowered (fn_blocks exampleMain ! 0 ! 2) LVoid [(VInst 1 1, LPtr 1), (VInst 1 0, LPtr 0)],
         plainLowered (fn_blocks exampleMain ! 0 ! 3) (LPtr 1) [(VInst 1 0, LPtr 0)],
         plainLowered (fn_blocks exampleMain ! 0 ! 4) LVoid [(VInst 1 3, LPtr 1)]]]\<rparr>]\<rparr>"

lemma exampleModule_lowered: "runLowering exampleView (LType 64) id exampleModule exampleStates = Inr exampleLowered"
  by code_simp

lemma exampleModule_lowers: "lowerManagedPointers exampleView (LType 64) id exampleModule = Some (Inr exampleLowered)"
proof -
  have "lv_strip exampleView = id" by (simp add: exampleView_def)
  then show ?thesis by (simp only: lowerManagedPointers_def exampleModule_analysis exampleModule_lowered option.map)
qed

lemma exampleView_trees: "treesOf exampleView exampleModule"
  by (simp add: treesOf_def treeOf_def exampleModule_def exampleMain_def exampleMalloc_def exampleView_def)

section \<open>The properties\<close>

text \<open>C25. When the lowering of managed pointers succeeds, every function with a body is kept or built again.
  Block by block a new function has one instruction for each old one but the debug intrinsics, in their order, and the
  operands of a new instruction stand for the operands of the old one, in their order: each is the value of the same name,
  or undef where the old one is poison.  The operands are those the lowering maps; operand bundles, the ordering of atomic
  accesses and metadata, which the code does not carry over, are not part of the model.\<close>

theorem lowering_keeps_operands:
  assumes "lowerManagedPointers lv i64 order m = Some (Inr lm)" "wellNumbered m" "treesOf lv m"
    and "set (order (lm_replacements lm)) = set (lm_replacements lm)"
  shows "(\<forall>f \<in> set m. \<not> fn_isDeclaration f \<longrightarrow> f \<in> set (lm_kept lm) \<or> (\<exists>nf \<in> set (lm_functions lm). nf_old nf = f)) \<and>
    (\<forall>nf \<in> set (lm_functions lm). nf_old nf \<in> set m \<and>
      map (map lo_old) (nf_blocks nf) = map (filter (\<lambda>i. \<not> skipped lv (nf_old nf) i)) (fn_blocks (nf_old nf)) \<and>
      (\<forall>l \<in> set (concat (nf_blocks nf)).
        list_all2 (standsFor lv) (fullOperands lv (nf_old nf) (lo_old l)) (map fst (lo_operands l))))"
proof -
  obtain a where a: "runLowering lv i64 order m a = Inr lm" by (rule lowerManagedPointers_Inr [OF assms(1)])
  have "map (map lo_old) (nf_blocks nf) = map (filter (\<lambda>i. \<not> skipped lv (nf_old nf) i)) (fn_blocks (nf_old nf)) \<and>
      (\<forall>l \<in> set (concat (nf_blocks nf)).
        list_all2 (standsFor lv) (fullOperands lv (nf_old nf) (lo_old l)) (map fst (lo_operands l)))"
    if "nf \<in> set (lm_functions lm)" for nf
    using lowered_functions(4) [OF a assms(2-4) that]
    by (auto simp: rebuiltAs_def list_all_iff finishedAs_def keptCode_def [abs_def])
  then show ?thesis using every_function [OF a assms(2-4)] lowered_functions(1) [OF a assms(2-4)] by blast
qed

lemma exampleLowered_function: "lm_functions exampleLowered ! 0 \<in> set (lm_functions exampleLowered)"
  by (simp add: exampleLowered_def)

theorem lowering_keeps_operands_witness:
  "map (map lo_old) (nf_blocks (lm_functions exampleLowered ! 0)) =
     map (filter (\<lambda>i. \<not> skipped exampleView (nf_old (lm_functions exampleLowered ! 0)) i)) (fn_blocks (nf_old (lm_functions exampleLowered ! 0)))"
  using lowering_keeps_operands [OF exampleModule_lowers exampleModule_numbered exampleView_trees] exampleLowered_function by simp

text \<open>C23. The lowered code is typed: in a new function a value has one type, the type of its parameter or of its
  instruction, at each of its uses; parameters and result have the types of their states, and loads, stores, phis,
  \<open>getelementptr\<close> and the instructions that are only copied keep the typing rules.\<close>

theorem lowered_code_is_typed:
  assumes "lowerManagedPointers lv i64 order m = Some (Inr lm)" "wellNumbered m" "treesOf lv m"
    and "set (order (lm_replacements lm)) = set (lm_replacements lm)" "analyse (lv_strip lv) m = Some a"
    and "nf \<in> set (lm_functions lm)"
  shows "nf_signature nf = buildReplacementType lv a (nf_old nf) \<and>
    (\<forall>l \<in> set (concat (nf_blocks nf)). newType nf (selfOf (nf_old nf) (lo_old l)) = Some (lo_type l) \<and>
       list_all (operandOk lv (newType nf)) (lo_operands l) \<and> ruleOk lv m a (nf_old nf) l)"
proof -
  have a: "runLowering lv i64 order m a = Inr lm" using lowerManagedPointers_Inr [OF assms(1)] assms(5) by (metis option.inject)
  note lf = lowered_functions [OF a assms(2-4,6)]
  have ids: "distinct (map in_id (instructionsOf (nf_old nf)))" using assms(2) lf(1) by (simp add: wellNumbered_def)
  have code: "map (map lo_old) (nf_blocks nf) = map (keptCode lv (nf_old nf)) (fn_blocks (nf_old nf))"
    and fin: "list_all (list_all (finishedAs lv m a (nf_old nf) (newType nf))) (nf_blocks nf)"
    using lf(4) by (simp_all add: rebuiltAs_def)
  show ?thesis using lf(3) newType_lowered [OF ids code] fin by (auto simp: list_all_iff finishedAs_def instructionOk_def)
qed

theorem lowered_code_is_typed_witness:
  "nf_signature (lm_functions exampleLowered ! 0) = buildReplacementType exampleView exampleStates (nf_old (lm_functions exampleLowered ! 0))"
proof -
  have "analyse (lv_strip exampleView) exampleModule = Some exampleStates" by (simp add: exampleView_def exampleModule_analysis)
  from lowered_code_is_typed [OF exampleModule_lowers exampleModule_numbered exampleView_trees _ this exampleLowered_function]
  show ?thesis by simp
qed

section \<open>Missing values\<close>

lemma rebuildFunctions_present:
  assumes "wellNumbered m" "treesOf lv m" "\<forall>f \<in> set m. fn_isDeclaration f \<or> usesDominated lv f"
    and "\<forall>(g, s) \<in> set rs. length (snd s) = length (snd (lv_signature lv g)) \<or> (\<exists>f. functionAt m g = Some f \<and> fn_isDeclaration f)"
  shows "remapped (\<lambda>_. True) (rebuildFunctions lv m a fm rs)"
  using assms(4)
proof (induction rs)
  case (Cons r rs)
  obtain g s where r: "r = (g, s)" by (cases r)
  have IH: "remapped (\<lambda>_. True) (rebuildFunctions lv m a fm rs)" using Cons by simp
  show ?case
  proof (cases "\<exists>f. functionAt m g = Some f \<and> \<not> fn_isDeclaration f")
    case True
    then obtain f where f: "functionAt m g = Some f" "\<not> fn_isDeclaration f" by blast
    have mem: "f \<in> set m" "fn_id f = g" using functionAt_Some [OF f(1)] by simp_all
    have "treeOf (length (fn_blocks f)) (lv_domTree lv (fn_id f))" "usesDominated lv f"
      using assms(2,3) mem(1) f(2) by (auto simp: treesOf_def list_all_iff)
    moreover have "length (snd s) = length (snd (lv_signature lv (fn_id f)))" using Cons.prems r f mem(2) by auto
    ultimately have one: "remapped (\<lambda>_. True) (rebuildFunction lv m a fm f s)"
      by (rule rebuildFunction_present [OF assms(1) mem(1)])
    show ?thesis unfolding r rebuildFunctions.simps f(1) option.case if_not_P [OF f(2)]
      by (rule remapped_bind [OF one], rule remapped_bind [OF IH]) simp
  next
    case False
    then have "rebuildFunctions lv m a fm (r # rs) = rebuildFunctions lv m a fm rs" by (auto simp: r split: option.split)
    then show ?thesis using IH by simp
  qed
qed simp

lemma shouldLowerFunction_Inl: "shouldLowerFunction m a f = Inl e \<Longrightarrow> e = AddressTaken (fn_id f)"
  by (auto simp: shouldLowerFunction_def split: if_splits)

lemma createFunctionReplacements_Inl: "createFunctionReplacements lv i64 m a fs = Inl e \<Longrightarrow> \<exists>g. e = AddressTaken g"
  by (induction fs) (auto simp: bindE_eq_Inl split: if_splits dest: shouldLowerFunction_Inl)

text \<open>C24. The lowering never meets an operand it has not lowered: for code in SSA form, where each use lies below its
  definition in the dominator tree, the order in which the blocks are visited gives every value its new one before
  it is used, whatever the order in which the functions are rebuilt.\<close>

theorem no_operand_is_missing:
  assumes "wellNumbered m" "treesOf lv m" "\<forall>f \<in> set m. fn_isDeclaration f \<or> usesDominated lv f"
    and "\<And>rs. set (order rs) \<subseteq> set rs"
  shows "lowerManagedPointers lv i64 order m \<noteq> Some (Inl (CouldNotRemap v))"
proof
  assume "lowerManagedPointers lv i64 order m = Some (Inl (CouldNotRemap v))"
  then obtain a where a: "runLowering lv i64 order m a = Inl (CouldNotRemap v)" by (rule lowerManagedPointers_Inr)
  have "remapped (\<lambda>_. True) (runLowering lv i64 order m a)"
    unfolding runLowering_def
  proof (rule remapped_bind [where P = "\<lambda>_. True"])
    show "remapped (\<lambda>_. True) (createFunctionReplacements lv i64 m a m)"
      by (rule remapped_Inl) (auto dest: createFunctionReplacements_Inl)
    fix rs assume rs: "createFunctionReplacements lv i64 m a m = Inr rs"
    have "length (snd s) = length (snd (lv_signature lv g)) \<or> (\<exists>f. functionAt m g = Some f \<and> fn_isDeclaration f)"
      if "(g, s) \<in> set rs" for g s
      using that createFunctionReplacements_effect [OF rs] functionAt_member [OF assms(1)]
      by (auto simp: buildReplacementType_def case_prod_beta)
    then have "remapped (\<lambda>_. True) (rebuildFunctions lv m a (map_of rs) (order rs))"
      using assms(4) [of rs] by (intro rebuildFunctions_present [OF assms(1-3)]) auto
    then show "remapped (\<lambda>_. True) (bindE (rebuildFunctions lv m a (map_of rs) (order rs)) (\<lambda>functions.
       case List.find (usesRemain lv m rs) (order rs) of
         Some r \<Rightarrow> Inl (UsesRemain (fst r))
       | None \<Rightarrow> Inr \<lparr>lm_kept = filter (\<lambda>f. fn_id f \<notin> set (map fst rs)) m, lm_replacements = rs, lm_functions = functions\<rparr>))"
      by (rule remapped_bind) (auto split: option.split)
  qed
  then show False using a by simp
qed

theorem no_operand_is_missing_witness:
  "lowerManagedPointers exampleView (LType 64) rev exampleModule \<noteq> Some (Inl (CouldNotRemap (VInst 1 1)))"
proof (rule no_operand_is_missing [OF exampleModule_numbered exampleView_trees])
  show "\<forall>f \<in> set exampleModule. fn_isDeclaration f \<or> usesDominated exampleView f"
    unfolding list_all_iff [symmetric] by code_simp
qed simp

section \<open>Mixed pointers\<close>

text \<open>A \<open>main\<close> that selects between an object and a stack slot.\<close>

definition mixingMain :: ir_function where
  "mixingMain = \<lparr>fn_id = 1, fn_name = ''main'', fn_isDeclaration = False, fn_hasAddressTaken = False,
     fn_isVarArg = False, fn_params = [], fn_returnsPointer = False, fn_blocks =
       [[\<lparr>in_id = 0, in_isPointer = True, in_op = OAlloca False\<rparr>,
         \<lparr>in_id = 1, in_isPointer = True, in_op = OCall (VFunc 0) []\<rparr>,
         \<lparr>in_id = 3, in_isPointer = True, in_op = OSelect (VInst 1 1) (VInst 1 0)\<rparr>,
         \<lparr>in_id = 4, in_isPointer = False, in_op = ORet None\<rparr>]]\<rparr>"

definition mixingModule :: ir_module where
  "mixingModule = [exampleMalloc, mixingMain]"

definition mixingView :: lowering_view where
  "mixingView = exampleView\<lparr>lv_signature := (\<lambda>g. if g = 0 then (LPtr 0, []) else (LVoid, [])),
     lv_operands := (\<lambda>g k. if k = 0 then [VInt 32 1] else if k = 3 then [VInt 1 0] else [])\<rparr>"

definition mixingStates :: analysis where
  "mixingStates = \<lparr>an_valueStates = [VInst 1 0 \<mapsto> kStateRaw, VInst 1 1 \<mapsto> kStateManagedObject, VInst 1 3 \<mapsto> 6],
     an_locationStates = [VInst 1 3 \<mapsto> kStateManagedObject], an_slotStates = Map.empty,
     an_functionStates = [0 \<mapsto> \<lparr>fst_params = [], fst_returnState = 0\<rparr>, 1 \<mapsto> \<lparr>fst_params = [], fst_returnState = 0\<rparr>]\<rparr>"

lemma mixing_fields: "fn_id mixingMain = 1" "fn_params mixingMain = []"
  "instructionsOf mixingMain = [\<lparr>in_id = 0, in_isPointer = True, in_op = OAlloca False\<rparr>,
         \<lparr>in_id = 1, in_isPointer = True, in_op = OCall (VFunc 0) []\<rparr>,
         \<lparr>in_id = 3, in_isPointer = True, in_op = OSelect (VInst 1 1) (VInst 1 0)\<rparr>,
         \<lparr>in_id = 4, in_isPointer = False, in_op = ORet None\<rparr>]"
  by (simp_all add: mixingMain_def instructionsOf_def)

lemma mixingModule_at:
  "functionAt mixingModule g = (if g = 0 then Some exampleMalloc else if g = 1 then Some mixingMain else None)"
  by (simp add: functionAt_def mixingModule_def exampleMalloc_def mixingMain_def)

lemma mixingModule_instruction: "instructionAt mixingModule (Suc 0) k = List.find (\<lambda>i. in_id i = k) (instructionsOf mixingMain)"
  by (simp add: instructionAt_def mixingModule_at)

lemma mixingModule_analysis: "analyse id mixingModule = Some mixingStates"
proof -
  have start: "initialAnalysis mixingModule = \<lparr>an_valueStates = Map.empty, an_locationStates = Map.empty, an_slotStates = Map.empty,
     an_functionStates = [0 \<mapsto> \<lparr>fst_params = [], fst_returnState = 0\<rparr>, 1 \<mapsto> \<lparr>fst_params = [], fst_returnState = 0\<rparr>]\<rparr>"
    by (auto simp: initialAnalysis_def mixingModule_at exampleMalloc_def mixingMain_def)
  have malloc: "visitFunction id mixingModule exampleMalloc a = (False, a)" for a
    by (simp add: visit_defs exampleMalloc_def instructionsOf_def)
  have main: "visitFunction id mixingModule mixingMain (initialAnalysis mixingModule) = (True, mixingStates)"
    "visitFunction id mixingModule mixingMain mixingStates = (False, mixingStates)"
    by (simp_all add: start visit_defs mixing_fields mixingModule_at mixingModule_instruction malloc_fields mixingStates_def)
  have "visitModule id mixingModule = thenAlso (visitFunction id mixingModule exampleMalloc)
    (thenAlso (visitFunction id mixingModule mixingMain) noChange)"
    by (simp add: visitModule_def sequenceAll_def mixingModule_def)
  then have "visitModule id mixingModule (initialAnalysis mixingModule) = (True, mixingStates)"
    "visitModule id mixingModule mixingStates = (False, mixingStates)"
    by (simp_all add: thenAlso_def malloc main noChange_def)
  then show ?thesis by (simp add: analyse_def runAnalysis_def doWhileChanged_go doWhileChanged_stop)
qed

definition newCode :: "lowered_module \<Rightarrow> (lty \<times> (val \<times> lty) list) list" where
  "newCode lm = map (\<lambda>l. (lo_type l, lo_operands l)) (concat (concat (map nf_blocks (lm_functions lm))))"

lemma mixing_lowered: "map_sum id newCode (runLowering mixingView (LType 64) id mixingModule mixingStates) = Inr
     [(LPtr 0, [(VInt 32 1, LType 32)]), (LPtr 1, [(VFunc 0, LPtr 0)]),
      (LPtr 1, [(VInt 1 0, LType 1), (VInst 1 1, LPtr 1), (VInst 1 0, LPtr 0)]), (LVoid, [])]"
  by code_simp

text \<open>C26. The lowering accepts a select between an object and a raw pointer, though its new instruction has a value
  of address space 1 and one of address space 0 as its two sides: unlike stores and phis, selects are not checked.\<close>

theorem mixed_select_is_not_rejected:
  "\<exists>lm. lowerManagedPointers mixingView (LType 64) id mixingModule = Some (Inr lm) \<and>
     newCode lm ! 2 = (LPtr 1, [(VInt 1 0, LType 1), (VInst 1 1, LPtr 1), (VInst 1 0, LPtr 0)])"
proof -
  obtain lm where lm: "runLowering mixingView (LType 64) id mixingModule mixingStates = Inr lm"
    using mixing_lowered by (cases "runLowering mixingView (LType 64) id mixingModule mixingStates") simp_all
  have "newCode lm ! 2 = (LPtr 1, [(VInt 1 0, LType 1), (VInst 1 1, LPtr 1), (VInst 1 0, LPtr 0)])"
    using mixing_lowered by (simp add: lm)
  moreover have "lowerManagedPointers mixingView (LType 64) id mixingModule = Some (Inr lm)"
    using mixingModule_analysis lm by (simp add: lowerManagedPointers_def mixingView_def exampleView_def)
  ultimately show ?thesis by blast
qed

end
