(* ===== verification/GC_Metadata.thy ===== *)
theory GC_Metadata
  imports GC_Polls Stackmap_Registry
begin

text \<open>
  The metadata that describes the statepoints LLVM has placed: \<open>annotateManagedGCMetadata\<close> of
  \<open>src/src/mvm/gc.cc\<close>, and the order of the GC passes.  The intrinsic that a function is and the operand
  bundles of a call are read from LLVM and are parameters, as are \<open>stripPointerCasts\<close> and LLVM's own rewriting of
  statepoints.
\<close>

section \<open>Calls of the GC intrinsics\<close>

datatype intrinsic = Statepoint | Relocate | OtherIntrinsic

record gc_view =
  gv_intrinsic :: "nat \<Rightarrow> intrinsic option"
  gv_bundles :: "nat \<Rightarrow> nat \<Rightarrow> (string \<times> nat) list"
  gv_strip :: "val \<Rightarrow> val"

text \<open>\<open>gv_bundles\<close>: the tags of the operand bundles of a call with the numbers of their inputs.\<close>

definition isIntrinsicCall :: "gc_view \<Rightarrow> ir_module \<Rightarrow> intrinsic \<Rightarrow> val \<Rightarrow> bool" where
  "isIntrinsicCall gv m ID callee \<longleftrightarrow>
     (case getCalledFunction m callee of Some f \<Rightarrow> gv_intrinsic gv (fn_id f) = Some ID | None \<Rightarrow> False)"

definition isStatepointCall :: "gc_view \<Rightarrow> ir_module \<Rightarrow> val \<Rightarrow> bool" where
  "isStatepointCall gv m callee = isIntrinsicCall gv m Statepoint callee"

definition isRelocateCall :: "gc_view \<Rightarrow> ir_module \<Rightarrow> val \<Rightarrow> bool" where
  "isRelocateCall gv m callee = isIntrinsicCall gv m Relocate callee"

fun liveRootsOf :: "(string \<times> nat) list \<Rightarrow> 32 word" where
  "liveRootsOf [] = 0"
| "liveRootsOf ((tag, inputs) # bundles) = (if tag \<noteq> ''gc-live'' then liveRootsOf bundles else of_nat inputs + liveRootsOf bundles)"

definition getLiveRootCount :: "gc_view \<Rightarrow> nat \<Rightarrow> nat \<Rightarrow> 32 word" where
  "getLiveRootCount gv f i = liveRootsOf (gv_bundles gv f i)"

definition describeStatepointTarget :: "gc_view \<Rightarrow> ir_module \<Rightarrow> val list \<Rightarrow> string" where
  "describeStatepointTarget gv m args =
     (if length args < 3 then ''<invalid>''
      else case gv_strip gv (args ! 2) of
        VFunc g \<Rightarrow> (case functionAt m g of Some f \<Rightarrow> fn_name f | None \<Rightarrow> [])
      | _ \<Rightarrow> ''<indirect>'')"

definition isSafepointPollStatepoint :: "gc_view \<Rightarrow> ir_module \<Rightarrow> val list \<Rightarrow> bool" where
  "isSafepointPollStatepoint gv m args \<longleftrightarrow> describeStatepointTarget gv m args = kRuntimeSafepointPollSymbol"

datatype metadata_error = MissingRelocateOperand nat | RelocateOperandNotConstant nat

definition getRelocateIndex :: "val list \<Rightarrow> nat \<Rightarrow> metadata_error + 32 word" where
  "getRelocateIndex args operandIndex =
     (if length args \<le> operandIndex then Inl (MissingRelocateOperand operandIndex)
      else case args ! operandIndex of
        VInt w n \<Rightarrow> Inr (of_nat n)
      | _ \<Rightarrow> Inl (RelocateOperandNotConstant operandIndex))"

section \<open>The first walk: relocations\<close>

type_synonym relocation = "nat \<times> nat \<times> val list"

text \<open>A relocation is named by its function and number, and comes with its arguments.  LLVM's verifier has
  checked that it has a first argument, the token of its statepoint.\<close>

definition relocatesIn :: "gc_view \<Rightarrow> ir_module \<Rightarrow> ir_function \<Rightarrow> relocation list" where
  "relocatesIn gv m f =
     List.map_filter (\<lambda>i. case in_op i of
         OCall callee args \<Rightarrow> if isRelocateCall gv m callee then Some (fn_id f, in_id i, args) else None
       | _ \<Rightarrow> None) (instructionsOf f)"

definition managedFunctions :: "gc_module \<Rightarrow> ir_function list" where
  "managedFunctions M = filter (isManagedGCFunction (gm_attributes M)) (gm_functions M)"

definition allRelocates :: "gc_view \<Rightarrow> gc_module \<Rightarrow> relocation list" where
  "allRelocates gv M = concat (map (relocatesIn gv (gm_functions M)) (managedFunctions M))"

definition relocatesByStatepoint :: "relocation list \<Rightarrow> val \<Rightarrow> relocation list" where
  "relocatesByStatepoint relocates statepoint = filter (\<lambda>(f, i, args). args \<noteq> [] \<and> args ! 0 = statepoint) relocates"

section \<open>The second walk: statepoints\<close>

record StatepointMetadata =
  sm_id :: u64
  sm_target :: string
  sm_liveRootCount :: "32 word"
  sm_relocateCount :: "32 word"
  sm_isPoll :: bool

record RelocateMetadata =
  rm_statepointId :: u64
  rm_baseIndex :: "32 word"
  rm_derivedIndex :: "32 word"

record FunctionGCInfo =
  gi_statepointCount :: "32 word"
  gi_relocateCount :: "32 word"
  gi_maxLiveRoots :: "32 word"

record annotation =
  ga_nextStatepointId :: u64
  ga_statepointCount :: "32 word"
  ga_safepointPollCount :: "32 word"
  ga_statepoints :: "nat \<times> nat \<rightharpoonup> StatepointMetadata"
  ga_relocates :: "nat \<times> nat \<rightharpoonup> RelocateMetadata"

fun annotateRelocates :: "u64 \<Rightarrow> relocation list \<Rightarrow> (nat \<times> nat \<rightharpoonup> RelocateMetadata) \<Rightarrow> metadata_error + (nat \<times> nat \<rightharpoonup> RelocateMetadata)" where
  "annotateRelocates statepointId [] t = Inr t"
| "annotateRelocates statepointId ((f, i, args) # rest) t =
     bindE (getRelocateIndex args 1) (\<lambda>baseIndex.
     bindE (getRelocateIndex args 2) (\<lambda>derivedIndex.
       annotateRelocates statepointId rest
         (t((f, i) \<mapsto> \<lparr>rm_statepointId = statepointId, rm_baseIndex = baseIndex, rm_derivedIndex = derivedIndex\<rparr>))))"

definition annotateStatepoint ::
  "gc_view \<Rightarrow> ir_module \<Rightarrow> relocation list \<Rightarrow> ir_function \<Rightarrow> nat \<Rightarrow> val list \<Rightarrow> FunctionGCInfo \<times> annotation \<Rightarrow>
     metadata_error + FunctionGCInfo \<times> annotation" where
  "annotateStatepoint gv m relocates f i args s =
     (let (info, a) = s;
          statepointId = ga_nextStatepointId a;
          liveRootCount = getLiveRootCount gv (fn_id f) i;
          mine = relocatesByStatepoint relocates (VInst (fn_id f) i);
          isPoll = isSafepointPollStatepoint gv m args
      in bindE (annotateRelocates statepointId mine (ga_relocates a)) (\<lambda>t.
        Inr (info\<lparr>gi_statepointCount := gi_statepointCount info + 1, gi_maxLiveRoots := max (gi_maxLiveRoots info) liveRootCount\<rparr>,
          a\<lparr>ga_nextStatepointId := statepointId + 1,
            ga_statepointCount := ga_statepointCount a + 1,
            ga_safepointPollCount := (if isPoll then ga_safepointPollCount a + 1 else ga_safepointPollCount a),
            ga_statepoints := (ga_statepoints a)((fn_id f, i) \<mapsto>
              \<lparr>sm_id = statepointId, sm_target = describeStatepointTarget gv m args, sm_liveRootCount = liveRootCount,
                sm_relocateCount = of_nat (length mine), sm_isPoll = isPoll\<rparr>),
            ga_relocates := t\<rparr>)))"

fun annotateInstructions ::
  "gc_view \<Rightarrow> ir_module \<Rightarrow> relocation list \<Rightarrow> ir_function \<Rightarrow> instruction list \<Rightarrow> FunctionGCInfo \<times> annotation \<Rightarrow>
     metadata_error + FunctionGCInfo \<times> annotation" where
  "annotateInstructions gv m relocates f [] s = Inr s"
| "annotateInstructions gv m relocates f (i # is) s =
     (case in_op i of
        OCall callee args \<Rightarrow>
          if isStatepointCall gv m callee
          then bindE (annotateStatepoint gv m relocates f (in_id i) args s) (annotateInstructions gv m relocates f is)
          else annotateInstructions gv m relocates f is s
      | _ \<Rightarrow> annotateInstructions gv m relocates f is s)"

fun annotateFunctions ::
  "gc_view \<Rightarrow> ir_module \<Rightarrow> relocation list \<Rightarrow> ir_function list \<Rightarrow> annotation \<Rightarrow> metadata_error + FunctionGCMetadata list \<times> annotation" where
  "annotateFunctions gv m relocates [] a = Inr ([], a)"
| "annotateFunctions gv m relocates (f # fs) a =
     bindE (annotateInstructions gv m relocates f (instructionsOf f) 
       (\<lparr>gi_statepointCount = 0, gi_relocateCount = of_nat (length (relocatesIn gv m f)), gi_maxLiveRoots = 0\<rparr>, a)) (\<lambda>(info, a).
     bindE (annotateFunctions gv m relocates fs a) (\<lambda>(rest, a).
       Inr (\<lparr>fm_function = fn_id f, fm_statepointCount = gi_statepointCount info,
             fm_relocateCount = gi_relocateCount info, fm_maxLiveRoots = gi_maxLiveRoots info\<rparr> # rest, a)))"

definition noAnnotation :: annotation where
  "noAnnotation = \<lparr>ga_nextStatepointId = 0, ga_statepointCount = 0, ga_safepointPollCount = 0,
     ga_statepoints = Map.empty, ga_relocates = Map.empty\<rparr>"

definition annotateManagedGCMetadata :: "gc_view \<Rightarrow> gc_module \<Rightarrow> metadata_error + gc_module \<times> annotation" where
  "annotateManagedGCMetadata gv M =
     (let relocates = allRelocates gv M
      in bindE (annotateFunctions gv (gm_functions M) relocates (managedFunctions M) noAnnotation) (\<lambda>(functionMetadata, a).
        Inr (M\<lparr>gm_functionMetadata := Some functionMetadata,
               gm_moduleMetadata := Some [\<lparr>mm_strategy = kManagedGCStrategy,
                 mm_managedFunctionCount = of_nat (length (managedFunctions M)), mm_statepointCount = ga_statepointCount a,
                 mm_relocateCount = of_nat (length relocates), mm_safepointPollCount = ga_safepointPollCount a\<rparr>]\<rparr>, a)))"

text \<open>All GC passes; \<open>rewrite\<close> is what LLVM's \<open>RewriteStatepointsForGC\<close> makes of the module.\<close>

definition runManagedGCPasses ::
  "(ir_function \<Rightarrow> bool) \<Rightarrow> (nat \<Rightarrow> loop list) \<Rightarrow> (nat set \<Rightarrow> nat list) \<Rightarrow> (gc_module \<Rightarrow> gc_module) \<Rightarrow> gc_view \<Rightarrow> gc_module \<Rightarrow>
     (metadata_error + gc_module \<times> annotation) option" where
  "runManagedGCPasses hasLoops loopsOf pointerOrder rewrite gv M =
     (case prepareManagedGCModule hasLoops M of
        None \<Rightarrow> None
      | Some M \<Rightarrow> Some (annotateManagedGCMetadata gv (rewrite (insertManagedSafepointPolls loopsOf pointerOrder M))))"

text \<open>The operands of the metadata of the functions, as the registry of stackmaps reads them: their names.\<close>

definition functionOrderOf :: "gc_module \<Rightarrow> string option list option" where
  "functionOrderOf M =
     map_option (map (\<lambda>r. map_option fn_name (functionAt (gm_functions M) (fm_function r)))) (gm_functionMetadata M)"

end
