(* ===== verification/GC_Metadata_Properties.thy ===== *)
theory GC_Metadata_Properties
  imports GC_Metadata
begin

text \<open>
  The properties of the GC metadata: the numbers of statepoints and relocations, and the order of the managed functions,
  by which the registry of stackmaps finds the functions.
\<close>

section \<open>Statepoints\<close>

text \<open>The statepoints of a function with the arguments of their calls.\<close>

definition statepointsIn :: "gc_view \<Rightarrow> ir_module \<Rightarrow> ir_function \<Rightarrow> instruction list \<Rightarrow> (nat \<times> val list) list" where
  "statepointsIn gv m f is =
     List.map_filter (\<lambda>i. case in_op i of
         OCall callee args \<Rightarrow> if isStatepointCall gv m callee then Some (in_id i, args) else None
       | _ \<Rightarrow> None) is"

lemma statepointsIn_simps [simp]:
  "statepointsIn gv m f [] = []"
  "statepointsIn gv m f (i # is) =
     (case in_op i of OCall callee args \<Rightarrow> if isStatepointCall gv m callee then (in_id i, args) # statepointsIn gv m f is
        else statepointsIn gv m f is | _ \<Rightarrow> statepointsIn gv m f is)"
  by (simp_all add: statepointsIn_def map_filter_simps split: operation.split)

text \<open>The walk over the instructions is the walk over the statepoints.\<close>

fun annotateStatepoints ::
  "gc_view \<Rightarrow> ir_module \<Rightarrow> relocation list \<Rightarrow> ir_function \<Rightarrow> (nat \<times> val list) list \<Rightarrow> FunctionGCInfo \<times> annotation \<Rightarrow>
     metadata_error + FunctionGCInfo \<times> annotation" where
  "annotateStatepoints gv m relocates f [] s = Inr s"
| "annotateStatepoints gv m relocates f ((i, args) # rest) s =
     bindE (annotateStatepoint gv m relocates f i args s) (annotateStatepoints gv m relocates f rest)"

lemma bindE_cong_right: "(\<And>x. f x = g x) \<Longrightarrow> bindE r f = bindE r g"
  by (cases r) simp_all

lemma annotateInstructions_statepoints:
  "annotateInstructions gv m relocates f is s = annotateStatepoints gv m relocates f (statepointsIn gv m f is) s"
  by (induction "is" arbitrary: s) (auto split: operation.split intro!: bindE_cong_right)

section \<open>The order of the functions\<close>

lemma annotateFunctions_order:
  "annotateFunctions gv m relocates fs a = Inr (rs, a') \<Longrightarrow> map fm_function rs = map fn_id fs"
  by (induction fs arbitrary: a rs) (auto simp: bindE_eq_Inr)

lemma functionOrder_names:
  assumes "annotateManagedGCMetadata gv M = Inr (M', a)" "distinct (map fn_id (gm_functions M))"
  shows "functionOrderOf M' = Some (map (\<lambda>f. Some (fn_name f)) (managedFunctions M))"
proof -
  obtain rs where rs: "annotateFunctions gv (gm_functions M) (allRelocates gv M) (managedFunctions M) noAnnotation = Inr (rs, a)"
    "gm_functionMetadata M' = Some rs" "gm_functions M' = gm_functions M"
    using assms(1) by (auto simp: annotateManagedGCMetadata_def bindE_eq_Inr Let_def)
  have at: "functionAt (gm_functions M) (fn_id f) = Some f" if "f \<in> set (managedFunctions M)" for f
    using that assms(2) by (simp add: functionAt_def managedFunctions_def find_distinct)
  have "map (\<lambda>r. map_option fn_name (functionAt (gm_functions M) (fm_function r))) rs =
      map (\<lambda>g. map_option fn_name (functionAt (gm_functions M) g)) (map fm_function rs)" by simp
  also have "\<dots> = map (\<lambda>f. Some (fn_name f)) (managedFunctions M)"
    unfolding annotateFunctions_order [OF rs(1)] using at by simp
  finally show ?thesis by (simp add: functionOrderOf_def rs(2,3))
qed

lemma recorded_order:
  assumes "annotateManagedGCMetadata gv M = Inr (M', a)" "distinct (map fn_id (gm_functions M))"
  shows "reg_managedFunctionOrder (recordManagedFunctionOrder (functionOrderOf M') reg) = map fn_name (managedFunctions M)"
  unfolding functionOrder_names [OF assms] by (simp add: recordManagedFunctionOrder_def map_filter_def comp_def)

text \<open>The functions that LLVM describes in a section of stackmaps: those with a statepoint, in the order of the module.\<close>

definition stackmapFunctions :: "gc_view \<Rightarrow> gc_module \<Rightarrow> ir_function list" where
  "stackmapFunctions gv M = filter (\<lambda>f. statepointsIn gv (gm_functions M) f (instructionsOf f) \<noteq> []) (managedFunctions M)"

text \<open>C33. The metadata lets the registry find the functions of a stackmap without relocations: when every managed function
  has a statepoint, the order that the metadata records gives each function that LLVM describes the address where its symbol
  was loaded.\<close>

theorem metadata_order_finds_functions:
  assumes "annotateManagedGCMetadata gv M = Inr (M', a)" "distinct (map fn_id (gm_functions M))"
    and "\<forall>f \<in> set (managedFunctions M). statepointsIn gv (gm_functions M) f (instructionsOf f) \<noteq> []"
    and "k < length (stackmapFunctions gv M)" "byName (fn_name (stackmapFunctions gv M ! k)) = Some s"
  shows "resolveFunctionAddress [] (reg_managedFunctionOrder (recordManagedFunctionOrder (functionOrderOf M') reg)) byName
    functionSymbols k address = fs_loadedAddress s"
proof -
  have "stackmapFunctions gv M = managedFunctions M" using assms(3) by (simp add: stackmapFunctions_def)
  then show ?thesis using assms(4,5) by (simp add: resolveFunctionAddress_def recorded_order [OF assms(1,2)])
qed

text \<open>Two managed functions: \<open>first\<close>, and \<open>second\<close> with a statepoint that calls \<open>first\<close>.\<close>

definition gcFunction :: "nat \<Rightarrow> string \<Rightarrow> instruction list \<Rightarrow> ir_function" where
  "gcFunction g name code = \<lparr>fn_id = g, fn_name = name, fn_isDeclaration = False, fn_hasAddressTaken = False, fn_isVarArg = False,
     fn_params = [], fn_returnsPointer = False, fn_blocks = [code]\<rparr>"

definition statepointIntrinsic :: ir_function where
  "statepointIntrinsic = \<lparr>fn_id = 9, fn_name = ''llvm.experimental.gc.statepoint.p0'', fn_isDeclaration = True,
     fn_hasAddressTaken = False, fn_isVarArg = True, fn_params = [False, False, True, False, False], fn_returnsPointer = False, fn_blocks = []\<rparr>"

definition statepointCall :: instruction where
  "statepointCall = \<lparr>in_id = 0, in_isPointer = False, in_op = OCall (VFunc 9) [VInt 64 1, VInt 32 0, VFunc 1, VInt 32 0, VInt 32 0]\<rparr>"

definition returnVoid :: instruction where
  "returnVoid = \<lparr>in_id = 1, in_isPointer = False, in_op = ORet None\<rparr>"

definition gcPair :: "instruction list \<Rightarrow> gc_module" where
  "gcPair code = \<lparr>gm_functions = [gcFunction 1 ''first'' code, gcFunction 2 ''second'' [statepointCall, returnVoid], statepointIntrinsic],
     gm_attributes = \<lparr>as_gcLeaf = {}, as_gc = [1 \<mapsto> kManagedGCStrategy, 2 \<mapsto> kManagedGCStrategy], as_framePointerAll = {}, as_noInline = {}\<rparr>,
     gm_moduleMetadata = None, gm_functionMetadata = None\<rparr>"

definition pairView :: gc_view where
  "pairView = \<lparr>gv_intrinsic = (\<lambda>g. if g = 9 then Some Statepoint else None), gv_bundles = (\<lambda>f i. [(''deopt'', 0), (''gc-live'', 2)]), gv_strip = id\<rparr>"

definition pairSymbols :: "string \<rightharpoonup> FunctionSymbolAddress" where
  "pairSymbols = [''first'' \<mapsto> \<lparr>fs_objectAddress = 0, fs_loadedAddress = 4096, fs_name = ''first''\<rparr>,
     ''second'' \<mapsto> \<lparr>fs_objectAddress = 16, fs_loadedAddress = 4112, fs_name = ''second''\<rparr>]"

lemmas pair_defs = gcPair_def gcFunction_def statepointIntrinsic_def statepointCall_def returnVoid_def pairView_def

definition recordedRegistry :: "gc_view \<Rightarrow> gc_module \<Rightarrow> GCStackMapRegistry" where
  "recordedRegistry gv M =
     (case annotateManagedGCMetadata gv M of
        Inr (M', a) \<Rightarrow> recordManagedFunctionOrder (functionOrderOf M') emptyRegistry | Inl e \<Rightarrow> emptyRegistry)"

lemma gcPair_managed: "managedFunctions (gcPair code) = [gcFunction 1 ''first'' code, gcFunction 2 ''second'' [statepointCall, returnVoid]]"
  by (simp add: managedFunctions_def isManagedGCFunction_def pair_defs kManagedGCStrategy_def)

lemma gcPair_call: "isStatepointCall pairView (gm_functions (gcPair code)) (VFunc 9)"
  by (simp add: isStatepointCall_def isIntrinsicCall_def getCalledFunction_def functionAt_def pair_defs)

theorem metadata_order_finds_functions_witness:
  "resolveFunctionAddress [] (reg_managedFunctionOrder (recordedRegistry pairView (gcPair [statepointCall, returnVoid]))) pairSymbols [] 1 0 = 4112"
proof -
  let ?M = "gcPair [statepointCall, returnVoid]"
  have "isl (annotateManagedGCMetadata pairView ?M) = False" by code_simp
  then obtain M' a where r: "annotateManagedGCMetadata pairView ?M = Inr (M', a)"
    by (cases "annotateManagedGCMetadata pairView ?M") auto
  have ids: "distinct (map fn_id (gm_functions ?M))" by (simp add: pair_defs)
  have sp: "statepointsIn pairView (gm_functions ?M) f [statepointCall, returnVoid] \<noteq> []" for f
    using gcPair_call [of "[statepointCall, returnVoid]"] by (simp add: statepointCall_def returnVoid_def)
  have all: "\<forall>f \<in> set (managedFunctions ?M). statepointsIn pairView (gm_functions ?M) f (instructionsOf f) \<noteq> []"
    using sp unfolding gcPair_managed by (simp add: gcFunction_def instructionsOf_def)
  then have "stackmapFunctions pairView ?M = managedFunctions ?M" by (simp add: stackmapFunctions_def)
  then have two: "stackmapFunctions pairView ?M ! 1 = gcFunction 2 ''second'' [statepointCall, returnVoid]" "1 < length (stackmapFunctions pairView ?M)"
    unfolding gcPair_managed by simp_all
  have "pairSymbols (fn_name (stackmapFunctions pairView ?M ! 1)) =
      Some \<lparr>fs_objectAddress = 16, fs_loadedAddress = 4112, fs_name = ''second''\<rparr>"
    unfolding two by (simp add: gcFunction_def pairSymbols_def)
  from metadata_order_finds_functions [where byName = pairSymbols and k = 1, OF r ids all two(2) this] show ?thesis by (simp add: recordedRegistry_def r)
qed

text \<open>C34. The order of the metadata counts managed functions without a statepoint, which LLVM does not describe in a stackmap:
  behind such a function the registry takes the records of one function for those of another.  Here LLVM describes only
  \<open>second\<close>, and the registry places its records at \<open>first\<close>.\<close>

theorem statepoint_free_function_shifts_the_order:
  "map fn_name (stackmapFunctions pairView (gcPair [returnVoid])) = [''second''] \<and>
   resolveFunctionAddress [] (reg_managedFunctionOrder (recordedRegistry pairView (gcPair [returnVoid]))) pairSymbols [] 0 0 = 4096 \<and>
   map_option fs_loadedAddress (pairSymbols ''second'') = Some 4112"
proof -
  let ?M = "gcPair [returnVoid]"
  have "isl (annotateManagedGCMetadata pairView ?M) = False" by code_simp
  then obtain M' a where r: "annotateManagedGCMetadata pairView ?M = Inr (M', a)"
    by (cases "annotateManagedGCMetadata pairView ?M") auto
  have ids: "distinct (map fn_id (gm_functions ?M))" by (simp add: pair_defs)
  have "reg_managedFunctionOrder (recordedRegistry pairView ?M) = [''first'', ''second'']"
    unfolding recordedRegistry_def r sum.case prod.case recorded_order [OF r ids] gcPair_managed by (simp add: gcFunction_def)
  then show ?thesis
    using gcPair_call [of "[returnVoid]"]
    by (simp add: resolveFunctionAddress_def pairSymbols_def stackmapFunctions_def gcPair_managed)
      (simp add: gcFunction_def instructionsOf_def statepointCall_def returnVoid_def)
qed

section \<open>The numbers of the statepoints\<close>

type_synonym statepoint = "nat \<times> nat \<times> val list"

definition allStatepoints :: "gc_view \<Rightarrow> ir_module \<Rightarrow> ir_function list \<Rightarrow> statepoint list" where
  "allStatepoints gv m fs = concat (map (\<lambda>f. map (\<lambda>(i, args). (fn_id f, i, args)) (statepointsIn gv m f (instructionsOf f))) fs)"

text \<open>What a statepoint adds to the annotation of the module.\<close>

definition addStatepoint :: "gc_view \<Rightarrow> ir_module \<Rightarrow> relocation list \<Rightarrow> statepoint \<Rightarrow> annotation \<Rightarrow> metadata_error + annotation" where
  "addStatepoint gv m relocates sp a =
     (case sp of (g, i, args) \<Rightarrow>
       bindE (annotateRelocates (ga_nextStatepointId a) (relocatesByStatepoint relocates (VInst g i)) (ga_relocates a)) (\<lambda>t.
         Inr (a\<lparr>ga_nextStatepointId := ga_nextStatepointId a + 1,
            ga_statepointCount := ga_statepointCount a + 1,
            ga_safepointPollCount := (if isSafepointPollStatepoint gv m args then ga_safepointPollCount a + 1 else ga_safepointPollCount a),
            ga_statepoints := (ga_statepoints a)((g, i) \<mapsto>
              \<lparr>sm_id = ga_nextStatepointId a, sm_target = describeStatepointTarget gv m args, sm_liveRootCount = getLiveRootCount gv g i,
                sm_relocateCount = of_nat (length (relocatesByStatepoint relocates (VInst g i))), sm_isPoll = isSafepointPollStatepoint gv m args\<rparr>),
            ga_relocates := t\<rparr>)))"

fun addStatepoints :: "gc_view \<Rightarrow> ir_module \<Rightarrow> relocation list \<Rightarrow> statepoint list \<Rightarrow> annotation \<Rightarrow> metadata_error + annotation" where
  "addStatepoints gv m relocates [] a = Inr a"
| "addStatepoints gv m relocates (sp # sps) a = bindE (addStatepoint gv m relocates sp a) (addStatepoints gv m relocates sps)"

lemma annotateStatepoint_adds:
  "annotateStatepoint gv m relocates f i args (info, a) = Inr (info', a') \<Longrightarrow> addStatepoint gv m relocates (fn_id f, i, args) a = Inr a'"
  by (auto simp: annotateStatepoint_def addStatepoint_def bindE_eq_Inr Let_def)

lemma annotateStatepoints_adds:
  "annotateStatepoints gv m relocates f sps (info, a) = Inr (info', a') \<Longrightarrow>
     addStatepoints gv m relocates (map (\<lambda>(i, args). (fn_id f, i, args)) sps) a = Inr a'"
proof (induction sps arbitrary: info a)
  case (Cons sp sps)
  obtain i args where sp: "sp = (i, args)" by (cases sp)
  obtain info1 a1 where r: "annotateStatepoint gv m relocates f i args (info, a) = Inr (info1, a1)"
    "annotateStatepoints gv m relocates f sps (info1, a1) = Inr (info', a')"
    using Cons.prems by (auto simp: sp bindE_eq_Inr)
  then show ?case using Cons.IH [OF r(2)] annotateStatepoint_adds [OF r(1)] by (simp add: sp)
qed simp

lemma addStatepoints_append:
  "addStatepoints gv m relocates (xs @ ys) a = bindE (addStatepoints gv m relocates xs a) (addStatepoints gv m relocates ys)"
proof (induction xs arbitrary: a)
  case (Cons x xs)
  then show ?case by (cases "addStatepoint gv m relocates x a") simp_all
qed simp

lemma annotateFunctions_adds:
  "annotateFunctions gv m relocates fs a = Inr (rs, a') \<Longrightarrow> addStatepoints gv m relocates (allStatepoints gv m fs) a = Inr a'"
proof (induction fs arbitrary: a rs)
  case (Cons f fs)
  obtain info a1 rs1 where r: "annotateStatepoints gv m relocates f (statepointsIn gv m f (instructionsOf f))
      (\<lparr>gi_statepointCount = 0, gi_relocateCount = of_nat (length (relocatesIn gv m f)), gi_maxLiveRoots = 0\<rparr>, a) = Inr (info, a1)"
    "annotateFunctions gv m relocates fs a1 = Inr (rs1, a')"
    using Cons.prems by (auto simp: bindE_eq_Inr annotateInstructions_statepoints)
  show ?case using annotateStatepoints_adds [OF r(1)] Cons.IH [OF r(2)] by (simp add: allStatepoints_def addStatepoints_append)
qed (simp add: allStatepoints_def)


definition keyOf :: "nat \<times> nat \<times> val list \<Rightarrow> nat \<times> nat" where
  "keyOf x = (fst x, fst (snd x))"

lemma keyOf_simp [simp]: "keyOf (f, i, args) = (f, i)"
  by (simp add: keyOf_def)

lemma annotateRelocates_effect:
  assumes "annotateRelocates ID rs t = Inr t'" "distinct (map keyOf rs)"
  shows "(\<forall>r \<in> set rs. \<exists>md. t' (keyOf r) = Some md \<and> rm_statepointId md = ID) \<and> (\<forall>k. k \<notin> keyOf ` set rs \<longrightarrow> t' k = t k)"
  using assms
proof (induction rs arbitrary: t)
  case (Cons r rs)
  obtain f i args where r: "r = (f, i, args)" by (cases r)
  obtain b d where n: "annotateRelocates ID rs (t((f, i) \<mapsto> \<lparr>rm_statepointId = ID, rm_baseIndex = b, rm_derivedIndex = d\<rparr>)) = Inr t'"
    using Cons.prems(1) by (auto simp: r bindE_eq_Inr)
  have "distinct (map keyOf rs)" "(f, i) \<notin> keyOf ` set rs" using Cons.prems(2) by (auto simp: r)
  then show ?case using Cons.IH [OF n] by (auto simp: r)
qed simp

definition relocatesOf :: "relocation list \<Rightarrow> statepoint \<Rightarrow> relocation list" where
  "relocatesOf relocates sp = relocatesByStatepoint relocates (VInst (fst sp) (fst (snd sp)))"

text \<open>The relocations of the statepoints \<open>sps\<close> are marked with the number of their statepoint; the others keep their mark.\<close>

definition numbered :: "relocation list \<Rightarrow> u64 \<Rightarrow> statepoint list \<Rightarrow> annotation \<Rightarrow> annotation \<Rightarrow> bool" where
  "numbered relocates n sps a a' \<longleftrightarrow>
     (\<forall>k < length sps.
        (\<exists>md. ga_statepoints a' (keyOf (sps ! k)) = Some md \<and> sm_id md = n + of_nat k) \<and>
        (\<forall>r \<in> set (relocatesOf relocates (sps ! k)).
           \<exists>md. ga_relocates a' (keyOf r) = Some md \<and> rm_statepointId md = n + of_nat k)) \<and>
     (\<forall>x. x \<notin> keyOf ` set sps \<longrightarrow> ga_statepoints a' x = ga_statepoints a x) \<and>
     (\<forall>x. (\<forall>sp \<in> set sps. x \<notin> keyOf ` set (relocatesOf relocates sp)) \<longrightarrow>
        ga_relocates a' x = ga_relocates a x)"

lemma relocates_other:
  assumes "distinct (map keyOf relocates)" "r \<in> set (relocatesByStatepoint relocates v)"
    and "keyOf r \<in> keyOf ` set (relocatesByStatepoint relocates w)"
  shows "v = w"
proof -
  obtain r' where r': "r' \<in> set (relocatesByStatepoint relocates w)" "keyOf r' = keyOf r" using assms(3) by (metis imageE)
  have "r \<in> set relocates" "r' \<in> set relocates" using assms(2) r'(1) by (simp_all add: relocatesByStatepoint_def)
  then have same: "r' = r" using assms(1) r'(2) unfolding distinct_map inj_on_def by blast
  show ?thesis using assms(2) r'(1) unfolding same relocatesByStatepoint_def set_filter by (cases r) simp
qed

lemma addStatepoint_numbers:
  assumes "addStatepoint gv m relocates sp a = Inr a'" "distinct (map keyOf relocates)"
  shows "numbered relocates (ga_nextStatepointId a) [sp] a a' \<and> ga_nextStatepointId a' = ga_nextStatepointId a + 1"
proof -
  obtain g i args where sp: "sp = (g, i, args)" by (cases sp)
  have "distinct (map keyOf (relocatesByStatepoint relocates v))" for v
    unfolding relocatesByStatepoint_def by (rule distinct_map_filter [OF assms(2)])
  note e = annotateRelocates_effect [OF _ this]
  obtain t where t: "annotateRelocates (ga_nextStatepointId a) (relocatesByStatepoint relocates (VInst g i)) (ga_relocates a) = Inr t"
    "ga_relocates a' = t" "ga_nextStatepointId a' = ga_nextStatepointId a + 1"
    "ga_statepoints a' = (ga_statepoints a)((g, i) \<mapsto> \<lparr>sm_id = ga_nextStatepointId a, sm_target = describeStatepointTarget gv m args,
       sm_liveRootCount = getLiveRootCount gv g i, sm_relocateCount = of_nat (length (relocatesByStatepoint relocates (VInst g i))),
       sm_isPoll = isSafepointPollStatepoint gv m args\<rparr>)"
    using assms(1) by (auto simp: addStatepoint_def sp bindE_eq_Inr)
  show ?thesis using e [OF t(1)] t(2-4) by (auto simp: numbered_def sp relocatesOf_def)
qed

lemma numberedD:
  assumes "numbered relocates n sps a a'"
  shows "k < length sps \<Longrightarrow> \<exists>md. ga_statepoints a' (keyOf (sps ! k)) = Some md \<and> sm_id md = n + of_nat k"
    "k < length sps \<Longrightarrow> r \<in> set (relocatesOf relocates (sps ! k)) \<Longrightarrow> \<exists>md. ga_relocates a' (keyOf r) = Some md \<and> rm_statepointId md = n + of_nat k"
    "x \<notin> keyOf ` set sps \<Longrightarrow> ga_statepoints a' x = ga_statepoints a x"
    "(\<And>sp. sp \<in> set sps \<Longrightarrow> x \<notin> keyOf ` set (relocatesOf relocates sp)) \<Longrightarrow> ga_relocates a' x = ga_relocates a x"
  using assms unfolding numbered_def by blast+

lemma numberedI:
  assumes "\<And>k. k < length sps \<Longrightarrow> \<exists>md. ga_statepoints a' (keyOf (sps ! k)) = Some md \<and> sm_id md = n + of_nat k"
    "\<And>k r. k < length sps \<Longrightarrow> r \<in> set (relocatesOf relocates (sps ! k)) \<Longrightarrow> \<exists>md. ga_relocates a' (keyOf r) = Some md \<and> rm_statepointId md = n + of_nat k"
    "\<And>x. x \<notin> keyOf ` set sps \<Longrightarrow> ga_statepoints a' x = ga_statepoints a x"
    "\<And>x. (\<And>sp. sp \<in> set sps \<Longrightarrow> x \<notin> keyOf ` set (relocatesOf relocates sp)) \<Longrightarrow> ga_relocates a' x = ga_relocates a x"
  shows "numbered relocates n sps a a'"
  using assms unfolding numbered_def by blast

lemma numbered_Cons:
  assumes "numbered relocates n [sp] a a1" "numbered relocates (n + 1) sps a1 a'" "keyOf sp \<notin> keyOf ` set sps"
    and "\<And>sp' r. sp' \<in> set sps \<Longrightarrow> r \<in> set (relocatesOf relocates sp) \<Longrightarrow> keyOf r \<notin> keyOf ` set (relocatesOf relocates sp')"
  shows "numbered relocates n (sp # sps) a a'"
proof (rule numberedI)
  have nxt: "n + of_nat (Suc j) = n + 1 + of_nat j" for j by simp
  have first: "ga_statepoints a' (keyOf sp) = ga_statepoints a1 (keyOf sp)" by (rule numberedD(3) [OF assms(2,3)])
  have keep: "ga_relocates a' (keyOf r) = ga_relocates a1 (keyOf r)" if "r \<in> set (relocatesOf relocates sp)" for r
    by (rule numberedD(4) [OF assms(2)]) (rule assms(4) [OF _ that])
  fix k assume k: "k < length (sp # sps)"
  show "\<exists>md. ga_statepoints a' (keyOf ((sp # sps) ! k)) = Some md \<and> sm_id md = n + of_nat k"
  proof (cases k)
    case 0
    then show ?thesis using numberedD(1) [OF assms(1), of 0] first by simp
  next
    case (Suc j)
    then show ?thesis using numberedD(1) [OF assms(2), of j] k unfolding Suc nxt by simp
  qed
  fix r assume r: "r \<in> set (relocatesOf relocates ((sp # sps) ! k))"
  show "\<exists>md. ga_relocates a' (keyOf r) = Some md \<and> rm_statepointId md = n + of_nat k"
  proof (cases k)
    case 0
    then show ?thesis using numberedD(2) [OF assms(1), of 0 r] r keep [of r] by simp
  next
    case (Suc j)
    then show ?thesis using numberedD(2) [OF assms(2), of j r] k r unfolding Suc nxt by simp
  qed
next
  fix x assume "x \<notin> keyOf ` set (sp # sps)"
  then show "ga_statepoints a' x = ga_statepoints a x" using numberedD(3) [OF assms(1), of x] numberedD(3) [OF assms(2), of x] by simp
next
  fix x assume x: "\<And>s. s \<in> set (sp # sps) \<Longrightarrow> x \<notin> keyOf ` set (relocatesOf relocates s)"
  have "ga_relocates a' x = ga_relocates a1 x" by (rule numberedD(4) [OF assms(2)]) (rule x, simp)
  also have "\<dots> = ga_relocates a x" by (rule numberedD(4) [OF assms(1)]) (rule x, simp)
  finally show "ga_relocates a' x = ga_relocates a x" .
qed

lemma addStatepoints_numbers:
  assumes "addStatepoints gv m relocates sps a = Inr a'" "distinct (map keyOf relocates)" "distinct (map keyOf sps)"
  shows "numbered relocates (ga_nextStatepointId a) sps a a'"
  using assms(1,3)
proof (induction sps arbitrary: a)
  case Nil then show ?case by (simp add: numbered_def)
next
  case (Cons sp sps)
  obtain a1 where r: "addStatepoint gv m relocates sp a = Inr a1" "addStatepoints gv m relocates sps a1 = Inr a'"
    using Cons.prems(1) by (auto simp: bindE_eq_Inr)
  note one = addStatepoint_numbers [OF r(1) assms(2)]
  have IH: "numbered relocates (ga_nextStatepointId a + 1) sps a1 a'" using Cons.IH [OF r(2)] Cons.prems(2) one by simp
  have other: "keyOf r \<notin> keyOf ` set (relocatesOf relocates sp')" if "sp' \<in> set sps" "r \<in> set (relocatesOf relocates sp)" for sp' r
  proof
    assume "keyOf r \<in> keyOf ` set (relocatesOf relocates sp')"
    then have "VInst (fst sp) (fst (snd sp)) = VInst (fst sp') (fst (snd sp'))"
      using relocates_other [OF assms(2)] that(2) unfolding relocatesOf_def by blast
    then have "keyOf sp = keyOf sp'" by (simp add: keyOf_def)
    then show False using Cons.prems(2) that(1) by (metis distinct.simps(2) image_eqI list.simps(9) list.set_map)
  qed
  show ?case by (rule numbered_Cons [OF conjunct1 [OF one] IH _ other]) (use Cons.prems(2) in simp_all)
qed

lemma distinct_tagged:
  "distinct (map fn_id fs) \<Longrightarrow> (\<And>f. f \<in> set fs \<Longrightarrow> distinct (h f)) \<Longrightarrow> distinct (concat (map (\<lambda>f. map (Pair (fn_id f)) (h f)) fs))"
  by (induction fs) (auto simp: distinct_map inj_on_def)

lemma map_filter_distinct:
  assumes "\<And>i p. h i = Some p \<Longrightarrow> key p = in_id i" "distinct (map in_id is)"
  shows "distinct (map key (List.map_filter h is))"
proof -
  have "map key (List.map_filter h is) = map in_id (filter (\<lambda>i. h i \<noteq> None) is)"
    using assms(1) by (induction "is") (auto simp: map_filter_simps split: option.split)
  then show ?thesis using distinct_map_filter [OF assms(2)] by simp
qed

lemma map_filter_member:
  assumes "p \<in> set (List.map_filter h is)" "\<And>i. h i = Some p \<Longrightarrow> Q"
  shows Q
  using assms by (induction "is") (auto simp: map_filter_simps split: option.splits)

lemma allStatepoints_keys:
  assumes "wellNumbered m" "distinct (map fn_id fs)" "set fs \<subseteq> set m"
  shows "distinct (map keyOf (allStatepoints gv m fs))"
proof -
  have "map keyOf (allStatepoints gv m fs) =
      concat (map (\<lambda>f. map (Pair (fn_id f)) (map fst (statepointsIn gv m f (instructionsOf f)))) fs)"
    by (simp add: allStatepoints_def map_concat comp_def case_prod_beta keyOf_def)
  moreover have "distinct (map fst (statepointsIn gv m f (instructionsOf f)))" if "f \<in> set fs" for f
    unfolding statepointsIn_def using assms(1,3) that
    by (intro map_filter_distinct) (auto simp: wellNumbered_def split: operation.splits if_splits)
  ultimately show ?thesis using distinct_tagged [OF assms(2), of "\<lambda>f. map fst (statepointsIn gv m f (instructionsOf f))"] by (simp only:)
qed

lemma managedFunctions_distinct: "wellNumbered (gm_functions M) \<Longrightarrow> distinct (map fn_id (managedFunctions M))"
  by (simp add: managedFunctions_def wellNumbered_def distinct_map_filter)

lemma allRelocates_keys:
  assumes "wellNumbered (gm_functions M)"
  shows "distinct (map keyOf (allRelocates gv M))"
proof -
  let ?h = "\<lambda>f. map (\<lambda>r. fst (snd r)) (relocatesIn gv (gm_functions M) f)"
  have "fst r = fn_id f" if "r \<in> set (relocatesIn gv (gm_functions M) f)" for r f
    using that unfolding relocatesIn_def by (rule map_filter_member) (auto split: operation.splits if_splits)
  then have "map keyOf (allRelocates gv M) = concat (map (\<lambda>f. map (Pair (fn_id f)) (?h f)) (managedFunctions M))"
    unfolding allRelocates_def map_concat map_map comp_def keyOf_def by (intro arg_cong [of _ _ concat] map_cong refl) simp_all
  moreover have "distinct (?h f)" if "f \<in> set (managedFunctions M)" for f
    unfolding relocatesIn_def using assms that
    by (intro map_filter_distinct) (auto simp: wellNumbered_def managedFunctions_def split: operation.splits if_splits)
  ultimately show ?thesis using distinct_tagged [OF managedFunctions_distinct [OF assms], of ?h] by (simp only:)
qed

text \<open>The statepoints of the managed functions are numbered from 0 in the order of the module, and each relocation is
  marked with the number of the statepoint it belongs to.\<close>

theorem statepoints_are_numbered:
  assumes "annotateManagedGCMetadata gv M = Inr (M', a)" "wellNumbered (gm_functions M)"
    and "k < length (allStatepoints gv (gm_functions M) (managedFunctions M))" "allStatepoints gv (gm_functions M) (managedFunctions M) ! k = (g, i, args)"
  shows "(\<exists>md. ga_statepoints a (g, i) = Some md \<and> sm_id md = of_nat k) \<and>
    list_all (\<lambda>r. \<exists>md. ga_relocates a (keyOf r) = Some md \<and> rm_statepointId md = of_nat k) (relocatesByStatepoint (allRelocates gv M) (VInst g i))"
proof -
  let ?sps = "allStatepoints gv (gm_functions M) (managedFunctions M)"
  have "addStatepoints gv (gm_functions M) (allRelocates gv M) ?sps noAnnotation = Inr a"
    using assms(1) annotateFunctions_adds by (auto simp: annotateManagedGCMetadata_def bindE_eq_Inr Let_def)
  moreover have "distinct (map keyOf ?sps)"
    by (rule allStatepoints_keys [OF assms(2) managedFunctions_distinct [OF assms(2)]]) (simp add: managedFunctions_def)
  ultimately have "numbered (allRelocates gv M) 0 ?sps noAnnotation a"
    using addStatepoints_numbers [OF _ allRelocates_keys [OF assms(2)]] by (fastforce simp: noAnnotation_def)
  then have "(\<exists>md. ga_statepoints a (keyOf (?sps ! k)) = Some md \<and> sm_id md = 0 + of_nat k) \<and>
      (\<forall>r \<in> set (relocatesOf (allRelocates gv M) (?sps ! k)). \<exists>md. ga_relocates a (keyOf r) = Some md \<and> rm_statepointId md = 0 + of_nat k)"
    using assms(3) unfolding numbered_def by blast
  then show ?thesis unfolding assms(4) by (simp add: relocatesOf_def list_all_iff)
qed

text \<open>A caller with a poll, whose statepoint has one relocation, and a call.\<close>

definition relocateIntrinsic :: ir_function where
  "relocateIntrinsic = statepointIntrinsic\<lparr>fn_id := 8, fn_name := ''llvm.experimental.gc.relocate.p1''\<rparr>"

definition numberedModule :: gc_module where
  "numberedModule = \<lparr>gm_functions = [gcFunction 1 ''main''
        [statepointCall, \<lparr>in_id = 2, in_isPointer = True, in_op = OCall (VFunc 8) [VInst 1 0, VInt 32 0, VInt 32 1]\<rparr>,
         statepointCall\<lparr>in_id := 3\<rparr>, \<lparr>in_id = 4, in_isPointer = True, in_op = OCall (VFunc 8) [VInst 1 3, VInt 32 0, VInt 32 0]\<rparr>, returnVoid],
      relocateIntrinsic, statepointIntrinsic],
     gm_attributes = \<lparr>as_gcLeaf = {}, as_gc = [1 \<mapsto> kManagedGCStrategy], as_framePointerAll = {}, as_noInline = {}\<rparr>,
     gm_moduleMetadata = None, gm_functionMetadata = None\<rparr>"

definition numberedView :: gc_view where
  "numberedView = pairView\<lparr>gv_intrinsic := [9 \<mapsto> Statepoint, 8 \<mapsto> Relocate]\<rparr>"

theorem statepoints_are_numbered_witness:
  "\<exists>M' a md. annotateManagedGCMetadata numberedView numberedModule = Inr (M', a) \<and>
     ga_relocates a (1, 4) = Some md \<and> rm_statepointId md = 1"
proof -
  have "isl (annotateManagedGCMetadata numberedView numberedModule) = False" by code_simp
  then obtain M' a where r: "annotateManagedGCMetadata numberedView numberedModule = Inr (M', a)"
    by (cases "annotateManagedGCMetadata numberedView numberedModule") auto
  have wn: "wellNumbered (gm_functions numberedModule)"
    by (simp add: wellNumbered_def numberedModule_def gcFunction_def statepointCall_def returnVoid_def relocateIntrinsic_def
        statepointIntrinsic_def instructionsOf_def)
  let ?sps = "allStatepoints numberedView (gm_functions numberedModule) (managedFunctions numberedModule)"
  have sps: "map keyOf ?sps = [(1, 0), (1, 3)]"
    "relocatesByStatepoint (allRelocates numberedView numberedModule) (VInst 1 3) = [(1, 4, [VInst 1 3, VInt 32 0, VInt 32 0])]"
    by code_simp+
  have len: "length ?sps = 2" using arg_cong [OF sps(1), of length] by simp
  have "keyOf (?sps ! 1) = map keyOf ?sps ! 1" using len by simp
  then have "keyOf (?sps ! 1) = (1, 3)" unfolding sps(1) by simp
  then have one: "?sps ! 1 = (1, 3, snd (snd (?sps ! 1)))" by (simp add: keyOf_def prod_eq_iff)
  have "1 < length ?sps" using len by simp
  from conjunct2 [OF statepoints_are_numbered [OF r wn this one]] show ?thesis unfolding sps(2) using r by simp
qed

end
