(* ===== verification/Managed_Verifier.thy ===== *)
theory Managed_Verifier
  imports GC_Polls
begin

text \<open>
  The managed verifier: \<open>src/src/mvm/verifier.cc\<close>.  What it reads of a module beyond the IR of \<open>LLVM_IR\<close> is
  the record \<open>verifier_view\<close>: debug information, inline assembly, and which instructions are the three casts.
  The result is the error or nothing; an instruction is reported by its function and number.
\<close>

datatype pointer_cast = PtrToInt | IntToPtr | AddrSpaceCast

record verifier_view =
  vv_hasCompileUnits :: bool
  vv_moduleInlineAsm :: string
  vv_hasSubprogram :: "nat \<Rightarrow> bool"
  vv_cast :: "nat \<Rightarrow> nat \<Rightarrow> pointer_cast option"
  vv_isInlineAsm :: "val \<Rightarrow> bool"
  vv_strip :: "val \<Rightarrow> val"

datatype violation_reason = MissingSubprogram | ForbiddenCast pointer_cast | InlineAsmCall | RawAllocator | ExplicitFree

record Violation =
  vi_function :: nat
  vi_reason :: violation_reason
  vi_instruction :: "nat option"

datatype verifier_error =
    NoCompileUnits string
  | ModuleInlineAsm string
  | Violations string "Violation list"

definition isRawAllocator :: "string \<Rightarrow> bool" where
  "isRawAllocator name \<longleftrightarrow> name = ''malloc'' \<or> name = ''calloc'' \<or> name = ''realloc'' \<or> name = ''free''"

definition isExplicitFree :: "string \<Rightarrow> bool" where
  "isExplicitFree name \<longleftrightarrow> name = ''__mvm_free'' \<or> name = ''__mvm_array_free''"

text \<open>The reason to reject a call: the called operand is inline assembly, or a function of a forbidden name.\<close>

definition callViolation :: "verifier_view \<Rightarrow> ir_module \<Rightarrow> val \<Rightarrow> violation_reason option" where
  "callViolation vv m calledOperand =
     (let callee = vv_strip vv calledOperand in
      if vv_isInlineAsm vv callee then Some InlineAsmCall
      else case callee of
        VFunc g \<Rightarrow>
          (case functionAt m g of
             Some f \<Rightarrow> if isRawAllocator (fn_name f) then Some RawAllocator
                        else if isExplicitFree (fn_name f) then Some ExplicitFree else None
           | None \<Rightarrow> None)
      | _ \<Rightarrow> None)"

text \<open>The casts are among the instructions that are \<open>OOther\<close>.\<close>

definition instructionViolation :: "verifier_view \<Rightarrow> ir_module \<Rightarrow> ir_function \<Rightarrow> instruction \<Rightarrow> violation_reason option" where
  "instructionViolation vv m f i =
     (case in_op i of
        OOther \<Rightarrow> map_option ForbiddenCast (vv_cast vv (fn_id f) (in_id i))
      | OCall calledOperand args \<Rightarrow> callViolation vv m calledOperand
      | _ \<Rightarrow> None)"

definition functionViolations :: "verifier_view \<Rightarrow> ir_module \<Rightarrow> ir_function \<Rightarrow> Violation list" where
  "functionViolations vv m f =
     (if \<not> fn_isDeclaration f \<and> \<not> isIntrinsic f \<and> \<not> vv_hasSubprogram vv (fn_id f)
      then [\<lparr>vi_function = fn_id f, vi_reason = MissingSubprogram, vi_instruction = None\<rparr>] else []) @
     List.map_filter (\<lambda>i. map_option (\<lambda>r. \<lparr>vi_function = fn_id f, vi_reason = r, vi_instruction = Some (in_id i)\<rparr>)
       (instructionViolation vv m f i)) (instructionsOf f)"

definition verify :: "verifier_view \<Rightarrow> string \<Rightarrow> ir_module \<Rightarrow> verifier_error option" where
  "verify vv stage m =
     (if \<not> vv_hasCompileUnits vv then Some (NoCompileUnits stage)
      else if vv_moduleInlineAsm vv \<noteq> [] then Some (ModuleInlineAsm stage)
      else let violations = concat (map (functionViolations vv m) m)
           in if violations = [] then None else Some (Violations stage violations))"

section \<open>What is accepted\<close>

definition functionAccepted :: "verifier_view \<Rightarrow> ir_module \<Rightarrow> ir_function \<Rightarrow> bool" where
  "functionAccepted vv m f \<longleftrightarrow>
     (fn_isDeclaration f \<or> isIntrinsic f \<or> vv_hasSubprogram vv (fn_id f)) \<and>
     list_all (\<lambda>i. instructionViolation vv m f i = None) (instructionsOf f)"

lemma functionViolations_none: "functionViolations vv m f = [] \<longleftrightarrow> functionAccepted vv m f"
proof -
  have "List.map_filter h is = [] \<longleftrightarrow> list_all (\<lambda>i. h i = None) is" for h :: "instruction \<Rightarrow> Violation option" and "is"
    by (induction "is") (auto simp: map_filter_simps split: option.split)
  then show ?thesis by (simp add: functionViolations_def functionAccepted_def)
qed

lemma verify_none:
  "verify vv stage m = None \<longleftrightarrow> vv_hasCompileUnits vv \<and> vv_moduleInlineAsm vv = [] \<and> list_all (functionAccepted vv m) m"
  by (auto simp: verify_def Let_def functionViolations_none list_all_iff)

section \<open>The insertion of polls\<close>

lemma insertBefore_members: "set (insertBefore n p is) \<subseteq> insert p (set is)"
  by (induction "is") auto

text \<open>A function whose code grew by calls of the poll.\<close>

definition grownBy :: "nat \<Rightarrow> ir_function \<Rightarrow> ir_function \<Rightarrow> bool" where
  "grownBy poll f f' \<longleftrightarrow> fn_id f' = fn_id f \<and> fn_name f' = fn_name f \<and> fn_isDeclaration f' = fn_isDeclaration f \<and>
     (\<forall>i \<in> set (instructionsOf f'). i \<in> set (instructionsOf f) \<or> (\<exists>args. in_op i = OCall (VFunc poll) args))"

lemma grownBy_refl [simp]: "grownBy poll f f"
  by (simp add: grownBy_def)

lemma grownBy_trans: "grownBy poll f g \<Longrightarrow> grownBy poll g h \<Longrightarrow> grownBy poll f h"
  unfolding grownBy_def by metis

lemma insertPoll_grows: "grownBy poll f (insertManagedSafepointPoll n f poll ID)"
proof -
  have "i \<in> set (instructionsOf f) \<or> (\<exists>args. in_op i = OCall (VFunc poll) args)"
    if i: "i \<in> set (instructionsOf (insertManagedSafepointPoll n f poll ID))" for i
  proof -
    obtain b where "b \<in> set (fn_blocks f)"
      "i \<in> set (insertBefore n \<lparr>in_id = freshInstruction f, in_isPointer = False, in_op = OCall (VFunc poll) [VInt 64 (unat ID)]\<rparr> b)"
      using i by (auto simp: instructionsOf_def insertManagedSafepointPoll_def)
    then show ?thesis using subsetD [OF insertBefore_members] by (fastforce simp: instructionsOf_def)
  qed
  then show ?thesis by (simp add: grownBy_def insertManagedSafepointPoll_def)
qed

lemma fold_grows:
  assumes "\<And>x f n. grownBy poll f (fst (h x (f, n)))"
  shows "grownBy poll f (fst (fold h xs (f, n)))"
proof (induction xs arbitrary: f n)
  case (Cons x xs)
  obtain f' n' where h: "h x (f, n) = (f', n')" by fastforce
  have "grownBy poll f f'" using assms [of f x n] h by simp
  then show ?case using Cons.IH [of f' n'] h by (auto intro: grownBy_trans)
qed simp

lemma insertFunctionPolls_grows: "grownBy poll f (fst (insertFunctionPolls loopsOf pointerOrder m poll (f, n)))"
proof -
  have a: "grownBy poll f (fst (pollAfterAllocation m poll c (f, n)))" for c f n
    by (auto simp: pollAfterAllocation_def insertPoll_grows split: option.split)
  have l: "grownBy poll f (fst (pollBeforeLatch poll c (f, n)))" for c f n
    by (auto simp: pollBeforeLatch_def insertPoll_grows split: option.split)
  let ?calls = "map in_id (filter (isRuntimeAllocationCall m) (instructionsOf f))"
  obtain f1 n1 where f1: "fold (pollAfterAllocation m poll) ?calls (f, n) = (f1, n1)" by fastforce
  have "grownBy poll f f1" using fold_grows [of poll "pollAfterAllocation m poll" f ?calls n, OF a] by (simp add: f1)
  moreover have "grownBy poll f1 (fst (insertFunctionPolls loopsOf pointerOrder m poll (f, n)))"
    using fold_grows [OF l] by (simp add: insertFunctionPolls_def f1)
  ultimately show ?thesis by (rule grownBy_trans)
qed

lemma insertModulePolls_grows:
  "list_all2 (grownBy poll) fs (insertModulePolls loopsOf pointerOrder m at poll fs n)"
proof (induction fs arbitrary: n)
  case (Cons f fs)
  obtain f1 n1 where f1: "insertFunctionPolls loopsOf pointerOrder m poll (f, n) = (f1, n1)" by fastforce
  have "grownBy poll f f1" using insertFunctionPolls_grows [of poll f loopsOf pointerOrder m n] by (simp add: f1)
  then show ?case using Cons by (simp add: f1)
qed simp

lemma grown_names:
  "list_all2 (grownBy poll) fs gs \<Longrightarrow> map_option fn_name (functionAt gs g) = map_option fn_name (functionAt fs g)"
  by (induction rule: list_all2_induct) (auto simp: functionAt_def grownBy_def)

lemma callViolation_names:
  "(\<And>g. map_option fn_name (functionAt m g) = map_option fn_name (functionAt m' g)) \<Longrightarrow> callViolation vv m c = callViolation vv m' c"
  unfolding callViolation_def Let_def
  by (cases "vv_strip vv c") (auto split: option.splits, (metis option.distinct(1) option.inject option.map(1,2))+)

lemma poll_not_forbidden: "\<not> isRawAllocator kRuntimeSafepointPollSymbol" "\<not> isExplicitFree kRuntimeSafepointPollSymbol"
  by (simp_all add: isRawAllocator_def isExplicitFree_def kRuntimeSafepointPollSymbol_def)

text \<open>LLVM's view of functions: a function is no cast and no inline assembly.\<close>

definition plainFunctions :: "verifier_view \<Rightarrow> bool" where
  "plainFunctions vv \<longleftrightarrow> (\<forall>g. vv_strip vv (VFunc g) = VFunc g \<and> \<not> vv_isInlineAsm vv (VFunc g))"

lemma accepted_grown:
  assumes "functionAccepted vv m f" "grownBy poll f f'" "callViolation vv m' (VFunc poll) = None"
    and "\<And>c. callViolation vv m c = None \<Longrightarrow> callViolation vv m' c = None"
  shows "functionAccepted vv m' f'"
proof -
  have fields: "fn_id f' = fn_id f" "fn_name f' = fn_name f" "fn_isDeclaration f' = fn_isDeclaration f" using assms(2) by (simp_all add: grownBy_def)
  have "instructionViolation vv m' f' i = None" if i: "i \<in> set (instructionsOf f')" for i
  proof (cases "i \<in> set (instructionsOf f)")
    case True
    then have "instructionViolation vv m f i = None" using assms(1) by (simp add: functionAccepted_def list_all_iff)
    then show ?thesis using assms(4) fields by (simp add: instructionViolation_def split: operation.splits)
  next
    case False
    then obtain args where "in_op i = OCall (VFunc poll) args" using assms(2) i by (auto simp: grownBy_def)
    then show ?thesis using assms(3) by (simp add: instructionViolation_def)
  qed
  then show ?thesis using assms(1) fields by (simp add: functionAccepted_def list_all_iff isIntrinsic_def)
qed

lemma functionAt_snoc: "functionAt (m @ [d]) g = (case functionAt m g of Some f \<Rightarrow> Some f | None \<Rightarrow> if g = fn_id d then Some d else None)"
  unfolding functionAt_def by (induction m) auto

lemma getOrInsertPoll_accepted:
  assumes "wellNumbered m" "list_all (functionAccepted vv m) m" "plainFunctions vv" "getOrInsertPoll m = (poll, m1)"
  shows "list_all (functionAccepted vv m1) m1" "callViolation vv m1 (VFunc poll) = None"
proof -
  have call: "callViolation vv m' (VFunc g) = None" if "functionAt m' g = Some f" "fn_name f = kRuntimeSafepointPollSymbol" for m' g f
    using that assms(3) poll_not_forbidden by (simp add: callViolation_def plainFunctions_def)
  have "list_all (functionAccepted vv m1) m1 \<and> callViolation vv m1 (VFunc poll) = None"
  proof (cases "List.find (\<lambda>f. fn_name f = kRuntimeSafepointPollSymbol) m")
    case (Some f)
    then have f: "f \<in> set m" "fn_name f = kRuntimeSafepointPollSymbol" by (auto simp: find_Some_iff)
    have "m1 = m" "poll = fn_id f" using assms(4) Some by (simp_all add: getOrInsertPoll_def)
    then show ?thesis using assms(2) call [OF functionAt_member [OF assms(1) f(1)] f(2)] by simp
  next
    case None
    let ?d = "\<lparr>fn_id = freshFunction m, fn_name = kRuntimeSafepointPollSymbol, fn_isDeclaration = True, fn_hasAddressTaken = False,
      fn_isVarArg = False, fn_params = [False], fn_returnsPointer = False, fn_blocks = []\<rparr>"
    have m1: "m1 = m @ [?d]" "poll = freshFunction m" using assms(4) None by (auto simp: getOrInsertPoll_def)
    have new: "functionAt m1 (freshFunction m) = Some ?d"
      using functionAt_new [of ?d m] freshFunction_new [of m] by (simp add: m1)
    have keep: "callViolation vv m1 c = None" if c: "callViolation vv m c = None" for c
    proof (cases "\<exists>g. vv_strip vv c = VFunc g \<and> functionAt m g = None")
      case True
      then obtain g where g: "vv_strip vv c = VFunc g" "functionAt m g = None" by blast
      have "functionAt m1 g = (if g = freshFunction m then Some ?d else None)"
        using g(2) by (simp add: m1 functionAt_snoc)
      then show ?thesis using c g poll_not_forbidden by (auto simp: callViolation_def Let_def)
    next
      case False
      then show ?thesis using c functionAt_append [of m _ _ "[?d]"] by (auto simp: callViolation_def Let_def m1 split: val.splits option.splits if_splits)
    qed
    have "functionAccepted vv m1 f" if "f \<in> set m" for f
      using accepted_grown [of vv m f "freshFunction m" f m1] assms(2) that call [OF new] keep by (simp add: list_all_iff)
    moreover have "functionAccepted vv m1 ?d" by (simp add: functionAccepted_def instructionsOf_def)
    ultimately show ?thesis using call [OF new] by (simp add: m1 list_all_iff)
  qed
  then show "list_all (functionAccepted vv m1) m1" "callViolation vv m1 (VFunc poll) = None" by blast+
qed

lemma polls_accepted:
  assumes "wellNumbered (gm_functions M)" "plainFunctions vv" "list_all (functionAccepted vv (gm_functions M)) (gm_functions M)"
  shows "list_all (functionAccepted vv (gm_functions (insertManagedSafepointPolls loopsOf pointerOrder M)))
    (gm_functions (insertManagedSafepointPolls loopsOf pointerOrder M))"
proof -
  obtain poll m1 where p: "getOrInsertPoll (gm_functions M) = (poll, m1)" by fastforce
  note ok = getOrInsertPoll_accepted [OF assms(1,3,2) p]
  let ?m2 = "insertModulePolls loopsOf pointerOrder m1 (gm_attributes M) poll m1 kFirstMVMStatepointID"
  have grown: "list_all2 (grownBy poll) m1 ?m2" by (rule insertModulePolls_grows)
  have names: "callViolation vv ?m2 c = callViolation vv m1 c" for c
    by (rule callViolation_names) (rule grown_names [OF grown])
  have "functionAccepted vv ?m2 f'" if f': "f' \<in> set ?m2" for f'
  proof -
    obtain k where k: "k < length ?m2" "f' = ?m2 ! k" using f' by (metis in_set_conv_nth)
    then have "grownBy poll (m1 ! k) f'" "m1 ! k \<in> set m1" using grown by (simp_all add: list_all2_conv_all_nth)
    then show ?thesis using accepted_grown [of vv m1 "m1 ! k" poll f' ?m2] ok names by (simp add: list_all_iff)
  qed
  then show ?thesis by (simp add: insertManagedSafepointPolls_def p list_all_iff)
qed

lemma getOrInsertPoll_numbered:
  assumes "wellNumbered m" "getOrInsertPoll m = (poll, m1)"
  shows "wellNumbered m1"
  using assms freshFunction_new [of m] by (auto simp: getOrInsertPoll_def wellNumbered_def instructionsOf_def split: option.splits)

lemma prepared_accepted:
  assumes "prepareManagedGCModule hasLoops M = Some M1" "wellNumbered (gm_functions M)" "plainFunctions vv"
    and "list_all (functionAccepted vv (gm_functions M)) (gm_functions M)"
  shows "wellNumbered (gm_functions M1) \<and> list_all (functionAccepted vv (gm_functions M1)) (gm_functions M1)"
proof -
  obtain poll m1 where p: "getOrInsertPoll (gm_functions M) = (poll, m1)" by fastforce
  have "gm_functions M1 = gm_functions M \<or> gm_functions M1 = m1"
    using assms(1) by (auto simp: prepareManagedGCModule_def clearGCMetadata_def p Let_def split: option.splits prod.splits if_splits)
  then show ?thesis
    using assms(2,4) getOrInsertPoll_numbered [OF assms(2) p] getOrInsertPoll_accepted(1) [OF assms(2,4,3) p] by metis
qed

end
