(* ===== verification/Program_Entry.thy ===== *)
theory Program_Entry
  imports Managed_Verifier GC_Metadata Runtime_Threads Command_Line
begin

text \<open>
  The way from the command line to the managed program: entry points and the JIT executor (\<open>src/src/mvm/jit.cc\<close>), the
  pipeline of the passes (\<open>src/src/mvm/pipeline.cc\<close>), \<open>runManagedProgram\<close> (\<open>src/src/mvm/runtime.cc\<close>) and \<open>main\<close>
  (\<open>src/src/main.cc\<close>).  LLVM, the loader and the passes, whose own theories have other views of a module, are the fields
  of a record \<open>services\<close> over any type of modules.
\<close>

section \<open>Entry points\<close>

datatype EntrySignature = NoArgsInt32 | NoArgsVoid | ArgvInt32 | ArgvVoid

record EntryPoint =
  ep_symbol :: string
  ep_signature :: EntrySignature

text \<open>The types an entry may have: the others are all alike.\<close>

datatype ety = EVoid | EInt nat | EPtr | EOther

datatype entry_error = EntryVariadic string | EntryReturnType string | EntryParams string | EntryNotFound string | NoDefaultEntry

definition classifyEntryPoint :: "(nat \<Rightarrow> ety \<times> ety list) \<Rightarrow> ir_function \<Rightarrow> entry_error + EntryPoint" where
  "classifyEntryPoint typeOf f =
     (if fn_isVarArg f then Inl (EntryVariadic (fn_name f))
      else let (returnType, params) = typeOf (fn_id f);
               returnsInt32 = (returnType = EInt 32);
               returnsVoid = (returnType = EVoid)
           in if \<not> returnsInt32 \<and> \<not> returnsVoid then Inl (EntryReturnType (fn_name f))
              else if params = []
              then Inr \<lparr>ep_symbol = fn_name f, ep_signature = (if returnsInt32 then NoArgsInt32 else NoArgsVoid)\<rparr>
              else if length params = 2 \<and> params ! 0 = EInt 32 \<and> params ! 1 = EPtr
              then Inr \<lparr>ep_symbol = fn_name f, ep_signature = (if returnsInt32 then ArgvInt32 else ArgvVoid)\<rparr>
              else Inl (EntryParams (fn_name f)))"

text \<open>\<open>Module::getFunction\<close>: the function of a name, defined or only declared.\<close>

definition getFunction :: "ir_module \<Rightarrow> string \<Rightarrow> ir_function option" where
  "getFunction m name = List.find (\<lambda>f. fn_name f = name) m"

fun firstCandidate :: "(nat \<Rightarrow> ety \<times> ety list) \<Rightarrow> ir_module \<Rightarrow> string list \<Rightarrow> entry_error + EntryPoint" where
  "firstCandidate typeOf m [] = Inl NoDefaultEntry"
| "firstCandidate typeOf m (candidate # candidates) =
     (case getFunction m candidate of
        Some f \<Rightarrow> classifyEntryPoint typeOf f
      | None \<Rightarrow> firstCandidate typeOf m candidates)"

definition resolveEntryPoint :: "(nat \<Rightarrow> ety \<times> ety list) \<Rightarrow> ir_module \<Rightarrow> string \<Rightarrow> entry_error + EntryPoint" where
  "resolveEntryPoint typeOf m requestedSymbol =
     (if requestedSymbol \<noteq> [] then
        (case getFunction m requestedSymbol of
           None \<Rightarrow> Inl (EntryNotFound requestedSymbol)
         | Some f \<Rightarrow> classifyEntryPoint typeOf f)
      else firstCandidate typeOf m [''__mvm_main__'', ''__lona_main__'', ''main''])"

section \<open>The pipeline\<close>

datatype OptimizationLevel = O1 | O2 | O3

datatype level_error = LevelZero | UnsupportedLevel int

definition toOptimizationLevel :: "int \<Rightarrow> level_error + OptimizationLevel" where
  "toOptimizationLevel optLevel =
     (if optLevel = 1 then Inr O1
      else if optLevel = 2 then Inr O2
      else if optLevel = 3 then Inr O3
      else if optLevel = 0 then Inl LevelZero
      else Inl (UnsupportedLevel optLevel))"

datatype stage =
    InjectBoundsChecks
  | Optimise OptimizationLevel
  | SpecializeManagedDispatch
  | AnnotateManagedHeapLayouts
  | LowerManagedPointers
  | AnnotateManagedState
  | RunManagedGCPasses

fun runStages :: "(stage \<Rightarrow> 'm \<Rightarrow> 'e + 'm) \<Rightarrow> stage list \<Rightarrow> 'm \<Rightarrow> 'e + 'm" where
  "runStages perform [] m = Inr m"
| "runStages perform (s # ss) m = bindE (perform s m) (runStages perform ss)"

definition pipelineStages :: "OptimizationLevel \<Rightarrow> stage list" where
  "pipelineStages level =
     [InjectBoundsChecks, Optimise level, SpecializeManagedDispatch, AnnotateManagedHeapLayouts, LowerManagedPointers,
      AnnotateManagedState, RunManagedGCPasses]"

definition runPipeline :: "(stage \<Rightarrow> 'm \<Rightarrow> 'e + 'm) \<Rightarrow> int \<Rightarrow> 'm \<Rightarrow> (level_error + 'e) + 'm" where
  "runPipeline perform optLevel m =
     bindE (map_sum Inl id (toOptimizationLevel optLevel)) (\<lambda>level. map_sum Inr id (runStages perform (pipelineStages level) m))"

section \<open>Preparing a program\<close>

datatype 'e program_error =
    ServiceError 'e
  | WrongArchitecture string string
  | LLVMVerifierFailed string 'e
  | ManagedVerifierFailed verifier_error
  | LevelError level_error
  | EntryError entry_error

text \<open>What the program asks of others; an error of a service is of type \<open>'e\<close>, a module of type \<open>'m\<close>.\<close>

record ('e, 'm) services =
  sv_createExecutor :: "'e option"
  sv_load :: "string \<Rightarrow> 'e + 'm"
  sv_targetTriple :: "'m \<Rightarrow> string"
  sv_archOf :: "string \<Rightarrow> nat"
  sv_hostTriple :: string
  sv_setTarget :: "'m \<Rightarrow> 'm"
  sv_verifyLLVM :: "'m \<Rightarrow> 'e option"
  sv_view :: "'m \<Rightarrow> verifier_view \<times> ir_module \<times> (nat \<Rightarrow> ety \<times> ety list)"
  sv_stage :: "stage \<Rightarrow> 'm \<Rightarrow> 'e + 'm"
  sv_addModule :: "'m \<Rightarrow> 'e option"
  sv_functionOrder :: "'m \<Rightarrow> string option list option"

definition prepareModuleForExecution :: "('e, 'm) services \<Rightarrow> 'm \<Rightarrow> 'e program_error + 'm" where
  "prepareModuleForExecution sv m =
     (if sv_targetTriple sv m \<noteq> [] \<and> sv_archOf sv (sv_targetTriple sv m) \<noteq> sv_archOf sv (sv_hostTriple sv)
      then Inl (WrongArchitecture (sv_targetTriple sv m) (sv_hostTriple sv))
      else Inr (sv_setTarget sv m))"

definition verifyBoth :: "('e, 'm) services \<Rightarrow> string \<Rightarrow> 'm \<Rightarrow> 'e program_error + unit" where
  "verifyBoth sv stage m =
     (case sv_verifyLLVM sv m of
        Some e \<Rightarrow> Inl (LLVMVerifierFailed stage e)
      | None \<Rightarrow>
          (case sv_view sv m of (vv, functions, _) \<Rightarrow>
             case verify vv stage functions of Some e \<Rightarrow> Inl (ManagedVerifierFailed e) | None \<Rightarrow> Inr ()))"

definition levelOrService :: "level_error + 'e \<Rightarrow> 'e program_error" where
  "levelOrService e = (case e of Inl l \<Rightarrow> LevelError l | Inr e \<Rightarrow> ServiceError e)"

definition failsWith :: "'e option \<Rightarrow> 'e program_error + unit" where
  "failsWith r = (case r of Some e \<Rightarrow> Inl (ServiceError e) | None \<Rightarrow> Inr ())"

text \<open>\<open>JitExecutor::addModule\<close>: the order of the managed functions is recorded before the module is added.\<close>

definition addModule :: "('e, 'm) services \<Rightarrow> 'm \<Rightarrow> GCStackMapRegistry \<Rightarrow> 'e program_error + GCStackMapRegistry" where
  "addModule sv m reg =
     (let reg = recordManagedFunctionOrder (sv_functionOrder sv m) reg
      in case sv_addModule sv m of Some e \<Rightarrow> Inl (ServiceError e) | None \<Rightarrow> Inr reg)"

text \<open>\<open>runManagedProgram\<close> up to the start of the threads: the module that was handed to the JIT, its entry, and the registry of
  the executor.\<close>

definition prepareProgram :: "('e, 'm) services \<Rightarrow> Options \<Rightarrow> 'e program_error + 'm \<times> EntryPoint \<times> GCStackMapRegistry" where
  "prepareProgram sv options =
     bindE (failsWith (sv_createExecutor sv)) (\<lambda>_.
     bindE (map_sum ServiceError id (sv_load sv (opt_inputPath options))) (\<lambda>m.
     bindE (prepareModuleForExecution sv m) (\<lambda>m.
     bindE (verifyBoth sv ''load'' m) (\<lambda>_.
     bindE (map_sum levelOrService id (runPipeline (sv_stage sv) (opt_optLevel options) m)) (\<lambda>m.
     bindE (verifyBoth sv ''post-pass'' m) (\<lambda>_.
     bindE (map_sum EntryError id
       (case sv_view sv m of (_, functions, typeOf) \<Rightarrow> resolveEntryPoint typeOf functions (opt_entrySymbol options))) (\<lambda>entry.
     bindE (addModule sv m emptyRegistry) (\<lambda>reg. Inr (m, entry, reg)))))))))"

section \<open>Running it\<close>

text \<open>The state of the process that the runtime keeps: \<open>currentThreadIsMutator\<close> is that of the mutator thread.\<close>

record process =
  pr_threads :: threads
  pr_threadsInstalled :: bool
  pr_isMutator :: bool
  pr_registry :: "GCStackMapRegistry option"

definition updRuntime :: "(runtime \<Rightarrow> runtime) \<Rightarrow> process \<Rightarrow> process" where
  "updRuntime h p = p\<lparr>pr_threads := (pr_threads p)\<lparr>ts_runtime := h (ts_runtime (pr_threads p))\<rparr>\<rparr>"

definition updGC :: "(gc_state \<Rightarrow> gc_state) \<Rightarrow> process \<Rightarrow> process" where
  "updGC h = updRuntime (\<lambda>rt. rt\<lparr>rt_gc := h (rt_gc rt)\<rparr>)"

definition installRuntimeThreads :: "process \<Rightarrow> process" where
  "installRuntimeThreads p = p\<lparr>pr_threadsInstalled := True\<rparr>"

definition clearRuntimeThreads :: "process \<Rightarrow> process" where
  "clearRuntimeThreads p = p\<lparr>pr_threadsInstalled := False\<rparr>"

definition installGCStackMapRegistry :: "GCStackMapRegistry \<Rightarrow> process \<Rightarrow> process" where
  "installGCStackMapRegistry reg p = p\<lparr>pr_registry := Some reg\<rparr>"

definition clearGCStackMapRegistry :: "process \<Rightarrow> process" where
  "clearGCStackMapRegistry p = p\<lparr>pr_registry := None\<rparr>"

definition registerMutatorThread :: "process \<Rightarrow> process" where
  "registerMutatorThread p = p\<lparr>pr_isMutator := True\<rparr>"

definition unregisterMutatorThread :: "process \<Rightarrow> process" where
  "unregisterMutatorThread p = p\<lparr>pr_isMutator := False\<rparr>"

definition recordLastRootScanSummary :: "GCRootScanSummary \<Rightarrow> process \<Rightarrow> process" where
  "recordLastRootScanSummary summary p = p\<lparr>pr_threads := (pr_threads p)\<lparr>ts_lastRootScanSummary := summary\<rparr>\<rparr>"

definition clearLastRootScanSummary :: "process \<Rightarrow> process" where
  "clearLastRootScanSummary = recordLastRootScanSummary emptySummary"

definition getLastRootScanSummary :: "process \<Rightarrow> GCRootScanSummary" where
  "getLastRootScanSummary p = ts_lastRootScanSummary (pr_threads p)"

text \<open>The heap limit and the new \<open>RuntimeThreads\<close>; \<open>rt\<close> is the runtime state the process had.\<close>

definition startRuntime :: "u64 \<Rightarrow> runtime \<Rightarrow> process" where
  "startRuntime heapSizeBytes rt =
     installRuntimeThreads \<lparr>pr_threads = initialThreads (rt\<lparr>rt_gc := configureManagedHeapLimit heapSizeBytes (rt_gc rt)\<rparr>),
       pr_threadsInstalled = False, pr_isMutator = False, pr_registry = None\<rparr>"

text \<open>What the mutator thread does before and after the call of the managed entry.\<close>

definition startMutator :: "GCStackMapRegistry \<Rightarrow> process \<Rightarrow> process" where
  "startMutator reg p =
     (let p = p\<lparr>pr_threads := setMutator 0 Running (markMutatorStarted (pr_threads p))\<rparr>;
          p = installGCStackMapRegistry reg p;
          p = registerMutatorThread p;
          p = updGC clearGCRequest p;
          p = updGC resetManagedHeapUsage p;
          p = clearLastRootScanSummary p
      in updRuntime clearLastGCCollectionStats p)"

definition stopMutator :: "process \<Rightarrow> process" where
  "stopMutator p =
     (let p = unregisterMutatorThread p;
          p = clearGCStackMapRegistry p
      in p\<lparr>pr_threads := setMutator 0 Finished (markMutatorStopped (pr_threads p))\<rparr>)"

section \<open>The call of the entry\<close>

text \<open>\<open>__lona_argc\<close> and \<open>__lona_argv\<close>.\<close>

record hosted =
  lona_argc :: "32 word"
  lona_argv :: "string list"

definition ownedArgs :: "string \<Rightarrow> string list \<Rightarrow> string list" where
  "ownedArgs argv0 args = argv0 # args"

text \<open>The machine code of the entry is \<open>code\<close>: given the globals, and the arguments when its signature has them, it returns
  a value, which is of no meaning when the signature has none.\<close>

definition invoke ::
  "'e option \<Rightarrow> GCStackMapRegistry \<Rightarrow> (hosted \<Rightarrow> (32 word \<times> string list) option \<Rightarrow> 32 word) \<Rightarrow> EntryPoint \<Rightarrow> string \<Rightarrow> string list \<Rightarrow>
     (('e + gc_error) + 32 word) \<times> GCStackMapRegistry" where
  "invoke lookupError reg code entry argv0 args =
     (case lookupError of
        Some e \<Rightarrow> (Inl (Inl e), reg)
      | None \<Rightarrow>
          (case takeRegistrationError reg of
             (Some e, reg) \<Rightarrow> (Inl (Inr e), reg)
           | (None, reg) \<Rightarrow>
               let argv = ownedArgs argv0 args;
                   argc = of_nat (length argv);
                   globals = \<lparr>lona_argc = argc, lona_argv = argv\<rparr>
               in (Inr (case ep_signature entry of
                     NoArgsInt32 \<Rightarrow> code globals None
                   | NoArgsVoid \<Rightarrow> 0
                   | ArgvInt32 \<Rightarrow> code globals (Some (argc, argv))
                   | ArgvVoid \<Rightarrow> 0), reg)))"

text \<open>\<open>runManagedProgram\<close> from the start of the threads to their end.  \<open>execute\<close> is the call of \<open>invoke\<close>, during which the managed
  code changes the state of the process; \<open>rt\<close> is the runtime state before.\<close>

definition runManagedProgram ::
  "('e, 'm) services \<Rightarrow> runtime \<Rightarrow> ('m \<Rightarrow> EntryPoint \<Rightarrow> string \<Rightarrow> string list \<Rightarrow> process \<Rightarrow> ('x + 32 word) \<times> process) \<Rightarrow>
     Options \<Rightarrow> 'e program_error + ('x + 32 word) \<times> process" where
  "runManagedProgram sv rt execute options =
     bindE (prepareProgram sv options) (\<lambda>(m, entry, reg).
       let p = startMutator reg (startRuntime (opt_heapSizeBytes options) rt);
           (result, p) = execute m entry (opt_inputPath options) (opt_programArgs options) p;
           p = clearRuntimeThreads (stopMutator p)
       in Inr (result, p))"

text \<open>The exit code of \<open>main\<close>: of the help text, of an error, or of the program.\<close>

definition mainExitCode :: "cli_error + Options \<Rightarrow> (Options \<Rightarrow> 'e + 32 word) \<Rightarrow> 32 word" where
  "mainExitCode options run =
     (case options of
        Inl e \<Rightarrow> 1
      | Inr options \<Rightarrow>
          if opt_showHelp options then 0
          else case run options of Inl e \<Rightarrow> 1 | Inr exitCode \<Rightarrow> exitCode)"

section \<open>The calls of the managed code\<close>

text \<open>The two calls that reach a safepoint; \<open>scan\<close> is the result of the scan of the stack.\<close>

definition getInstalledGCStackMapRegistry :: "process \<Rightarrow> GCStackMapRegistry option" where
  "getInstalledGCStackMapRegistry p = pr_registry p"

definition reachSafepoint :: "(gc_error + GCRootScanSummary) \<Rightarrow> process \<Rightarrow> safepoint \<times> process" where
  "reachSafepoint scan p =
     (case handlePendingRuntimeGCSafepoint (pr_isMutator p) (getInstalledGCStackMapRegistry p \<noteq> None) scan (pr_threadsInstalled p)
         (rt_gc (ts_runtime (pr_threads p))) of
        (s, g) \<Rightarrow> (s, updGC (\<lambda>_. g) p))"

definition mvm_request_gc :: "(gc_error + GCRootScanSummary) \<Rightarrow> process \<Rightarrow> safepoint \<times> process" where
  "mvm_request_gc scan p =
     (let p = updGC requestGC p
      in if pr_isMutator p \<and> getInstalledGCStackMapRegistry p \<noteq> None then reachSafepoint scan p else (SafepointSkipped, p))"

definition mvm_gc_safepoint_poll :: "(gc_error + GCRootScanSummary) \<Rightarrow> process \<Rightarrow> safepoint \<times> process" where
  "mvm_gc_safepoint_poll scan p =
     (if \<not> isGCRequested (rt_gc (ts_runtime (pr_threads p))) then (SafepointSkipped, p) else reachSafepoint scan p)"

end
