(* ===== verification/Program_Properties.thy ===== *)
theory Program_Properties
  imports Program_Entry GC_Pass_Properties Thread_Safety Command_Line_Properties Heap_Examples
begin

text \<open>
  The properties that span the way from the command line to the managed program.
\<close>

section \<open>The verifier and the passes\<close>

text \<open>C35. The GC passes that come before LLVM's rewriting keep what the managed verifier has accepted: the verifier accepts
  the module with the poll declared and its calls inserted when it accepted the module before.\<close>

theorem polls_keep_the_verdict:
  assumes "verify vv stage (gm_functions M) = None" "wellNumbered (gm_functions M)" "plainFunctions vv"
    and "prepareManagedGCModule hasLoops M = Some M1"
  shows "verify vv stage' (gm_functions (insertManagedSafepointPolls loopsOf pointerOrder M1)) = None"
proof -
  have m: "vv_hasCompileUnits vv" "vv_moduleInlineAsm vv = []" "list_all (functionAccepted vv (gm_functions M)) (gm_functions M)"
    using assms(1) by (simp_all add: verify_none)
  have "wellNumbered (gm_functions M1)" "list_all (functionAccepted vv (gm_functions M1)) (gm_functions M1)"
    using prepared_accepted [OF assms(4,2,3) m(3)] by blast+
  then show ?thesis using polls_accepted [OF _ assms(3)] m(1,2) by (simp add: verify_none)
qed

text \<open>A \<open>main\<close> that allocates an object.\<close>

definition verifiedModule :: gc_module where
  "verifiedModule = \<lparr>gm_functions =
       [\<lparr>fn_id = 0, fn_name = ''__mvm_malloc'', fn_isDeclaration = True, fn_hasAddressTaken = False, fn_isVarArg = False,
          fn_params = [], fn_returnsPointer = True, fn_blocks = []\<rparr>,
        \<lparr>fn_id = 1, fn_name = ''main'', fn_isDeclaration = False, fn_hasAddressTaken = False, fn_isVarArg = False,
          fn_params = [], fn_returnsPointer = False,
          fn_blocks = [[\<lparr>in_id = 0, in_isPointer = True, in_op = OCall (VFunc 0) []\<rparr>, \<lparr>in_id = 1, in_isPointer = False, in_op = ORet None\<rparr>]]\<rparr>],
     gm_attributes = \<lparr>as_gcLeaf = {}, as_gc = Map.empty, as_framePointerAll = {}, as_noInline = {}\<rparr>,
     gm_moduleMetadata = None, gm_functionMetadata = None\<rparr>"

definition debugView :: verifier_view where
  "debugView = \<lparr>vv_hasCompileUnits = True, vv_moduleInlineAsm = [], vv_hasSubprogram = (\<lambda>g. True), vv_cast = (\<lambda>g i. None),
     vv_isInlineAsm = (\<lambda>v. False), vv_strip = id\<rparr>"

theorem polls_keep_the_verdict_witness:
  "\<exists>M1. prepareManagedGCModule (\<lambda>f. False) verifiedModule = Some M1 \<and>
     verify debugView ''post-pass'' (gm_functions (insertManagedSafepointPolls (\<lambda>g. []) (\<lambda>s. []) M1)) = None"
proof -
  have ok: "verify debugView ''load'' (gm_functions verifiedModule) = None" by code_simp
  have wn: "wellNumbered (gm_functions verifiedModule)"
    by (simp add: wellNumbered_def verifiedModule_def instructionsOf_def)
  have plain: "plainFunctions debugView" by (simp add: plainFunctions_def debugView_def)
  obtain M1 where M1: "prepareManagedGCModule (\<lambda>f. False) verifiedModule = Some M1" using prepare_ends by blast
  from polls_keep_the_verdict [OF ok wn plain M1] M1 show ?thesis by blast
qed

section \<open>Entry points\<close>

text \<open>What an entry is, apart from how it is searched for: the types of the four kinds, and the name that is
  taken - the requested one, or the first of the three default names that some function of the module
  has, defined or only declared.\<close>

fun entryType :: "EntrySignature \<Rightarrow> ety \<times> ety list" where
  "entryType NoArgsInt32 = (EInt 32, [])"
| "entryType NoArgsVoid = (EVoid, [])"
| "entryType ArgvInt32 = (EInt 32, [EInt 32, EPtr])"
| "entryType ArgvVoid = (EVoid, [EInt 32, EPtr])"

definition entryName :: "ir_module \<Rightarrow> string \<Rightarrow> string \<Rightarrow> bool" where
  "entryName m requestedSymbol name \<longleftrightarrow>
     (let names = fn_name ` set m in
      if requestedSymbol \<noteq> [] then name = requestedSymbol
      else name = ''__mvm_main__'' \<or>
        name = ''__lona_main__'' \<and> ''__mvm_main__'' \<notin> names \<or>
        name = ''main'' \<and> ''__mvm_main__'' \<notin> names \<and> ''__lona_main__'' \<notin> names)"

lemma getFunction_iff:
  assumes "distinct (map fn_name m)"
  shows "getFunction m name = Some f \<longleftrightarrow> f \<in> set m \<and> fn_name f = name"
    and "getFunction m name = None \<longleftrightarrow> name \<notin> fn_name ` set m"
proof -
  show "getFunction m name = Some f \<longleftrightarrow> f \<in> set m \<and> fn_name f = name"
    using find_distinct [OF assms, of f] by (auto simp: getFunction_def find_Some_iff)
  show "getFunction m name = None \<longleftrightarrow> name \<notin> fn_name ` set m"
    by (auto simp: getFunction_def find_None_iff)
qed

lemma classifyEntryPoint_iff:
  "classifyEntryPoint typeOf f = Inr e \<longleftrightarrow>
     ep_symbol e = fn_name f \<and> \<not> fn_isVarArg f \<and> typeOf (fn_id f) = entryType (ep_signature e)"
proof -
  obtain returnType params where t: "typeOf (fn_id f) = (returnType, params)" by (metis surj_pair)
  have two: "params = [EInt 32, EPtr]" if "length params = 2" "params ! 0 = EInt 32" "params ! Suc 0 = EPtr"
    using that by (auto simp: length_Suc_conv numeral_2_eq_2)
  show ?thesis
    by (cases e; cases "ep_signature e") (auto simp: classifyEntryPoint_def t Let_def intro: two)
qed

text \<open>The module has a function of that name, with the type of that kind of entry and no variable arguments.\<close>

definition isEntry :: "(nat \<Rightarrow> ety \<times> ety list) \<Rightarrow> ir_module \<Rightarrow> EntryPoint \<Rightarrow> bool" where
  "isEntry typeOf m e \<longleftrightarrow>
     (\<exists>f \<in> set m. fn_name f = ep_symbol e \<and> \<not> fn_isVarArg f \<and> typeOf (fn_id f) = entryType (ep_signature e))"

lemma candidate_iff:
  assumes "distinct (map fn_name m)"
  shows "(case getFunction m name of None \<Rightarrow> other | Some f \<Rightarrow> classifyEntryPoint typeOf f) = Inr e \<longleftrightarrow>
    (if name \<in> fn_name ` set m then ep_symbol e = name \<and> isEntry typeOf m e else other = Inr e)"
proof (cases "getFunction m name")
  case None
  then show ?thesis using iffD1 [OF getFunction_iff(2) [OF assms] None] by simp
next
  case (Some f)
  then have f: "f \<in> set m" "fn_name f = name" using getFunction_iff(1) [OF assms] by simp_all
  have same: "g = f" if "g \<in> set m" "fn_name g = name" for g
    using that Some getFunction_iff(1) [OF assms, of name g] by simp
  have "ep_symbol e = name \<and> isEntry typeOf m e \<longleftrightarrow> classifyEntryPoint typeOf f = Inr e"
    unfolding classifyEntryPoint_iff isEntry_def using f same by metis
  moreover have "name \<in> fn_name ` set m" using f by blast
  ultimately show ?thesis using Some by simp
qed

text \<open>C37. The search for the entry succeeds exactly when the function of the name that is taken has no variable
  arguments and one of the four types of an entry, and its answer is that name with the kind of that
  type.  Whether the function has a body is not asked: a mere declaration of \<open>__lona_main__\<close> is taken
  although \<open>main\<close> is defined.\<close>

theorem entry_point_exact:
  assumes "distinct (map fn_name m)"
  shows "resolveEntryPoint typeOf m requestedSymbol = Inr e \<longleftrightarrow>
    entryName m requestedSymbol (ep_symbol e) \<and> isEntry typeOf m e"
proof -
  let ?E = "isEntry typeOf m e"
  note one = candidate_iff [OF assms, where typeOf = typeOf]
  have named: "?E \<Longrightarrow> ep_symbol e \<in> fn_name ` set m" unfolding isEntry_def by (metis imageI)
  show ?thesis
  proof (cases "requestedSymbol = []")
    case True
    let ?N = "fn_name ` set m"
    have default: "resolveEntryPoint typeOf m requestedSymbol = firstCandidate typeOf m [''__mvm_main__'', ''__lona_main__'', ''main'']"
      by (simp only: resolveEntryPoint_def True simp_thms if_False)
    have "resolveEntryPoint typeOf m requestedSymbol = Inr e \<longleftrightarrow>
        (if ''__mvm_main__'' \<in> ?N then ep_symbol e = ''__mvm_main__'' \<and> ?E
         else if ''__lona_main__'' \<in> ?N then ep_symbol e = ''__lona_main__'' \<and> ?E
         else if ''main'' \<in> ?N then ep_symbol e = ''main'' \<and> ?E else False)"
      unfolding default firstCandidate.simps one by simp
    moreover have "entryName m requestedSymbol (ep_symbol e) \<longleftrightarrow> ep_symbol e = ''__mvm_main__'' \<or>
        ep_symbol e = ''__lona_main__'' \<and> ''__mvm_main__'' \<notin> ?N \<or>
        ep_symbol e = ''main'' \<and> ''__mvm_main__'' \<notin> ?N \<and> ''__lona_main__'' \<notin> ?N"
      unfolding entryName_def Let_def True by simp
    ultimately show ?thesis using named by metis
  next
    case False
    then have "resolveEntryPoint typeOf m requestedSymbol =
        (case getFunction m requestedSymbol of None \<Rightarrow> Inl (EntryNotFound requestedSymbol) | Some f \<Rightarrow> classifyEntryPoint typeOf f)"
      by (simp only: resolveEntryPoint_def simp_thms if_True)
    then have "resolveEntryPoint typeOf m requestedSymbol = Inr e \<longleftrightarrow>
        (if requestedSymbol \<in> fn_name ` set m then ep_symbol e = requestedSymbol \<and> ?E else False)"
      by (simp only: one sum.distinct)
    moreover have "entryName m requestedSymbol (ep_symbol e) \<longleftrightarrow> ep_symbol e = requestedSymbol"
      unfolding entryName_def Let_def using False by simp
    ultimately show ?thesis using named by metis
  qed
qed

text \<open>A module that declares \<open>__lona_main__\<close> and defines \<open>main\<close>.\<close>

definition shadowedModule :: ir_module where
  "shadowedModule =
     [\<lparr>fn_id = 0, fn_name = ''__lona_main__'', fn_isDeclaration = True, fn_hasAddressTaken = False, fn_isVarArg = False,
        fn_params = [], fn_returnsPointer = False, fn_blocks = []\<rparr>,
      \<lparr>fn_id = 1, fn_name = ''main'', fn_isDeclaration = False, fn_hasAddressTaken = False, fn_isVarArg = False,
        fn_params = [], fn_returnsPointer = False, fn_blocks = [[\<lparr>in_id = 0, in_isPointer = False, in_op = ORet None\<rparr>]]\<rparr>]"

theorem entry_point_exact_witness:
  "resolveEntryPoint (\<lambda>g. (EVoid, [])) shadowedModule [] = Inr \<lparr>ep_symbol = ''__lona_main__'', ep_signature = NoArgsVoid\<rparr>"
proof -
  have "distinct (map fn_name shadowedModule)" by (simp add: shadowedModule_def)
  then show ?thesis by (subst entry_point_exact) (auto simp: entryName_def isEntry_def shadowedModule_def)
qed

section \<open>The whole program\<close>

lemma map_sum_Inr: "map_sum h id r = Inr x \<longleftrightarrow> r = Inr x"
  by (cases r) simp_all

lemma map_sum_Inl: "map_sum h id r = Inl y \<longleftrightarrow> (\<exists>x. r = Inl x \<and> y = h x)"
  by (cases r) auto

lemma failsWith_Inr: "failsWith r = Inr u \<longleftrightarrow> r = None"
  by (cases r) (simp_all add: failsWith_def)

lemma addModule_Inr:
  "addModule sv m reg = Inr reg' \<longleftrightarrow> sv_addModule sv m = None \<and> reg' = recordManagedFunctionOrder (sv_functionOrder sv m) reg"
  by (auto simp: addModule_def Let_def split: option.splits)

lemma addModule_level: "addModule sv m reg \<noteq> Inl (LevelError e)"
  by (simp add: addModule_def Let_def split: option.splits)

lemma verifyBoth_Inr:
  "verifyBoth sv stage m = Inr u \<longleftrightarrow> sv_verifyLLVM sv m = None \<and> verify (fst (sv_view sv m)) stage (fst (snd (sv_view sv m))) = None"
  by (auto simp: verifyBoth_def split: option.splits prod.splits)

text \<open>C36. Only verified code runs: when a program is prepared without an error, its module was
  accepted by both verifiers as it was loaded and as it was after all passes, the passes ran at a supported level,
  the entry is one of the module that was handed to the JIT, and the registry of stackmaps has the order of its functions.\<close>

theorem only_verified_code_runs:
  assumes "prepareProgram sv options = Inr (m, entry, reg)"
  shows "\<exists>level loaded. toOptimizationLevel (opt_optLevel options) = Inr level \<and> sv_load sv (opt_inputPath options) = Inr loaded \<and>
    runStages (sv_stage sv) (pipelineStages level) (sv_setTarget sv loaded) = Inr m \<and>
    sv_verifyLLVM sv (sv_setTarget sv loaded) = None \<and> sv_verifyLLVM sv m = None \<and>
    verify (fst (sv_view sv (sv_setTarget sv loaded))) ''load'' (fst (snd (sv_view sv (sv_setTarget sv loaded)))) = None \<and>
    verify (fst (sv_view sv m)) ''post-pass'' (fst (snd (sv_view sv m))) = None \<and>
    resolveEntryPoint (snd (snd (sv_view sv m))) (fst (snd (sv_view sv m))) (opt_entrySymbol options) = Inr entry \<and>
    reg = recordManagedFunctionOrder (sv_functionOrder sv m) emptyRegistry"
  using assms
  by (auto simp: prepareProgram_def bindE_eq_Inr map_sum_Inr failsWith_Inr verifyBoth_Inr addModule_Inr runPipeline_def
      prepareModuleForExecution_def case_prod_beta split: if_splits)

text \<open>Services over modules of the IR: nothing fails, and no pass changes anything.\<close>

definition idleServices :: "(string, ir_module) services" where
  "idleServices = \<lparr>sv_createExecutor = None, sv_load = (\<lambda>path. Inr (gm_functions verifiedModule)), sv_targetTriple = (\<lambda>m. []),
     sv_archOf = length, sv_hostTriple = ''x86_64'', sv_setTarget = id, sv_verifyLLVM = (\<lambda>m. None),
     sv_view = (\<lambda>m. (debugView, m, \<lambda>g. (EVoid, []))), sv_stage = (\<lambda>s m. Inr m), sv_addModule = (\<lambda>m. None), sv_functionOrder = (\<lambda>m. None)\<rparr>"

lemma idle_program: "prepareProgram idleServices defaultOptions =
    Inr (gm_functions verifiedModule, \<lparr>ep_symbol = ''main'', ep_signature = NoArgsVoid\<rparr>,
      recordManagedFunctionOrder None emptyRegistry)"
  by code_simp

theorem only_verified_code_runs_witness:
  "verify debugView ''post-pass'' (gm_functions verifiedModule) = None"
  using only_verified_code_runs [OF idle_program] by (auto simp: idleServices_def)

text \<open>A level that the command line accepts is one the pipeline accepts: no program fails with the error of a level.\<close>

lemma toOptimizationLevel_accepts: "n \<in> {1, 2, 3} \<Longrightarrow> \<exists>level. toOptimizationLevel n = Inr level"
  by (auto simp: toOptimizationLevel_def)

lemma other_steps_accept_levels:
  "failsWith r \<noteq> Inl (LevelError e)" "verifyBoth sv stage m \<noteq> Inl (LevelError e)" "prepareModuleForExecution sv m \<noteq> Inl (LevelError e)"
  by (auto simp: failsWith_def verifyBoth_def prepareModuleForExecution_def split: option.splits prod.splits)

lemma runPipeline_level:
  "toOptimizationLevel optLevel = Inr level \<Longrightarrow> runPipeline perform optLevel m \<noteq> Inl (Inl e)"
  by (auto simp: runPipeline_def map_sum_Inl)

lemma levelOrService_level: "LevelError e = levelOrService x \<longleftrightarrow> x = Inl e"
  by (cases x) (auto simp: levelOrService_def)

theorem accepted_levels_are_supported:
  assumes "parseCommandLine argv = Inr options"
  shows "prepareProgram sv options \<noteq> Inl (LevelError e)"
proof
  assume "prepareProgram sv options = Inl (LevelError e)"
  moreover have "wfOptions options"
    using parseArgs_wf [OF assms [unfolded parseCommandLine_def]] by (simp add: wfOptions_def defaultOptions_def)
  then obtain level where "toOptimizationLevel (opt_optLevel options) = Inr level"
    using toOptimizationLevel_accepts unfolding wfOptions_def by blast
  ultimately show False
    by (auto simp: prepareProgram_def addModule_level other_steps_accept_levels levelOrService_level map_sum_Inl bindE_eq_Inl runPipeline_level)
qed

section \<open>The start of the runtime\<close>

text \<open>C38. The start of a program is a start of the protocol between mutator and VM thread: after what \<open>runManagedProgram\<close> and the
  new thread do before the entry is called, the heap is as it was, no collection is requested, the accounting begins at 0 with
  the limit of the command line, and the state is one the protocol reaches; in every state reached from it
  the invariant of the protocol holds, and a request of the program itself parks it with the roots that were scanned.\<close>

theorem program_start_joins_the_protocol:
  assumes "runInv rt xs"
  shows "\<exists>rt'. runInv rt' xs \<and> rt_heap rt' = rt_heap rt \<and> \<not> gcRequested (rt_gc rt') \<and> gcTrackedHeapBytes (rt_gc rt') = 0 \<and>
    gcHeapLimitBytes (rt_gc rt') = heapSizeBytes \<and> ts_runtime (pr_threads (startMutator reg (startRuntime heapSizeBytes rt))) = rt' \<and>
    threadReach {0} (initialThreads rt') (pr_threads (startMutator reg (startRuntime heapSizeBytes rt))) \<and>
    (\<forall>t. threadReach {0} (pr_threads (startMutator reg (startRuntime heapSizeBytes rt))) t \<longrightarrow> oneMutator t) \<and>
    fst (mvm_request_gc (Inr summary) (startMutator reg (startRuntime heapSizeBytes rt))) = SafepointPark summary"
proof -
  let ?p = "startMutator reg (startRuntime heapSizeBytes rt)"
  define rt' where "rt' = rt\<lparr>rt_gc := \<lparr>gcRequested = False, gcTrackedHeapBytes = 0, gcHeapLimitBytes = heapSizeBytes,
    gcNotifications = gcNotifications (rt_gc rt)\<rparr>, rt_lastCollectionStats := emptyCollectionStats\<rparr>"
  have inv: "runInv rt' xs" using assms by (simp add: soundRuntime_def rt'_def)
  have start: "pr_threads ?p = setMutator 0 Running (markMutatorStarted (initialThreads rt'))"
    by (simp add: startMutator_def startRuntime_def Let_def updGC_def updRuntime_def installRuntimeThreads_def installGCStackMapRegistry_def
        registerMutatorThread_def clearLastRootScanSummary_def recordLastRootScanSummary_def clearLastGCCollectionStats_def
        clearGCRequest_def resetManagedHeapUsage_def updateManagedHeapUsage_def configureManagedHeapLimit_def setMutator_def
        markMutatorStarted_def initialThreads_def rt'_def)
  have step: "threadStep {0} (initialThreads rt') (pr_threads ?p)"
    unfolding start by (rule m_start) (simp_all add: initialThreads_def)
  then have reach: "threadReach {0} (initialThreads rt') (pr_threads ?p)" by (simp add: threadReach_def)
  have quiet: "\<not> gcRequested (rt_gc rt')" by (simp add: rt'_def)
  have "oneMutator t" if "threadReach {0} (pr_threads ?p) t" for t
  proof -
    have "threadReach {0} (initialThreads rt') t"
      using reach that unfolding threadReach_def by (rule rtranclp_trans)
    then show ?thesis using inv quiet by (rule oneMutator_reach)
  qed
  moreover have "fst (mvm_request_gc (Inr summary) ?p) = SafepointPark summary"
    by (simp add: mvm_request_gc_def reachSafepoint_def Let_def updGC_def updRuntime_def startMutator_def startRuntime_def
        installRuntimeThreads_def installGCStackMapRegistry_def registerMutatorThread_def clearLastRootScanSummary_def
        recordLastRootScanSummary_def getInstalledGCStackMapRegistry_def handlePendingRuntimeGCSafepoint_def
        rememberCurrentRuntimeSafepointOrFatal_def isGCRequested_def requestGC_def case_prod_beta)
  ultimately show ?thesis
    using inv reach by (intro exI [of _ rt']) (simp add: start, simp add: rt'_def setMutator_def markMutatorStarted_def initialThreads_def)
qed

theorem program_start_joins_the_protocol_witness:
  "gcHeapLimitBytes (rt_gc (ts_runtime (pr_threads (startMutator emptyRegistry (startRuntime 65536 objectRuntime))))) = 65536"
  using program_start_joins_the_protocol [OF objectRuntime_inv, of 65536 emptyRegistry] by blast

end
