(* ===== verification/Spec2Isabelle.thy ===== *)
theory Spec2Isabelle
  imports Core_Properties Heap_Properties Thread_Properties Root_Properties Command_Line_Properties Managed_State_Properties GC_Pass_Properties Managed_Dispatch_Properties Heap_Layout_Properties Bounds_Properties Lowering_Properties GC_Metadata_Properties Program_Properties
begin

text \<open>
  Verification of lona-MVM, the managed virtual machine of the Lona language.  The program is a command that loads one
  LLVM bitcode module, checks it, runs passes over it that make its allocations and pointers known to a garbage
  collector, compiles it with ORC LLJIT and runs its entry on a mutator thread, while a VM thread collects.

  \<^bold>\<open>Parts and theories.\<close>  All paths are under \<open>src/src/\<close>; a definition has the name of the function it models, records and
  datatypes have the fields and constructors of the C++ types (with a prefix for the type).

  \<^item> Shared: \<open>Prelude\<close> (results of operations that may abort, words, maps), \<open>Intrusive_List\<close>, \<open>Tracing\<close> and \<open>Iteration\<close> (the
    contracts, below), \<open>LLVM_IR\<close> (the part of a module the passes read).
  \<^item> The managed heap, \<open>mvm/runtime_memory.cc\<close>: \<open>Machine_Arith\<close> (checked arithmetic, rounding), \<open>Heap_Model\<close> (records,
    registry, slab and system allocation, page tables, owner lookup, reclaiming), \<open>Collector\<close> (mark, sweep, statistics, the entry
    points \<open>__mvm_malloc_typed\<close> and so on).  The state \<open>heap\<close> has a store from addresses to each record type and the globals of
    the file.  \<open>Heap_Inv\<close> is its invariant \<open>soundHeap clean\<close>, for the list of active allocations; with \<open>clean\<close> it is
    \<open>heapInv\<close> and also says that slots that were never given out do not read as live headers, without it their
    contents are arbitrary.  \<open>Heap_Lists\<close>, \<open>Heap_Geometry\<close>,
    \<open>Heap_Tables\<close>, \<open>Heap_System\<close>, \<open>Heap_Alloc\<close>, \<open>Heap_Room\<close>, \<open>Heap_Slots\<close>, \<open>Heap_Pages\<close>, \<open>Heap_Release\<close> and \<open>Heap_Allocate\<close>
    show that every operation keeps it and never takes an abort branch; \<open>Marking\<close> and \<open>Sweep\<close> show that a
    collection returns and keeps exactly what is reachable; \<open>Runtime_Heap\<close> states this of whole calls and of every
    sequence of them.  Properties: \<open>Heap_Properties\<close>, \<open>Core_Properties\<close>; concrete runtimes: \<open>Heap_Examples\<close>.
  \<^item> Collection trigger and accounting, \<open>mvm/gc.cc\<close>: \<open>GC_Trigger\<close>.
  \<^item> Threads, \<open>mvm/runtime_threads.cc\<close>: \<open>Runtime_Threads\<close> has the state shared under the mutex and a step relation with a
    step per critical section, so every interleaving of mutators and VM thread is a sequence of steps; \<open>Thread_Safety\<close> has the
    invariants of its reachable states, \<open>Thread_Properties\<close> the properties.
  \<^item> Stackmaps and roots, \<open>mvm/gc.cc\<close>: \<open>Root_Scan\<close> (decoding of locations, lookup of records, walk over the frames),
    \<open>Stackmap_Registry\<close> (registration of a loaded object), \<open>Root_Facts\<close>, \<open>Root_Properties\<close>.
  \<^item> GC passes, \<open>mvm/gc.cc\<close>: \<open>GC_Leaf\<close> (functions without safepoints), \<open>GC_Polls\<close> (polls), \<open>GC_Metadata\<close> (statepoint
    metadata, order of the passes), with \<open>GC_Poll_Facts\<close>, \<open>GC_Pass_Properties\<close> and \<open>GC_Metadata_Properties\<close>.
  \<^item> Managed state analysis, \<open>mvm/managed_state.cc\<close>: \<open>Managed_State\<close>, a fixed point over maps from values to four bits;
    \<open>Managed_Flow\<close> is its specification, the flow of pointers through values, calls, slots and memory reached through
    the same pointer, which does not mention the algorithm; \<open>Managed_State_Facts\<close>, \<open>Managed_Fixpoint\<close>,
    \<open>Managed_State_Properties\<close>.
  \<^item> Specialisation, \<open>mvm/managed_dispatch.cc\<close>: \<open>Managed_Dispatch\<close>, \<open>Dispatch_Loop\<close>, \<open>Managed_Dispatch_Properties\<close>.
  \<^item> Descriptors of allocations, \<open>mvm/heap_layout.cc\<close>: \<open>Heap_Layout\<close>, \<open>Heap_Layout_Facts\<close>, \<open>Heap_Layout_Calls\<close>,
    \<open>Heap_Layout_Properties\<close>.
  \<^item> Pointers in address space 1, \<open>mvm/managed_pointer_lowering.cc\<close>: \<open>Pointer_Lowering\<close>, \<open>Lowering_Facts\<close>, \<open>Lowering_Order\<close>,
    \<open>Lowering_Properties\<close>.
  \<^item> Bounds checks, \<open>mvm/bounds_instrumentation.cc\<close>: \<open>Bounds_Checks\<close>, \<open>Bounds_Properties\<close>.
  \<^item> Command line, \<open>mvm/cli.cc\<close>: \<open>Command_Line\<close>, \<open>Command_Line_Properties\<close>.
  \<^item> Verifier, \<open>mvm/verifier.cc\<close>: \<open>Managed_Verifier\<close>.
  \<^item> The program, \<open>mvm/pipeline.cc\<close>, \<open>mvm/jit.cc\<close>, \<open>mvm/runtime.cc\<close>, \<open>main.cc\<close>: \<open>Program_Entry\<close>, \<open>Program_Properties\<close>.

  \<^bold>\<open>How they interact.\<close>  The descriptors that \<open>Heap_Layout\<close> makes are those \<open>Collector\<close> reads when it scans an object
  (\<open>descriptors_trace_exactly\<close>).  The kinds that \<open>Managed_State\<close> computes drive \<open>Managed_Dispatch\<close> and \<open>Pointer_Lowering\<close>.
  The order of functions that \<open>GC_Metadata\<close> writes is what \<open>Stackmap_Registry\<close> names functions by
  (\<open>metadata_order_finds_functions\<close>).  An allocation may request a collection (\<open>GC_Trigger\<close>), the mutator sees the request
  at its next poll, scans its stack (\<open>Root_Scan\<close>), parks (\<open>Runtime_Threads\<close>), and the VM thread collects with its roots
  (\<open>Collector\<close>); this theory has the properties that join scan and collection.  \<open>Program_Entry\<close> has the order in which all
  of it is started (\<open>only_verified_code_runs\<close>, \<open>program_start_joins_the_protocol\<close>).

  \<^bold>\<open>Interfaces.\<close>  \<open>intrusive_list\<close> is what a linked list through records promises, interpreted for the active allocations and for
  the pages with room; \<open>tracing\<close> is a mark phase over any owner lookup, interpreted for the heap; \<open>managed_heap\<close> is what the
  threads need of a heap, interpreted for the runtime; \<open>inflationary\<close> is a loop \<open>do { changed = step(); } while (changed)\<close> whose
  steps only add facts from a finite set, interpreted for the leaf inference and for the managed state analysis.

  \<^bold>\<open>What the lemmas show.\<close>  A heap operation keeps the invariant and has its documented result on every branch; a collection is
  a refinement of reachability; the thread protocol is a state machine whose invariants hold in every reachable state; the
  passes end (or, for the specialisation, may not), have the effect their consumers rely on, and change nothing else; parsers and searches
  (\<open>parseRootPairs\<close>, \<open>resolveEntryPoint\<close>, \<open>registerObject\<close>, the command line) are exact or read back what is written.  Theorems
  whose names say that something is lost, missed, narrow, shifted or does not end show where the code does not do what it
  means to.  What a property promises is written with definitions of its own, apart from the algorithm: \<open>heapReach\<close>, \<open>staleOwner\<close>,
  \<open>sectionPoints\<close>, \<open>locationMeans\<close>, \<open>mayBe\<close>, \<open>callsDirectly\<close>, \<open>pointerAt\<close>, \<open>standsFor\<close>, \<open>indexesArray\<close>, \<open>entryName\<close>.

  \<^bold>\<open>Assumptions.\<close>  These are hypotheses or parameters where they are used.  \<open>malloc\<close> and \<open>new\<close> return null or a fresh aligned
  block that does not wrap around the address space; the keys \<open>llvm::DenseMap\<close> reserves are at least \<open>2 ^ 52\<close>, as those for 64-bit
  keys are.  The theorems on allocations, on the owner lookup and on sequences of calls (\<open>soundHeap False\<close>, \<open>allocEnv False\<close>) assume
  nothing of the contents of fresh memory; \<open>find_owner_exact\<close> says what the lookup answers when such memory reads as a live
  header, which \<open>malloc\<close> allows and the code does not prevent (\<open>unused_slot_can_be_found\<close>), and a collection in such a sequence must
  not follow a pointer to such a header (\<open>noStaleRefs\<close>).  The theorems on a single collection, the scan and the threads are stated for
  memory that does not read as live headers (\<open>heapInv\<close>, \<open>runInv\<close>).  Of LLVM the following are parameters: types and data layout,
  \<open>stripPointerCasts\<close>, use lists, dominator trees, loops and latches, names after \<open>setName\<close>, intrinsic identifiers, operand bundles,
  the stackmap parser and object files, sorting of symbols, the iteration order of pointer sets,
  \<open>RewriteStatepointsForGC\<close>, the optimisation pipeline and \<open>verifyModule\<close>.  Memory reads of the collector
  and of the scan go through a function from addresses to words.

  \<^bold>\<open>Bounds.\<close>  The walk over frames is limited to 256 callers, the search for a first frame to 8 probes and the lookup of a record to
  4096 bytes, as in the code, and the limits are part of the statements.  Loops that need not end (lists through records, the
  analysis, the leaf inference, the specialisation) are partial functions with the result \<open>None\<close>; their termination is proved, or
  refuted for \<open>specializeManagedDispatch\<close>.  No fuel is used.  Machine integers are words of their width; the step
  counts of the threads are below \<open>2 ^ 64\<close> where the epoch counter must not wrap.

  \<^bold>\<open>Not modelled.\<close>  \<open>mvm/bitcode.cc\<close> and \<open>mvm/error.cc\<close> (reading a file, texts of errors: an error is a value of a datatype), the
  set-up of LLJIT and the machine code it makes, printing (usage, \<open>--dump-ir\<close>, debug output of the collector), names, debug
  locations, linkage and attributes of rewritten instructions, with their metadata, operand bundles and atomic orderings
  (the lowering loses these; see its findings), and \<open>ensureAllocationRegistryStorage\<close>, which only reserves
  capacity.  The passes have views of a module that fit what each reads; the pipeline as a whole takes them as a parameter.
  The memory model of C++ is not modelled: a critical section is one step, and the two atomic variables are read and written
  inside the steps.
\<close>

section \<open>The scan of the stack and the collection\<close>

lemma collection_keeps_owner:
  assumes "runInv rt xs" "v \<in> set roots" "v \<noteq> 0" "findOwningAllocation (rt_heap rt) v = Some h"
  obtains rt' stats ys where "collectManagedHeap rd roots rt = Some (Inr (rt', stats))" "runInv rt' ys" "h \<in> set ys"
    "findOwningAllocation (rt_heap rt') v = Some h"
proof -
  have inv: "heapInv (rt_heap rt) xs" "\<forall>h \<in> set xs. \<not> ah_marked (hdrs (rt_heap rt) h)"
    using assms(1) by (simp_all add: soundRuntime_def)
  let ?ys = "filter (heapReach rd (rt_heap rt) roots) xs"
  obtain rt' stats where c: "collectManagedHeap rd roots rt = Some (Inr (rt', stats))" "heapInv (rt_heap rt') ?ys"
    "\<And>h. h \<in> set ?ys \<Longrightarrow> hdrCore (hdrs (rt_heap rt') h) = hdrCore (hdrs (rt_heap rt) h)"
    by (rule collect_sweeps [OF inv noStaleRefs_clean [OF inv(1)], of rd roots]) blast
  have h: "h \<in> set xs" "inPayload (rt_heap rt) v h" using assms(4) findOwning_iff [OF inv(1)] by blast+
  have "heapReach rd (rt_heap rt) roots h" unfolding heapReach_def using assms(2-4) by (rule reach.root)
  then have ys: "h \<in> set ?ys" using h by simp
  have "ah_payloadSize (hdrs (rt_heap rt') h) = ah_payloadSize (hdrs (rt_heap rt) h)"
    using hdrCore_fields [OF c(3) [OF ys]] by simp
  then have "inPayload (rt_heap rt') v h"
    using h inPayload_iff [OF inv(1) h(1)] inPayload_iff [OF c(2) ys] by simp
  then have "findOwningAllocation (rt_heap rt') v = Some h" using findOwning_iff [OF c(2)] ys by blast
  moreover have "\<not> ah_marked (hdrs (rt_heap rt') h)" if "h \<in> set ?ys" for h
    using hdrCore_fields(8) [OF c(3) [OF that]] inv(2) that by simp
  ultimately show ?thesis using that [OF c(1) _ ys] c(2) by (simp add: soundRuntime_def)
qed

text \<open>C6. When a mutator is stopped at a statepoint below at most 256 managed frames and the scan of
  its stack succeeds, a collection with the scanned roots keeps every object that a location of one of
  these frames points into, and the pointer still leads to it.\<close>

theorem stack_roots_survive_collection:
  assumes "runInv rt xs" "frame \<noteq> 0" "statepointID \<noteq> 0" "List.find (\<lambda>r. sr_id r = statepointID) rs = Some rec"
    and "frameChain rd rs (rd_word rd frame) frames" "length frames \<le> 256"
    and "scanCurrentRuntimeSafepointFromFrame rd True (Some rs) frame statepointID = Inr summary"
    and "f \<in> set ((rec, frame + 16, rd_word rd frame) # frames)" "v \<in> set (frameRoots rd f)"
    and "findOwningAllocation (rt_heap rt) v = Some h"
  shows "\<exists>rt' stats ys. collectManagedHeap rd (rs_rootValues summary) rt = Some (Inr (rt', stats)) \<and>
    runInv rt' ys \<and> h \<in> set ys \<and> findOwningAllocation (rt_heap rt') v = Some h"
proof -
  let ?frames = "(rec, frame + 16, rd_word rd frame) # take 256 frames"
  have scan: "scanFrom rd rs rec (frame + 16) (rd_word rd frame) = Inr summary"
    using assms(2-4,7) by (simp add: scanCurrentRuntimeSafepointFromFrame_def scanCurrentSafepointByID_def)
  have "\<forall>f \<in> set ?frames. resolvableFrame f"
    using scanFrom_Inl [OF assms(5)] scan by (metis Inl_Inr_False)
  from scanFrom_ok [OF assms(5) this] have "summary = fold (addFrame rd) ?frames emptySummary" using scan by simp
  then have "rs_rootValues summary = rs_rootValues emptySummary @ concat (map (frameRoots rd) ?frames)"
    by (simp only: addFrames_rootValues)
  then have v: "v \<in> set (rs_rootValues summary)" using assms(6,8,9) by auto
  have "v \<noteq> 0" using assms(9) by (cases f) auto
  show ?thesis by (rule collection_keeps_owner [OF assms(1) v \<open>v \<noteq> 0\<close> assms(10), of rd]) blast
qed

definition slotRecord :: SafepointRecord where
  "slotRecord = exampleRecord\<lparr>sr_rootPairs := [\<lparr>rp_base = directRoot\<lparr>rl_kind := KIndirect\<rparr>,
     rp_derived = directRoot\<lparr>rl_kind := KIndirect\<rparr>\<rparr>]\<rparr>"

definition slotStack :: memory where
  "slotStack = plainMemory\<lparr>rd_word := (\<lambda>a. if a = 100016 then 1048656 else 0)\<rparr>"

theorem stack_roots_survive_collection_witness:
  "\<exists>rt' stats ys. collectManagedHeap slotStack [1048656, 1048656] objectRuntime = Some (Inr (rt', stats)) \<and>
    runInv rt' ys \<and> 1048576 \<in> set ys"
proof -
  have found: "List.find (\<lambda>r. sr_id r = 7) [slotRecord] = Some slotRecord" by (simp add: slotRecord_def exampleRecord_def)
  have word: "rd_word slotStack 100000 = 0" by (simp add: slotStack_def)
  have chain: "frameChain slotStack [slotRecord] (rd_word slotStack 100000) []" unfolding word by (rule bottom) simp
  have roots: "frameRoots slotStack (slotRecord, 100016, 0) = [1048656, 1048656]"
    by (simp add: slotRecord_def exampleRecord_def locationsOf_def directRoot_def rootValue_def registerValue_def slotStack_def)
  have scan: "\<exists>s. scanCurrentRuntimeSafepointFromFrame slotStack True (Some [slotRecord]) 100000 7 = Inr s \<and>
      rs_rootValues s = [1048656, 1048656]"
  proof -
    have "\<forall>f \<in> set ((slotRecord, 100016, rd_word slotStack 100000) # take 256 []). resolvableFrame f"
      by (simp add: resolvableFrame_def slotRecord_def exampleRecord_def locationsOf_def directRoot_def resolvable_def)
    from scanFrom_ok [OF chain this] show ?thesis
      using found by (simp add: scanCurrentRuntimeSafepointFromFrame_def scanCurrentSafepointByID_def word addFrame_def
          roots emptySummary_def del: frameRoots.simps)
  qed
  have owner: "findOwningAllocation (rt_heap objectRuntime) 1048656 = Some 1048576"
    using findOwning_payload_start [OF objectHeap_inv, of 1048576] by (simp add: payloadAddress_def sizeofAllocationHeader_def)
  obtain s where s: "scanCurrentRuntimeSafepointFromFrame slotStack True (Some [slotRecord]) 100000 7 = Inr s"
    "rs_rootValues s = [1048656, 1048656]"
    using scan by blast
  show ?thesis
    using stack_roots_survive_collection [OF objectRuntime_inv _ _ found chain _ s(1) _ _ owner, of "(slotRecord, 100016, 0)"]
      roots unfolding s(2) by (auto simp: word simp del: frameRoots.simps)
qed

end
